(* ===== verification/RT_Prelude.thy ===== *)
theory RT_Prelude
  imports Main "HOL-Library.Word" "HOL-Library.Monad_Syntax"
begin

text \<open>
  What every component shares: the machine types of the AVR target, the fault monad, the
  collections the component theories add their facts to, and the lists a circular walk over a
  run queue is described with.

  The code is compiled for an 8-bit AVR: \<open>int\<close> and \<open>size_t\<close> have 16 bits, a data or function
  pointer has 16 bits and NULL is 0. An undefined operation (a NULL or dangling pointer, an
  index outside an array, the release of memory that was never allocated) is the value \<open>None\<close>
  of the \<open>option\<close> monad, and so is a loop that never ends.
\<close>

unbundle bit_operations_syntax

section \<open>Machine types\<close>

type_synonym u8 = "8 word"
type_synonym u16 = "16 word"
type_synonym u32 = "32 word"

text \<open>Signed types have the same bits; \<open>sint\<close> reads them.\<close>

type_synonym s16 = "16 word"
type_synonym s32 = "32 word"

type_synonym addr = "16 word"

abbreviation NULL :: addr where "NULL \<equiv> 0"

section \<open>Collections\<close>

named_theorems rt_consts \<open>the numeric constants of rtthreads.h\<close>

section \<open>Words\<close>

lemma unat_Suc_no_wrap:
  fixes a :: "'a::len word"
  assumes "unat a < n" and "n < 2 ^ LENGTH('a)"
  shows "unat (a + 1) = Suc (unat a)"
proof -
  have "unat a + 1 < 2 ^ LENGTH('a)" using assms by simp
  then show ?thesis by (simp add: unat_word_ariths take_bit_nat_eq_self)
qed

lemma unat_pred_pos:
  fixes a :: "'a::len word"
  assumes "a \<noteq> 0"
  shows "unat (a - 1) = unat a - 1"
  using assms by (simp add: unat_minus_one)

lemma sint_eq_unat:
  fixes a :: "'a::len word"
  assumes "unat a < 2 ^ (LENGTH('a) - 1)"
  shows "sint a = int (unat a)"
proof -
  have "int (unat a) < int (2 ^ (LENGTH('a) - 1))"
    using assms by (simp only: of_nat_less_iff)
  then have "uint a < 2 ^ (LENGTH('a) - 1)" by simp
  moreover have "- (2 ^ (LENGTH('a) - 1)) \<le> uint a"
    by (rule order_trans [of _ 0]) simp_all
  ultimately have "sint a = uint a"
    by (simp add: sint_uint signed_take_bit_int_eq_self)
  then show ?thesis by simp
qed

section \<open>Conditionals and options\<close>

lemma if_both: "P a \<Longrightarrow> P b \<Longrightarrow> P (if c then a else b)"
  by simp

section \<open>Walking a circular list\<close>

text \<open>
  The elements of \<open>xs\<close> in the order a circular walk visits them that starts behind \<open>c\<close>
  and stops on \<open>c\<close> itself.
\<close>

definition ring_after :: "'a \<Rightarrow> 'a list \<Rightarrow> 'a list" where
  "ring_after c xs = tl (dropWhile (\<lambda>x. x \<noteq> c) xs) @ takeWhile (\<lambda>x. x \<noteq> c) xs @ [c]"

lemma ring_after_split:
  assumes "c \<notin> set xs"
  shows "ring_after c (xs @ c # ys) = ys @ xs @ [c]"
proof -
  from assms have "dropWhile (\<lambda>x. x \<noteq> c) (xs @ c # ys) = c # ys"
    by (induction xs) auto
  moreover from assms have "takeWhile (\<lambda>x. x \<noteq> c) (xs @ c # ys) = xs"
    by (induction xs) auto
  ultimately show ?thesis by (simp add: ring_after_def)
qed

lemma set_ring_after:
  assumes "c \<in> set xs" and "distinct xs"
  shows "set (ring_after c xs) = set xs"
proof -
  obtain ys zs where "xs = ys @ c # zs" and "c \<notin> set ys"
    using assms(1) by (meson split_list_first)
  then show ?thesis by (auto simp: ring_after_split)
qed

lemma distinct_ring_after:
  assumes "c \<in> set xs" and "distinct xs"
  shows "distinct (ring_after c xs)"
proof -
  obtain ys zs where "xs = ys @ c # zs" and "c \<notin> set ys"
    using assms(1) by (meson split_list_first)
  then show ?thesis using assms(2) by (auto simp: ring_after_split)
qed

lemma ring_after_ends:
  "\<exists>ys. ring_after c xs = ys @ [c]"
  by (simp add: ring_after_def)

section \<open>Forward simulation\<close>

text \<open>
  The contract between an operation \<open>g\<close> of one system and the operation \<open>f\<close> of another that
  stands for it: whenever \<open>g\<close> returns, \<open>f\<close> returns from every related state, in a related state.
\<close>

locale simulation =
  fixes R :: "'a \<Rightarrow> 'b \<Rightarrow> bool" and f :: "'a \<Rightarrow> 'a option" and g :: "'b \<Rightarrow> 'b option"
  assumes sim_step: "R a b \<Longrightarrow> g b = Some b' \<Longrightarrow> \<exists>a'. f a = Some a' \<and> R a' b'"
begin

lemma sim_obtain:
  assumes "R a b" and "g b = Some b'"
  obtains a' where "f a = Some a'" and "R a' b'"
  using sim_step [OF assms] by blast

text \<open>A prefix of both operations that keeps the relation.\<close>

lemma sim_prefix:
  assumes "R a1 b1" and "h a = Some a1" and "g b1 = Some b'"
  shows "\<exists>a'. Option.bind (h a) f = Some a' \<and> R a' b'"
  using sim_step [OF assms(1,3)] assms(2) by simp

end

end
