(* ===== verification/RT_Types.thy ===== *)
theory RT_Types
  imports RT_Prelude
begin

text \<open>
  The data of the library: the constants of rtthreads.h, the structures of
  rtthreads_internals.h, the file-level variables of rtthreads.cpp and the C heap.

  The heap is split by type, as usual for C: \<open>threads\<close> holds the THREAD structures,
  \<open>sems\<close> the semaphores, \<open>queues\<close> the queues, \<open>mem\<close> the bytes that C statements read and
  write through \<open>uint8_t *\<close>. \<open>blocks\<close> are the addresses \<open>malloc\<close> has handed out and nobody
  has freed. What \<open>malloc\<close> will answer is not known, so the state carries its answers,
  \<open>answers\<close>: each has the address (0 for a failed request) and what the fresh block holds, read
  as a THREAD and read as pointers, since the code uses some fields before it sets them.
\<close>

section \<open>Constants (rtthreads.h)\<close>

definition SIMPLERTFRAMEWORK_NORM_PRIO :: u8 where
  [rt_consts]: "SIMPLERTFRAMEWORK_NORM_PRIO = 2"
definition SIMPLERTFRAMEWORK_OVERRUN_PRIO :: u8 where
  [rt_consts]: "SIMPLERTFRAMEWORK_OVERRUN_PRIO = 3"

definition SIMPLERTFRAMEWORK_BLOCKED :: u8 where
  [rt_consts]: "SIMPLERTFRAMEWORK_BLOCKED = 0x02"
definition SIMPLERTFRAMEWORK_ACTIVE :: u8 where
  [rt_consts]: "SIMPLERTFRAMEWORK_ACTIVE = 0x01"
definition SIMPLERTFRAMEWORK_SLEPT :: u8 where
  [rt_consts]: "SIMPLERTFRAMEWORK_SLEPT = 0x00"
definition SIMPLERTFRAMEWORK_SEM_BLOCKED :: u8 where
  [rt_consts]: "SIMPLERTFRAMEWORK_SEM_BLOCKED = 0x04"

definition SIMPLERTFRAMEWORK_ATS_SIGNAL :: s16 where
  [rt_consts]: "SIMPLERTFRAMEWORK_ATS_SIGNAL = 0x04"
definition SIMPLERTFRAMEWORK_COST_OVERUN :: s16 where
  [rt_consts]: "SIMPLERTFRAMEWORK_COST_OVERUN = 0x03"
definition SIMPLERTFRAMEWORK_DEADLINE_MISS :: s16 where
  [rt_consts]: "SIMPLERTFRAMEWORK_DEADLINE_MISS = 0x01"

definition SIMPLERTFRAMEWORK_SAVE_POLICY :: u8 where
  [rt_consts]: "SIMPLERTFRAMEWORK_SAVE_POLICY = 0x01"
definition SIMPLERTFRAMEWORK_EXCEPT_POLICY :: u8 where
  [rt_consts]: "SIMPLERTFRAMEWORK_EXCEPT_POLICY = 0x02"
definition SIMPLERTFRAMEWORK_IGNORE_POLICY :: u8 where
  [rt_consts]: "SIMPLERTFRAMEWORK_IGNORE_POLICY = 0x03"
definition SIMPLERTFRAMEWORK_REPLACE_POLICY :: u8 where
  [rt_consts]: "SIMPLERTFRAMEWORK_REPLACE_POLICY = 0x04"

definition SIMPLERTFRAMEWORK_OVER_SAVE_POLICY :: u8 where
  [rt_consts]: "SIMPLERTFRAMEWORK_OVER_SAVE_POLICY = 0x10"
definition SIMPLERTFRAMEWORK_OVER_EXCEPT_POLICY :: u8 where
  [rt_consts]: "SIMPLERTFRAMEWORK_OVER_EXCEPT_POLICY = 0x20"
definition SIMPLERTFRAMEWORK_OVER_IGNORE_POLICY :: u8 where
  [rt_consts]: "SIMPLERTFRAMEWORK_OVER_IGNORE_POLICY = 0x30"
definition SIMPLERTFRAMEWORK_OVER_REPLACE_POLICY :: u8 where
  [rt_consts]: "SIMPLERTFRAMEWORK_OVER_REPLACE_POLICY = 0x40"

text \<open>\<open>us_per_tick\<close> and \<open>yield_max\<close> are variables of rtthreads.cpp that no statement writes.\<close>

definition us_per_tick :: u32 where "us_per_tick = 128"
definition yield_max :: u32 where "yield_max = 1"

section \<open>Structures (rtthreads_internals.h)\<close>

record thread =
  runq_next :: addr
  sp :: addr
  stack :: addr
  priority :: u8
  block_pattern :: u8
  ats_active :: u8
  ats_pending :: u32
  ats_max :: u32
  status :: u8
  stack_size :: u16
  ticks_to_wait :: u32
  carry_ticks_to_wait :: u8
  min_period_ticks :: u32
  max_deadline_ticks :: u32
  max_cost_ticks :: u32
  current_cost_ticks :: u32
  offset_ticks :: u32
  mit_policy :: u8
  queue_length_max :: s32
  queue_pending :: s32
  queue_last_input :: u32
  blocked_semaphore :: addr
  executor :: addr
  params_and_data :: addr
  error_handler :: addr
  parm :: addr
  aux1 :: u8
  aux2 :: u8

record queue =
  stored :: s32
  howmany :: s32
  read_index :: s32
  write_index :: s32
  elements :: "addr list"

record chunk =
  ptr :: addr
  as_thread :: thread
  as_words :: "nat \<Rightarrow> addr"

section \<open>The variables of rtthreads.cpp and the C heap\<close>

record kernel =
  global_thread_tick_counter :: u32
  tick_counter_last_cost :: u32
  tick_counter_previous :: u32
  carry_tick_counter :: u8
  yield_count :: u32
  thread_list :: addr
  current_thread :: addr
  thread_main_inf :: addr
  next_thread :: addr
  pxCurrentTCB_aux0 :: u8
  pxCurrentTCB_aux1 :: u8
  hw_sp :: u16
  threads :: "addr \<rightharpoonup> thread"
  sems :: "addr \<rightharpoonup> s16"
  queues :: "addr \<rightharpoonup> queue"
  mem :: "addr \<Rightarrow> u8"
  blocks :: "addr set"
  answers :: "chunk list"

text \<open>
  A function pointer the application supplies: an error handler. It is called with its errno and
  may change the state.
\<close>

type_synonym upcall = "addr \<Rightarrow> s16 \<Rightarrow> kernel \<Rightarrow> kernel option"

section \<open>Access through THREAD pointers\<close>

definition deref :: "addr \<Rightarrow> kernel \<Rightarrow> thread option" where
  "deref a s = (if a = NULL then None else threads s a)"

definition upd_thread :: "addr \<Rightarrow> (thread \<Rightarrow> thread) \<Rightarrow> kernel \<Rightarrow> kernel option" where
  "upd_thread a f s = do {
     t \<leftarrow> deref a s;
     Some (s\<lparr>threads := (threads s)(a \<mapsto> f t)\<rparr>) }"

lemma deref_Some_iff: "deref a s = Some t \<longleftrightarrow> a \<noteq> NULL \<and> threads s a = Some t"
  by (simp add: deref_def)

lemma upd_thread_Some_iff:
  "upd_thread a f s = Some s' \<longleftrightarrow>
     (\<exists>t. deref a s = Some t \<and> s' = s\<lparr>threads := (threads s)(a \<mapsto> f t)\<rparr>)"
  by (auto simp: upd_thread_def bind_eq_Some_conv)

section \<open>The allocator\<close>

text \<open>
  \<open>malloc\<close> answers with the next entry of \<open>answers\<close>. An entry that names a block in use cannot be
  what \<open>malloc\<close> returns; it counts as a failed request, and so does the end of the list.
\<close>

definition malloc :: "kernel \<Rightarrow> chunk option \<times> kernel" where
  "malloc s = (case answers s of
     [] \<Rightarrow> (None, s)
   | c # cs \<Rightarrow>
       (if ptr c = NULL \<or> ptr c \<in> blocks s then (None, s\<lparr>answers := cs\<rparr>)
        else (Some c, s\<lparr>answers := cs, blocks := insert (ptr c) (blocks s)\<rparr>)))"

definition thread_malloc :: "kernel \<Rightarrow> chunk option \<times> kernel" where
  "thread_malloc s = malloc s"

definition thread_free :: "addr \<Rightarrow> kernel \<Rightarrow> kernel option" where
  "thread_free p s =
     (if p = NULL then Some s
      else if p \<in> blocks s
      then Some (s\<lparr>blocks := blocks s - {p}, threads := (threads s)(p := None),
                    sems := (sems s)(p := None), queues := (queues s)(p := None)\<rparr>)
      else None)"

end
