(* ===== verification/RT_Runq.thy ===== *)
theory RT_Runq
  imports RT_Types
begin

text \<open>
  The run queue: the singly linked list of THREADs that starts at \<open>thread_list\<close> and ends, at
  \<open>runq_next = NULL\<close>, with the main thread. \<open>kernel_wf\<close> is the invariant every operation of
  the library relies on and keeps.
\<close>

section \<open>Linked lists\<close>

fun runq :: "(addr \<rightharpoonup> thread) \<Rightarrow> addr \<Rightarrow> addr list \<Rightarrow> bool" where
  "runq h p [] \<longleftrightarrow> p = NULL"
| "runq h p (a # as) \<longleftrightarrow>
     p = a \<and> a \<noteq> NULL \<and> (case h a of None \<Rightarrow> False | Some t \<Rightarrow> runq h (runq_next t) as)"

definition runq_wf :: "kernel \<Rightarrow> addr list \<Rightarrow> bool" where
  "runq_wf s ts \<longleftrightarrow> runq (threads s) (thread_list s) ts \<and> distinct ts \<and> ts \<noteq> []
     \<and> last ts = thread_main_inf s \<and> current_thread s \<in> set ts"

definition kernel_wf :: "kernel \<Rightarrow> bool" where
  "kernel_wf s \<longleftrightarrow> (\<exists>ts. runq_wf s ts)"

lemma runq_live: "runq h p ts \<Longrightarrow> a \<in> set ts \<Longrightarrow> a \<noteq> NULL \<and> (\<exists>t. h a = Some t)"
  by (induction ts arbitrary: p) (auto split: option.splits)

lemma runq_unique: "runq h p as \<Longrightarrow> runq h p bs \<Longrightarrow> as = bs"
proof (induction as arbitrary: p bs)
  case Nil
  then show ?case by (cases bs) auto
next
  case (Cons a as)
  then obtain t :: thread where t: "h a = Some t" and as: "runq h (runq_next t) as" and p: "p = a"
    by (cases "h a") auto
  with Cons.prems(2) obtain cs where bs: "bs = a # cs" and cs: "runq h (runq_next t) cs"
    using Cons.prems(1) by (cases bs) auto
  from Cons.IH [OF as cs] show ?case by (simp add: bs)
qed

lemma runq_cong:
  assumes "\<And>a. a \<in> set ts \<Longrightarrow> map_option runq_next (h' a) = map_option runq_next (h a)"
  shows "runq h' p ts = runq h p ts"
  using assms
proof (induction ts arbitrary: p)
  case Nil
  then show ?case by simp
next
  case (Cons a as)
  from Cons.prems [of a] have "map_option runq_next (h' a) = map_option runq_next (h a)"
    by simp
  moreover from Cons have "\<And>q. runq h' q as = runq h q as" by simp
  ultimately show ?case by (cases "h a"; cases "h' a") simp_all
qed

lemma runq_upd_other: "a \<notin> set ts \<Longrightarrow> runq (h(a := x)) p ts = runq h p ts"
  by (rule runq_cong) auto

lemma runq_upd_same_next:
  "h a = Some t \<Longrightarrow> runq_next t' = runq_next t \<Longrightarrow> runq (h(a \<mapsto> t')) p ts = runq h p ts"
  by (rule runq_cong) auto

lemma runq_append:
  "runq h p (xs @ a # ys) \<Longrightarrow> h a = Some t \<Longrightarrow> runq h (runq_next t) ys"
  by (induction xs arbitrary: p) (auto split: option.splits)

lemma runq_suffix: "runq h p (xs @ a # ys) \<Longrightarrow> runq h a (a # ys)"
proof (induction xs arbitrary: p)
  case (Cons x xs)
  then obtain t :: thread where "runq h (runq_next t) (xs @ a # ys)" by (auto split: option.splits)
  then show ?case by (rule Cons.IH)
qed simp

lemma runq_last_NULL: "runq h p (xs @ [a]) \<Longrightarrow> h a = Some t \<Longrightarrow> runq_next t = NULL"
  using runq_append [of h p xs a "[]"] by simp

lemma runq_next_NULL:
  assumes "runq h p (xs @ a # ys)" and "h a = Some t" and "runq_next t = NULL"
  shows "ys = []"
  using runq_append [OF assms(1,2)] assms(3) by (cases ys) auto

section \<open>Consequences of the invariant\<close>

lemma runq_wf_deref:
  "runq_wf s ts \<Longrightarrow> a \<in> set ts \<Longrightarrow> \<exists>t. deref a s = Some t \<and> threads s a = Some t"
  unfolding runq_wf_def deref_def by (auto dest: runq_live)

lemma runq_wf_main: "runq_wf s ts \<Longrightarrow> thread_main_inf s \<in> set ts"
  unfolding runq_wf_def by (metis last_in_set)

lemma runq_wf_current: "runq_wf s ts \<Longrightarrow> current_thread s \<in> set ts"
  unfolding runq_wf_def by simp

lemma runq_wf_list_nonnull: "runq_wf s ts \<Longrightarrow> thread_list s \<noteq> NULL"
  unfolding runq_wf_def by (cases ts) auto

lemma runq_wf_unique: "runq_wf s ts \<Longrightarrow> runq_wf s us \<Longrightarrow> ts = us"
  unfolding runq_wf_def by (blast intro: runq_unique)

lemma kernel_wfI: "runq_wf s ts \<Longrightarrow> kernel_wf s"
  unfolding kernel_wf_def by blast

lemma kernel_wfE:
  assumes "kernel_wf s"
  obtains ts where "runq_wf s ts"
  using assms unfolding kernel_wf_def by blast

text \<open>The invariant reads the list, the two pointers and the links, and nothing else.\<close>

lemma runq_wf_cong:
  assumes "thread_list s' = thread_list s" and "thread_main_inf s' = thread_main_inf s"
    and "current_thread s' \<in> set ts"
    and "\<And>a. a \<in> set ts \<Longrightarrow> map_option runq_next (threads s' a) = map_option runq_next (threads s a)"
    and "runq_wf s ts"
  shows "runq_wf s' ts"
  using assms(5) runq_cong [OF assms(4)] assms(1-3) unfolding runq_wf_def by simp

lemma runq_wf_upd_thread:
  assumes "runq_wf s ts" and "upd_thread a f s = Some s'" and "\<And>t. runq_next (f t) = runq_next t"
  shows "runq_wf s' ts"
proof -
  from assms(2) obtain t where "threads s a = Some t" and s': "s' = s\<lparr>threads := (threads s)(a \<mapsto> f t)\<rparr>"
    by (auto simp: upd_thread_Some_iff deref_Some_iff)
  then have "map_option runq_next (threads s' b) = map_option runq_next (threads s b)" for b
    using assms(3) by simp
  then show ?thesis
    using assms(1) s' runq_wf_current [OF assms(1)] by (intro runq_wf_cong [OF _ _ _ _ assms(1)]) auto
qed

end
