(* ===== verification/RT_Example.thy ===== *)
theory RT_Example
  imports RT_Runq
begin

text \<open>
  A small concrete kernel the witnesses evaluate the model on: the main thread at 0x100 and two
  periodic threads, \<open>0x200\<close> with priority 10 and \<open>0x300\<close> with priority 5, in the run queue
  \<open>0x300, 0x200, 0x100\<close>.
\<close>

definition blank_thread :: thread where
  "blank_thread = \<lparr>runq_next = 0, sp = 0, stack = 0, priority = 2, block_pattern = 0, ats_active = 0,
     ats_pending = 0, ats_max = 0, status = SIMPLERTFRAMEWORK_ACTIVE, stack_size = 0, ticks_to_wait = 0,
     carry_ticks_to_wait = 0, min_period_ticks = 10, max_deadline_ticks = 10, max_cost_ticks = 100,
     current_cost_ticks = 0, offset_ticks = 0, mit_policy = 0, queue_length_max = 0, queue_pending = 0,
     queue_last_input = 0, blocked_semaphore = 0, executor = 0, params_and_data = 0, error_handler = 0,
     parm = 0, aux1 = 0, aux2 = 0\<rparr>"

definition demo_threads :: "addr \<rightharpoonup> thread" where
  "demo_threads = [0x100 \<mapsto> blank_thread,
     0x200 \<mapsto> blank_thread\<lparr>runq_next := 0x100, priority := 10, sp := 0x1000\<rparr>,
     0x300 \<mapsto> blank_thread\<lparr>runq_next := 0x200, priority := 5, sp := 0x2000\<rparr>]"

definition demo :: kernel where
  "demo = \<lparr>global_thread_tick_counter = 7, tick_counter_last_cost = 4, tick_counter_previous = 6,
     carry_tick_counter = 0, yield_count = 0, thread_list = 0x300, current_thread = 0x100,
     thread_main_inf = 0x100, next_thread = 0x100, pxCurrentTCB_aux0 = 0, pxCurrentTCB_aux1 = 0,
     hw_sp = 0x800, threads = demo_threads, sems = [0x400 \<mapsto> 1], queues = Map.empty,
     mem = (\<lambda>_. 0), blocks = {0x100, 0x200, 0x300, 0x400}, answers = []\<rparr>"

definition demo_list :: "addr list" where
  "demo_list = [0x300, 0x200, 0x100]"

lemmas demo_defs = demo_def demo_threads_def blank_thread_def demo_list_def

lemma demo_runq_wf: "runq_wf demo demo_list"
  by (simp add: runq_wf_def demo_defs)

lemma demo_runq_wf_at: "a \<in> set demo_list \<Longrightarrow> runq_wf (demo\<lparr>current_thread := a\<rparr>) demo_list"
  using demo_runq_wf by (simp add: runq_wf_def demo_def)

lemma demo_wf: "kernel_wf demo"
  by (rule kernel_wfI) (rule demo_runq_wf)

text \<open>A handler that does nothing.\<close>

definition no_handler :: upcall where
  "no_handler f e s = Some s"

end
