(* ===== verification/RT_Queue.thy ===== *)
theory RT_Queue
  imports RT_Example
begin

text \<open>
  The non-blocking queues. A queue is one block of memory: the header QUEUE (four \<open>int32_t\<close>, 16
  bytes) and behind it \<open>howmany\<close> pointers of two bytes. \<open>elements\<close> are the pointers the block has
  room for; an index outside them is outside the block.
\<close>

section \<open>Operations\<close>

definition queue_header :: u16 where
  "queue_header = 16"

definition thread_queue_create :: "u16 \<Rightarrow> kernel \<Rightarrow> (addr \<times> kernel) option" where
  "thread_queue_create n s =
     (let bytes = 2 * n + queue_header in
      case thread_malloc s of
        (None, s) \<Rightarrow> None
      | (Some c, s) \<Rightarrow>
          (if bytes < queue_header then None
           else Some (ptr c, s\<lparr>queues := (queues s)(ptr c \<mapsto>
             \<lparr>stored = 0, howmany = ucast n, read_index = 0, write_index = 0,
               elements = map (as_words c) [0..<unat (bytes - queue_header) div 2]\<rparr>)\<rparr>)))"

definition thread_queue_delete :: "addr \<Rightarrow> kernel \<Rightarrow> kernel option" where
  "thread_queue_delete q s = thread_free q s"

definition element_at :: "addr list \<Rightarrow> s32 \<Rightarrow> addr option" where
  "element_at es i = (if 0 \<le> sint i \<and> sint i < int (length es) then Some (es ! nat (sint i)) else None)"

definition queue_get :: "queue \<Rightarrow> (addr \<times> queue) option" where
  "queue_get q =
     (if stored q = 0 then Some (NULL, q)
      else do {
        result \<leftarrow> element_at (elements q) (read_index q);
        let q = q\<lparr>stored := stored q - 1\<rparr>;
        let q = q\<lparr>read_index := read_index q + 1\<rparr>;
        let q = (if read_index q = 0 then q\<lparr>read_index := howmany q\<rparr> else q);
        Some (result, q) })"

definition queue_set :: "queue \<Rightarrow> addr \<Rightarrow> (s32 \<times> queue) option" where
  "queue_set q e =
     (if stored q = howmany q then Some (- 1, q)
      else if element_at (elements q) (write_index q) = None then None
      else
        (let q = q\<lparr>elements := (elements q)[nat (sint (write_index q)) := e]\<rparr>;
             q = q\<lparr>stored := stored q + 1\<rparr>;
             q = q\<lparr>write_index := write_index q + 1\<rparr>;
             q = (if write_index q = howmany q then q\<lparr>write_index := 0\<rparr> else q)
         in Some (0, q)))"

definition queue_at :: "addr \<Rightarrow> kernel \<Rightarrow> queue option" where
  "queue_at p s = (if p = NULL then None else queues s p)"

definition thread_queue_nb_get_element :: "addr \<Rightarrow> kernel \<Rightarrow> (addr \<times> kernel) option" where
  "thread_queue_nb_get_element p s = do {
     q \<leftarrow> queue_at p s;
     (result, q) \<leftarrow> queue_get q;
     Some (result, s\<lparr>queues := (queues s)(p \<mapsto> q)\<rparr>) }"

definition thread_queue_nb_set_element :: "addr \<Rightarrow> addr \<Rightarrow> kernel \<Rightarrow> (s32 \<times> kernel) option" where
  "thread_queue_nb_set_element p e s = do {
     q \<leftarrow> queue_at p s;
     (result, q) \<leftarrow> queue_set q e;
     Some (result, s\<lparr>queues := (queues s)(p \<mapsto> q)\<rparr>) }"

definition thread_queue_stored :: "addr \<Rightarrow> kernel \<Rightarrow> s32 option" where
  "thread_queue_stored p s = do { q \<leftarrow> queue_at p s; Some (stored q) }"

definition thread_queue_size :: "addr \<Rightarrow> kernel \<Rightarrow> s32 option" where
  "thread_queue_size p s = do { q \<leftarrow> queue_at p s; Some (howmany q) }"

section \<open>The contract of a bounded queue that wears out\<close>

text \<open>
  What a client may rely on: a queue with a content (oldest element first), a capacity, and a
  budget of reads. Writes append unless the queue is full; a read takes the oldest element and
  uses up one unit of the budget.
\<close>

datatype 'a qop = Put 'a | Get

datatype 'a qres = Written bool | Read "'a option"

fun spec_run :: "nat \<Rightarrow> 'a list \<Rightarrow> 'a qop list \<Rightarrow> 'a qres list \<times> 'a list" where
  "spec_run n xs [] = ([], xs)"
| "spec_run n xs (Put x # ops) =
     (if length xs = n then (case spec_run n xs ops of (rs, ys) \<Rightarrow> (Written False # rs, ys))
      else (case spec_run n (xs @ [x]) ops of (rs, ys) \<Rightarrow> (Written True # rs, ys)))"
| "spec_run n [] (Get # ops) = (case spec_run n [] ops of (rs, ys) \<Rightarrow> (Read None # rs, ys))"
| "spec_run n (x # xs) (Get # ops) = (case spec_run n xs ops of (rs, ys) \<Rightarrow> (Read (Some x) # rs, ys))"

fun impl_run :: "('q \<Rightarrow> 'a \<Rightarrow> (bool \<times> 'q) option) \<Rightarrow> ('q \<Rightarrow> ('a option \<times> 'q) option) \<Rightarrow>
    'q \<Rightarrow> 'a qop list \<Rightarrow> ('a qres list \<times> 'q) option" where
  "impl_run put get q [] = Some ([], q)"
| "impl_run put get q (Put x # ops) = do {
     (b, q) \<leftarrow> put q x;
     (rs, q) \<leftarrow> impl_run put get q ops;
     Some (Written b # rs, q) }"
| "impl_run put get q (Get # ops) = do {
     (r, q) \<leftarrow> get q;
     (rs, q) \<leftarrow> impl_run put get q ops;
     Some (Read r # rs, q) }"

fun reads :: "'a qres list \<Rightarrow> nat" where
  "reads [] = 0"
| "reads (Read (Some x) # rs) = Suc (reads rs)"
| "reads (_ # rs) = reads rs"

locale bounded_fifo =
  fixes put :: "'q \<Rightarrow> 'a \<Rightarrow> (bool \<times> 'q) option"
    and get :: "'q \<Rightarrow> ('a option \<times> 'q) option"
    and content :: "'q \<Rightarrow> 'a list"
    and capacity :: "'q \<Rightarrow> nat"
    and budget :: "'q \<Rightarrow> nat"
    and ok :: "'q \<Rightarrow> bool"
  assumes put_full: "ok q \<Longrightarrow> length (content q) = capacity q \<Longrightarrow> put q x = Some (False, q)"
    and put_room: "ok q \<Longrightarrow> length (content q) < capacity q \<Longrightarrow>
      \<exists>q'. put q x = Some (True, q') \<and> ok q' \<and> content q' = content q @ [x]
         \<and> capacity q' = capacity q \<and> budget q' = budget q"
    and get_empty: "ok q \<Longrightarrow> content q = [] \<Longrightarrow> get q = Some (None, q)"
    and get_some: "ok q \<Longrightarrow> content q = x # xs \<Longrightarrow> 0 < budget q \<Longrightarrow>
      \<exists>q'. get q = Some (Some x, q') \<and> ok q' \<and> content q' = xs
         \<and> capacity q' = capacity q \<and> Suc (budget q') = budget q"
    and content_bound: "ok q \<Longrightarrow> length (content q) \<le> capacity q"

begin

text \<open>As long as the budget covers the reads, every run of the implementation gives the answers of
  the list specification and ends with its content.\<close>

lemma run_refines:
  "ok q \<Longrightarrow> reads (fst (spec_run (capacity q) (content q) ops)) \<le> budget q \<Longrightarrow>
   \<exists>q'. impl_run put get q ops = Some (fst (spec_run (capacity q) (content q) ops), q') \<and> ok q'
      \<and> content q' = snd (spec_run (capacity q) (content q) ops)"
proof (induction ops arbitrary: q)
  case (Cons op ops)
  show ?case
  proof (cases op)
    case (Put x)
    show ?thesis
    proof (cases "length (content q) = capacity q")
      case True
      with Cons.prems put_full [OF Cons.prems(1) True] Cons.IH [OF Cons.prems(1)] Put
      show ?thesis by (auto split: prod.splits)
    next
      case False
      with content_bound [OF Cons.prems(1)] have "length (content q) < capacity q" by simp
      from put_room [OF Cons.prems(1) this, of x] obtain q1 where q1: "put q x = Some (True, q1)" "ok q1"
        "content q1 = content q @ [x]" "capacity q1 = capacity q" "budget q1 = budget q" by blast
      from Cons.prems(2) False Put q1 Cons.IH [OF q1(2)] show ?thesis by (auto split: prod.splits)
    qed
  next
    case Get
    show ?thesis
    proof (cases "content q")
      case Nil
      with get_empty [OF Cons.prems(1) Nil] Cons.prems Cons.IH [OF Cons.prems(1)] Get
      show ?thesis by (auto split: prod.splits)
    next
      case C: (Cons x xs)
      with Cons.prems(2) Get have "0 < budget q" by (auto split: prod.splits)
      from get_some [OF Cons.prems(1) C this] obtain q1 where q1: "get q = Some (Some x, q1)" "ok q1"
        "content q1 = xs" "capacity q1 = capacity q" "Suc (budget q1) = budget q" by blast
      have "reads (fst (spec_run (capacity q1) (content q1) ops)) \<le> budget q1"
        using Cons.prems(2) C Get q1(3-5) by (auto split: prod.splits)
      from Cons.IH [OF q1(2) this] q1 C Get show ?thesis by (auto split: prod.splits)
    qed
  qed
qed simp

end

section \<open>The invariant of a queue\<close>

definition queue_ok :: "queue \<Rightarrow> bool" where
  "queue_ok q \<longleftrightarrow> (let n = length (elements q) in
     n < 2 ^ 16 \<and> howmany q = of_nat n \<and> unat (stored q) \<le> n \<and> unat (read_index q) \<le> n
     \<and> unat (write_index q) = (unat (read_index q) + unat (stored q)) mod n)"

definition queue_content :: "queue \<Rightarrow> addr list" where
  "queue_content q = map (\<lambda>i. elements q ! ((unat (read_index q) + i) mod length (elements q)))
     [0..<unat (stored q)]"

definition queue_budget :: "queue \<Rightarrow> nat" where
  "queue_budget q = length (elements q) - unat (read_index q)"

lemma length_queue_content [simp]: "length (queue_content q) = unat (stored q)"
  by (simp add: queue_content_def)

lemma queue_content_Nil: "queue_content q = [] \<longleftrightarrow> stored q = 0"
  by (auto simp: queue_content_def word_unat_eq_iff)

lemma mod_add_neq:
  fixes r i k n :: nat
  assumes "i < k" and "k < n"
  shows "(r + i) mod n \<noteq> (r + k) mod n"
proof
  assume "(r + i) mod n = (r + k) mod n"
  then have "n dvd (r + k) - (r + i)"
    using assms(1) mod_eq_dvd_iff_nat [of "r + i" "r + k" n] by simp
  then have "n \<le> k - i" using assms(1) by (intro dvd_imp_le) simp_all
  with assms show False by simp
qed

lemma element_at_unat:
  assumes "unat i < length es" and "length es < 2 ^ 16"
  shows "element_at es i = Some (es ! unat i)" and "nat (sint i) = unat i"
proof -
  have "sint i = int (unat i)" using assms by (intro sint_eq_unat) simp
  moreover have "int (unat i) < int (length es)" using assms(1) by (simp only: of_nat_less_iff)
  ultimately show "element_at es i = Some (es ! unat i)" and "nat (sint i) = unat i"
    by (simp_all add: element_at_def)
qed

lemma unat_of_nat_u32: "n < 2 ^ 16 \<Longrightarrow> unat (of_nat n :: s32) = n"
  by (simp add: unat_of_nat)

lemma queue_ok_length:
  "queue_ok q \<Longrightarrow> stored q = howmany q \<longleftrightarrow> unat (stored q) = length (elements q)"
  by (simp add: queue_ok_def Let_def word_unat_eq_iff unat_of_nat_u32)

lemma queue_set_full:
  "queue_ok q \<Longrightarrow> unat (stored q) = length (elements q) \<Longrightarrow> queue_set q e = Some (- 1, q)"
  by (simp add: queue_set_def queue_ok_length)

lemma queue_set_room:
  assumes "queue_ok q" and "unat (stored q) < length (elements q)"
  obtains q' where "queue_set q e = Some (0, q')" and "queue_ok q'"
    and "queue_content q' = queue_content q @ [e]"
    and "length (elements q') = length (elements q)" and "read_index q' = read_index q"
proof -
  let ?n = "length (elements q)" and ?r = "unat (read_index q)" and ?k = "unat (stored q)"
  let ?w = "unat (write_index q)"
  from assms(1) have n: "?n < 2 ^ 16" and h: "howmany q = of_nat ?n" and r: "?r \<le> ?n"
    and w: "?w = (?r + ?k) mod ?n" by (simp_all add: queue_ok_def Let_def)
  have "0 < ?n" using assms(2) by linarith
  then have wn: "?w < ?n" using w by simp
  have s1: "unat (stored q + 1) = Suc ?k" and w1: "unat (write_index q + 1) = Suc ?w"
    using assms(2) wn n by (auto intro: unat_Suc_no_wrap [where n = "?n"])
  have hw: "write_index q + 1 = howmany q \<longleftrightarrow> Suc ?w = ?n"
    using w1 n by (simp add: h word_unat_eq_iff unat_of_nat_u32)
  define q' where "q' = q\<lparr>elements := (elements q)[?w := e], stored := stored q + 1,
     write_index := (if write_index q + 1 = howmany q then 0 else write_index q + 1)\<rparr>"
  have "queue_set q e = Some (0, q')"
    using assms(2) queue_ok_length [OF assms(1)] element_at_unat [OF wn n]
    by (simp add: queue_set_def q'_def Let_def)
  moreover have "queue_ok q'"
    using n h r s1 w1 hw w assms(2)
    by (simp add: queue_ok_def q'_def Let_def) (metis mod_Suc add_Suc_right)
  moreover have "queue_content q' = queue_content q @ [e]"
  proof -
    have "(elements q)[?w := e] ! ((?r + i) mod ?n) = elements q ! ((?r + i) mod ?n)" if "i < ?k" for i
      using mod_add_neq [OF that assms(2), of ?r] w by simp
    moreover have "(elements q)[?w := e] ! ((?r + ?k) mod ?n) = e" using wn w by simp
    ultimately show ?thesis by (simp add: queue_content_def q'_def s1)
  qed
  ultimately show thesis by (rule that) (simp_all add: q'_def)
qed

lemma queue_get_empty: "stored q = 0 \<Longrightarrow> queue_get q = Some (NULL, q)"
  by (simp add: queue_get_def)

lemma queue_get_some:
  assumes "queue_ok q" and "queue_content q = x # xs" and "unat (read_index q) < length (elements q)"
  obtains q' where "queue_get q = Some (x, q')" and "queue_ok q'" and "queue_content q' = xs"
    and "elements q' = elements q" and "unat (read_index q') = Suc (unat (read_index q))"
proof -
  let ?n = "length (elements q)" and ?r = "unat (read_index q)" and ?k = "unat (stored q)"
  from assms(1) have n: "?n < 2 ^ 16" and h: "howmany q = of_nat ?n" and k: "?k \<le> ?n"
    and w: "unat (write_index q) = (?r + ?k) mod ?n" by (simp_all add: queue_ok_def Let_def)
  have "length (queue_content q) \<noteq> 0" unfolding assms(2) by simp
  then have k0: "?k \<noteq> 0" by (simp only: length_queue_content not_False_eq_True)
  then have s0: "stored q \<noteq> 0" by auto
  have s1: "unat (stored q - 1) = ?k - 1" using s0 by (rule unat_pred_pos)
  have r1: "unat (read_index q + 1) = Suc ?r" using assms(3) n by (auto intro: unat_Suc_no_wrap [where n = "?n"])
  then have r0: "read_index q + 1 \<noteq> 0" by auto
  have c: "queue_content q = elements q ! ?r # map (\<lambda>i. elements q ! ((Suc ?r + i) mod ?n)) [0..<?k - 1]"
  proof -
    have "[0..<?k] = 0 # map Suc [0..<?k - 1]"
      using k0 upt_conv_Cons [of 0 ?k] map_Suc_upt [of 0 "?k - 1"] by simp
    then show ?thesis using assms(3) by (simp add: queue_content_def)
  qed
  define q' where "q' = q\<lparr>stored := stored q - 1, read_index := read_index q + 1\<rparr>"
  have "queue_get q = Some (x, q')"
    using s0 r0 element_at_unat(1) [OF assms(3) n] c assms(2)
    by (simp add: queue_get_def q'_def Let_def)
  moreover have "queue_ok q'"
    using n h k w s1 r1 k0 assms(3) by (simp add: queue_ok_def q'_def Let_def)
  moreover have "queue_content q' = xs"
    using c assms(2) by (simp add: queue_content_def q'_def s1 r1)
  ultimately show thesis by (rule that) (simp_all add: q'_def r1)
qed

text \<open>The two operations with the answers of the contract.\<close>

definition fifo_put :: "queue \<Rightarrow> addr \<Rightarrow> (bool \<times> queue) option" where
  "fifo_put q e = map_option (\<lambda>(r, q'). (r = 0, q')) (queue_set q e)"

definition fifo_get :: "queue \<Rightarrow> (addr option \<times> queue) option" where
  "fifo_get q = map_option (\<lambda>(r, q'). (if stored q = 0 then None else Some r, q')) (queue_get q)"

definition queue_capacity :: "queue \<Rightarrow> nat" where
  "queue_capacity q = length (elements q)"

interpretation rtq: bounded_fifo fifo_put fifo_get queue_content queue_capacity queue_budget queue_ok
proof unfold_locales
  fix q :: queue and e :: addr
  assume ok: "queue_ok q" and "length (queue_content q) = queue_capacity q"
  with queue_set_full [OF ok, of e] show "fifo_put q e = Some (False, q)"
    by (simp add: fifo_put_def queue_capacity_def)
next
  fix q :: queue and e :: addr
  assume ok: "queue_ok q" and "length (queue_content q) < queue_capacity q"
  with queue_set_room [OF ok, of e] obtain q' where "queue_set q e = Some (0, q')" "queue_ok q'"
    "queue_content q' = queue_content q @ [e]" "length (elements q') = length (elements q)"
    "read_index q' = read_index q" by (auto simp: queue_capacity_def)
  then show "\<exists>q'. fifo_put q e = Some (True, q') \<and> queue_ok q' \<and> queue_content q' = queue_content q @ [e]
     \<and> queue_capacity q' = queue_capacity q \<and> queue_budget q' = queue_budget q"
    by (simp add: fifo_put_def queue_capacity_def queue_budget_def)
next
  fix q :: queue
  assume "queue_content q = []"
  then have "stored q = 0" by (simp add: queue_content_Nil)
  then show "fifo_get q = Some (None, q)" by (simp add: fifo_get_def queue_get_empty)
next
  fix q :: queue and x xs
  assume ok: "queue_ok q" and c: "queue_content q = x # xs" and b: "0 < queue_budget q"
  from c have s: "stored q \<noteq> 0" using queue_content_Nil [of q] by simp
  from b have "unat (read_index q) < length (elements q)" by (simp add: queue_budget_def)
  from queue_get_some [OF ok c this] obtain q' where "queue_get q = Some (x, q')" "queue_ok q'"
    "queue_content q' = xs" "elements q' = elements q" "unat (read_index q') = Suc (unat (read_index q))" .
  with b s show "\<exists>q'. fifo_get q = Some (Some x, q') \<and> queue_ok q' \<and> queue_content q' = xs
     \<and> queue_capacity q' = queue_capacity q \<and> Suc (queue_budget q') = queue_budget q"
    by (simp add: fifo_get_def queue_capacity_def queue_budget_def)
next
  fix q :: queue
  assume "queue_ok q"
  then show "length (queue_content q) \<le> queue_capacity q"
    by (simp add: queue_ok_def queue_capacity_def Let_def)
qed

section \<open>Wearing out\<close>

lemma queue_get_worn:
  assumes "queue_ok q" and "stored q \<noteq> 0" and "queue_budget q = 0"
  shows "queue_get q = None"
proof -
  let ?n = "length (elements q)"
  from assms(1,3) have r: "unat (read_index q) = ?n" and n: "?n < 2 ^ 16"
    by (simp_all add: queue_ok_def queue_budget_def Let_def)
  have "sint (read_index q) = int (unat (read_index q))" using r n by (intro sint_eq_unat) simp
  then have "element_at (elements q) (read_index q) = None" unfolding r by (simp add: element_at_def)
  with assms(2) show ?thesis by (simp add: queue_get_def)
qed

lemma impl_run_round:
  "put q x = Some (b, q1) \<Longrightarrow> get q1 = Some (r, q2) \<Longrightarrow> impl_run put get q2 ops = None \<Longrightarrow>
   impl_run put get q (Put x # Get # ops) = None"
  by simp

lemma wear_out:
  "queue_ok q \<Longrightarrow> queue_content q = [] \<Longrightarrow> 0 < queue_capacity q \<Longrightarrow> queue_budget q = m \<Longrightarrow>
   impl_run fifo_put fifo_get q (concat (replicate (Suc m) [Put x, Get])) = None"
proof (induction m arbitrary: q)
  case 0
  then have "length (queue_content q) < queue_capacity q" by simp
  from rtq.put_room [OF 0(1) this, of x] obtain q1 where q1: "fifo_put q x = Some (True, q1)" "queue_ok q1"
    "queue_content q1 = [x]" "queue_budget q1 = 0" using 0 by auto
  then have "stored q1 \<noteq> 0" using queue_content_Nil [of q1] by simp
  with queue_get_worn q1 have "fifo_get q1 = None" by (simp add: fifo_get_def)
  with q1 show ?case by simp
next
  case (Suc m)
  then have "length (queue_content q) < queue_capacity q" by simp
  from rtq.put_room [OF Suc(2) this, of x] obtain q1 where q1: "fifo_put q x = Some (True, q1)" "queue_ok q1"
    "queue_content q1 = [x]" "queue_capacity q1 = queue_capacity q" "queue_budget q1 = Suc m" using Suc by auto
  from rtq.get_some [OF q1(2,3)] q1(5) obtain q2 where q2: "fifo_get q1 = Some (Some x, q2)" "queue_ok q2"
    "queue_content q2 = []" "queue_capacity q2 = queue_capacity q1" "queue_budget q2 = m" by auto
  from Suc.IH [OF q2(2,3) _ q2(5)] Suc.prems(3) q1(4) q2(4)
  have "impl_run fifo_put fifo_get q2 (concat (replicate (Suc m) [Put x, Get])) = None" by simp
  from impl_run_round [OF q1(1) q2(1) this] show ?case by (simp del: impl_run.simps)
qed

section \<open>Properties\<close>

text \<open>C16: the queue is a bounded first-in first-out buffer for its first \<open>howmany\<close> reads: any
  sequence of writes and reads with no more successful reads than that gives the answers of a list
  of at most \<open>howmany\<close> elements, oldest first, refusing writes when it is full and answering
  reads with nothing when it is empty.\<close>

theorem queue_is_fifo:
  assumes "queue_ok q"
    and "reads (fst (spec_run (queue_capacity q) (queue_content q) ops)) \<le> queue_budget q"
  shows "\<exists>q'. impl_run fifo_put fifo_get q ops
       = Some (fst (spec_run (queue_capacity q) (queue_content q) ops), q')
     \<and> queue_ok q' \<and> queue_content q' = snd (spec_run (queue_capacity q) (queue_content q) ops)"
  using assms by (rule rtq.run_refines)

definition demo_queue :: queue where
  "demo_queue = \<lparr>stored = 0, howmany = 2, read_index = 0, write_index = 0, elements = [7, 7]\<rparr>"

lemma demo_queue_ok: "queue_ok demo_queue" "queue_content demo_queue = []"
  "queue_capacity demo_queue = 2" "queue_budget demo_queue = 2"
  by (simp_all add: queue_ok_def queue_content_def queue_capacity_def queue_budget_def demo_queue_def)

theorem queue_is_fifo_witness:
  "\<exists>q'. impl_run fifo_put fifo_get demo_queue [Put 11, Put 12, Put 13, Get, Put 14, Get, Put 15]
     = Some ([Written True, Written True, Written False, Read (Some 11), Written True, Read (Some 12),
              Written True], q') \<and> queue_content q' = [14, 15]"
  using queue_is_fifo [OF demo_queue_ok(1), of "[Put 11, Put 12, Put 13, Get, Put 14, Get, Put 15]"]
  by (auto simp: demo_queue_ok)

text \<open>After \<open>howmany\<close> successful reads the queue is worn out: the read index is never reset, so
  writing and reading one element \<open>howmany + 1\<close> times ends in a read outside the block.\<close>

theorem queue_wears_out:
  assumes "queue_ok q" and "queue_content q = []" and "0 < queue_capacity q"
  shows "impl_run fifo_put fifo_get q (concat (replicate (Suc (queue_budget q)) [Put x, Get])) = None"
  using assms refl by (rule wear_out)

theorem queue_wears_out_witness:
  "impl_run fifo_put fifo_get demo_queue [Put 11, Get, Put 11, Get, Put 11, Get] = None"
  using queue_wears_out [OF demo_queue_ok(1,2), of 11] by (simp add: demo_queue_ok numeral_3_eq_3)

text \<open>A write to a full queue answers -1 and changes nothing; a read from an empty queue answers
  NULL and changes nothing.\<close>

theorem queue_errors:
  assumes "p \<noteq> NULL" and "queues s p = Some q" and "queue_ok q"
  shows "length (queue_content q) = queue_capacity q \<Longrightarrow>
      thread_queue_nb_set_element p e s = Some (- 1, s)"
    and "queue_content q = [] \<Longrightarrow> thread_queue_nb_get_element p s = Some (NULL, s)"
proof -
  have [simp]: "s\<lparr>queues := (queues s)(p \<mapsto> q)\<rparr> = s" using assms(2) by (simp add: fun_upd_idem)
  show "thread_queue_nb_set_element p e s = Some (- 1, s)" if "length (queue_content q) = queue_capacity q"
    using that assms queue_set_full [OF assms(3), of e]
    by (simp add: thread_queue_nb_set_element_def queue_at_def queue_capacity_def)
  show "thread_queue_nb_get_element p s = Some (NULL, s)" if "queue_content q = []"
  proof -
    from that have "stored q = 0" by (simp add: queue_content_Nil)
    with assms show ?thesis
      by (simp add: thread_queue_nb_get_element_def queue_at_def queue_get_empty)
  qed
qed

theorem queue_errors_witness:
  "thread_queue_nb_get_element 0x500 (demo\<lparr>queues := [0x500 \<mapsto> demo_queue]\<rparr>)
     = Some (NULL, demo\<lparr>queues := [0x500 \<mapsto> demo_queue]\<rparr>)"
  using queue_errors(2) [of "0x500" "demo\<lparr>queues := [0x500 \<mapsto> demo_queue]\<rparr>" demo_queue] demo_queue_ok by simp

text \<open>A queue for fewer than 32760 elements is created empty, with its full capacity and its full
  budget of reads; nothing but the new block changes.\<close>

theorem queue_create_ok:
  assumes "thread_malloc s = (Some c, s1)" and "unat n < 32760"
  shows "\<exists>q. thread_queue_create n s = Some (ptr c, s1\<lparr>queues := (queues s1)(ptr c \<mapsto> q)\<rparr>)
     \<and> queue_ok q \<and> queue_content q = [] \<and> queue_capacity q = unat n \<and> queue_budget q = unat n"
proof -
  have b: "unat (2 * n + queue_header) = 2 * unat n + 16"
    using assms(2) by (simp add: queue_header_def unat_word_ariths)
  then have h: "\<not> 2 * n + queue_header < queue_header"
    by (simp add: word_less_nat_alt queue_header_def)
  have d: "2 * n + queue_header - queue_header = 2 * n" by simp
  have e: "unat (2 * n) div 2 = unat n" using assms(2) by (simp add: unat_word_ariths)
  let ?q = "\<lparr>stored = 0, howmany = ucast n, read_index = 0, write_index = 0,
    elements = map (as_words c) [0..<unat n]\<rparr>"
  have "thread_queue_create n s = Some (ptr c, s1\<lparr>queues := (queues s1)(ptr c \<mapsto> ?q)\<rparr>)"
    using assms(1) h by (simp add: thread_queue_create_def d e)
  moreover have "ucast n = (of_nat (unat n) :: s32)" by simp
  then have "queue_ok ?q" using assms(2) by (simp add: queue_ok_def Let_def)
  moreover have "queue_content ?q = []" and "queue_capacity ?q = unat n" and "queue_budget ?q = unat n"
    by (simp_all add: queue_content_def queue_capacity_def queue_budget_def)
  ultimately show ?thesis by blast
qed

definition demo_block :: chunk where
  "demo_block = \<lparr>ptr = 0x600, as_thread = blank_thread, as_words = (\<lambda>_. 0xdead)\<rparr>"

theorem queue_create_ok_witness:
  "\<exists>q s'. thread_queue_create 8 (demo\<lparr>answers := [demo_block]\<rparr>) = Some (0x600, s') \<and> queues s' 0x600 = Some q
     \<and> queue_ok q \<and> queue_capacity q = 8"
proof -
  let ?s = "demo\<lparr>answers := [demo_block]\<rparr>"
  have "thread_malloc ?s = (Some demo_block, ?s\<lparr>answers := [], blocks := insert 0x600 (blocks ?s)\<rparr>)"
    by (simp add: thread_malloc_def malloc_def demo_block_def demo_def)
  from queue_create_ok [OF this, of 8] show ?thesis by (auto simp: demo_block_def)
qed

text \<open>From 32760 elements on the 16-bit size overflows: the queue is either written outside its
  block while it is created or has room for 32768 elements fewer than it claims.\<close>

theorem queue_create_overflow:
  assumes "thread_malloc s = (Some c, s1)" and "32760 \<le> unat n"
  shows "if 32768 \<le> unat n \<and> unat n < 65528
     then \<exists>q. thread_queue_create n s = Some (ptr c, s1\<lparr>queues := (queues s1)(ptr c \<mapsto> q)\<rparr>)
       \<and> unat (howmany q) = unat n \<and> length (elements q) = unat n - 32768
     else thread_queue_create n s = None"
proof -
  have u: "unat n < 65536" using unsigned_less [of n] by simp
  have b: "2 * n + queue_header - queue_header = 2 * n" by simp
  have m: "unat (2 * n + queue_header) = (2 * unat n + 16) mod 65536"
    by (simp add: queue_header_def unat_word_ariths mod_simps)
  show ?thesis
  proof (cases "32768 \<le> unat n \<and> unat n < 65528")
    case True
    have "(2 * unat n + 16) mod 65536 = 2 * unat n + 16 - 65536" using True by (auto simp: mod_if)
    then have h: "\<not> 2 * n + queue_header < queue_header"
      using m True by (auto simp: word_less_nat_alt queue_header_def)
    have "unat (2 * n) = 2 * unat n - 65536" using True u by (auto simp: unat_word_ariths mod_if)
    moreover have "(2 * unat n - 65536) div 2 = unat n - 32768" using True by simp
    moreover have "unat (ucast n :: s32) = unat n"
      using unat_of_nat_u32 [of "unat n"] unsigned_less [of n] by simp
    ultimately show ?thesis using True assms(1) h
      by (simp add: thread_queue_create_def Let_def b)
        (rule exI [of _ "\<lparr>stored = 0, howmany = ucast n, read_index = 0, write_index = 0,
           elements = map (as_words c) [0..<unat n - 32768]\<rparr>"], simp)
  next
    case False
    then have "unat n < 32768 \<or> 65528 \<le> unat n" by linarith
    then have "(2 * unat n + 16) mod 65536 < 16" using u assms(2) by (auto simp: mod_if)
    then have "2 * n + queue_header < queue_header"
      using m by (simp add: word_less_nat_alt queue_header_def)
    then show ?thesis using False assms(1) by (simp add: thread_queue_create_def Let_def)
  qed
qed

theorem queue_create_overflow_witness:
  "\<exists>s1 q. thread_queue_create 40000 (demo\<lparr>answers := [demo_block]\<rparr>) = Some (ptr demo_block, s1\<lparr>queues := (queues s1)(ptr demo_block \<mapsto> q)\<rparr>)
     \<and> unat (howmany q) = 40000 \<and> length (elements q) = 7232"
proof -
  obtain s1 where "thread_malloc (demo\<lparr>answers := [demo_block]\<rparr>) = (Some demo_block, s1)"
    by (simp add: thread_malloc_def malloc_def demo_def demo_block_def)
  from queue_create_overflow [OF this, of 40000] show ?thesis by auto
qed

end
