(* ===== verification/RT_Clock.thy ===== *)
theory RT_Clock
  imports RT_Runq
begin

text \<open>
  The clock and the cost accounts: the tick counter read as microseconds, and the ticks charged
  to the thread that runs.
\<close>

section \<open>Operations\<close>

definition thread_get_time :: "kernel \<Rightarrow> u32" where
  "thread_get_time s = global_thread_tick_counter s * us_per_tick"

definition thread_get_error_in_time :: u32 where
  "thread_get_error_in_time = us_per_tick"

definition charge_current :: "kernel \<Rightarrow> kernel option" where
  "charge_current s = do {
     let aux_cost_add = global_thread_tick_counter s - tick_counter_last_cost s;
     s \<leftarrow> upd_thread (current_thread s)
            (\<lambda>t. t\<lparr>current_cost_ticks := current_cost_ticks t + aux_cost_add\<rparr>) s;
     Some (s\<lparr>tick_counter_last_cost := tick_counter_last_cost s + aux_cost_add\<rparr>) }"

definition get_current_cost_ticks :: "kernel \<Rightarrow> (u32 \<times> kernel) option" where
  "get_current_cost_ticks s = do {
     s \<leftarrow> charge_current s;
     t \<leftarrow> deref (current_thread s) s;
     Some (current_cost_ticks t, s) }"

definition get_current_cost :: "kernel \<Rightarrow> (u32 \<times> kernel) option" where
  "get_current_cost s = do {
     (c, s) \<leftarrow> get_current_cost_ticks s;
     Some (c * us_per_tick, s) }"

definition get_current_priority :: "kernel \<Rightarrow> u8 option" where
  "get_current_priority s = do {
     t \<leftarrow> deref (current_thread s) s;
     Some (priority t) }"

definition thread_get_params :: "kernel \<Rightarrow> addr option" where
  "thread_get_params s = do {
     t \<leftarrow> deref (current_thread s) s;
     Some (params_and_data t) }"

section \<open>Reading the clock\<close>

lemma thread_get_time_unat:
  "unat (thread_get_time s) = (unat (global_thread_tick_counter s) * 128) mod 2 ^ 32"
  by (simp add: thread_get_time_def us_per_tick_def unat_word_ariths)

section \<open>Charging\<close>

lemma charge_current_exact:
  assumes "deref (current_thread s) s = Some t"
  shows "charge_current s = Some (s\<lparr>
     threads := (threads s)(current_thread s \<mapsto> t\<lparr>current_cost_ticks :=
        current_cost_ticks t + (global_thread_tick_counter s - tick_counter_last_cost s)\<rparr>),
     tick_counter_last_cost := global_thread_tick_counter s\<rparr>)"
  using assms by (simp add: charge_current_def upd_thread_def)

lemma charge_current_wf:
  assumes "runq_wf s ts" and "charge_current s = Some s'"
  shows "runq_wf s' ts"
proof -
  obtain t where d: "deref (current_thread s) s = Some t" and h: "threads s (current_thread s) = Some t"
    using runq_wf_deref [OF assms(1) runq_wf_current [OF assms(1)]] by blast
  from charge_current_exact [OF d] assms(2) have s': "s' = s\<lparr>
     threads := (threads s)(current_thread s \<mapsto> t\<lparr>current_cost_ticks :=
        current_cost_ticks t + (global_thread_tick_counter s - tick_counter_last_cost s)\<rparr>),
     tick_counter_last_cost := global_thread_tick_counter s\<rparr>" by simp
  show ?thesis
    by (rule runq_wf_cong [OF _ _ _ _ assms(1)])
      (simp_all add: s' h runq_wf_current [OF assms(1)])
qed

text \<open>
  The ticks on all accounts plus the ticks not charged yet. Charging moves ticks from the second
  part to the first, so the sum counts every tick exactly once.
\<close>

definition cost_of :: "(addr \<rightharpoonup> thread) \<Rightarrow> addr \<Rightarrow> u32" where
  "cost_of h a = (case h a of None \<Rightarrow> 0 | Some t \<Rightarrow> current_cost_ticks t)"

definition accounted :: "kernel \<Rightarrow> addr list \<Rightarrow> u32" where
  "accounted s ts = sum_list (map (cost_of (threads s)) ts)
     + (global_thread_tick_counter s - tick_counter_last_cost s)"

lemma cost_of_upd: "cost_of (h(a \<mapsto> t)) b = (if b = a then current_cost_ticks t else cost_of h b)"
  by (simp add: cost_of_def)

lemma cost_sum_upd:
  assumes "distinct ts" and "a \<in> set ts" and "h a = Some t" and "current_cost_ticks t' = current_cost_ticks t + d"
  shows "sum_list (map (cost_of (h(a \<mapsto> t'))) ts) = sum_list (map (cost_of h) ts) + d"
  using assms(1,2)
proof (induction ts)
  case (Cons b bs)
  have a: "cost_of h a = current_cost_ticks t" using assms(3) by (simp add: cost_of_def)
  show ?case
  proof (cases "a = b")
    case True
    with Cons.prems have m: "map (cost_of (h(a \<mapsto> t'))) bs = map (cost_of h) bs"
      by (auto simp: cost_of_upd)
    show ?thesis
      unfolding list.map sum_list.Cons m using True a assms(4) by (simp add: cost_of_upd)
  next
    case False
    with Cons have "sum_list (map (cost_of (h(a \<mapsto> t'))) bs) = sum_list (map (cost_of h) bs) + d"
      by (simp del: fun_upd_apply)
    then show ?thesis
      unfolding list.map sum_list.Cons using False by (simp add: cost_of_upd)
  qed
qed simp

lemma cost_sum_cong:
  assumes "\<And>a. a \<in> set ts \<Longrightarrow> map_option current_cost_ticks (h' a) = map_option current_cost_ticks (h a)"
  shows "sum_list (map (cost_of h') ts) = sum_list (map (cost_of h) ts)"
proof -
  have "cost_of h' a = cost_of h a" if "a \<in> set ts" for a
    using assms [OF that] by (cases "h a"; cases "h' a") (simp_all add: cost_of_def)
  then show ?thesis by (metis (no_types, lifting) map_eq_conv)
qed

lemma charge_current_accounted:
  assumes "runq_wf s ts" and "charge_current s = Some s'"
  shows "accounted s' ts = accounted s ts"
proof -
  obtain t where d: "deref (current_thread s) s = Some t" and h: "threads s (current_thread s) = Some t"
    using runq_wf_deref [OF assms(1) runq_wf_current [OF assms(1)]] by blast
  have dist: "distinct ts" using assms(1) by (simp add: runq_wf_def)
  let ?d = "global_thread_tick_counter s - tick_counter_last_cost s"
  let ?t = "t\<lparr>current_cost_ticks := current_cost_ticks t + ?d\<rparr>"
  have "sum_list (map (cost_of ((threads s)(current_thread s \<mapsto> ?t))) ts)
      = sum_list (map (cost_of (threads s)) ts) + ?d"
    by (rule cost_sum_upd [where h = "threads s" and t = t, OF dist runq_wf_current [OF assms(1)] h]) simp
  with charge_current_exact [OF d] assms(2) show ?thesis
    by (auto simp: accounted_def simp del: fun_upd_apply)
qed

end
