(* ===== verification/RT_Sched.thy ===== *)
theory RT_Sched
  imports RT_Clock RT_Example
begin

text \<open>
  The scheduler: the walk over the run queue that wakes threads and picks the next one
  (\<open>thread_yield\<close>), the switch to it (\<open>thread_start\<close>, \<open>do_switch\<close>, \<open>change_high\<close>), and the
  operations that end in a yield (\<open>thread_block\<close>, \<open>thread_unblock\<close>, \<open>tick_sleep\<close>, the timer
  interrupt). The state an operation returns is the one in which the thread that got the
  processor returns from its own call.
\<close>

section \<open>The context switch, as the C code sees it\<close>

text \<open>
  The call of \<open>do_switch\<close> and its 35 pushes lower the stack pointer by 37 bytes before it is
  stored in \<open>pxCurrentTCB_aux\<close>; the 35 pops and \<open>reti\<close> raise the new one by the same amount.
\<close>

definition change_high :: "kernel \<Rightarrow> kernel option" where
  "change_high s = do {
     let aux = push_bit 8 (ucast (pxCurrentTCB_aux1 s)) OR ucast (pxCurrentTCB_aux0 s);
     s \<leftarrow> upd_thread (current_thread s) (\<lambda>t. t\<lparr>sp := aux\<rparr>) s;
     s \<leftarrow> (if current_thread s \<noteq> next_thread s
           then do {
             n \<leftarrow> deref (next_thread s) s;
             Some (s\<lparr>pxCurrentTCB_aux0 := ucast (sp n AND 0xff),
                     pxCurrentTCB_aux1 := ucast (drop_bit 8 (sp n) AND 0xff)\<rparr>) }
           else Some s);
     Some (s\<lparr>current_thread := next_thread s\<rparr>) }"

definition switch_frame :: u16 where
  "switch_frame = 37"

definition do_switch :: "kernel \<Rightarrow> kernel option" where
  "do_switch s = do {
     let low = hw_sp s - switch_frame;
     s \<leftarrow> change_high (s\<lparr>pxCurrentTCB_aux0 := ucast low, pxCurrentTCB_aux1 := ucast (drop_bit 8 low)\<rparr>);
     let new = push_bit 8 (ucast (pxCurrentTCB_aux1 s)) OR ucast (pxCurrentTCB_aux0 s);
     Some (s\<lparr>hw_sp := new + switch_frame\<rparr>) }"

section \<open>Starting a thread and its pending asynchronous signals\<close>

partial_function (option) ats_loop :: "upcall \<Rightarrow> kernel \<Rightarrow> kernel option" where
  "ats_loop H s = do {
     t \<leftarrow> deref (current_thread s) s;
     (if ats_pending t \<noteq> 0
      then do {
        s \<leftarrow> upd_thread (current_thread s) (\<lambda>t. t\<lparr>ats_pending := ats_pending t - 1\<rparr>) s;
        t \<leftarrow> deref (current_thread s) s;
        s \<leftarrow> (if error_handler t \<noteq> NULL
              then H (error_handler t) SIMPLERTFRAMEWORK_ATS_SIGNAL s else Some s);
        ats_loop H s }
      else Some s) }"

definition ats_deliver :: "upcall \<Rightarrow> kernel \<Rightarrow> kernel option" where
  "ats_deliver H s = do {
     t \<leftarrow> deref (current_thread s) s;
     if ats_active t = 1 then ats_loop H s else Some s }"

definition thread_start :: "upcall \<Rightarrow> addr \<Rightarrow> kernel \<Rightarrow> kernel option" where
  "thread_start H th s = do {
     s \<leftarrow> do_switch (s\<lparr>next_thread := th\<rparr>);
     ats_deliver H s }"

section \<open>Yielding\<close>

text \<open>The two checks the walk makes on every thread: is its sleep over, has its signal window passed.\<close>

definition wake_check :: "u32 \<Rightarrow> u8 \<Rightarrow> thread \<Rightarrow> thread" where
  "wake_check now carry t =
     (if status t = SIMPLERTFRAMEWORK_SLEPT then
        let t = (if carry_ticks_to_wait t = 1
                 then (if carry = 1 then t\<lparr>carry_ticks_to_wait := 0\<rparr> else t) else t)
        in if carry_ticks_to_wait t = 0 \<and> ticks_to_wait t < now
           then t\<lparr>status := SIMPLERTFRAMEWORK_ACTIVE\<rparr> else t
      else t)"

definition signal_support :: "u32 \<Rightarrow> thread \<Rightarrow> thread" where
  "signal_support now t =
     (if status t = SIMPLERTFRAMEWORK_BLOCKED then
        if queue_last_input t + 2 * min_period_ticks t < now
        then t\<lparr>queue_last_input := queue_last_input t + min_period_ticks t\<rparr> else t
      else t)"

definition refresh :: "u32 \<Rightarrow> u8 \<Rightarrow> thread \<Rightarrow> thread" where
  "refresh now carry t = signal_support now (wake_check now carry t)"

partial_function (option) yield_loop :: "addr \<Rightarrow> addr \<Rightarrow> kernel \<Rightarrow> (addr \<times> kernel) option" where
  "yield_loop th th_candidate s = do {
     t \<leftarrow> deref th s;
     let th = (if runq_next t = NULL then thread_list s else runq_next t);
     let s = s\<lparr>next_thread := th\<rparr>;
     s \<leftarrow> upd_thread th (refresh (global_thread_tick_counter s) (carry_tick_counter s)) s;
     t \<leftarrow> deref th s;
     th_candidate \<leftarrow>
       (if status t = SIMPLERTFRAMEWORK_ACTIVE
        then do {
          c \<leftarrow> deref th_candidate s;
          Some (if priority c \<le> priority t \<and> next_thread s \<noteq> current_thread s
                then th else th_candidate) }
        else Some th_candidate);
     (if next_thread s \<noteq> current_thread s then yield_loop th th_candidate s
      else Some (th_candidate, s)) }"

definition overrun_check :: "kernel \<Rightarrow> kernel option" where
  "overrun_check s =
     upd_thread (current_thread s)
       (\<lambda>t. if max_cost_ticks t < current_cost_ticks t
            then t\<lparr>priority := SIMPLERTFRAMEWORK_OVERRUN_PRIO\<rparr> else t) s"

definition thread_yield :: "upcall \<Rightarrow> kernel \<Rightarrow> kernel option" where
  "thread_yield H s =
     (if thread_list s = NULL then Some s
      else do {
        (th_candidate, s) \<leftarrow> yield_loop (current_thread s) (thread_main_inf s) s;
        s \<leftarrow> charge_current s;
        s \<leftarrow> overrun_check s;
        let s = s\<lparr>next_thread := th_candidate\<rparr>;
        thread_start H (next_thread s) s })"

section \<open>Operations that end in a yield\<close>

definition thread_block :: "upcall \<Rightarrow> kernel \<Rightarrow> kernel option" where
  "thread_block H s = do {
     t \<leftarrow> deref (current_thread s) s;
     if status t = SIMPLERTFRAMEWORK_ACTIVE
     then do {
       s \<leftarrow> upd_thread (current_thread s) (\<lambda>t. t\<lparr>status := SIMPLERTFRAMEWORK_BLOCKED\<rparr>) s;
       thread_yield H s }
     else Some s }"

definition thread_unblock :: "upcall \<Rightarrow> addr \<Rightarrow> kernel \<Rightarrow> kernel option" where
  "thread_unblock H th s = do {
     t \<leftarrow> deref th s;
     if status t = SIMPLERTFRAMEWORK_BLOCKED
     then do {
       s \<leftarrow> upd_thread th (\<lambda>t. t\<lparr>status := SIMPLERTFRAMEWORK_ACTIVE\<rparr>) s;
       thread_yield H s }
     else Some s }"

text \<open>The first half of \<open>tick_sleep\<close>: what it writes before it yields.\<close>

definition set_sleep :: "u32 \<Rightarrow> u32 \<Rightarrow> thread \<Rightarrow> thread" where
  "set_sleep ticks now t =
     (let t = t\<lparr>status := SIMPLERTFRAMEWORK_SLEPT, ticks_to_wait := ticks + now\<rparr>
      in if ticks_to_wait t < now then t\<lparr>carry_ticks_to_wait := 1\<rparr>
         else t\<lparr>carry_ticks_to_wait := 0\<rparr>)"

definition tick_sleep :: "upcall \<Rightarrow> u32 \<Rightarrow> kernel \<Rightarrow> kernel option" where
  "tick_sleep H ticks s = do {
     s \<leftarrow> upd_thread (current_thread s) (set_sleep ticks (global_thread_tick_counter s)) s;
     thread_yield H s }"

definition thread_usleep :: "upcall \<Rightarrow> u32 \<Rightarrow> kernel \<Rightarrow> kernel option" where
  "thread_usleep H time_us s = do {
     s \<leftarrow> upd_thread (current_thread s) (\<lambda>t. t\<lparr>status := SIMPLERTFRAMEWORK_SLEPT\<rparr>) s;
     tick_sleep H (time_us div us_per_tick) s }"

section \<open>The walk over the run queue, on lists\<close>

definition ring_next :: "kernel \<Rightarrow> addr \<Rightarrow> addr" where
  "ring_next s a = (case threads s a of None \<Rightarrow> NULL
     | Some t \<Rightarrow> if runq_next t = NULL then thread_list s else runq_next t)"

fun ring_path :: "kernel \<Rightarrow> addr \<Rightarrow> addr list \<Rightarrow> bool" where
  "ring_path s a [] \<longleftrightarrow> True"
| "ring_path s a (b # bs) \<longleftrightarrow> ring_next s a = b \<and> ring_path s b bs"

lemma ring_path_append:
  "ring_path s a (bs @ cs) \<longleftrightarrow> ring_path s a bs \<and> ring_path s (last (a # bs)) cs"
  by (induction bs arbitrary: a) auto

lemma ring_path_runq:
  "runq (threads s) p (a # as) \<Longrightarrow> ring_path s a as"
proof (induction as arbitrary: p a)
  case (Cons b bs)
  then obtain t where t: "threads s a = Some t" and b: "runq (threads s) (runq_next t) (b # bs)"
    by (cases "threads s a") auto
  then have "ring_next s a = b" by (auto simp: ring_next_def)
  with Cons.IH [OF b] show ?case by simp
qed simp

lemma ring_path_ring_after:
  assumes "runq_wf s ts"
  shows "ring_path s (current_thread s) (ring_after (current_thread s) ts)"
proof -
  let ?c = "current_thread s"
  obtain xs ys where ts: "ts = xs @ ?c # ys" and x: "?c \<notin> set xs"
    using runq_wf_current [OF assms] by (meson split_list_first)
  have q: "runq (threads s) (thread_list s) (xs @ ?c # ys)"
    using assms ts by (simp add: runq_wf_def)
  have 1: "ring_path s ?c ys"
    by (rule ring_path_runq [OF runq_suffix [OF q]])
  let ?z = "last (?c # ys)"
  have "ring_next s ?z = hd (xs @ [?c])"
  proof -
    obtain us where us: "xs @ ?c # ys = us @ [?z]"
      by (metis append_butlast_last_id append_is_Nil_conv last_appendR list.distinct(1))
    with q have "runq (threads s) (thread_list s) (us @ [?z])" by simp
    then obtain t where t: "threads s ?z = Some t" and n: "runq_next t = NULL"
      using runq_last_NULL runq_live by (metis in_set_conv_decomp)
    have "thread_list s = hd (xs @ [?c])" using q by (cases xs) auto
    with t n show ?thesis by (simp add: ring_next_def)
  qed
  moreover have "ring_path s (hd (xs @ [?c])) (tl (xs @ [?c]))"
  proof -
    have "runq (threads s) (thread_list s) ((xs @ [?c]) @ ys)" using q by simp
    moreover have "runq h p (as @ bs) \<Longrightarrow> as \<noteq> [] \<Longrightarrow> ring_path s (hd as) (tl as)"
      if "h = threads s" for h p as bs
      using ring_path_runq [of s p "hd as" "tl as @ bs"] ring_path_append [of s "hd as" "tl as" bs] that
      by (cases as) auto
    ultimately show ?thesis by blast
  qed
  ultimately have "ring_path s ?z (xs @ [?c])" by (cases "xs @ [?c]") auto
  with 1 show ?thesis by (simp add: ts ring_after_split [OF x] ring_path_append)
qed

definition refresh_on :: "u32 \<Rightarrow> u8 \<Rightarrow> addr set \<Rightarrow> (addr \<rightharpoonup> thread) \<Rightarrow> (addr \<rightharpoonup> thread)" where
  "refresh_on now carry A h = (\<lambda>a. if a \<in> A then map_option (refresh now carry) (h a) else h a)"

definition prio :: "(addr \<rightharpoonup> thread) \<Rightarrow> addr \<Rightarrow> u8" where
  "prio h a = (case h a of None \<Rightarrow> 0 | Some t \<Rightarrow> priority t)"

definition active :: "(addr \<rightharpoonup> thread) \<Rightarrow> addr \<Rightarrow> bool" where
  "active h a = (case h a of None \<Rightarrow> False | Some t \<Rightarrow> status t = SIMPLERTFRAMEWORK_ACTIVE)"

fun pick :: "(addr \<rightharpoonup> thread) \<Rightarrow> addr \<Rightarrow> addr \<Rightarrow> addr list \<Rightarrow> addr" where
  "pick h cur cand [] = cand"
| "pick h cur cand (a # as) =
     pick h cur (if active h a \<and> prio h cand \<le> prio h a \<and> a \<noteq> cur then a else cand) as"

lemma refresh_keeps [simp]:
  "runq_next (refresh n c t) = runq_next t" "priority (refresh n c t) = priority t"
  "sp (refresh n c t) = sp t" "ats_active (refresh n c t) = ats_active t"
  "ats_pending (refresh n c t) = ats_pending t" "error_handler (refresh n c t) = error_handler t"
  "current_cost_ticks (refresh n c t) = current_cost_ticks t"
  "max_cost_ticks (refresh n c t) = max_cost_ticks t"
  "blocked_semaphore (refresh n c t) = blocked_semaphore t"
  "queue_pending (refresh n c t) = queue_pending t"
  by (simp_all add: refresh_def wake_check_def signal_support_def Let_def)

lemma refresh_on_empty [simp]: "refresh_on n c {} h = h"
  by (simp add: refresh_on_def)

lemma refresh_on_step:
  assumes "h a = Some t" and "a \<notin> A"
  shows "refresh_on n c A (h(a \<mapsto> refresh n c t)) = refresh_on n c (insert a A) h"
  using assms by (auto simp: refresh_on_def fun_eq_iff)

lemma refresh_on_other: "a \<notin> A \<Longrightarrow> refresh_on n c A h a = h a"
  by (simp add: refresh_on_def)

lemma refresh_on_mem: "a \<in> A \<Longrightarrow> refresh_on n c A h a = map_option (refresh n c) (h a)"
  by (simp add: refresh_on_def)

lemma prio_refresh_on [simp]: "prio (refresh_on n c A h) = prio h"
proof
  fix a show "prio (refresh_on n c A h) a = prio h a"
    by (cases "h a") (simp_all add: prio_def refresh_on_def)
qed

lemma refresh_on_next:
  "map_option runq_next (refresh_on n c A h a) = map_option runq_next (h a)"
  by (cases "h a") (simp_all add: refresh_on_def)

text \<open>One pass of the loop body.\<close>

lemma yield_loop_step:
  assumes "deref th s = Some t0" and "ring_next s th = x" and "x \<noteq> NULL"
    and "threads s x = Some t" and "deref cand s \<noteq> None"
    and "h = (threads s)(x \<mapsto> refresh (global_thread_tick_counter s) (carry_tick_counter s) t)"
    and "s' = s\<lparr>next_thread := x, threads := h\<rparr>"
    and "cand' = (if active h x \<and> prio h cand \<le> prio h x \<and> x \<noteq> current_thread s then x else cand)"
  shows "yield_loop th cand s = (if x \<noteq> current_thread s then yield_loop x cand' s' else Some (cand', s'))"
proof -
  from assms(5) obtain c where c: "cand \<noteq> NULL" "threads s cand = Some c"
    by (auto simp: deref_Some_iff)
  let ?t = "refresh (global_thread_tick_counter s) (carry_tick_counter s) t"
  have x: "(if runq_next t0 = NULL then thread_list s else runq_next t0) = x"
    using assms(1,2) by (simp add: ring_next_def deref_Some_iff)
  have c': "deref cand s' = Some (if cand = x then ?t else c)"
    using c assms by (simp add: deref_def)
  have p: "prio h cand = priority (if cand = x then ?t else c)" "prio h x = priority ?t"
    "active h x \<longleftrightarrow> status ?t = SIMPLERTFRAMEWORK_ACTIVE"
    using assms(6) c by (simp_all add: prio_def active_def)
  have u: "upd_thread x (refresh (global_thread_tick_counter s) (carry_tick_counter s)) (s\<lparr>next_thread := x\<rparr>) = Some s'"
    using assms by (simp add: upd_thread_def deref_def)
  have d: "deref x s' = Some ?t" using assms by (simp add: deref_def)
  have n: "next_thread s' = x" "current_thread s' = current_thread s"
    "global_thread_tick_counter (s\<lparr>next_thread := x\<rparr>) = global_thread_tick_counter s"
    "carry_tick_counter (s\<lparr>next_thread := x\<rparr>) = carry_tick_counter s"
    using assms(7) by simp_all
  have "yield_loop th cand s = (
     let cand1 = (if status ?t = SIMPLERTFRAMEWORK_ACTIVE then
           (if priority (if cand = x then ?t else c) \<le> priority ?t \<and> x \<noteq> current_thread s then x else cand)
         else cand)
     in if x \<noteq> current_thread s then yield_loop x cand1 s' else Some (cand1, s'))"
    by (subst yield_loop.simps, cases "status ?t = SIMPLERTFRAMEWORK_ACTIVE")
      (simp_all only: assms(1) x u d c' n Let_def bind.bind_lunit if_True if_False simp_thms)
  also have "\<dots> = (if x \<noteq> current_thread s then yield_loop x cand' s' else Some (cand', s'))"
    unfolding assms(8) p Let_def by (cases "status ?t = SIMPLERTFRAMEWORK_ACTIVE") simp_all
  finally show ?thesis .
qed

text \<open>A step of the walk changes no links.\<close>

lemma ring_path_step:
  assumes "threads s x = Some t"
  shows "ring_path (s\<lparr>next_thread := n, threads := (threads s)(x \<mapsto> refresh g c t)\<rparr>) a bs = ring_path s a bs"
proof -
  have "ring_next (s\<lparr>next_thread := n, threads := (threads s)(x \<mapsto> refresh g c t)\<rparr>) a = ring_next s a" for a
    using assms by (cases "threads s a"; cases "a = x") (simp_all add: ring_next_def)
  then show ?thesis by (induction bs arbitrary: a) auto
qed

lemma yield_loop_refines:
  assumes "ring_path s th (ys @ [cur])" and "cur = current_thread s" and "distinct (ys @ [cur])"
    and "deref th s \<noteq> None" and "deref cand s \<noteq> None"
    and "\<And>a. a \<in> set (ys @ [cur]) \<Longrightarrow> deref a s \<noteq> None"
    and "h = refresh_on (global_thread_tick_counter s) (carry_tick_counter s) (set (ys @ [cur])) (threads s)"
  shows "yield_loop th cand s
       = Some (pick h cur cand (ys @ [cur]), s\<lparr>next_thread := cur, threads := h\<rparr>)"
  using assms
proof (induction ys arbitrary: th cand s)
  case Nil
  let ?n = "global_thread_tick_counter s" and ?c = "carry_tick_counter s"
  from Nil.prems obtain t0 t where t0: "deref th s = Some t0" and t: "threads s cur = Some t" "cur \<noteq> NULL"
    by (auto simp: deref_Some_iff)
  have "refresh_on ?n ?c {cur} (threads s) = (threads s)(cur \<mapsto> refresh ?n ?c t)"
    by (rule ext) (simp add: refresh_on_def t)
  then have "h = (threads s)(cur \<mapsto> refresh ?n ?c t)"
    using Nil.prems(7) by (simp del: fun_upd_apply)
  from yield_loop_step [OF t0 _ t(2) t(1) Nil.prems(5) this refl refl] Nil.prems(1,2)
  show ?case by simp
next
  case (Cons x ys)
  let ?n = "global_thread_tick_counter s" and ?c = "carry_tick_counter s"
  from Cons.prems(4) obtain t0 where t0: "deref th s = Some t0" by auto
  from Cons.prems(6) [of x] obtain t where t: "threads s x = Some t" "x \<noteq> NULL"
    by (auto simp: deref_Some_iff)
  have x: "x \<notin> set (ys @ [cur])" "x \<noteq> current_thread s" using Cons.prems(2,3) by auto
  let ?h1 = "(threads s)(x \<mapsto> refresh ?n ?c t)"
  let ?s1 = "s\<lparr>next_thread := x, threads := ?h1\<rparr>"
  let ?cand1 = "if active ?h1 x \<and> prio ?h1 cand \<le> prio ?h1 x \<and> x \<noteq> current_thread s then x else cand"
  have h: "h = refresh_on ?n ?c (set (ys @ [cur])) ?h1"
    using Cons.prems(7) x(1) t(1) by (simp add: refresh_on_step)
  have live: "deref a s \<noteq> None \<Longrightarrow> deref a ?s1 \<noteq> None" for a
    using t(2) by (auto simp: deref_def)
  have path: "ring_path ?s1 x (ys @ [cur])" using Cons.prems(1) ring_path_step [OF t(1)] by simp
  have "yield_loop th cand s = yield_loop x ?cand1 ?s1"
    using yield_loop_step [OF t0 _ t(2) t(1) Cons.prems(5) refl refl refl] Cons.prems(1) x(2) by simp
  also have "\<dots> = Some (pick h cur ?cand1 (ys @ [cur]), ?s1\<lparr>next_thread := cur, threads := h\<rparr>)"
  proof (rule Cons.IH [OF path])
    show "cur = current_thread ?s1" using Cons.prems(2) by simp
    show "distinct (ys @ [cur])" using Cons.prems(3) by simp
    show "deref x ?s1 \<noteq> None" using t by (simp add: deref_def)
    show "deref ?cand1 ?s1 \<noteq> None"
      by (rule if_both [where P = "\<lambda>a. deref a ?s1 \<noteq> None"], simp add: deref_def t)
        (rule live [OF Cons.prems(5)])
    show "deref a ?s1 \<noteq> None" if "a \<in> set (ys @ [cur])" for a
      by (rule live [OF Cons.prems(6)]) (use that in auto)
    show "h = refresh_on (global_thread_tick_counter ?s1) (carry_tick_counter ?s1)
        (set (ys @ [cur])) (threads ?s1)" using h by simp
  qed
  also have "?cand1 = (if active h x \<and> prio h cand \<le> prio h x \<and> x \<noteq> cur then x else cand)"
    using h x(1) Cons.prems(2) by (simp add: active_def refresh_on_other)
  finally show ?case by simp
qed

section \<open>What the walk picks\<close>

lemma pick_mem: "pick h cur cand as \<in> insert cand (set as)"
proof (induction as arbitrary: cand)
  case (Cons a as)
  show ?case
    using Cons.IH [of "if active h a \<and> prio h cand \<le> prio h a \<and> a \<noteq> cur then a else cand"]
    by (auto split: if_splits)
qed simp

lemma pick_prio_ge: "prio h cand \<le> prio h (pick h cur cand as)"
proof (induction as arbitrary: cand)
  case (Cons a as)
  let ?c = "if active h a \<and> prio h cand \<le> prio h a \<and> a \<noteq> cur then a else cand"
  have "prio h cand \<le> prio h ?c" by simp
  also have "prio h ?c \<le> prio h (pick h cur ?c as)" by (rule Cons.IH)
  finally show ?case by simp
qed simp

lemma pick_max:
  "a \<in> set as \<Longrightarrow> active h a \<Longrightarrow> a \<noteq> cur \<Longrightarrow> prio h a \<le> prio h (pick h cur cand as)"
proof (induction as arbitrary: cand)
  case (Cons b as)
  let ?c = "if active h b \<and> prio h cand \<le> prio h b \<and> b \<noteq> cur then b else cand"
  show ?case
  proof (cases "a = b")
    case True
    with Cons.prems have "prio h a \<le> prio h ?c" by auto
    also have "prio h ?c \<le> prio h (pick h cur ?c as)" by (rule pick_prio_ge)
    finally show ?thesis by simp
  next
    case False
    with Cons show ?thesis by simp
  qed
qed simp

lemma pick_active:
  "pick h cur cand as = cand \<or> active h (pick h cur cand as) \<and> pick h cur cand as \<noteq> cur"
proof (induction as arbitrary: cand)
  case (Cons a as)
  show ?case
    using Cons.IH [of a] Cons.IH [of cand] by auto
qed simp

text \<open>Among equals the walk keeps the one it meets last.\<close>

lemma pick_last:
  assumes "active h a" and "a \<noteq> cur" and "prio h (pick h cur cand (xs @ a # ys)) \<le> prio h a"
  shows "pick h cur cand (xs @ a # ys) \<in> insert a (set ys)"
proof -
  have "\<exists>c. pick h cur cand (xs @ as) = pick h cur c as" for as
    by (induction xs arbitrary: cand) auto
  then obtain c where c: "pick h cur cand (xs @ a # ys) = pick h cur c (a # ys)" by blast
  show ?thesis
  proof (cases "prio h c \<le> prio h a")
    case True
    with assms c have "pick h cur cand (xs @ a # ys) = pick h cur a ys" by simp
    then show ?thesis using pick_mem by metis
  next
    case False
    with pick_prio_ge [of h c cur "a # ys"] assms(3) c show ?thesis by simp
  qed
qed

section \<open>The switch\<close>

lemma bytes_of_u16:
  fixes w :: u16
  shows "push_bit 8 (ucast (ucast (drop_bit 8 w) :: u8)) OR ucast (ucast w :: u8) = w"
  by (rule bit_word_eqI) (auto simp: bit_simps)

lemma u16_low_mask: "(0xff :: u16) = mask 8"
  by (simp add: mask_eq_exp_minus_1)

lemma bytes_of_u16_masked:
  fixes w :: u16
  shows "push_bit 8 (ucast (ucast (drop_bit 8 w AND 0xff) :: u8)) OR ucast (ucast (w AND 0xff) :: u8) = w"
  unfolding u16_low_mask by (rule bit_word_eqI) (auto simp: bit_simps)

text \<open>The stack pointer the processor has after the switch, and the state it leaves.\<close>

definition switched :: "kernel \<Rightarrow> addr \<Rightarrow> thread \<Rightarrow> thread \<Rightarrow> kernel" where
  "switched s n t u =
     (let low = hw_sp s - switch_frame; new = (if n = current_thread s then low else sp u) in
      s\<lparr>next_thread := n, threads := (threads s)(current_thread s \<mapsto> t\<lparr>sp := low\<rparr>),
        pxCurrentTCB_aux0 := ucast new, pxCurrentTCB_aux1 := ucast (drop_bit 8 new),
        current_thread := n, hw_sp := new + switch_frame\<rparr>)"

lemma ucast_mask_u8: "(ucast (w AND 0xff :: u16) :: u8) = ucast w"
  unfolding u16_low_mask by (rule bit_word_eqI) (auto simp: bit_simps)

lemma do_switch_exact:
  assumes "deref (current_thread s) s = Some t" and "deref n s = Some u"
  shows "do_switch (s\<lparr>next_thread := n\<rparr>) = Some (switched s n t u)"
proof (cases "n = current_thread s")
  case True
  with assms show ?thesis
    by (simp add: do_switch_def change_high_def upd_thread_def deref_def bytes_of_u16 switched_def
        Let_def split: if_splits)
next
  case False
  with assms show ?thesis
    by (simp add: do_switch_def change_high_def upd_thread_def deref_def bytes_of_u16 switched_def
        ucast_mask_u8 Let_def split: if_splits)
qed

section \<open>A yield in one equation\<close>

definition account :: "u32 \<Rightarrow> thread \<Rightarrow> thread" where
  "account d t =
     (let t = t\<lparr>current_cost_ticks := current_cost_ticks t + d\<rparr>
      in if max_cost_ticks t < current_cost_ticks t
         then t\<lparr>priority := SIMPLERTFRAMEWORK_OVERRUN_PRIO\<rparr> else t)"

lemma account_keeps [simp]:
  "runq_next (account d t) = runq_next t" "sp (account d t) = sp t" "status (account d t) = status t"
  "ats_active (account d t) = ats_active t" "ats_pending (account d t) = ats_pending t"
  "error_handler (account d t) = error_handler t"
  "current_cost_ticks (account d t) = current_cost_ticks t + d"
  "max_cost_ticks (account d t) = max_cost_ticks t"
  "blocked_semaphore (account d t) = blocked_semaphore t"
  "queue_pending (account d t) = queue_pending t"
  by (simp_all add: account_def Let_def)

definition yield_heap :: "kernel \<Rightarrow> addr list \<Rightarrow> (addr \<rightharpoonup> thread)" where
  "yield_heap s ts = refresh_on (global_thread_tick_counter s) (carry_tick_counter s) (set ts) (threads s)"

definition yield_pick :: "kernel \<Rightarrow> addr list \<Rightarrow> addr" where
  "yield_pick s ts = pick (yield_heap s ts) (current_thread s) (thread_main_inf s)
     (ring_after (current_thread s) ts)"

definition yield_result :: "kernel \<Rightarrow> addr list \<Rightarrow> kernel" where
  "yield_result s ts =
     (let h = yield_heap s ts; n = yield_pick s ts;
          t = account (global_thread_tick_counter s - tick_counter_last_cost s) (the (h (current_thread s)));
          h = h(current_thread s \<mapsto> t)
      in switched (s\<lparr>threads := h, tick_counter_last_cost := global_thread_tick_counter s\<rparr>) n t (the (h n)))"

lemma yield_heap_live:
  assumes "runq_wf s ts" and "a \<in> set ts"
  obtains t where "threads s a = Some t" and "yield_heap s ts a = Some (refresh (global_thread_tick_counter s) (carry_tick_counter s) t)"
    and "a \<noteq> NULL"
  using runq_wf_deref [OF assms] assms(2) by (auto simp: yield_heap_def refresh_on_def deref_Some_iff)

lemma yield_pick_mem:
  assumes "runq_wf s ts"
  shows "yield_pick s ts \<in> set ts"
proof -
  have "yield_pick s ts \<in> insert (thread_main_inf s) (set (ring_after (current_thread s) ts))"
    unfolding yield_pick_def by (rule pick_mem)
  also have "set (ring_after (current_thread s) ts) = set ts"
    using set_ring_after [OF runq_wf_current [OF assms]] assms by (simp add: runq_wf_def)
  finally show ?thesis using runq_wf_main [OF assms] by (metis insertE)
qed

lemma yield_loop_wf:
  assumes "runq_wf s ts"
  shows "yield_loop (current_thread s) (thread_main_inf s) s = Some (yield_pick s ts,
     s\<lparr>next_thread := current_thread s, threads := yield_heap s ts\<rparr>)"
proof -
  let ?c = "current_thread s"
  have c: "?c \<in> set ts" and m: "thread_main_inf s \<in> set ts" and d: "distinct ts"
    using assms runq_wf_current runq_wf_main by (auto simp: runq_wf_def)
  obtain ys where ys: "ring_after ?c ts = ys @ [?c]" using ring_after_ends [of ?c ts] by auto
  have set: "set (ys @ [?c]) = set ts" using set_ring_after [OF c d] ys by simp
  have dist: "distinct (ys @ [?c])" using distinct_ring_after [OF c d] ys by simp
  have live: "a \<in> set ts \<Longrightarrow> deref a s \<noteq> None" for a using runq_wf_deref [OF assms] by auto
  have "yield_loop ?c (thread_main_inf s) s = Some (pick (yield_heap s ts) ?c (thread_main_inf s) (ys @ [?c]),
     s\<lparr>next_thread := ?c, threads := yield_heap s ts\<rparr>)"
  proof (rule yield_loop_refines [OF _ refl dist])
    show "ring_path s ?c (ys @ [?c])" using ring_path_ring_after [OF assms] ys by simp
    show "yield_heap s ts = refresh_on (global_thread_tick_counter s) (carry_tick_counter s)
        (set (ys @ [?c])) (threads s)" unfolding set yield_heap_def ..
  qed (use live c m set in auto)
  then show ?thesis by (simp add: yield_pick_def ys)
qed

theorem thread_yield_exact:
  assumes "runq_wf s ts"
  shows "thread_yield H s = ats_deliver H (yield_result s ts)"
proof -
  let ?c = "current_thread s" and ?n = "yield_pick s ts" and ?h = "yield_heap s ts"
  let ?d = "global_thread_tick_counter s - tick_counter_last_cost s"
  obtain t where t: "?h ?c = Some t" and c: "?c \<noteq> NULL"
    using yield_heap_live [OF assms runq_wf_current [OF assms]] by blast
  obtain u where u: "?h ?n = Some u" and n: "?n \<noteq> NULL"
    using yield_heap_live [OF assms yield_pick_mem [OF assms]] by blast
  let ?s1 = "s\<lparr>next_thread := ?c, threads := ?h\<rparr>"
  let ?t2 = "t\<lparr>current_cost_ticks := current_cost_ticks t + ?d\<rparr>"
  let ?s2 = "?s1\<lparr>threads := ?h(?c \<mapsto> ?t2), tick_counter_last_cost := global_thread_tick_counter s\<rparr>"
  let ?s3 = "s\<lparr>threads := ?h(?c \<mapsto> account ?d t), tick_counter_last_cost := global_thread_tick_counter s\<rparr>"
  have 1: "charge_current ?s1 = Some ?s2"
    using charge_current_exact [of ?s1 t] t c by (simp add: deref_def)
  have 2: "overrun_check ?s2 = Some (?s3\<lparr>next_thread := ?c\<rparr>)"
    using c by (simp add: overrun_check_def upd_thread_def deref_def account_def Let_def)
  have "deref ?n ?s3 = Some (the ((?h(?c \<mapsto> account ?d t)) ?n))"
    using u n by (simp add: deref_def)
  moreover have "deref (current_thread ?s3) ?s3 = Some (account ?d t)" using c by (simp add: deref_def)
  ultimately have "do_switch (?s3\<lparr>next_thread := ?n\<rparr>) = Some (switched ?s3 ?n (account ?d t) (the ((?h(?c \<mapsto> account ?d t)) ?n)))"
    by (intro do_switch_exact)
  then have 3: "do_switch (?s3\<lparr>next_thread := ?n\<rparr>) = Some (yield_result s ts)"
    using t by (simp add: yield_result_def Let_def)
  have "thread_yield H s = thread_start H ?n (?s3\<lparr>next_thread := ?n\<rparr>)"
    using runq_wf_list_nonnull [OF assms]
    by (simp only: thread_yield_def yield_loop_wf [OF assms] 1 2 Let_def bind.bind_lunit prod.case if_False)
      simp
  then show ?thesis by (simp add: thread_start_def 3)
qed

section \<open>A yield keeps the invariant\<close>

lemma yield_result_next:
  assumes "runq_wf s ts"
  shows "map_option runq_next (threads (yield_result s ts) a) = map_option runq_next (threads s a)"
proof -
  obtain t where "yield_heap s ts (current_thread s) = Some t"
    using yield_heap_live [OF assms runq_wf_current [OF assms]] by blast
  moreover have "map_option runq_next (yield_heap s ts b) = map_option runq_next (threads s b)" for b
    by (simp add: yield_heap_def refresh_on_next)
  from this [of "current_thread s"] this [of a]
  have "map_option runq_next (yield_heap s ts (current_thread s)) = map_option runq_next (threads s (current_thread s))"
    and "map_option runq_next (yield_heap s ts a) = map_option runq_next (threads s a)" by auto
  ultimately show ?thesis by (auto simp: yield_result_def switched_def Let_def)
qed

lemma yield_result_fields [simp]:
  "current_thread (yield_result s ts) = yield_pick s ts"
  "thread_list (yield_result s ts) = thread_list s"
  "thread_main_inf (yield_result s ts) = thread_main_inf s"
  "global_thread_tick_counter (yield_result s ts) = global_thread_tick_counter s"
  "tick_counter_last_cost (yield_result s ts) = global_thread_tick_counter s"
  "tick_counter_previous (yield_result s ts) = tick_counter_previous s"
  "carry_tick_counter (yield_result s ts) = carry_tick_counter s"
  "yield_count (yield_result s ts) = yield_count s"
  "sems (yield_result s ts) = sems s" "queues (yield_result s ts) = queues s"
  "blocks (yield_result s ts) = blocks s" "answers (yield_result s ts) = answers s"
  "mem (yield_result s ts) = mem s"
  by (simp_all add: yield_result_def switched_def Let_def)

lemma yield_result_wf:
  assumes "runq_wf s ts"
  shows "runq_wf (yield_result s ts) ts"
  by (rule runq_wf_cong [OF _ _ _ _ assms])
    (simp_all add: yield_pick_mem [OF assms] yield_result_next [OF assms])

text \<open>A thread above all others gets the processor.\<close>

lemma yield_pick_top:
  assumes "runq_wf s ts" and "th \<in> set ts" and "active (yield_heap s ts) th" and "th \<noteq> current_thread s"
    and "\<And>a. a \<in> set ts \<Longrightarrow> a \<noteq> th \<Longrightarrow> prio (threads s) a < prio (threads s) th"
  shows "yield_pick s ts = th"
proof (rule ccontr)
  assume "yield_pick s ts \<noteq> th"
  then have "prio (threads s) (yield_pick s ts) < prio (threads s) th"
    using assms(5) yield_pick_mem [OF assms(1)] by blast
  moreover have "th \<in> set (ring_after (current_thread s) ts)"
    using set_ring_after [OF runq_wf_current [OF assms(1)]] assms(1,2) by (simp add: runq_wf_def)
  then have "prio (yield_heap s ts) th \<le> prio (yield_heap s ts) (yield_pick s ts)"
    unfolding yield_pick_def using assms(3,4) by (rule pick_max)
  ultimately show False by (simp add: yield_heap_def)
qed

section \<open>Delivering asynchronous signals\<close>

definition ats_left :: "kernel \<Rightarrow> u32" where
  "ats_left s = (case threads s (current_thread s) of None \<Rightarrow> 0 | Some t \<Rightarrow> ats_pending t)"

text \<open>
  What the application's handlers have to respect: a handler returns in the thread that called it,
  keeps the invariant of the kernel, and does not add to the signals pending for its own thread.
\<close>

definition handler_ok :: "upcall \<Rightarrow> bool" where
  "handler_ok H \<longleftrightarrow> (\<forall>f e s. kernel_wf s \<longrightarrow>
     (\<exists>s'. H f e s = Some s' \<and> kernel_wf s' \<and> current_thread s' = current_thread s
        \<and> ats_left s' \<le> ats_left s))"

lemma handler_okD:
  assumes "handler_ok H" and "kernel_wf s"
  obtains s' where "H f e s = Some s'" and "kernel_wf s'" and "current_thread s' = current_thread s"
    and "ats_left s' \<le> ats_left s"
  using assms unfolding handler_ok_def by blast

lemma kernel_wf_upd_thread:
  assumes "kernel_wf s" and "upd_thread a f s = Some s'" and "\<And>t. runq_next (f t) = runq_next t"
  shows "kernel_wf s'"
  using assms by (meson kernel_wf_def runq_wf_upd_thread)

lemma kernel_wf_current:
  assumes "kernel_wf s"
  obtains t where "deref (current_thread s) s = Some t" and "threads s (current_thread s) = Some t"
    and "current_thread s \<noteq> NULL"
  using assms runq_wf_deref runq_wf_current by (metis deref_Some_iff kernel_wfE)

lemma ats_loop_ok:
  assumes "handler_ok H"
  shows "kernel_wf s \<Longrightarrow>
    \<exists>s'. ats_loop H s = Some s' \<and> kernel_wf s' \<and> current_thread s' = current_thread s \<and> ats_left s' = 0"
proof (induction "unat (ats_left s)" arbitrary: s rule: less_induct)
  case less
  let ?c = "current_thread s"
  obtain t where t: "deref ?c s = Some t" and h: "threads s ?c = Some t" and c: "?c \<noteq> NULL"
    using kernel_wf_current [OF less.prems] .
  show ?case
  proof (cases "ats_pending t = 0")
    case True
    with t h less.prems show ?thesis by (subst ats_loop.simps) (simp add: ats_left_def)
  next
    case False
    let ?t1 = "t\<lparr>ats_pending := ats_pending t - 1\<rparr>"
    let ?s1 = "s\<lparr>threads := (threads s)(?c \<mapsto> ?t1)\<rparr>"
    have u: "upd_thread ?c (\<lambda>t. t\<lparr>ats_pending := ats_pending t - 1\<rparr>) s = Some ?s1"
      by (simp add: upd_thread_def t)
    have wf1: "kernel_wf ?s1" by (rule kernel_wf_upd_thread [OF less.prems u]) simp
    have d1: "deref ?c ?s1 = Some ?t1" using c by (simp add: deref_def)
    have "unat (ats_pending t - 1) < unat (ats_pending t)"
      using False by (metis measure_unat)
    then have l1: "unat (ats_left ?s1) < unat (ats_left s)" by (simp add: ats_left_def h)
    obtain s2 where s2: "(if error_handler ?t1 \<noteq> NULL
          then H (error_handler ?t1) SIMPLERTFRAMEWORK_ATS_SIGNAL ?s1 else Some ?s1) = Some s2"
      and wf2: "kernel_wf s2" and c2: "current_thread s2 = ?c" and l2: "ats_left s2 \<le> ats_left ?s1"
    proof (cases "error_handler ?t1 = NULL")
      case True
      then show ?thesis using that [of ?s1] wf1 by simp
    next
      case False
      obtain s' where "H (error_handler ?t1) SIMPLERTFRAMEWORK_ATS_SIGNAL ?s1 = Some s'"
        and "kernel_wf s'" and "current_thread s' = current_thread ?s1" and "ats_left s' \<le> ats_left ?s1"
        using handler_okD [OF assms wf1] .
      then show ?thesis using that [of s'] False by simp
    qed
    have "ats_loop H s = ats_loop H s2"
      using False s2 by (subst ats_loop.simps) (simp add: t u d1)
    moreover have "unat (ats_left s2) < unat (ats_left s)"
      using word_le_nat_alt [THEN iffD1, OF l2] l1 by (rule le_less_trans)
    ultimately show ?thesis using less.hyps [OF _ wf2] c2 by simp
  qed
qed

lemma ats_deliver_ok:
  assumes "handler_ok H" and "kernel_wf s"
  shows "\<exists>s'. ats_deliver H s = Some s' \<and> kernel_wf s' \<and> current_thread s' = current_thread s"
proof -
  obtain t where "deref (current_thread s) s = Some t" using kernel_wf_current [OF assms(2)] .
  then show ?thesis using ats_loop_ok [OF assms] assms(2) by (auto simp: ats_deliver_def)
qed

lemma ats_deliver_idle:
  assumes "threads s (current_thread s) = Some t" and "current_thread s \<noteq> NULL"
    and "ats_active t \<noteq> 1 \<or> ats_pending t = 0"
  shows "ats_deliver H s = Some s"
  using assms by (subst ats_deliver_def, subst ats_loop.simps) (auto simp: deref_def)

text \<open>
  What each delivery leaves alone, all deliveries leave alone: a relation between states that the
  handlers and the count of pending signals respect, the whole loop respects.
\<close>

lemma ats_loop_frame:
  assumes refl: "\<And>s. R s s" and trans: "\<And>s s1 s2. R s s1 \<Longrightarrow> R s1 s2 \<Longrightarrow> R s s2"
    and count: "\<And>s s1. upd_thread (current_thread s) (\<lambda>t. t\<lparr>ats_pending := ats_pending t - 1\<rparr>) s = Some s1 \<Longrightarrow> R s s1"
    and handler: "\<And>f e s s1. H f e s = Some s1 \<Longrightarrow> R s s1"
    and "ats_loop H s = Some s'"
  shows "R s s'"
proof -
  have "H = H \<longrightarrow> R s s'"
  proof (rule ats_loop.raw_induct [where P = "\<lambda>H' s s'. H' = H \<longrightarrow> R s s'", OF _ assms(5)], rule impI)
    fix loop H' s s'
    assume IH: "\<And>H' s s'. loop H' s = Some s' \<Longrightarrow> H' = H \<longrightarrow> R s s'" and H': "H' = H"
      and step: "do {
        t \<leftarrow> deref (current_thread s) s;
        (if ats_pending t \<noteq> 0
         then do {
           s \<leftarrow> upd_thread (current_thread s) (\<lambda>t. t\<lparr>ats_pending := ats_pending t - 1\<rparr>) s;
           t \<leftarrow> deref (current_thread s) s;
           s \<leftarrow> (if error_handler t \<noteq> NULL
                 then H' (error_handler t) SIMPLERTFRAMEWORK_ATS_SIGNAL s else Some s);
           loop H' s }
         else Some s) } = Some s'"
    from step obtain t where t: "deref (current_thread s) s = Some t" by (cases "deref (current_thread s) s") auto
    show "R s s'"
    proof (cases "ats_pending t = 0")
      case True
      with step t refl show ?thesis by simp
    next
      case False
      define t1 where "t1 = t\<lparr>ats_pending := ats_pending t - 1\<rparr>"
      define s1 where "s1 = s\<lparr>threads := (threads s)(current_thread s \<mapsto> t1)\<rparr>"
      have s1: "upd_thread (current_thread s) (\<lambda>t. t\<lparr>ats_pending := ats_pending t - 1\<rparr>) s = Some s1"
        using t by (simp add: upd_thread_def s1_def t1_def)
      have t1: "deref (current_thread s1) s1 = Some t1" using t by (simp add: s1_def deref_Some_iff)
      let ?m = "if error_handler t1 \<noteq> NULL then H (error_handler t1) SIMPLERTFRAMEWORK_ATS_SIGNAL s1 else Some s1"
      have "Option.bind ?m (loop H) = Some s'"
        using step False by (simp only: t s1 t1 H' bind.bind_lunit if_True simp_thms)
      then obtain s2 where s2: "?m = Some s2" and l: "loop H s2 = Some s'"
        unfolding bind_eq_Some_conv by (elim exE conjE)
      have "R s1 s2" using s2 handler refl by (cases "error_handler t1 = NULL") auto
      moreover have "R s2 s'" using IH [OF l] by blast
      ultimately show ?thesis using trans count [OF s1] by blast
    qed
  qed
  then show ?thesis by simp
qed

lemma ats_deliver_frame:
  assumes "\<And>s. R s s" and "\<And>s s1 s2. R s s1 \<Longrightarrow> R s1 s2 \<Longrightarrow> R s s2"
    and "\<And>s s1. upd_thread (current_thread s) (\<lambda>t. t\<lparr>ats_pending := ats_pending t - 1\<rparr>) s = Some s1 \<Longrightarrow> R s s1"
    and "\<And>f e s s1. H f e s = Some s1 \<Longrightarrow> R s s1"
    and "ats_deliver H s = Some s'"
  shows "R s s'"
proof (cases "deref (current_thread s) s")
  case None
  with assms(5) show ?thesis by (simp add: ats_deliver_def)
next
  case (Some t)
  show ?thesis
  proof (cases "ats_active t = 1")
    case True
    with assms(5) Some have "ats_loop H s = Some s'" by (simp add: ats_deliver_def)
    with assms(1-4) show ?thesis by (rule ats_loop_frame)
  next
    case False
    with assms(1,5) Some show ?thesis by (simp add: ats_deliver_def)
  qed
qed

section \<open>Operations that keep the kernel in order\<close>

text \<open>
  The contract between the library's operations and their callers: from a well-formed kernel an
  operation returns (it reaches no undefined behaviour and loops for ever nowhere), and the kernel
  is well formed again.
\<close>

locale kernel_op =
  fixes op :: "upcall \<Rightarrow> kernel \<Rightarrow> kernel option"
  assumes op_safe: "handler_ok H \<Longrightarrow> kernel_wf s \<Longrightarrow> \<exists>s'. op H s = Some s' \<and> kernel_wf s'"
begin

lemma op_cases:
  assumes "handler_ok H" and "kernel_wf s"
  obtains s' where "op H s = Some s'" and "kernel_wf s'"
  using op_safe [OF assms] by blast

lemma op_keeps: "handler_ok H \<Longrightarrow> kernel_wf s \<Longrightarrow> op H s = Some s' \<Longrightarrow> kernel_wf s'"
  using op_safe by fastforce

text \<open>Any number of calls in a row.\<close>

lemma op_repeat:
  assumes "handler_ok H"
  shows "kernel_wf s \<Longrightarrow> \<exists>s'. ((\<lambda>m. Option.bind m (op H)) ^^ n) (Some s) = Some s' \<and> kernel_wf s'"
proof (induction n)
  case (Suc n)
  then obtain s' where "((\<lambda>m. Option.bind m (op H)) ^^ n) (Some s) = Some s'" and wf: "kernel_wf s'"
    by blast
  then show ?case using op_safe [OF assms wf] by simp
qed simp

text \<open>An update of one thread that keeps its link, followed by the operation.\<close>

lemma op_after_update:
  assumes "handler_ok H" and "kernel_wf s" and "\<And>t. runq_next (f t) = runq_next t"
    and "upd_thread a f s = Some s1"
  shows "\<exists>s'. op H s1 = Some s' \<and> kernel_wf s'"
  by (rule op_safe [OF assms(1)]) (rule kernel_wf_upd_thread [OF assms(2,4,3)])

end

lemma thread_yield_safe:
  assumes "handler_ok H" and "kernel_wf s"
  shows "\<exists>s'. thread_yield H s = Some s' \<and> kernel_wf s'"
proof -
  obtain ts where ts: "runq_wf s ts" using assms(2) by (rule kernel_wfE)
  have "kernel_wf (yield_result s ts)" by (rule kernel_wfI) (rule yield_result_wf [OF ts])
  from ats_deliver_ok [OF assms(1) this] show ?thesis
    unfolding thread_yield_exact [OF ts] by blast
qed

interpretation yielding: kernel_op thread_yield
  by unfold_locales (rule thread_yield_safe)

lemma no_handler_ok: "handler_ok no_handler"
  by (simp add: handler_ok_def no_handler_def)

lemma thread_yield_outcome:
  assumes "runq_wf s ts" and "handler_ok H"
  shows "\<exists>s'. thread_yield H s = Some s' \<and> current_thread s' \<in> set ts
    \<and> (current_thread s' = thread_main_inf s
       \<or> active (yield_heap s ts) (current_thread s') \<and> current_thread s' \<noteq> current_thread s)
    \<and> (\<forall>a \<in> insert (thread_main_inf s) (set ts).
         (active (yield_heap s ts) a \<or> a = thread_main_inf s) \<and> a \<noteq> current_thread s
         \<longrightarrow> prio (threads s) a \<le> prio (threads s) (current_thread s'))"
proof -
  have "kernel_wf (yield_result s ts)" by (rule kernel_wfI) (rule yield_result_wf [OF assms(1)])
  from ats_deliver_ok [OF assms(2) this]
  obtain s' where s': "thread_yield H s = Some s'" and c: "current_thread s' = yield_pick s ts"
    unfolding thread_yield_exact [OF assms(1)] by auto
  have p: "prio (yield_heap s ts) = prio (threads s)" by (simp add: yield_heap_def)
  have "set (ring_after (current_thread s) ts) = set ts"
    using set_ring_after [OF runq_wf_current [OF assms(1)]] assms(1) by (simp add: runq_wf_def)
  then have "prio (threads s) a \<le> prio (threads s) (yield_pick s ts)"
    if "a \<in> set ts" "active (yield_heap s ts) a" "a \<noteq> current_thread s" for a
    using pick_max [OF _ that(2,3), of "ring_after (current_thread s) ts" "thread_main_inf s"] that(1)
    unfolding yield_pick_def p by simp
  moreover have "prio (threads s) (thread_main_inf s) \<le> prio (threads s) (yield_pick s ts)"
    using pick_prio_ge [of "yield_heap s ts" "thread_main_inf s"] unfolding yield_pick_def p by simp
  moreover have "yield_pick s ts = thread_main_inf s
      \<or> active (yield_heap s ts) (yield_pick s ts) \<and> yield_pick s ts \<noteq> current_thread s"
    unfolding yield_pick_def by (rule pick_active)
  ultimately show ?thesis
    using s' c yield_pick_mem [OF assms(1)] runq_wf_main [OF assms(1)] by auto
qed

section \<open>Properties\<close>

text \<open>C4: a yield always returns, and the thread it gives the processor to is in the run queue, is
  the main thread or an active thread other than the caller, and has the highest priority of all
  active threads other than the caller (woken by this very yield or active before).\<close>

theorem thread_yield_priority:
  assumes "runq_wf s ts" and "handler_ok H"
  shows "\<exists>s'. thread_yield H s = Some s' \<and> current_thread s' \<in> set ts
    \<and> (current_thread s' = thread_main_inf s
       \<or> active (yield_heap s ts) (current_thread s') \<and> current_thread s' \<noteq> current_thread s)
    \<and> (\<forall>a \<in> insert (thread_main_inf s) (set ts).
         (active (yield_heap s ts) a \<or> a = thread_main_inf s) \<and> a \<noteq> current_thread s
         \<longrightarrow> prio (threads s) a \<le> prio (threads s) (current_thread s'))"
  using assms by (rule thread_yield_outcome)

theorem thread_yield_priority_witness:
  "\<exists>s'. thread_yield no_handler demo = Some s' \<and> current_thread s' = 0x200"
proof -
  have "active (yield_heap demo demo_list) 0x200"
    by (simp add: active_def yield_heap_def refresh_on_def refresh_def wake_check_def signal_support_def
        demo_defs rt_consts)
  moreover have "0x200 \<noteq> current_thread demo" and "0x200 \<in> set demo_list" by (simp_all add: demo_defs)
  ultimately obtain s' where "thread_yield no_handler demo = Some s'" and "current_thread s' \<in> set demo_list"
    and "prio (threads demo) 0x200 \<le> prio (threads demo) (current_thread s')"
    using thread_yield_priority [OF demo_runq_wf no_handler_ok] by auto
  then show ?thesis by (auto simp: prio_def demo_defs)
qed

text \<open>C5: the walk over the linked run queue refines its list description: from a well-formed
  kernel \<open>thread_yield\<close> visits every thread of the queue exactly once, starting behind the caller
  and ending on it, and returns the state \<open>yield_result\<close> computes from the list of the queue (with
  the pending asynchronous signals of the thread switched to delivered); the queue is unchanged.\<close>

theorem thread_yield_refines:
  assumes "runq_wf s ts"
  shows "thread_yield H s = ats_deliver H (yield_result s ts)
    \<and> runq_wf (yield_result s ts) ts
    \<and> current_thread (yield_result s ts) = pick (yield_heap s ts) (current_thread s) (thread_main_inf s)
          (ring_after (current_thread s) ts)"
  using thread_yield_exact [OF assms] yield_result_wf [OF assms] by (simp_all add: yield_pick_def)

theorem thread_yield_refines_witness:
  "thread_yield no_handler demo = ats_deliver no_handler (yield_result demo demo_list)
   \<and> runq_wf (yield_result demo demo_list) demo_list"
  using thread_yield_refines [OF demo_runq_wf] by simp

text \<open>No number of yields in a row reaches undefined behaviour or a loop that does not end, and
  the kernel stays well formed, as long as the application's handlers behave.\<close>

theorem thread_yield_repeats:
  assumes "handler_ok H" and "kernel_wf s"
  shows "\<exists>s'. ((\<lambda>m. Option.bind m (thread_yield H)) ^^ n) (Some s) = Some s' \<and> kernel_wf s'"
  using assms by (rule yielding.op_repeat)

theorem thread_yield_repeats_witness:
  "\<exists>s'. ((\<lambda>m. Option.bind m (thread_yield no_handler)) ^^ 1000) (Some demo) = Some s' \<and> kernel_wf s'"
  by (rule thread_yield_repeats) (rule no_handler_ok demo_wf)+

text \<open>A yield never returns to a caller that is not the main thread, whatever its priority:
  a thread of the highest priority that yields (or is preempted by the timer, which yields for it)
  hands the processor to a thread of lower priority.\<close>

theorem thread_yield_leaves_caller:
  assumes "runq_wf s ts" and "handler_ok H" and "current_thread s \<noteq> thread_main_inf s"
    and "thread_yield H s = Some s'"
  shows "current_thread s' \<noteq> current_thread s"
  using thread_yield_outcome [OF assms(1,2)] assms(3,4) by auto

definition demo_high :: kernel where
  "demo_high = demo\<lparr>current_thread := 0x200\<rparr>"

theorem thread_yield_leaves_caller_witness:
  "\<exists>s'. thread_yield no_handler demo_high = Some s' \<and> current_thread s' \<noteq> 0x200
     \<and> prio (threads demo_high) (current_thread s') < prio (threads demo_high) 0x200"
proof -
  have wf: "runq_wf demo_high demo_list"
    unfolding demo_high_def by (rule demo_runq_wf_at) (simp add: demo_list_def)
  obtain s' where s': "thread_yield no_handler demo_high = Some s'" and c: "current_thread s' \<in> set demo_list"
    using thread_yield_outcome [OF wf no_handler_ok] by blast
  have "current_thread s' \<noteq> current_thread demo_high"
    by (rule thread_yield_leaves_caller [OF wf no_handler_ok _ s']) (simp add: demo_high_def demo_def)
  then show ?thesis using s' c by (auto simp: demo_high_def prio_def demo_defs)
qed

end
