(* ===== verification/RT_Timer.thy ===== *)
theory RT_Timer
  imports RT_Sched
begin

text \<open>
  Sleeping threads and the timer interrupt. A thread sleeps until the tick counter has passed
  \<open>ticks_to_wait\<close>; \<open>carry_ticks_to_wait\<close> says that the counter has to overflow first.
\<close>

section \<open>The timer interrupt\<close>

text \<open>
  \<open>ISR(TIMER2_OVF_vect)\<close> up to and with its yield; the assignment behind the yield is executed by
  the interrupted thread when it gets the processor back (\<open>timer_isr_resumed\<close>).
\<close>

definition timer_isr :: "upcall \<Rightarrow> kernel \<Rightarrow> kernel option" where
  "timer_isr H s =
     (let s = s\<lparr>global_thread_tick_counter := global_thread_tick_counter s + 1,
                yield_count := yield_count s + 1\<rparr>
      in if yield_count s = yield_max
         then (let s = s\<lparr>yield_count := 0\<rparr>;
                   s = (if global_thread_tick_counter s < tick_counter_previous s
                        then s\<lparr>carry_tick_counter := 1\<rparr> else s\<lparr>carry_tick_counter := 0\<rparr>)
               in thread_yield H s)
         else Some s)"

definition timer_isr_resumed :: "kernel \<Rightarrow> kernel" where
  "timer_isr_resumed s = s\<lparr>tick_counter_previous := global_thread_tick_counter s\<rparr>"

section \<open>Every operation keeps the kernel in order\<close>

lemma runq_wf_fields:
  assumes "thread_list s' = thread_list s" "thread_main_inf s' = thread_main_inf s"
    "current_thread s' = current_thread s" "threads s' = threads s"
  shows "runq_wf s' ts = runq_wf s ts"
  using assms by (simp add: runq_wf_def)

lemma kernel_wf_fields:
  assumes "thread_list s' = thread_list s" "thread_main_inf s' = thread_main_inf s"
    "current_thread s' = current_thread s" "threads s' = threads s"
  shows "kernel_wf s' = kernel_wf s"
  using runq_wf_fields [OF assms] by (simp add: kernel_wf_def)

definition isr_state :: "kernel \<Rightarrow> kernel" where
  "isr_state s =
     (let now = global_thread_tick_counter s + 1 in
      s\<lparr>global_thread_tick_counter := now, yield_count := 0,
        carry_tick_counter := (if now < tick_counter_previous s then 1 else 0)\<rparr>)"

lemma timer_isr_eq:
  "timer_isr H s = (if yield_count s = 0 then thread_yield H (isr_state s)
     else Some (s\<lparr>global_thread_tick_counter := global_thread_tick_counter s + 1,
                  yield_count := yield_count s + 1\<rparr>))"
proof -
  have "(yield_count s + 1 = yield_max) = (yield_count s = 0)"
    unfolding yield_max_def by (metis add_left_cancel add.commute add_0)
  then show ?thesis by (simp add: timer_isr_def isr_state_def Let_def)
qed

lemma timer_isr_safe:
  assumes "handler_ok H" and "kernel_wf s"
  shows "\<exists>s'. timer_isr H s = Some s' \<and> kernel_wf s'"
proof (cases "yield_count s = 0")
  case True
  have "kernel_wf (isr_state s)"
    by (rule kernel_wf_fields [THEN iffD2, OF _ _ _ _ assms(2)]) (simp_all add: isr_state_def Let_def)
  with True show ?thesis using yielding.op_safe [OF assms(1)] by (simp add: timer_isr_eq)
next
  case False
  have "kernel_wf (s\<lparr>global_thread_tick_counter := global_thread_tick_counter s + 1,
                     yield_count := yield_count s + 1\<rparr>)"
    by (rule kernel_wf_fields [THEN iffD2, OF _ _ _ _ assms(2)]) simp_all
  with False show ?thesis by (simp add: timer_isr_eq)
qed

interpretation ticking: kernel_op timer_isr
  by unfold_locales (rule timer_isr_safe)

lemma set_sleep_next [simp]: "runq_next (set_sleep n now t) = runq_next t"
  by (simp add: set_sleep_def Let_def)

lemma upd_current_ok:
  assumes "kernel_wf s"
  obtains s1 where "upd_thread (current_thread s) f s = Some s1"
  using kernel_wf_current [OF assms] by (metis upd_thread_Some_iff)

lemma upd_thread_current [simp]:
  "upd_thread a f s = Some s' \<Longrightarrow> current_thread s' = current_thread s"
  by (auto simp: upd_thread_Some_iff)

lemma tick_sleep_safe:
  assumes "handler_ok H" and "kernel_wf s"
  shows "\<exists>s'. tick_sleep H n s = Some s' \<and> kernel_wf s'"
proof -
  obtain s1 where s1: "upd_thread (current_thread s) (set_sleep n (global_thread_tick_counter s)) s = Some s1"
    using upd_current_ok [OF assms(2)] .
  with yielding.op_after_update [OF assms _ s1] show ?thesis by (simp add: tick_sleep_def)
qed

interpretation sleeping: kernel_op "\<lambda>H. tick_sleep H n" for n
  by unfold_locales (rule tick_sleep_safe)

lemma thread_usleep_safe:
  assumes "handler_ok H" and "kernel_wf s"
  shows "\<exists>s'. thread_usleep H n s = Some s' \<and> kernel_wf s'"
proof -
  obtain s1 where s1: "upd_thread (current_thread s) (\<lambda>t. t\<lparr>status := SIMPLERTFRAMEWORK_SLEPT\<rparr>) s = Some s1"
    using upd_current_ok [OF assms(2)] .
  with sleeping.op_after_update [OF assms _ s1] show ?thesis by (simp add: thread_usleep_def)
qed

interpretation usleeping: kernel_op "\<lambda>H. thread_usleep H n" for n
  by unfold_locales (rule thread_usleep_safe)

lemma thread_block_safe:
  assumes "handler_ok H" and "kernel_wf s"
  shows "\<exists>s'. thread_block H s = Some s' \<and> kernel_wf s'"
proof -
  obtain t where t: "deref (current_thread s) s = Some t" using kernel_wf_current [OF assms(2)] .
  obtain s1 where s1: "upd_thread (current_thread s) (\<lambda>t. t\<lparr>status := SIMPLERTFRAMEWORK_BLOCKED\<rparr>) s = Some s1"
    using upd_current_ok [OF assms(2)] .
  with yielding.op_after_update [OF assms _ s1] show ?thesis
    using assms(2) t by (simp add: thread_block_def)
qed

interpretation blocking: kernel_op thread_block
  by unfold_locales (rule thread_block_safe)

text \<open>An operation on another thread needs that thread to be in the run queue.\<close>

lemma thread_unblock_safe:
  assumes "handler_ok H" and "kernel_wf s" and "deref th s = Some t"
  shows "\<exists>s'. thread_unblock H th s = Some s' \<and> kernel_wf s'"
proof -
  obtain s1 where s1: "upd_thread th (\<lambda>t. t\<lparr>status := SIMPLERTFRAMEWORK_ACTIVE\<rparr>) s = Some s1"
    using assms(3) by (auto simp: upd_thread_Some_iff)
  with yielding.op_after_update [OF assms(1,2) _ s1] show ?thesis
    using assms(2,3) by (simp add: thread_unblock_def)
qed

section \<open>How long a sleep lasts\<close>

text \<open>
  What the walk does to a sleeping thread in the \<open>k\<close> ticks after \<open>now\<close>: it visits the thread at
  every tick, and the carry is set at the tick on which the counter overflows.
\<close>

fun after_ticks :: "u32 \<Rightarrow> thread \<Rightarrow> nat \<Rightarrow> thread" where
  "after_ticks now t 0 = t"
| "after_ticks now t (Suc k) =
     refresh (now + of_nat (Suc k)) (if now + of_nat (Suc k) < now + of_nat k then 1 else 0)
       (after_ticks now t k)"

lemma refresh_active:
  "status t = SIMPLERTFRAMEWORK_ACTIVE \<Longrightarrow> refresh g c t = t"
  by (simp add: refresh_def wake_check_def signal_support_def rt_consts)

lemma refresh_slept:
  assumes "status t = SIMPLERTFRAMEWORK_SLEPT"
    and "cw = (if carry_ticks_to_wait t = 1 \<and> c = 1 then 0 else carry_ticks_to_wait t)"
  shows "ticks_to_wait (refresh g c t) = ticks_to_wait t"
    and "carry_ticks_to_wait (refresh g c t) = cw"
    and "status (refresh g c t) = (if cw = 0 \<and> ticks_to_wait t < g
           then SIMPLERTFRAMEWORK_ACTIVE else SIMPLERTFRAMEWORK_SLEPT)"
  using assms by (simp_all add: refresh_def wake_check_def signal_support_def rt_consts Let_def)

lemma set_sleep_fields:
  "status (set_sleep n now t) = SIMPLERTFRAMEWORK_SLEPT"
  "ticks_to_wait (set_sleep n now t) = n + now"
  "carry_ticks_to_wait (set_sleep n now t) = (if n + now < now then 1 else 0)"
  by (simp_all add: set_sleep_def Let_def)

lemma unat_u32: "unat (a :: u32) < 2 ^ 32"
  using unsigned_less [of a] by simp

lemma unat_plus_of_nat: "unat (a + of_nat k :: u32) = (unat a + k) mod 2 ^ 32"
  by (simp add: unat_word_ariths unat_of_nat mod_simps)

lemma mod_add_cases:
  fixes a k N :: nat
  assumes "a < N" and "k < N"
  shows "(a + k) mod N = (if a + k < N then a + k else a + k - N)"
  using assms by (simp add: mod_if)

text \<open>The state of a sleeping thread after \<open>k\<close> ticks, as long as it does not wake.\<close>

definition still_asleep :: "u32 \<Rightarrow> u32 \<Rightarrow> nat \<Rightarrow> thread \<Rightarrow> bool" where
  "still_asleep n now k t \<longleftrightarrow> status t = SIMPLERTFRAMEWORK_SLEPT \<and> ticks_to_wait t = n + now
     \<and> carry_ticks_to_wait t = (if unat now + unat n \<ge> 2 ^ 32 \<and> unat now + k < 2 ^ 32 then 1 else 0)"

lemma wake_word: "unat (n + now :: u32) = (unat now + unat n) mod 2 ^ 32"
  by (subst add.commute) (simp add: unat_word_ariths)

lemma still_asleep_start: "still_asleep n now 0 (set_sleep n now t)"
proof -
  have "n + now < now \<longleftrightarrow> unat now + unat n \<ge> 2 ^ 32"
    using unat_u32 [of now] unat_u32 [of n]
    unfolding word_less_nat_alt wake_word
    by (subst mod_add_cases) (auto split: if_splits)
  then show ?thesis using unat_u32 [of now] by (simp add: still_asleep_def set_sleep_fields)
qed

lemma overflow_tick:
  assumes "k < 2 ^ 32 - 1"
  shows "now + of_nat (Suc k) < (now + of_nat k :: u32) \<longleftrightarrow> unat now + Suc k = 2 ^ 32"
  using unat_u32 [of now] assms
  unfolding word_less_nat_alt unat_plus_of_nat
  by (subst mod_add_cases, simp, simp, subst mod_add_cases, simp, simp) (simp split: if_split, linarith)

lemma passed_iff:
  fixes now n :: u32
  assumes "Suc k < 2 ^ 32" and "k \<le> unat n" and "unat now + unat n \<noteq> 2 ^ 32 - 1"
    and "\<not> (unat now + unat n \<ge> 2 ^ 32 \<and> unat now + Suc k < 2 ^ 32)"
  shows "n + now < now + of_nat (Suc k) \<longleftrightarrow> unat n < Suc k"
  using unat_u32 [of now] unat_u32 [of n] assms
  unfolding word_less_nat_alt unat_plus_of_nat wake_word [of n now]
  by (subst mod_add_cases, simp, simp, subst mod_add_cases, simp, simp) (simp split: if_split, linarith)

lemma after_ticks_asleep:
  assumes "unat now + unat n \<noteq> 2 ^ 32 - 1"
  shows "k \<le> unat n \<Longrightarrow> still_asleep n now k (after_ticks now (set_sleep n now t) k)"
proof (induction k)
  case 0
  show ?case using still_asleep_start by simp
next
  case (Suc k)
  let ?t = "after_ticks now (set_sleep n now t) k"
  from Suc.prems unat_u32 [of n] have k: "Suc k < 2 ^ 32" by linarith
  from Suc have IH: "still_asleep n now k ?t" by simp
  let ?c = "if now + of_nat (Suc k) < (now + of_nat k :: u32) then 1 else (0 :: u8)"
  have ov: "?c = 1 \<longleftrightarrow> unat now + Suc k = 2 ^ 32" using overflow_tick [of k now] k by auto
  let ?w = "if unat now + unat n \<ge> 2 ^ 32 \<and> unat now + Suc k < 2 ^ 32 then 1 else (0 :: u8)"
  have cw: "?w = (if carry_ticks_to_wait ?t = 1 \<and> ?c = 1 then 0 else carry_ticks_to_wait ?t)"
    using IH Suc.prems unfolding still_asleep_def ov by (auto split: if_splits)
  from IH have sl: "status ?t = SIMPLERTFRAMEWORK_SLEPT" and tw: "ticks_to_wait ?t = n + now"
    by (simp_all add: still_asleep_def)
  have "\<not> (?w = 0 \<and> ticks_to_wait ?t < now + of_nat (Suc k))"
    using passed_iff [OF k _ assms] Suc.prems unfolding tw by (auto split: if_splits)
  with refresh_slept [OF sl cw] tw show ?case unfolding still_asleep_def by (auto split: if_splits)
qed

lemma after_ticks_awake:
  assumes "unat now + unat n \<noteq> 2 ^ 32 - 1"
  shows "unat n < k \<Longrightarrow> unat n < 2 ^ 32 - 1 \<Longrightarrow>
    status (after_ticks now (set_sleep n now t) k) = SIMPLERTFRAMEWORK_ACTIVE"
proof (induction k)
  case (Suc k)
  let ?t = "after_ticks now (set_sleep n now t) k"
  show ?case
  proof (cases "unat n < k")
    case True
    with Suc show ?thesis by (simp add: refresh_active)
  next
    case False
    with Suc.prems have kn: "k = unat n" by simp
    with after_ticks_asleep [OF assms, of k t] have IH: "still_asleep n now k ?t" by simp
    from Suc.prems kn have k: "Suc k < 2 ^ 32" by simp
    let ?c = "if now + of_nat (Suc k) < (now + of_nat k :: u32) then 1 else (0 :: u8)"
    have ov: "?c = 1 \<longleftrightarrow> unat now + Suc k = 2 ^ 32" using overflow_tick [of k now] k by auto
    have cw: "0 = (if carry_ticks_to_wait ?t = 1 \<and> ?c = 1 then 0 else carry_ticks_to_wait ?t)"
      using IH kn assms unat_u32 [of n] unfolding still_asleep_def ov by (auto split: if_splits)
    from IH have sl: "status ?t = SIMPLERTFRAMEWORK_SLEPT" and tw: "ticks_to_wait ?t = n + now"
      by (simp_all add: still_asleep_def)
    have "ticks_to_wait ?t < now + of_nat (Suc k)"
      using passed_iff [OF k _ assms] kn unfolding tw by auto
    with refresh_slept(3) [OF sl cw] show ?thesis by simp
  qed
qed simp

lemma after_ticks_stuck:
  assumes "unat now + unat n = 2 ^ 32 - 1"
  shows "status (after_ticks now (set_sleep n now t) k) = SIMPLERTFRAMEWORK_SLEPT
    \<and> ticks_to_wait (after_ticks now (set_sleep n now t) k) = - 1"
proof (induction k)
  case 0
  have "unat (n + now) = unat (- 1 :: u32)" using assms by (simp add: wake_word unsigned_minus_1_eq_mask mask_eq_exp_minus_1)
  then have "n + now = - 1" by (simp only: word_unat_eq_iff)
  then show ?case by (simp add: set_sleep_fields)
next
  case (Suc k)
  then have sl: "status (after_ticks now (set_sleep n now t) k) = SIMPLERTFRAMEWORK_SLEPT"
    and tw: "ticks_to_wait (after_ticks now (set_sleep n now t) k) = - 1" by simp_all
  have "\<not> (- 1 :: u32) < g" for g by (simp add: not_less)
  with refresh_slept [OF sl refl] tw show ?case by simp
qed

text \<open>What a tick does to the threads it does not run.\<close>

lemma yield_result_other:
  assumes "runq_wf s ts" and "a \<in> set ts" and "a \<noteq> current_thread s"
  shows "threads (yield_result s ts) a
       = map_option (refresh (global_thread_tick_counter s) (carry_tick_counter s)) (threads s a)"
  using assms by (simp add: yield_result_def switched_def yield_heap_def refresh_on_def Let_def)

lemma isr_state_wf: "runq_wf s ts \<Longrightarrow> runq_wf (isr_state s) ts"
  by (subst runq_wf_fields [of _ s]) (simp_all add: isr_state_def Let_def)

section \<open>Properties\<close>



text \<open>A sleep whose wake-up tick is the last value of the counter, 0xFFFFFFFF, never ends: no
  later tick is greater.\<close>

theorem sleep_never_ends:
  assumes "unat now + unat n = 2 ^ 32 - 1"
  shows "status (after_ticks now (set_sleep n now t) k) = SIMPLERTFRAMEWORK_SLEPT"
  using after_ticks_stuck [OF assms] by simp

theorem sleep_never_ends_witness:
  "status (after_ticks 0xFFFFFF00 (set_sleep 0xFF 0xFFFFFF00 blank_thread) 1000000) = SIMPLERTFRAMEWORK_SLEPT"
  by (rule sleep_never_ends) simp

text \<open>C28: a timer interrupt counts one tick, sets the carry exactly when the counter fell below the
  value the last resumed interrupt left, and applies the wake-up check of that tick to every thread
  of the run queue that was not running, before it delivers the pending signals of the thread it
  switches to.\<close>

theorem timer_isr_wakes:
  assumes "runq_wf s ts" and "yield_count s = 0"
  shows "\<exists>s1. timer_isr H s = ats_deliver H s1 \<and> runq_wf s1 ts
     \<and> global_thread_tick_counter s1 = global_thread_tick_counter s + 1
     \<and> carry_tick_counter s1 = (if global_thread_tick_counter s + 1 < tick_counter_previous s then 1 else 0)
     \<and> yield_count s1 = 0
     \<and> (\<forall>a \<in> set ts - {current_thread s}. threads s1 a = map_option
          (refresh (global_thread_tick_counter s1) (carry_tick_counter s1)) (threads s a))"
proof -
  have wf: "runq_wf (isr_state s) ts" by (rule isr_state_wf [OF assms(1)])
  let ?s1 = "yield_result (isr_state s) ts"
  have f: "current_thread (isr_state s) = current_thread s" "threads (isr_state s) = threads s"
    "global_thread_tick_counter (isr_state s) = global_thread_tick_counter s + 1"
    "carry_tick_counter (isr_state s) = (if global_thread_tick_counter s + 1 < tick_counter_previous s then 1 else 0)"
    "yield_count (isr_state s) = 0"
    by (simp_all add: isr_state_def Let_def)
  have "timer_isr H s = ats_deliver H ?s1"
    using assms(2) by (simp add: timer_isr_eq thread_yield_exact [OF wf])
  moreover have "\<forall>a \<in> set ts - {current_thread s}. threads ?s1 a = map_option
      (refresh (global_thread_tick_counter ?s1) (carry_tick_counter ?s1)) (threads s a)"
    using yield_result_other [OF wf] by (simp add: f)
  ultimately show ?thesis
    using yield_result_wf [OF wf] by (intro exI [of _ ?s1] conjI) (simp_all only: yield_result_fields f)
qed

theorem timer_isr_wakes_witness:
  "\<exists>s1. timer_isr no_handler demo = ats_deliver no_handler s1 \<and> runq_wf s1 demo_list
     \<and> global_thread_tick_counter s1 = 8"
proof -
  have "yield_count demo = 0" by (simp add: demo_def)
  from timer_isr_wakes [OF demo_runq_wf this] show ?thesis by (auto simp: demo_def)
qed

text \<open>Interrupts, sleeps and blocks in a row never leave the kernel in disorder: any number of
  timer interrupts from a well-formed kernel returns and leaves a well-formed kernel.\<close>

theorem timer_isr_repeats:
  assumes "handler_ok H" and "kernel_wf s"
  shows "\<exists>s'. ((\<lambda>m. Option.bind m (timer_isr H)) ^^ n) (Some s) = Some s' \<and> kernel_wf s'"
  using assms by (rule ticking.op_repeat)

theorem timer_isr_repeats_witness:
  "\<exists>s'. ((\<lambda>m. Option.bind m (timer_isr no_handler)) ^^ 500) (Some demo) = Some s' \<and> kernel_wf s'"
  by (rule timer_isr_repeats) (rule no_handler_ok demo_wf)+

end
