(* ===== verification/RT_Semaphore.thy ===== *)
theory RT_Semaphore
  imports RT_Timer
begin

text \<open>
  Counting semaphores. A thread that waits is marked in its own structure (\<open>blocked_semaphore\<close>,
  status SEM_BLOCKED); V walks the run queue up to the main thread for the waiting thread of the
  highest priority and hands it the semaphore without touching the value.
\<close>

section \<open>Operations\<close>

definition thread_semaphore_create :: "s16 \<Rightarrow> kernel \<Rightarrow> (addr \<times> kernel) option" where
  "thread_semaphore_create initialization s =
     (case thread_malloc s of
        (None, s) \<Rightarrow> None
      | (Some c, s) \<Rightarrow> Some (ptr c, s\<lparr>sems := (sems s)(ptr c \<mapsto> initialization)\<rparr>))"

definition thread_semaphore_P :: "upcall \<Rightarrow> addr \<Rightarrow> kernel \<Rightarrow> kernel option" where
  "thread_semaphore_P H sem s =
     (if sem = NULL then Some s
      else do {
        v \<leftarrow> sems s sem;
        if sint v \<le> 0
        then do {
          s \<leftarrow> upd_thread (current_thread s)
                 (\<lambda>t. t\<lparr>blocked_semaphore := sem, status := SIMPLERTFRAMEWORK_SEM_BLOCKED\<rparr>) s;
          thread_yield H s }
        else Some (s\<lparr>sems := (sems s)(sem \<mapsto> v - 1)\<rparr>) })"

text \<open>The loop of V: from \<open>th\<close> to the main thread, the candidate so far (NULL for none).\<close>

partial_function (option) sem_scan :: "addr \<Rightarrow> addr \<Rightarrow> addr \<Rightarrow> kernel \<Rightarrow> addr option" where
  "sem_scan sem th th_candidate s =
     (if th = thread_main_inf s then Some th_candidate
      else do {
        t \<leftarrow> deref th s;
        th_candidate \<leftarrow>
          (if blocked_semaphore t = sem
           then (if th_candidate = NULL then Some th
                 else do {
                   c \<leftarrow> deref th_candidate s;
                   Some (if priority c < priority t then th else th_candidate) })
           else Some th_candidate);
        sem_scan sem (runq_next t) th_candidate s })"

definition thread_semaphore_V :: "upcall \<Rightarrow> addr \<Rightarrow> kernel \<Rightarrow> kernel option" where
  "thread_semaphore_V H sem s =
     (if sem = NULL then Some s
      else do {
        th_candidate \<leftarrow> sem_scan sem (thread_list s) NULL s;
        if th_candidate \<noteq> NULL
        then do {
          s \<leftarrow> upd_thread th_candidate
                 (\<lambda>t. t\<lparr>status := SIMPLERTFRAMEWORK_ACTIVE, blocked_semaphore := NULL\<rparr>) s;
          thread_yield H s }
        else do {
          v \<leftarrow> sems s sem;
          Some (s\<lparr>sems := (sems s)(sem \<mapsto> v + 1)\<rparr>) } })"

text \<open>The loop of \<open>thread_semaphore_free\<close>.\<close>

definition release :: "addr \<Rightarrow> thread \<Rightarrow> thread" where
  "release sem t =
     (if status t = SIMPLERTFRAMEWORK_SEM_BLOCKED \<and> blocked_semaphore t = sem
      then t\<lparr>status := SIMPLERTFRAMEWORK_ACTIVE, blocked_semaphore := NULL\<rparr> else t)"

partial_function (option) sem_release :: "addr \<Rightarrow> addr \<Rightarrow> kernel \<Rightarrow> kernel option" where
  "sem_release sem th s =
     (if th = thread_main_inf s then Some s
      else do {
        s \<leftarrow> upd_thread th (release sem) s;
        t \<leftarrow> deref th s;
        sem_release sem (runq_next t) s })"

definition thread_semaphore_free :: "addr \<Rightarrow> kernel \<Rightarrow> kernel option" where
  "thread_semaphore_free sem s =
     (if sem = NULL then Some s
      else do {
        s \<leftarrow> sem_release sem (thread_list s) s;
        thread_free sem s })"

section \<open>The walk of V, on lists\<close>

definition waits :: "(addr \<rightharpoonup> thread) \<Rightarrow> addr \<Rightarrow> addr \<Rightarrow> bool" where
  "waits h sem a \<longleftrightarrow> (case h a of None \<Rightarrow> False | Some t \<Rightarrow> blocked_semaphore t = sem)"

fun sem_pick :: "(addr \<rightharpoonup> thread) \<Rightarrow> addr \<Rightarrow> addr \<Rightarrow> addr list \<Rightarrow> addr" where
  "sem_pick h sem cand [] = cand"
| "sem_pick h sem cand (a # as) =
     sem_pick h sem (if waits h sem a \<and> (cand = NULL \<or> prio h cand < prio h a) then a else cand) as"

lemma sem_scan_refines:
  assumes "runq (threads s) p (xs @ [thread_main_inf s])" and "thread_main_inf s \<notin> set xs"
    and "cand = NULL \<or> deref cand s \<noteq> None"
  shows "sem_scan sem p cand s = Some (sem_pick (threads s) sem cand xs)"
  using assms
proof (induction xs arbitrary: p cand)
  case Nil
  then show ?case by (subst sem_scan.simps) (auto split: option.splits)
next
  case (Cons a xs)
  from Cons.prems(1) have a: "p = a" "a \<noteq> NULL" by simp_all
  from Cons.prems(1) obtain t :: thread where t: "threads s a = Some t"
    and q: "runq (threads s) (runq_next t) (xs @ [thread_main_inf s])"
    by (cases "threads s a") auto
  have d: "deref a s = Some t" using a t by (simp add: deref_def)
  have ne: "a \<noteq> thread_main_inf s" using Cons.prems(2) by auto
  let ?c = "if waits (threads s) sem a \<and> (cand = NULL \<or> prio (threads s) cand < prio (threads s) a)
    then a else cand"
  have "?c = NULL \<or> deref ?c s \<noteq> None" using Cons.prems(3) d by auto
  from Cons.IH [OF q _ this] have IH: "sem_scan sem (runq_next t) ?c s = Some (sem_pick (threads s) sem ?c xs)"
    using Cons.prems(2) by simp
  have "sem_scan sem p cand s = sem_scan sem (runq_next t) ?c s"
  proof (cases "cand = NULL")
    case True
    then show ?thesis by (subst sem_scan.simps) (simp add: a ne d waits_def t)
  next
    case False
    with Cons.prems(3) obtain c where c: "deref cand s = Some c" "threads s cand = Some c"
      by (auto simp: deref_Some_iff)
    with False show ?thesis by (subst sem_scan.simps) (simp add: a ne d waits_def t prio_def)
  qed
  with IH show ?case by simp
qed

lemma sem_pick_none: "\<forall>a\<in>set as. \<not> waits h sem a \<Longrightarrow> sem_pick h sem cand as = cand"
  by (induction as) auto

text \<open>The candidate is a waiting thread; those before it in the queue have a lower priority, those
  behind it no higher one.\<close>

definition best_of :: "(addr \<rightharpoonup> thread) \<Rightarrow> addr \<Rightarrow> addr \<Rightarrow> addr list \<Rightarrow> addr \<Rightarrow> bool" where
  "best_of h sem cand as r \<longleftrightarrow> (r = cand \<and> (\<forall>a\<in>set as. waits h sem a \<longrightarrow> prio h a \<le> prio h cand))
   \<or> (\<exists>xs ys. as = xs @ r # ys \<and> waits h sem r \<and> prio h cand < prio h r
       \<and> (\<forall>a\<in>set xs. waits h sem a \<longrightarrow> prio h a < prio h r)
       \<and> (\<forall>a\<in>set ys. waits h sem a \<longrightarrow> prio h a \<le> prio h r))"

lemma best_of_taken:
  assumes "best_of h sem b bs r" and "waits h sem b" and "prio h cand < prio h b"
  shows "best_of h sem cand (b # bs) r"
  using assms(1) [unfolded best_of_def]
proof (elim disjE exE conjE)
  assume "r = b" "\<forall>a\<in>set bs. waits h sem a \<longrightarrow> prio h a \<le> prio h b"
  with assms show "best_of h sem cand (b # bs) r"
    unfolding best_of_def by (intro disjI2 exI [of _ "[]"] exI [of _ bs]) simp
next
  fix xs ys
  assume "bs = xs @ r # ys" "waits h sem r" "prio h b < prio h r"
    "\<forall>a\<in>set xs. waits h sem a \<longrightarrow> prio h a < prio h r" "\<forall>a\<in>set ys. waits h sem a \<longrightarrow> prio h a \<le> prio h r"
  with assms(3) show "best_of h sem cand (b # bs) r"
    unfolding best_of_def by (intro disjI2 exI [of _ "b # xs"] exI [of _ ys]) (auto intro: less_trans)
qed

lemma best_of_passed:
  assumes "best_of h sem cand bs r" and "\<not> (waits h sem b \<and> prio h cand < prio h b)"
  shows "best_of h sem cand (b # bs) r"
  using assms(1) [unfolded best_of_def]
proof (elim disjE exE conjE)
  fix xs ys
  assume "bs = xs @ r # ys" "waits h sem r" "prio h cand < prio h r"
    "\<forall>a\<in>set xs. waits h sem a \<longrightarrow> prio h a < prio h r" "\<forall>a\<in>set ys. waits h sem a \<longrightarrow> prio h a \<le> prio h r"
  moreover from this assms(2) have "waits h sem b \<longrightarrow> prio h b < prio h r" by (auto intro: le_less_trans)
  ultimately show "best_of h sem cand (b # bs) r"
    unfolding best_of_def by (intro disjI2 exI [of _ "b # xs"] exI [of _ ys]) simp
qed (use assms(2) in \<open>auto simp: best_of_def\<close>)

lemma sem_pick_best_of: "cand \<noteq> NULL \<Longrightarrow> NULL \<notin> set as \<Longrightarrow> best_of h sem cand as (sem_pick h sem cand as)"
proof (induction as arbitrary: cand)
  case (Cons b bs)
  show ?case
  proof (cases "waits h sem b \<and> prio h cand < prio h b")
    case True
    with Cons best_of_taken [of h sem b bs] show ?thesis by simp
  next
    case False
    with Cons best_of_passed [of h sem cand bs] show ?thesis by auto
  qed
qed (simp add: best_of_def)

lemmas sem_pick_best = sem_pick_best_of [unfolded best_of_def]

lemma sem_pick_first:
  assumes "NULL \<notin> set as" and "r = sem_pick h sem NULL as"
  shows "(r = NULL \<and> (\<forall>a\<in>set as. \<not> waits h sem a))
    \<or> (\<exists>xs ys. as = xs @ r # ys \<and> r \<noteq> NULL \<and> waits h sem r
       \<and> (\<forall>a\<in>set xs. waits h sem a \<longrightarrow> prio h a < prio h r)
       \<and> (\<forall>a\<in>set ys. waits h sem a \<longrightarrow> prio h a \<le> prio h r))"
proof (cases "\<exists>a\<in>set as. waits h sem a")
  case False
  then show ?thesis using assms(2) sem_pick_none [of as h sem NULL] by simp
next
  case True
  then obtain xs b ys where as: "as = xs @ b # ys" and b: "waits h sem b" and xs: "\<forall>a\<in>set xs. \<not> waits h sem a"
    using split_list_first_prop [of as "waits h sem"] by blast
  have "sem_pick h sem NULL (xs @ zs) = sem_pick h sem NULL zs" for zs
    using xs by (induction xs) auto
  then have r: "r = sem_pick h sem b ys" using assms(2) as b by simp
  from sem_pick_best [of b ys h sem] assms(1) as r consider
    "r = b" "\<forall>a\<in>set ys. waits h sem a \<longrightarrow> prio h a \<le> prio h b"
    | us vs where "ys = us @ r # vs" "waits h sem r" "prio h b < prio h r"
      "\<forall>a\<in>set us. waits h sem a \<longrightarrow> prio h a < prio h r" "\<forall>a\<in>set vs. waits h sem a \<longrightarrow> prio h a \<le> prio h r"
    by auto
  then show ?thesis
  proof cases
    case 1
    with as b xs assms(1) show ?thesis
      by (intro disjI2 exI [of _ xs] exI [of _ ys]) auto
  next
    case 2
    with as xs assms(1) show ?thesis
      by (intro disjI2 exI [of _ "xs @ b # us"] exI [of _ vs]) auto
  qed
qed

section \<open>The two operations in one equation each\<close>

text \<open>The threads V looks at: the run queue without the main thread at its end.\<close>

lemma runq_wf_butlast:
  assumes "runq_wf s ts"
  shows "ts = butlast ts @ [thread_main_inf s]" and "thread_main_inf s \<notin> set (butlast ts)"
    and "set (butlast ts) = set ts - {thread_main_inf s}" and "NULL \<notin> set (butlast ts)"
proof -
  show ts: "ts = butlast ts @ [thread_main_inf s]"
    using assms unfolding runq_wf_def by (metis append_butlast_last_id)
  then have "distinct (butlast ts @ [thread_main_inf s])" using assms unfolding runq_wf_def by metis
  then show m: "thread_main_inf s \<notin> set (butlast ts)" by simp
  have "set ts = insert (thread_main_inf s) (set (butlast ts))"
    by (subst ts) simp
  with m show "set (butlast ts) = set ts - {thread_main_inf s}" by auto
  show "NULL \<notin> set (butlast ts)"
    using runq_wf_deref [OF assms, of NULL] in_set_butlastD by (fastforce simp: deref_def)
qed

definition sem_choice :: "addr \<Rightarrow> addr list \<Rightarrow> kernel \<Rightarrow> addr" where
  "sem_choice sem ts s = sem_pick (threads s) sem NULL (butlast ts)"

lemma sem_scan_wf:
  assumes "runq_wf s ts"
  shows "sem_scan sem (thread_list s) NULL s = Some (sem_choice sem ts s)"
proof -
  have "runq (threads s) (thread_list s) (butlast ts @ [thread_main_inf s])"
    using assms runq_wf_butlast(1) [OF assms] unfolding runq_wf_def by metis
  then show ?thesis
    unfolding sem_choice_def using runq_wf_butlast(2) [OF assms] by (intro sem_scan_refines) simp_all
qed

lemma sem_choice_cases:
  assumes "runq_wf s ts"
  shows "(sem_choice sem ts s = NULL \<and> (\<forall>a\<in>set (butlast ts). \<not> waits (threads s) sem a))
    \<or> (sem_choice sem ts s \<in> set (butlast ts) \<and> waits (threads s) sem (sem_choice sem ts s)
       \<and> sem_choice sem ts s \<noteq> NULL)"
  using sem_pick_first [OF runq_wf_butlast(4) [OF assms] refl, of "threads s" sem]
  unfolding sem_choice_def [symmetric] by (metis in_set_conv_decomp)

definition hand_over :: "addr \<Rightarrow> kernel \<Rightarrow> kernel" where
  "hand_over a s = s\<lparr>threads := (threads s)(a \<mapsto>
     (the (threads s a))\<lparr>status := SIMPLERTFRAMEWORK_ACTIVE, blocked_semaphore := NULL\<rparr>)\<rparr>"

definition enrol :: "addr \<Rightarrow> kernel \<Rightarrow> kernel" where
  "enrol sem s = s\<lparr>threads := (threads s)(current_thread s \<mapsto>
     (the (threads s (current_thread s)))\<lparr>blocked_semaphore := sem, status := SIMPLERTFRAMEWORK_SEM_BLOCKED\<rparr>)\<rparr>"

lemma hand_over_wf:
  assumes "runq_wf s ts" and "a \<in> set ts"
  shows "runq_wf (hand_over a s) ts"
proof (rule runq_wf_cong [OF _ _ _ _ assms(1)])
  obtain t where "threads s a = Some t" using runq_wf_deref [OF assms] by blast
  then show "map_option runq_next (threads (hand_over a s) b) = map_option runq_next (threads s b)" for b
    by (simp add: hand_over_def)
qed (simp_all add: hand_over_def runq_wf_current [OF assms(1)])

lemma enrol_wf:
  assumes "runq_wf s ts"
  shows "runq_wf (enrol sem s) ts"
proof (rule runq_wf_cong [OF _ _ _ _ assms(1)])
  obtain t where "threads s (current_thread s) = Some t"
    using runq_wf_deref [OF assms runq_wf_current [OF assms]] by blast
  then show "map_option runq_next (threads (enrol sem s) b) = map_option runq_next (threads s b)" for b
    by (simp add: enrol_def)
qed (simp_all add: enrol_def runq_wf_current [OF assms(1)])

lemma sem_P_eq:
  assumes "runq_wf s ts" and "sem \<noteq> NULL" and "sems s sem = Some v"
  shows "thread_semaphore_P H sem s =
    (if sint v \<le> 0 then thread_yield H (enrol sem s) else Some (s\<lparr>sems := (sems s)(sem \<mapsto> v - 1)\<rparr>))"
proof -
  obtain t where "deref (current_thread s) s = Some t" "threads s (current_thread s) = Some t"
    using runq_wf_deref [OF assms(1) runq_wf_current [OF assms(1)]] by blast
  then show ?thesis using assms by (simp add: thread_semaphore_P_def upd_thread_def enrol_def)
qed

lemma sem_V_eq:
  assumes "runq_wf s ts" and "sem \<noteq> NULL" and "sems s sem = Some v"
  shows "thread_semaphore_V H sem s =
    (if sem_choice sem ts s \<noteq> NULL then thread_yield H (hand_over (sem_choice sem ts s) s)
     else Some (s\<lparr>sems := (sems s)(sem \<mapsto> v + 1)\<rparr>))"
proof (cases "sem_choice sem ts s = NULL")
  case False
  with sem_choice_cases [OF assms(1), of sem] have "sem_choice sem ts s \<in> set ts"
    using in_set_butlastD by metis
  then obtain t where "deref (sem_choice sem ts s) s = Some t" "threads s (sem_choice sem ts s) = Some t"
    using runq_wf_deref [OF assms(1)] by blast
  with False show ?thesis
    by (simp add: thread_semaphore_V_def sem_scan_wf [OF assms(1)] assms(2) upd_thread_def hand_over_def)
qed (simp add: thread_semaphore_V_def sem_scan_wf [OF assms(1)] assms)

lemma sem_P_safe:
  assumes "handler_ok H" and "kernel_wf s" and "sem = NULL \<or> sems s sem \<noteq> None"
  shows "\<exists>s'. thread_semaphore_P H sem s = Some s' \<and> kernel_wf s'"
proof (cases "sem = NULL")
  case True
  with assms(2) show ?thesis by (simp add: thread_semaphore_P_def)
next
  case False
  with assms(3) obtain v where v: "sems s sem = Some v" by auto
  obtain ts where ts: "runq_wf s ts" using assms(2) by (rule kernel_wfE)
  show ?thesis
  proof (cases "sint v \<le> 0")
    case True
    with yielding.op_safe [OF assms(1) kernel_wfI [OF enrol_wf [OF ts]]] show ?thesis
      by (simp add: sem_P_eq [OF ts False v])
  next
    case P: False
    have "kernel_wf (s\<lparr>sems := (sems s)(sem \<mapsto> v - 1)\<rparr>)"
      by (rule kernel_wf_fields [THEN iffD2, OF _ _ _ _ assms(2)]) simp_all
    with P show ?thesis by (simp add: sem_P_eq [OF ts False v])
  qed
qed

lemma sem_V_safe:
  assumes "handler_ok H" and "kernel_wf s" and "sem = NULL \<or> sems s sem \<noteq> None"
  shows "\<exists>s'. thread_semaphore_V H sem s = Some s' \<and> kernel_wf s'"
proof (cases "sem = NULL")
  case True
  with assms(2) show ?thesis by (simp add: thread_semaphore_V_def)
next
  case False
  with assms(3) obtain v where v: "sems s sem = Some v" by auto
  obtain ts where ts: "runq_wf s ts" using assms(2) by (rule kernel_wfE)
  let ?c = "sem_choice sem ts s"
  show ?thesis
  proof (cases "?c = NULL")
    case True
    have "kernel_wf (s\<lparr>sems := (sems s)(sem \<mapsto> v + 1)\<rparr>)"
      by (rule kernel_wf_fields [THEN iffD2, OF _ _ _ _ assms(2)]) simp_all
    with True show ?thesis by (simp add: sem_V_eq [OF ts False v])
  next
    case c: False
    with sem_choice_cases [OF ts, of sem] have "?c \<in> set ts" using in_set_butlastD by metis
    from yielding.op_safe [OF assms(1) kernel_wfI [OF hand_over_wf [OF ts this]]] c show ?thesis
      by (simp add: sem_V_eq [OF ts False v])
  qed
qed

section \<open>What other operations leave of a semaphore's state\<close>

definition sem_blocked :: "(addr \<rightharpoonup> thread) \<Rightarrow> addr \<Rightarrow> bool" where
  "sem_blocked h a \<longleftrightarrow> (case h a of None \<Rightarrow> False | Some t \<Rightarrow> status t = SIMPLERTFRAMEWORK_SEM_BLOCKED)"

definition sem_same :: "kernel \<Rightarrow> kernel \<Rightarrow> bool" where
  "sem_same s s' \<longleftrightarrow> thread_list s' = thread_list s \<and> thread_main_inf s' = thread_main_inf s
     \<and> sems s' = sems s
     \<and> (\<forall>a. map_option runq_next (threads s' a) = map_option runq_next (threads s a))
     \<and> (\<forall>a. a \<noteq> thread_main_inf s \<longrightarrow> (\<forall>sem. waits (threads s') sem a = waits (threads s) sem a)
          \<and> sem_blocked (threads s') a = sem_blocked (threads s) a)"

definition handler_sem_quiet :: "upcall \<Rightarrow> bool" where
  "handler_sem_quiet H \<longleftrightarrow> (\<forall>f e s s'. H f e s = Some s' \<longrightarrow>
     sem_same s s' \<and> current_thread s' = current_thread s)"

lemma sem_same_refl [simp]: "sem_same s s"
  by (simp add: sem_same_def)

lemma sem_same_trans: "sem_same s s1 \<Longrightarrow> sem_same s1 s2 \<Longrightarrow> sem_same s s2"
  unfolding sem_same_def by metis

lemma sem_same_upd_thread:
  assumes "upd_thread a f s = Some s'" and "\<And>t. runq_next (f t) = runq_next t"
    and "\<And>t. a \<noteq> thread_main_inf s \<Longrightarrow> threads s a = Some t \<Longrightarrow> blocked_semaphore (f t) = blocked_semaphore t
      \<and> (status (f t) = SIMPLERTFRAMEWORK_SEM_BLOCKED \<longleftrightarrow> status t = SIMPLERTFRAMEWORK_SEM_BLOCKED)"
  shows "sem_same s s'"
proof -
  obtain t where t: "threads s a = Some t" and s': "s' = s\<lparr>threads := (threads s)(a \<mapsto> f t)\<rparr>"
    using assms(1) by (auto simp: upd_thread_Some_iff deref_Some_iff)
  show ?thesis using assms(2) assms(3) [OF _ t] t
    by (auto simp: sem_same_def s' waits_def sem_blocked_def)
qed

lemma ats_deliver_same:
  assumes "handler_sem_quiet H" and "ats_deliver H s = Some s'"
  shows "sem_same s s' \<and> current_thread s' = current_thread s"
proof (rule ats_deliver_frame [where R = "\<lambda>s s'. sem_same s s' \<and> current_thread s' = current_thread s",
      OF _ _ _ _ assms(2)])
  show "sem_same s s1 \<and> current_thread s1 = current_thread s"
    if "upd_thread (current_thread s) (\<lambda>t. t\<lparr>ats_pending := ats_pending t - 1\<rparr>) s = Some s1" for s s1
    using sem_same_upd_thread [OF that] upd_thread_current [OF that] by simp
  show "sem_same s s2 \<and> current_thread s2 = current_thread s"
    if "sem_same s s1 \<and> current_thread s1 = current_thread s"
      "sem_same s1 s2 \<and> current_thread s2 = current_thread s1" for s s1 s2
    using that sem_same_trans by metis
  show "sem_same s s1 \<and> current_thread s1 = current_thread s" if "H f e s = Some s1" for f e s s1
    using that assms(1) unfolding handler_sem_quiet_def by blast
qed simp

lemma refresh_sem_blocked:
  "status (refresh n c t) = SIMPLERTFRAMEWORK_SEM_BLOCKED \<longleftrightarrow> status t = SIMPLERTFRAMEWORK_SEM_BLOCKED"
  by (simp add: refresh_def wake_check_def signal_support_def Let_def rt_consts)

lemma yield_heap_waits: "waits (yield_heap s ts) sem a = waits (threads s) sem a"
  by (cases "threads s a") (simp_all add: waits_def yield_heap_def refresh_on_def)

lemma yield_heap_sem_blocked: "sem_blocked (yield_heap s ts) a = sem_blocked (threads s) a"
  by (cases "threads s a") (simp_all add: sem_blocked_def yield_heap_def refresh_on_def refresh_sem_blocked)

lemma yield_result_same:
  assumes "runq_wf s ts"
  shows "sem_same s (yield_result s ts)"
proof -
  obtain t where t: "yield_heap s ts (current_thread s) = Some t"
    using yield_heap_live [OF assms runq_wf_current [OF assms]] by blast
  have "threads (yield_result s ts) = (yield_heap s ts)(current_thread s \<mapsto>
      (account (global_thread_tick_counter s - tick_counter_last_cost s) t)\<lparr>sp := hw_sp s - switch_frame\<rparr>)"
    using t by (simp add: yield_result_def switched_def Let_def del: fun_upd_apply)
  then have "waits (threads (yield_result s ts)) sem a = waits (yield_heap s ts) sem a"
    and "sem_blocked (threads (yield_result s ts)) a = sem_blocked (yield_heap s ts) a" for sem a
    using t by (simp_all add: waits_def sem_blocked_def)
  then show ?thesis
    by (simp add: sem_same_def yield_result_next [OF assms] yield_heap_waits yield_heap_sem_blocked)
qed

lemma sem_same_wf:
  assumes "sem_same s s'" and "runq_wf s ts" and "current_thread s' \<in> set ts"
  shows "runq_wf s' ts"
  using assms by (intro runq_wf_cong [OF _ _ _ _ assms(2)]) (simp_all add: sem_same_def)

text \<open>A yield keeps the semaphores, the marks of the waiting threads and the queue, and the thread it
  gives the processor to is the main thread or one that does not wait for a semaphore.\<close>

lemma yield_sem:
  assumes "handler_sem_quiet H" and "runq_wf s ts" and "thread_yield H s = Some s'"
  shows "sem_same s s' \<and> runq_wf s' ts
    \<and> (current_thread s' \<noteq> thread_main_inf s' \<longrightarrow> \<not> sem_blocked (threads s') (current_thread s'))"
proof -
  let ?r = "yield_result s ts"
  have "ats_deliver H ?r = Some s'" using assms(3) by (simp add: thread_yield_exact [OF assms(2)])
  from ats_deliver_same [OF assms(1) this] have same: "sem_same ?r s'" and c: "current_thread s' = yield_pick s ts"
    by simp_all
  have all: "sem_same s s'" by (rule sem_same_trans [OF yield_result_same [OF assms(2)] same])
  moreover have "runq_wf s' ts"
    by (rule sem_same_wf [OF all assms(2)]) (simp add: c yield_pick_mem [OF assms(2)])
  moreover have "\<not> sem_blocked (threads s') (current_thread s')" if "current_thread s' \<noteq> thread_main_inf s'"
  proof -
    from all that have m: "current_thread s' \<noteq> thread_main_inf s" by (simp add: sem_same_def)
    with pick_active [of "yield_heap s ts" "current_thread s" "thread_main_inf s" "ring_after (current_thread s) ts"]
    have "active (yield_heap s ts) (current_thread s')" unfolding c yield_pick_def by auto
    then have "\<not> sem_blocked (yield_heap s ts) (current_thread s')"
      by (cases "yield_heap s ts (current_thread s')") (auto simp: active_def sem_blocked_def rt_consts)
    with all m show ?thesis by (simp add: sem_same_def yield_heap_sem_blocked)
  qed
  ultimately show ?thesis by blast
qed

section \<open>The abstract semaphore\<close>

text \<open>A semaphore seen from outside: its tokens and the threads that wait for one.\<close>

record semaphore =
  tokens :: int
  queued :: "addr set"

definition abs_sem :: "addr \<Rightarrow> addr list \<Rightarrow> kernel \<Rightarrow> semaphore" where
  "abs_sem sem ts s = \<lparr>tokens = sint (the (sems s sem)),
     queued = {a \<in> set (butlast ts). waits (threads s) sem a}\<rparr>"

definition sem_ok :: "addr \<Rightarrow> addr list \<Rightarrow> kernel \<Rightarrow> bool" where
  "sem_ok sem ts s \<longleftrightarrow> runq_wf s ts \<and> sem \<noteq> NULL \<and> sems s sem \<noteq> None
     \<and> 0 \<le> tokens (abs_sem sem ts s) \<and> (queued (abs_sem sem ts s) \<noteq> {} \<longrightarrow> tokens (abs_sem sem ts s) = 0)
     \<and> (\<forall>a \<in> queued (abs_sem sem ts s). sem_blocked (threads s) a)"

definition runs_free :: "kernel \<Rightarrow> bool" where
  "runs_free s \<longleftrightarrow> (current_thread s \<noteq> thread_main_inf s \<longrightarrow> \<not> sem_blocked (threads s) (current_thread s))"

definition sem_inv :: "addr \<Rightarrow> addr list \<Rightarrow> kernel \<Rightarrow> bool" where
  "sem_inv sem ts s \<longleftrightarrow> sem_ok sem ts s \<and> runs_free s"

lemma abs_sem_same:
  assumes "sem_same s s'" and "runq_wf s ts"
  shows "abs_sem sem ts s' = abs_sem sem ts s"
  using assms runq_wf_butlast(3) [OF assms(2)] by (auto simp: abs_sem_def sem_same_def)

lemma sem_ok_same:
  assumes "sem_same s s'" and "sem_ok sem ts s" and "runq_wf s' ts"
  shows "sem_ok sem ts s'"
proof -
  have wf: "runq_wf s ts" using assms(2) by (simp add: sem_ok_def)
  have "sem_blocked (threads s') a = sem_blocked (threads s) a" if "a \<in> queued (abs_sem sem ts s)" for a
  proof -
    have "a \<noteq> thread_main_inf s" using that runq_wf_butlast(2) [OF wf] by (auto simp: abs_sem_def)
    with assms(1) show ?thesis by (simp add: sem_same_def)
  qed
  moreover have "sems s' = sems s" using assms(1) by (simp add: sem_same_def)
  ultimately show ?thesis using assms abs_sem_same [OF assms(1) wf] by (simp add: sem_ok_def)
qed

text \<open>Operations of the kernel that are not about semaphores leave every semaphore as it is.\<close>

locale sem_neutral = kernel_op +
  assumes neutral: "handler_sem_quiet H \<Longrightarrow> runq_wf s ts \<Longrightarrow> runs_free s \<Longrightarrow> op H s = Some s' \<Longrightarrow>
      sem_same s s' \<and> runq_wf s' ts \<and> runs_free s'"
begin

lemma keeps_sem:
  assumes "handler_sem_quiet H" and "sem_inv sem ts s" and "op H s = Some s'"
  shows "sem_inv sem ts s'" and "abs_sem sem ts s' = abs_sem sem ts s"
proof -
  have wf: "runq_wf s ts" and f: "runs_free s" using assms(2) by (simp_all add: sem_inv_def sem_ok_def)
  note n = neutral [OF assms(1) wf f assms(3)]
  show "sem_inv sem ts s'" using n sem_ok_same assms(2) unfolding sem_inv_def by blast
  show "abs_sem sem ts s' = abs_sem sem ts s" using n abs_sem_same [OF _ wf] by blast
qed

text \<open>What follows an update that no semaphore sees.\<close>

lemma neutral_after_update:
  assumes "handler_sem_quiet H" and "runq_wf s ts" and "runs_free s"
    and "upd_thread (current_thread s) f s = Some s1" and "op H s1 = Some s'"
    and "\<And>t. runq_next (f t) = runq_next t" and "\<And>t. blocked_semaphore (f t) = blocked_semaphore t"
    and "\<And>t. status (f t) \<noteq> SIMPLERTFRAMEWORK_SEM_BLOCKED"
  shows "sem_same s s' \<and> runq_wf s' ts \<and> runs_free s'"
proof -
  have same: "sem_same s s1"
  proof (rule sem_same_upd_thread [OF assms(4,6)])
    fix t assume "current_thread s \<noteq> thread_main_inf s" and "threads s (current_thread s) = Some t"
    with assms(3,7,8) show "blocked_semaphore (f t) = blocked_semaphore t
      \<and> (status (f t) = SIMPLERTFRAMEWORK_SEM_BLOCKED \<longleftrightarrow> status t = SIMPLERTFRAMEWORK_SEM_BLOCKED)"
      by (simp add: runs_free_def sem_blocked_def)
  qed
  have c: "current_thread s1 = current_thread s" using assms(4) by simp
  have wf: "runq_wf s1 ts" by (rule runq_wf_upd_thread [OF assms(2,4,6)])
  have "runs_free s1"
    using same assms(3) c by (simp add: runs_free_def sem_same_def)
  from neutral [OF assms(1) wf this assms(5)] show ?thesis using sem_same_trans [OF same] by blast
qed

end

lemma yield_neutral:
  assumes "handler_sem_quiet H" and "runq_wf s ts" and "thread_yield H s = Some s'"
  shows "sem_same s s' \<and> runq_wf s' ts \<and> runs_free s'"
  using yield_sem [OF assms] by (simp add: runs_free_def)

interpretation sem_yielding: sem_neutral thread_yield
  by unfold_locales (rule yield_neutral)

lemma timer_neutral:
  assumes "handler_sem_quiet H" and "runq_wf s ts" and "runs_free s" and "timer_isr H s = Some s'"
  shows "sem_same s s' \<and> runq_wf s' ts \<and> runs_free s'"
proof (cases "yield_count s = 0")
  case True
  have same: "sem_same s (isr_state s)" by (simp add: sem_same_def isr_state_def Let_def)
  from True assms(4) have "thread_yield H (isr_state s) = Some s'" by (simp add: timer_isr_eq)
  from yield_neutral [OF assms(1) isr_state_wf [OF assms(2)] this] show ?thesis
    using sem_same_trans [OF same] by blast
next
  case False
  with assms(4) have s': "s' = s\<lparr>global_thread_tick_counter := global_thread_tick_counter s + 1,
      yield_count := yield_count s + 1\<rparr>" by (simp add: timer_isr_eq)
  have "runq_wf s' ts" by (rule runq_wf_fields [THEN iffD2, OF _ _ _ _ assms(2)]) (simp_all add: s')
  with assms(3) show ?thesis by (simp add: s' sem_same_def runs_free_def)
qed

interpretation sem_ticking: sem_neutral timer_isr
  by unfold_locales (rule timer_neutral)

lemma tick_sleep_neutral:
  assumes "handler_sem_quiet H" and "runq_wf s ts" and "runs_free s" and "tick_sleep H n s = Some s'"
  shows "sem_same s s' \<and> runq_wf s' ts \<and> runs_free s'"
proof -
  from assms(4) obtain s1 where s1: "upd_thread (current_thread s) (set_sleep n (global_thread_tick_counter s)) s = Some s1"
    and y: "thread_yield H s1 = Some s'"
    unfolding tick_sleep_def bind_eq_Some_conv by (elim exE conjE)
  show ?thesis
    by (rule sem_yielding.neutral_after_update [OF assms(1-3) s1 y])
      (simp_all add: set_sleep_def Let_def rt_consts)
qed

interpretation sem_sleeping: sem_neutral "\<lambda>H. tick_sleep H n" for n
  by unfold_locales (rule tick_sleep_neutral)

lemma thread_block_neutral:
  assumes "handler_sem_quiet H" and "runq_wf s ts" and "runs_free s" and "thread_block H s = Some s'"
  shows "sem_same s s' \<and> runq_wf s' ts \<and> runs_free s'"
proof -
  obtain t where t: "deref (current_thread s) s = Some t"
    using runq_wf_deref [OF assms(2) runq_wf_current [OF assms(2)]] by blast
  let ?f = "\<lambda>t :: thread. t\<lparr>status := SIMPLERTFRAMEWORK_BLOCKED\<rparr>"
  obtain s1 where s1: "upd_thread (current_thread s) ?f s = Some s1"
    using upd_current_ok [OF kernel_wfI [OF assms(2)]] .
  show ?thesis
  proof (cases "status t = SIMPLERTFRAMEWORK_ACTIVE")
    case True
    with assms(4) t s1 have y: "thread_yield H s1 = Some s'" by (simp add: thread_block_def)
    show ?thesis
      by (rule sem_yielding.neutral_after_update [OF assms(1-3) s1 y]) (simp_all add: rt_consts)
  next
    case False
    with assms(2-4) t show ?thesis by (simp add: thread_block_def)
  qed
qed

interpretation sem_blocking: sem_neutral thread_block
  by unfold_locales (rule thread_block_neutral)

section \<open>P and V refine the abstract semaphore\<close>

lemma enrol_queued:
  assumes "runq_wf s ts" and "current_thread s \<noteq> thread_main_inf s"
  shows "abs_sem sem ts (enrol sem s) = (abs_sem sem ts s)\<lparr>queued := insert (current_thread s) (queued (abs_sem sem ts s))\<rparr>"
proof -
  have "waits (threads (enrol sem s)) sem a = (a = current_thread s \<or> waits (threads s) sem a)" for a
    by (simp add: enrol_def waits_def)
  moreover have "current_thread s \<in> set (butlast ts)"
    using runq_wf_current [OF assms(1)] assms(2) runq_wf_butlast(3) [OF assms(1)] by simp
  ultimately show ?thesis by (auto simp: abs_sem_def enrol_def)
qed

lemma sem_P_wait:
  assumes "handler_sem_quiet H" and "sem_inv sem ts s" and "current_thread s \<noteq> thread_main_inf s"
    and "tokens (abs_sem sem ts s) = 0" and "thread_semaphore_P H sem s = Some s'"
  shows "sem_inv sem ts s' \<and>
    abs_sem sem ts s' = (abs_sem sem ts s)\<lparr>queued := insert (current_thread s) (queued (abs_sem sem ts s))\<rparr>"
proof -
  let ?e = "enrol sem s"
  have wf: "runq_wf s ts" and nn: "sem \<noteq> NULL" using assms(2) by (simp_all add: sem_inv_def sem_ok_def)
  obtain v where v: "sems s sem = Some v" using assms(2) by (auto simp: sem_inv_def sem_ok_def)
  have v0: "sint v = 0" using assms(4) v by (simp add: abs_sem_def)
  have y: "thread_yield H ?e = Some s'" using assms(5) by (simp add: sem_P_eq [OF wf nn v] v0)
  note q = enrol_queued [OF wf assms(3), of sem]
  have b: "sem_blocked (threads ?e) a = (a = current_thread s \<or> sem_blocked (threads s) a)" for a
    by (simp add: enrol_def sem_blocked_def)
  have "sem_ok sem ts ?e"
    using assms(2,4) enrol_wf [OF wf] unfolding sem_ok_def q b sem_inv_def
    by (simp add: enrol_def)
  with yield_neutral [OF assms(1) enrol_wf [OF wf] y] have "sem_inv sem ts s'"
    unfolding sem_inv_def using sem_ok_same by blast
  moreover have "abs_sem sem ts s' = abs_sem sem ts ?e"
    using yield_neutral [OF assms(1) enrol_wf [OF wf] y] abs_sem_same [OF _ enrol_wf [OF wf]] by blast
  ultimately show ?thesis by (simp add: q)
qed

lemma sem_P_take:
  assumes "sem_inv sem ts s" and "0 < tokens (abs_sem sem ts s)" and "thread_semaphore_P H sem s = Some s'"
  shows "sem_inv sem ts s' \<and> abs_sem sem ts s' = (abs_sem sem ts s)\<lparr>tokens := tokens (abs_sem sem ts s) - 1\<rparr>
    \<and> current_thread s' = current_thread s"
proof -
  have wf: "runq_wf s ts" and nn: "sem \<noteq> NULL" using assms(1) by (simp_all add: sem_inv_def sem_ok_def)
  obtain v where v: "sems s sem = Some v" using assms(1) by (auto simp: sem_inv_def sem_ok_def)
  have pos: "0 < sint v" using assms(2) v by (simp add: abs_sem_def)
  have s': "s' = s\<lparr>sems := (sems s)(sem \<mapsto> v - 1)\<rparr>"
    using assms(3) pos by (simp add: sem_P_eq [OF wf nn v])
  have "sint v < 2 ^ 15" using sint_less [of v] by simp
  then have "signed_take_bit 15 (sint v - 1) = sint v - 1"
    using pos by (intro signed_take_bit_int_eq_self) simp_all
  then have t: "sint (v - 1) = sint v - 1" by (simp add: sint_word_ariths)
  have q: "abs_sem sem ts s' = (abs_sem sem ts s)\<lparr>tokens := tokens (abs_sem sem ts s) - 1\<rparr>"
    by (simp add: abs_sem_def s' v t)
  have "runq_wf s' ts" by (rule runq_wf_fields [THEN iffD2, OF _ _ _ _ wf]) (simp_all add: s')
  with assms(1,2) show ?thesis unfolding sem_inv_def sem_ok_def q
    by (simp add: s' runs_free_def)
qed

lemma hand_over_queued:
  assumes "sem \<noteq> NULL" and "threads s a = Some t"
  shows "abs_sem sem ts (hand_over a s) = (abs_sem sem ts s)\<lparr>queued := queued (abs_sem sem ts s) - {a}\<rparr>"
proof -
  have "waits (threads (hand_over a s)) sem b = (b \<noteq> a \<and> waits (threads s) sem b)" for b
    using assms(1) by (simp add: hand_over_def waits_def)
  then show ?thesis by (auto simp: abs_sem_def hand_over_def)
qed

lemma sem_choice_queued:
  assumes "runq_wf s ts"
  shows "(sem_choice sem ts s = NULL \<longleftrightarrow> queued (abs_sem sem ts s) = {})
    \<and> (sem_choice sem ts s \<noteq> NULL \<longrightarrow> sem_choice sem ts s \<in> queued (abs_sem sem ts s)
         \<and> (\<forall>a \<in> queued (abs_sem sem ts s). prio (threads s) a \<le> prio (threads s) (sem_choice sem ts s)))"
  using sem_pick_first [OF runq_wf_butlast(4) [OF assms] refl, of "threads s" sem]
  unfolding sem_choice_def [symmetric]
proof (elim disjE exE conjE)
  fix xs ys
  assume "butlast ts = xs @ sem_choice sem ts s # ys" "waits (threads s) sem (sem_choice sem ts s)"
    "\<forall>a\<in>set xs. waits (threads s) sem a \<longrightarrow> prio (threads s) a < prio (threads s) (sem_choice sem ts s)"
    "\<forall>a\<in>set ys. waits (threads s) sem a \<longrightarrow> prio (threads s) a \<le> prio (threads s) (sem_choice sem ts s)"
    "sem_choice sem ts s \<noteq> NULL"
  then show ?thesis by (auto simp: abs_sem_def)
qed (auto simp: abs_sem_def)

lemma sem_V_post:
  assumes "sem_inv sem ts s" and "queued (abs_sem sem ts s) = {}"
    and "tokens (abs_sem sem ts s) < 2 ^ 15 - 1" and "thread_semaphore_V H sem s = Some s'"
  shows "sem_inv sem ts s' \<and> abs_sem sem ts s' = (abs_sem sem ts s)\<lparr>tokens := tokens (abs_sem sem ts s) + 1\<rparr>
    \<and> current_thread s' = current_thread s"
proof -
  have wf: "runq_wf s ts" and nn: "sem \<noteq> NULL" using assms(1) by (simp_all add: sem_inv_def sem_ok_def)
  obtain v where v: "sems s sem = Some v" using assms(1) by (auto simp: sem_inv_def sem_ok_def)
  have b: "sint v < 2 ^ 15 - 1" and "0 \<le> sint v"
    using assms(1,3) v by (simp_all add: abs_sem_def sem_inv_def sem_ok_def)
  then have "signed_take_bit 15 (sint v + 1) = sint v + 1" by (intro signed_take_bit_int_eq_self) simp_all
  then have t: "sint (v + 1) = sint v + 1" by (simp add: sint_word_ariths)
  have s': "s' = s\<lparr>sems := (sems s)(sem \<mapsto> v + 1)\<rparr>"
    using assms(2,4) sem_choice_queued [OF wf, of sem] by (simp add: sem_V_eq [OF wf nn v])
  have q: "abs_sem sem ts s' = (abs_sem sem ts s)\<lparr>tokens := tokens (abs_sem sem ts s) + 1\<rparr>"
    by (simp add: abs_sem_def s' v t)
  have "runq_wf s' ts" by (rule runq_wf_fields [THEN iffD2, OF _ _ _ _ wf]) (simp_all add: s')
  with assms(1,2) show ?thesis unfolding sem_inv_def sem_ok_def q
    by (simp add: s' runs_free_def)
qed

lemma sem_V_hand:
  assumes "handler_sem_quiet H" and "sem_inv sem ts s" and "queued (abs_sem sem ts s) \<noteq> {}"
    and "thread_semaphore_V H sem s = Some s'"
  shows "sem_inv sem ts s' \<and> sem_choice sem ts s \<in> queued (abs_sem sem ts s)
    \<and> (\<forall>a \<in> queued (abs_sem sem ts s). prio (threads s) a \<le> prio (threads s) (sem_choice sem ts s))
    \<and> abs_sem sem ts s' = (abs_sem sem ts s)\<lparr>queued := queued (abs_sem sem ts s) - {sem_choice sem ts s}\<rparr>"
proof -
  let ?c = "sem_choice sem ts s"
  let ?h = "hand_over ?c s"
  have wf: "runq_wf s ts" and nn: "sem \<noteq> NULL" using assms(2) by (simp_all add: sem_inv_def sem_ok_def)
  obtain v where v: "sems s sem = Some v" using assms(2) by (auto simp: sem_inv_def sem_ok_def)
  have c: "?c \<noteq> NULL" "?c \<in> queued (abs_sem sem ts s)"
      "\<forall>a \<in> queued (abs_sem sem ts s). prio (threads s) a \<le> prio (threads s) ?c"
    using sem_choice_queued [OF wf, of sem] assms(3) by auto
  have mem: "?c \<in> set ts" using c(2) in_set_butlastD by (fastforce simp: abs_sem_def)
  obtain t where t: "threads s ?c = Some t" using runq_wf_deref [OF wf mem] by blast
  have y: "thread_yield H ?h = Some s'" using assms(4) c(1) by (simp add: sem_V_eq [OF wf nn v])
  note q = hand_over_queued [OF nn t, of ts]
  have b: "a \<noteq> ?c \<Longrightarrow> sem_blocked (threads ?h) a = sem_blocked (threads s) a" for a
    by (simp add: hand_over_def sem_blocked_def)
  have t0: "tokens (abs_sem sem ts s) = 0" using assms(2,3) by (simp add: sem_inv_def sem_ok_def)
  have "sem_ok sem ts ?h"
    using assms(2) t0 hand_over_wf [OF wf mem] b unfolding sem_ok_def q sem_inv_def
    by (simp add: hand_over_def)
  with yield_neutral [OF assms(1) hand_over_wf [OF wf mem] y] have "sem_inv sem ts s'"
    unfolding sem_inv_def using sem_ok_same by blast
  moreover have "abs_sem sem ts s' = abs_sem sem ts ?h"
    using yield_neutral [OF assms(1) hand_over_wf [OF wf mem] y] abs_sem_same [OF _ hand_over_wf [OF wf mem]] by blast
  ultimately show ?thesis using c by (simp add: q)
qed

section \<open>Runs\<close>

text \<open>
  The life of a semaphore: P by any thread but the main one, V by anyone, and the other operations of
  the kernel in between, in any order. \<open>g\<close> counts the tokens taken (by a P that went through or by
  a V that handed its token to a waiting thread), \<open>p\<close> the calls of V.
\<close>

inductive sem_run :: "upcall \<Rightarrow> addr \<Rightarrow> addr list \<Rightarrow> kernel \<Rightarrow> nat \<Rightarrow> nat \<Rightarrow> kernel \<Rightarrow> bool"
  for H sem ts s0 where
  start: "sem_run H sem ts s0 0 0 s0"
| take: "sem_run H sem ts s0 g p s \<Longrightarrow> current_thread s \<noteq> thread_main_inf s \<Longrightarrow> 0 < tokens (abs_sem sem ts s)
    \<Longrightarrow> thread_semaphore_P H sem s = Some s' \<Longrightarrow> sem_run H sem ts s0 (Suc g) p s'"
| wait: "sem_run H sem ts s0 g p s \<Longrightarrow> current_thread s \<noteq> thread_main_inf s \<Longrightarrow> tokens (abs_sem sem ts s) \<le> 0
    \<Longrightarrow> thread_semaphore_P H sem s = Some s' \<Longrightarrow> sem_run H sem ts s0 g p s'"
| post: "sem_run H sem ts s0 g p s \<Longrightarrow> queued (abs_sem sem ts s) = {} \<Longrightarrow> tokens (abs_sem sem ts s) < 2 ^ 15 - 1
    \<Longrightarrow> thread_semaphore_V H sem s = Some s' \<Longrightarrow> sem_run H sem ts s0 g (Suc p) s'"
| hand: "sem_run H sem ts s0 g p s \<Longrightarrow> queued (abs_sem sem ts s) \<noteq> {}
    \<Longrightarrow> thread_semaphore_V H sem s = Some s' \<Longrightarrow> sem_run H sem ts s0 (Suc g) (Suc p) s'"
| yield: "sem_run H sem ts s0 g p s \<Longrightarrow> thread_yield H s = Some s' \<Longrightarrow> sem_run H sem ts s0 g p s'"
| tick: "sem_run H sem ts s0 g p s \<Longrightarrow> timer_isr H s = Some s' \<Longrightarrow> sem_run H sem ts s0 g p s'"
| sleep: "sem_run H sem ts s0 g p s \<Longrightarrow> tick_sleep H n s = Some s' \<Longrightarrow> sem_run H sem ts s0 g p s'"
| block: "sem_run H sem ts s0 g p s \<Longrightarrow> thread_block H s = Some s' \<Longrightarrow> sem_run H sem ts s0 g p s'"

lemma sem_run_counts:
  assumes "handler_sem_quiet H" and "sem_inv sem ts s0" and "sem_run H sem ts s0 g p s"
  shows "sem_inv sem ts s \<and> tokens (abs_sem sem ts s0) + int p = tokens (abs_sem sem ts s) + int g"
  using assms(3)
proof induction
  case start
  show ?case using assms(2) by simp
next
  case (take g p s s')
  with sem_P_take [of sem ts s H s'] show ?case by simp
next
  case (wait g p s s')
  then have "tokens (abs_sem sem ts s) = 0" by (simp add: sem_inv_def sem_ok_def)
  with wait sem_P_wait [OF assms(1), of sem ts s s'] show ?case by simp
next
  case (post g p s s')
  with sem_V_post [of sem ts s H s'] show ?case by simp
next
  case (hand g p s s')
  with sem_V_hand [OF assms(1), of sem ts s s'] show ?case by simp
next
  case (yield g p s s')
  with sem_yielding.keeps_sem [OF assms(1), of sem ts s s'] show ?case by simp
next
  case (tick g p s s')
  with sem_ticking.keeps_sem [OF assms(1), of sem ts s s'] show ?case by simp
next
  case (sleep g p s n s')
  with sem_sleeping.keeps_sem [OF assms(1), of sem ts s n s'] show ?case by simp
next
  case (block g p s s')
  with sem_blocking.keeps_sem [OF assms(1), of sem ts s s'] show ?case by simp
qed

section \<open>Freeing a semaphore\<close>

lemma release_keeps [simp]: "runq_next (release sem t) = runq_next t"
  by (simp add: release_def)

lemma sem_release_refines:
  assumes "runq (threads s) p (xs @ [thread_main_inf s])" and "distinct xs" and "thread_main_inf s \<notin> set xs"
  shows "sem_release sem p s = Some (s\<lparr>threads := (\<lambda>a. if a \<in> set xs
     then map_option (release sem) (threads s a) else threads s a)\<rparr>)"
  using assms
proof (induction xs arbitrary: p s)
  case Nil
  then show ?case by (subst sem_release.simps) (simp split: option.splits)
next
  case (Cons a xs)
  from Cons.prems(1) have a: "p = a" "a \<noteq> NULL" by simp_all
  from Cons.prems(1) obtain t :: thread where t: "threads s a = Some t"
    and q: "runq (threads s) (runq_next t) (xs @ [thread_main_inf s])"
    by (cases "threads s a") auto
  let ?s = "s\<lparr>threads := (threads s)(a \<mapsto> release sem t)\<rparr>"
  have u: "upd_thread a (release sem) s = Some ?s" using a t by (simp add: upd_thread_def deref_def)
  have d: "deref a ?s = Some (release sem t)" using a by (simp add: deref_def)
  have ne: "a \<noteq> thread_main_inf s" "a \<notin> set xs" using Cons.prems(2,3) by auto
  have q': "runq (threads ?s) (runq_next t) (xs @ [thread_main_inf ?s])"
    using q t runq_upd_same_next [of "threads s" a t "release sem t"] by simp
  have "sem_release sem p s = sem_release sem (runq_next t) ?s"
    by (subst sem_release.simps) (simp only: a ne u d if_False bind.bind_lunit release_keeps)
  also have "\<dots> = Some (?s\<lparr>threads := (\<lambda>b. if b \<in> set xs
     then map_option (release sem) (threads ?s b) else threads ?s b)\<rparr>)"
    using Cons.IH [OF q'] Cons.prems(2,3) by simp
  also have "(\<lambda>b. if b \<in> set xs then map_option (release sem) (threads ?s b) else threads ?s b)
     = (\<lambda>b. if b \<in> set (a # xs) then map_option (release sem) (threads s b) else threads s b)"
    using ne t by (auto simp: fun_eq_iff)
  finally show ?case by simp
qed

definition freed :: "addr \<Rightarrow> addr list \<Rightarrow> kernel \<Rightarrow> kernel" where
  "freed sem ts s = s\<lparr>threads := (\<lambda>a. if a \<in> set (butlast ts)
       then map_option (release sem) (threads s a) else threads s a)(sem := None),
     blocks := blocks s - {sem}, sems := (sems s)(sem := None), queues := (queues s)(sem := None)\<rparr>"

lemma sem_free_eq:
  assumes "runq_wf s ts" and "sem \<noteq> NULL" and "sem \<in> blocks s"
  shows "thread_semaphore_free sem s = Some (freed sem ts s)"
proof -
  have "runq (threads s) (thread_list s) (butlast ts @ [thread_main_inf s])"
    using assms runq_wf_butlast(1) [OF assms(1)] unfolding runq_wf_def by metis
  moreover have "distinct (butlast ts)" using assms(1) by (simp add: runq_wf_def distinct_butlast)
  ultimately show ?thesis
    using sem_release_refines [of s "thread_list s" "butlast ts" sem] runq_wf_butlast(2) [OF assms(1)] assms(2,3)
    by (simp add: thread_semaphore_free_def thread_free_def freed_def)
qed

lemma freed_wf:
  assumes "runq_wf s ts" and "sem \<notin> set ts"
  shows "runq_wf (freed sem ts s) ts"
proof (rule runq_wf_cong [OF _ _ _ _ assms(1)])
  show "map_option runq_next (threads (freed sem ts s) a) = map_option runq_next (threads s a)"
    if "a \<in> set ts" for a using that assms(2) by (cases "threads s a") (auto simp: freed_def)
qed (simp_all add: freed_def runq_wf_current [OF assms(1)])

lemma no_handler_sem_quiet: "handler_sem_quiet no_handler"
  by (simp add: handler_sem_quiet_def no_handler_def)

section \<open>Properties\<close>


text \<open>The kernel with the thread of priority 10 running, and the same after that thread has taken
  the only token.\<close>

definition demo_sem :: kernel where
  "demo_sem = demo\<lparr>current_thread := 0x200\<rparr>"

definition demo_taken :: kernel where
  "demo_taken = demo_sem\<lparr>sems := [0x400 \<mapsto> 0]\<rparr>"

lemma demo_sem_inv: "sem_inv 0x400 demo_list demo_sem"
proof -
  have "runq_wf demo_sem demo_list"
    unfolding demo_sem_def by (rule demo_runq_wf_at) (simp add: demo_list_def)
  then show ?thesis
    by (simp add: sem_inv_def sem_ok_def runs_free_def abs_sem_def sem_blocked_def waits_def demo_sem_def
        demo_defs rt_consts)
qed

lemma demo_take: "thread_semaphore_P no_handler 0x400 demo_sem = Some demo_taken"
  by (auto simp: thread_semaphore_P_def demo_sem_def demo_taken_def demo_def)


lemma sem_P_outcome:
  assumes "handler_ok H" and "handler_sem_quiet H" and "sem_inv sem ts s"
    and "current_thread s \<noteq> thread_main_inf s"
  shows "\<exists>s'. thread_semaphore_P H sem s = Some s' \<and> sem_inv sem ts s'
    \<and> (if 0 < tokens (abs_sem sem ts s)
       then abs_sem sem ts s' = (abs_sem sem ts s)\<lparr>tokens := tokens (abs_sem sem ts s) - 1\<rparr>
         \<and> current_thread s' = current_thread s
       else abs_sem sem ts s' = (abs_sem sem ts s)\<lparr>queued := insert (current_thread s) (queued (abs_sem sem ts s))\<rparr>
         \<and> current_thread s' \<noteq> current_thread s)"
proof -
  have wf: "runq_wf s ts" and nn: "sems s sem \<noteq> None" "sem \<noteq> NULL"
    using assms(3) by (simp_all add: sem_inv_def sem_ok_def)
  obtain s' where s': "thread_semaphore_P H sem s = Some s'"
    using sem_P_safe [OF assms(1) kernel_wfI [OF wf]] nn by blast
  show ?thesis
  proof (cases "0 < tokens (abs_sem sem ts s)")
    case True
    with sem_P_take [OF assms(3) True s'] s' show ?thesis by simp
  next
    case False
    then have t0: "tokens (abs_sem sem ts s) = 0" using assms(3) by (simp add: sem_inv_def sem_ok_def)
    note w = sem_P_wait [OF assms(2,3,4) t0 s']
    have "current_thread s \<noteq> current_thread s'"
    proof
      assume eq: "current_thread s = current_thread s'"
      have "current_thread s' \<in> queued (abs_sem sem ts s')" using w eq by simp
      then have "sem_blocked (threads s') (current_thread s')" using w by (auto simp: sem_inv_def sem_ok_def)
      moreover have "thread_main_inf s' = thread_main_inf s"
      proof -
        have "last ts = thread_main_inf s'" using w by (simp add: sem_inv_def sem_ok_def runq_wf_def)
        with wf show ?thesis by (simp add: runq_wf_def)
      qed
      ultimately show False using w eq assms(4) by (simp add: sem_inv_def runs_free_def)
    qed
    with w s' False show ?thesis by auto
  qed
qed




text \<open>Thread 0x300 waits, 0x200 holds the token.\<close>

definition demo_contended :: kernel where
  "demo_contended = demo_taken\<lparr>threads := demo_threads(0x300 \<mapsto>
     blank_thread\<lparr>runq_next := 0x200, priority := 5, sp := 0x2000, blocked_semaphore := 0x400,
       status := SIMPLERTFRAMEWORK_SEM_BLOCKED\<rparr>)\<rparr>"

lemma demo_contended_inv: "sem_inv 0x400 demo_list demo_contended"
proof -
  have "runq_wf demo_contended demo_list"
    by (simp add: runq_wf_def demo_contended_def demo_taken_def demo_sem_def demo_defs)
  then show ?thesis
    by (simp add: sem_inv_def sem_ok_def runs_free_def abs_sem_def sem_blocked_def waits_def
        demo_contended_def demo_taken_def demo_sem_def demo_defs rt_consts)
qed

lemma demo_contended_queued: "queued (abs_sem 0x400 demo_list demo_contended) = {0x300}"
  by (auto simp: abs_sem_def waits_def demo_contended_def demo_taken_def demo_sem_def demo_defs)


text \<open>Freeing a semaphore wakes every thread blocked on it: afterwards no thread of the run queue
  but possibly the main thread is blocked on it, all others are as before, the semaphore's block is
  released and the kernel is in order.\<close>

theorem semaphore_free_releases:
  assumes "runq_wf s ts" and "sem \<noteq> NULL" and "sem \<in> blocks s" and "sem \<notin> set ts"
  shows "\<exists>s'. thread_semaphore_free sem s = Some s' \<and> runq_wf s' ts
    \<and> sem \<notin> blocks s' \<and> sems s' sem = None
    \<and> (\<forall>a \<in> set ts - {thread_main_inf s}. \<not> (waits (threads s') sem a \<and> sem_blocked (threads s') a))
    \<and> (\<forall>a \<in> set ts. waits (threads s) sem a \<or> threads s' a = threads s a)"
proof -
  have "\<not> (waits (threads (freed sem ts s)) sem a \<and> sem_blocked (threads (freed sem ts s)) a)"
    if "a \<in> set (butlast ts)" for a
    using that assms(2,4) in_set_butlastD [OF that]
    by (cases "threads s a") (auto simp: freed_def waits_def sem_blocked_def release_def rt_consts)
  moreover have "waits (threads s) sem a \<or> threads (freed sem ts s) a = threads s a" if "a \<in> set ts" for a
    using that assms(4) by (cases "threads s a") (auto simp: freed_def waits_def release_def)
  ultimately show ?thesis
    unfolding sem_free_eq [OF assms(1-3)] runq_wf_butlast(3) [OF assms(1), symmetric]
    using freed_wf [OF assms(1,4)] by (auto simp: freed_def)
qed

theorem semaphore_free_releases_witness:
  "\<exists>s'. thread_semaphore_free 0x400 demo_contended = Some s' \<and> runq_wf s' demo_list
     \<and> \<not> (waits (threads s') 0x400 0x300 \<and> sem_blocked (threads s') 0x300)"
proof -
  have "runq_wf demo_contended demo_list" using demo_contended_inv by (simp add: sem_inv_def sem_ok_def)
  from semaphore_free_releases [OF this, of "0x400"] show ?thesis
    by (auto simp: demo_contended_def demo_taken_def demo_sem_def demo_defs)
qed

text \<open>The main thread is not kept out by a semaphore: when it calls P on one without tokens and no
  other thread is ready, P returns to it at once, and it goes on as if it had a token.\<close>

theorem semaphore_lets_main_pass:
  assumes "handler_ok H" and "runq_wf s ts" and "current_thread s = thread_main_inf s"
    and "sem \<noteq> NULL" and "sems s sem = Some v" and "sint v \<le> 0"
    and "\<And>a. a \<in> set ts \<Longrightarrow> a \<noteq> thread_main_inf s \<Longrightarrow> \<not> active (yield_heap s ts) a"
  shows "\<exists>s'. thread_semaphore_P H sem s = Some s' \<and> current_thread s' = thread_main_inf s"
proof -
  let ?e = "enrol sem s"
  note wf = enrol_wf [OF assms(2), of sem]
  have c: "current_thread ?e = current_thread s" "thread_main_inf ?e = thread_main_inf s" by (simp_all add: enrol_def)
  have "active (yield_heap ?e ts) a = active (yield_heap s ts) a" if "a \<noteq> current_thread s" for a
    using that by (simp add: active_def yield_heap_def refresh_on_def enrol_def)
  then have "yield_pick ?e ts = thread_main_inf s"
    using pick_active [of "yield_heap ?e ts" "current_thread ?e" "thread_main_inf ?e" "ring_after (current_thread ?e) ts"]
      yield_pick_mem [OF wf] assms(3,7)
    unfolding yield_pick_def c by metis
  moreover have "kernel_wf (yield_result ?e ts)" by (rule kernel_wfI) (rule yield_result_wf [OF wf])
  ultimately show ?thesis
    using ats_deliver_ok [OF assms(1), of "yield_result ?e ts"] assms(6)
    by (auto simp: sem_P_eq [OF assms(2,4,5)] thread_yield_exact [OF wf])
qed

text \<open>Only the main thread is ready.\<close>

definition demo_alone :: kernel where
  "demo_alone = demo\<lparr>sems := [0x400 \<mapsto> 0], threads := [0x100 \<mapsto> blank_thread,
     0x200 \<mapsto> blank_thread\<lparr>runq_next := 0x100, priority := 10, status := SIMPLERTFRAMEWORK_SEM_BLOCKED\<rparr>,
     0x300 \<mapsto> blank_thread\<lparr>runq_next := 0x200, priority := 5, status := SIMPLERTFRAMEWORK_SEM_BLOCKED\<rparr>]\<rparr>"

theorem semaphore_lets_main_pass_witness:
  "\<exists>s'. thread_semaphore_P no_handler 0x400 demo_alone = Some s' \<and> current_thread s' = 0x100"
proof -
  have wf: "runq_wf demo_alone demo_list" by (simp add: runq_wf_def demo_alone_def demo_defs)
  have m: "thread_main_inf demo_alone = 0x100" "current_thread demo_alone = thread_main_inf demo_alone"
    "sems demo_alone 0x400 = Some 0" by (simp_all add: demo_alone_def demo_def)
  have na: "\<not> active (yield_heap demo_alone demo_list) a" if "a \<in> set demo_list" "a \<noteq> thread_main_inf demo_alone" for a
    using that by (auto simp: m active_def yield_heap_def refresh_on_def refresh_def wake_check_def
        signal_support_def demo_alone_def demo_defs rt_consts)
  have "\<exists>s'. thread_semaphore_P no_handler 0x400 demo_alone = Some s' \<and> current_thread s' = thread_main_inf demo_alone"
    by (rule semaphore_lets_main_pass [OF no_handler_ok wf m(2) _ m(3) _ na]) simp_all
  then show ?thesis by (simp add: m)
qed

end
