(* ===== verification/RT_Signal.thy ===== *)
theory RT_Signal
  imports RT_Timer
begin

text \<open>
  Signals. \<open>thread_signal\<close> activates a sporadic or aperiodic thread: it counts the activation in
  \<open>queue_pending\<close> under the thread's minimum-interarrival and overflow policies and wakes the
  thread if it waits for one. Asynchronous signals (ATS) are counted in \<open>ats_pending\<close> and
  delivered to the thread's handler when it next gets the processor.
\<close>

section \<open>Activations\<close>

text \<open>The policies \<open>thread_signal\<close> applies to the thread structure; the result is its return value.\<close>

definition policy_mit :: "thread \<Rightarrow> u8" where
  "policy_mit t = mit_policy t AND 0x0F"

definition policy_ov :: "thread \<Rightarrow> u8" where
  "policy_ov t = mit_policy t AND 0xF0"

definition signal_update :: "u32 \<Rightarrow> thread \<Rightarrow> s16 \<times> thread" where
  "signal_update now t =
     (if sint (queue_pending t) \<le> sint (queue_length_max t) then
        (if min_period_ticks t < now - queue_last_input t \<or> block_pattern t \<noteq> 0x01 then
           (0, t\<lparr>queue_last_input := now, queue_pending := queue_pending t + 1\<rparr>)
         else if policy_mit t = SIMPLERTFRAMEWORK_SAVE_POLICY then
           (0, t\<lparr>queue_last_input := now, queue_pending := queue_pending t + 1\<rparr>)
         else if policy_mit t = SIMPLERTFRAMEWORK_EXCEPT_POLICY then
           (ucast SIMPLERTFRAMEWORK_EXCEPT_POLICY, t)
         else if policy_mit t = SIMPLERTFRAMEWORK_IGNORE_POLICY then (0, t)
         else if policy_mit t = SIMPLERTFRAMEWORK_REPLACE_POLICY then
           (0, t\<lparr>queue_last_input := now\<rparr>)
         else (- 3, t))
      else
        (if policy_ov t = SIMPLERTFRAMEWORK_OVER_SAVE_POLICY then
           (0, t\<lparr>queue_pending := queue_pending t + 1, queue_last_input := now\<rparr>)
         else if policy_ov t = SIMPLERTFRAMEWORK_OVER_EXCEPT_POLICY then
           (ucast SIMPLERTFRAMEWORK_OVER_EXCEPT_POLICY, t)
         else if policy_ov t = SIMPLERTFRAMEWORK_OVER_IGNORE_POLICY then (0, t)
         else if policy_ov t = SIMPLERTFRAMEWORK_OVER_REPLACE_POLICY then
           (0, t\<lparr>queue_last_input := now\<rparr>)
         else (- 2, t)))"

definition thread_signal :: "upcall \<Rightarrow> addr \<Rightarrow> kernel \<Rightarrow> (s16 \<times> kernel) option" where
  "thread_signal H th s =
     (if th = NULL then Some (- 1, s)
      else do {
        t \<leftarrow> deref th s;
        let (returned_result, t') = signal_update (global_thread_tick_counter s) t;
        s \<leftarrow> upd_thread th (\<lambda>_. t') s;
        s \<leftarrow> thread_unblock H th s;
        Some (returned_result, s) })"

section \<open>Asynchronous signals\<close>

definition thread_ATS_signal :: "upcall \<Rightarrow> addr \<Rightarrow> kernel \<Rightarrow> (s16 \<times> kernel) option" where
  "thread_ATS_signal H th s = do {
     s \<leftarrow> upd_thread th (\<lambda>t. t\<lparr>ats_pending := ats_pending t + 1\<rparr>) s;
     s \<leftarrow> thread_yield H s;
     Some (0, s) }"

definition thread_ATS_enable :: "upcall \<Rightarrow> kernel \<Rightarrow> kernel option" where
  "thread_ATS_enable H s = do {
     t \<leftarrow> deref (current_thread s) s;
     if ats_active t = 0
     then do {
       s \<leftarrow> upd_thread (current_thread s) (\<lambda>t. t\<lparr>ats_active := 1\<rparr>) s;
       thread_yield H s }
     else Some s }"

definition thread_ATS_disable :: "kernel \<Rightarrow> kernel option" where
  "thread_ATS_disable s = do {
     t \<leftarrow> deref (current_thread s) s;
     if ats_active t = 1
     then upd_thread (current_thread s) (\<lambda>t. t\<lparr>ats_active := 0\<rparr>) s
     else Some s }"

definition thread_ATS_set_maximum :: "u32 \<Rightarrow> kernel \<Rightarrow> kernel" where
  "thread_ATS_set_maximum m s = s"

definition thread_ATS_get_maximum :: s32 where
  "thread_ATS_get_maximum = 0"

definition push_ATS_signal :: "upcall \<Rightarrow> kernel \<Rightarrow> kernel option" where
  "push_ATS_signal H s = do {
     t \<leftarrow> deref (current_thread s) s;
     if error_handler t \<noteq> NULL then H (error_handler t) SIMPLERTFRAMEWORK_ATS_SIGNAL s else Some s }"

section \<open>The kernel stays in order\<close>

lemma signal_update_keeps [simp]:
  "runq_next (snd (signal_update now t)) = runq_next t"
  "status (snd (signal_update now t)) = status t"
  "queue_length_max (snd (signal_update now t)) = queue_length_max t"
  "mit_policy (snd (signal_update now t)) = mit_policy t"
  "min_period_ticks (snd (signal_update now t)) = min_period_ticks t"
  "block_pattern (snd (signal_update now t)) = block_pattern t"
  by (simp_all add: signal_update_def)

lemma thread_signal_safe:
  assumes "handler_ok H" and "kernel_wf s" and "th = NULL \<or> deref th s = Some t"
  shows "\<exists>r s'. thread_signal H th s = Some (r, s') \<and> kernel_wf s'"
proof (cases "th = NULL")
  case True
  with assms(2) show ?thesis by (simp add: thread_signal_def)
next
  case False
  with assms(3) have t: "deref th s = Some t" by simp
  then have h: "threads s th = Some t" by (simp add: deref_Some_iff)
  let ?u = "signal_update (global_thread_tick_counter s) t"
  let ?s1 = "s\<lparr>threads := (threads s)(th \<mapsto> snd ?u)\<rparr>"
  obtain ts where ts: "runq_wf s ts" using assms(2) by (rule kernel_wfE)
  have "runq_wf ?s1 ts"
    by (rule runq_wf_cong [OF _ _ _ _ ts]) (simp_all add: h runq_wf_current [OF ts])
  then have wf: "kernel_wf ?s1" by (rule kernel_wfI)
  have d: "deref th ?s1 = Some (snd ?u)" using False by (simp add: deref_def)
  from thread_unblock_safe [OF assms(1) wf d] obtain s' where "thread_unblock H th ?s1 = Some s'" "kernel_wf s'"
    by blast
  then show ?thesis using False t by (simp add: thread_signal_def upd_thread_def case_prod_beta)
qed

lemma thread_ATS_signal_safe:
  assumes "handler_ok H" and "kernel_wf s" and "deref th s = Some t"
  shows "\<exists>s'. thread_ATS_signal H th s = Some (0, s') \<and> kernel_wf s'"
proof -
  obtain s1 where s1: "upd_thread th (\<lambda>t. t\<lparr>ats_pending := ats_pending t + 1\<rparr>) s = Some s1"
    using assms(3) by (auto simp: upd_thread_Some_iff)
  with yielding.op_after_update [OF assms(1,2) _ s1] show ?thesis
    by (auto simp: thread_ATS_signal_def)
qed

lemma thread_ATS_enable_safe:
  assumes "handler_ok H" and "kernel_wf s"
  shows "\<exists>s'. thread_ATS_enable H s = Some s' \<and> kernel_wf s'"
proof -
  obtain t where t: "deref (current_thread s) s = Some t" using kernel_wf_current [OF assms(2)] .
  obtain s1 where s1: "upd_thread (current_thread s) (\<lambda>t. t\<lparr>ats_active := 1\<rparr>) s = Some s1"
    using upd_current_ok [OF assms(2)] .
  with yielding.op_after_update [OF assms _ s1] show ?thesis
    using assms(2) t by (simp add: thread_ATS_enable_def)
qed

interpretation ats_enabling: kernel_op thread_ATS_enable
  by unfold_locales (rule thread_ATS_enable_safe)

lemma thread_ATS_disable_safe:
  assumes "kernel_wf s"
  shows "\<exists>s'. thread_ATS_disable s = Some s' \<and> kernel_wf s'"
proof -
  obtain t where t: "deref (current_thread s) s = Some t" using kernel_wf_current [OF assms] .
  obtain s1 where s1: "upd_thread (current_thread s) (\<lambda>t. t\<lparr>ats_active := 0\<rparr>) s = Some s1"
    using upd_current_ok [OF assms] .
  have "kernel_wf s1" by (rule kernel_wf_upd_thread [OF assms s1]) simp
  with assms t s1 show ?thesis by (simp add: thread_ATS_disable_def)
qed

interpretation ats_disabling: kernel_op "\<lambda>_. thread_ATS_disable"
  by unfold_locales (rule thread_ATS_disable_safe)

section \<open>The bound on pending activations\<close>

lemma sint_inc:
  fixes x :: s32
  assumes "sint x < 2 ^ 31 - 1"
  shows "sint (x + 1) = sint x + 1"
proof -
  have "- (2 ^ 31) \<le> sint x" using sint_greater_eq [of x] by simp
  then have "signed_take_bit 31 (sint x + 1) = sint x + 1"
    using assms by (intro signed_take_bit_int_eq_self) simp_all
  then show ?thesis by (simp add: sint_word_ariths)
qed

lemma sint_dec:
  fixes x :: s32
  assumes "0 < sint x"
  shows "sint (x - 1) = sint x - 1"
proof -
  have "sint x < 2 ^ 31" using sint_less [of x] by simp
  then have "signed_take_bit 31 (sint x - 1) = sint x - 1"
    using assms by (intro signed_take_bit_int_eq_self) simp_all
  then show ?thesis by (simp add: sint_word_ariths)
qed

text \<open>Arrivals of signals and completions of activations, as \<open>periodic_pattern\<close> counts them.\<close>

datatype activation = Arrive u32 | Complete

fun activation_step :: "thread \<Rightarrow> activation \<Rightarrow> thread" where
  "activation_step t (Arrive now) = snd (signal_update now t)"
| "activation_step t Complete =
     (if 0 < sint (queue_pending t) then t\<lparr>queue_pending := queue_pending t - 1\<rparr> else t)"

definition pending_bounded :: "thread \<Rightarrow> bool" where
  "pending_bounded t \<longleftrightarrow> 0 \<le> sint (queue_pending t)
     \<and> sint (queue_pending t) \<le> sint (queue_length_max t) + 1 \<and> sint (queue_length_max t) < 2 ^ 31 - 1"

lemma activation_step_keeps:
  "mit_policy (activation_step t e) = mit_policy t"
  "queue_length_max (activation_step t e) = queue_length_max t"
  by (cases e; simp)+

lemma signal_update_pending:
  "queue_pending (snd (signal_update now t)) = queue_pending t
   \<or> queue_pending (snd (signal_update now t)) = queue_pending t + 1
     \<and> (sint (queue_pending t) \<le> sint (queue_length_max t) \<or> policy_ov t = SIMPLERTFRAMEWORK_OVER_SAVE_POLICY)"
  by (simp add: signal_update_def)

lemma activation_step_bounded:
  assumes "policy_ov t \<noteq> SIMPLERTFRAMEWORK_OVER_SAVE_POLICY" and "pending_bounded t"
  shows "pending_bounded (activation_step t e)"
proof (cases e)
  case (Arrive now)
  show ?thesis
    using signal_update_pending [of now t] assms sint_inc [of "queue_pending t"]
    by (auto simp: Arrive pending_bounded_def)
next
  case Complete
  then show ?thesis using assms(2) sint_dec [of "queue_pending t"] by (auto simp: pending_bounded_def)
qed

section \<open>The separation of activations\<close>

fun accepted :: "thread \<Rightarrow> u32 list \<Rightarrow> u32 list" where
  "accepted t [] = []"
| "accepted t (now # ns) =
     (let t' = snd (signal_update now t)
      in if queue_pending t' \<noteq> queue_pending t then now # accepted t' ns else accepted t' ns)"

definition strict_mit :: "thread \<Rightarrow> bool" where
  "strict_mit t \<longleftrightarrow> block_pattern t = 0x01
     \<and> policy_mit t \<notin> {SIMPLERTFRAMEWORK_SAVE_POLICY, SIMPLERTFRAMEWORK_REPLACE_POLICY}
     \<and> policy_ov t \<notin> {SIMPLERTFRAMEWORK_OVER_SAVE_POLICY, SIMPLERTFRAMEWORK_OVER_REPLACE_POLICY}"

lemma strict_mit_step: "strict_mit (snd (signal_update now t)) = strict_mit t"
  by (simp add: strict_mit_def policy_mit_def policy_ov_def)

lemma strict_mit_cases:
  assumes "strict_mit t"
  shows "snd (signal_update now t) = t
    \<or> snd (signal_update now t) = t\<lparr>queue_last_input := now, queue_pending := queue_pending t + 1\<rparr>
      \<and> min_period_ticks t < now - queue_last_input t"
  using assms by (simp add: signal_update_def strict_mit_def)

lemma accepted_separated:
  "strict_mit t \<Longrightarrow> successively (\<lambda>a b. min_period_ticks t < b - a) (queue_last_input t # accepted t ns)"
proof (induction ns arbitrary: t)
  case (Cons now ns)
  let ?t' = "snd (signal_update now t)"
  have s: "strict_mit ?t'" using Cons.prems by (simp add: strict_mit_step)
  from strict_mit_cases [OF Cons.prems, of now] show ?case
  proof
    assume "?t' = t"
    with Cons show ?thesis by (simp add: Let_def)
  next
    assume a: "?t' = t\<lparr>queue_last_input := now, queue_pending := queue_pending t + 1\<rparr>
      \<and> min_period_ticks t < now - queue_last_input t"
    then have "queue_last_input ?t' = now" and "queue_pending ?t' \<noteq> queue_pending t" by simp_all
    with Cons.IH [OF s] a show ?thesis by (simp add: Let_def)
  qed
qed simp

section \<open>The window of a waiting thread\<close>

lemma signal_support_window:
  assumes "unat (queue_last_input t) + 2 * unat (min_period_ticks t) < 2 ^ 32"
  shows "min_period_ticks t < now - queue_last_input (signal_support now t)
     \<longleftrightarrow> min_period_ticks t < now - queue_last_input t"
proof (cases "status t = SIMPLERTFRAMEWORK_BLOCKED
    \<and> queue_last_input t + 2 * min_period_ticks t < now")
  case True
  let ?l = "queue_last_input t" and ?p = "min_period_ticks t"
  have w: "unat (?l + 2 * ?p) = unat ?l + 2 * unat ?p" using assms by (simp add: unat_word_ariths)
  have wp: "unat (?l + ?p) = unat ?l + unat ?p" using assms by (simp add: unat_word_ariths)
  from True have lt: "unat ?l + 2 * unat ?p < unat now" by (simp add: word_less_nat_alt w)
  have "unat (now - ?l) = unat now - unat ?l" using lt by (intro unat_sub) (simp add: word_le_nat_alt)
  moreover have "unat (now - (?l + ?p)) = unat now - (unat ?l + unat ?p)"
    using lt wp by (subst unat_sub) (simp_all add: word_le_nat_alt)
  moreover have "queue_last_input (signal_support now t) = ?l + ?p" using True by (simp add: signal_support_def)
  ultimately show ?thesis using lt unfolding word_less_nat_alt by (simp only:) arith
next
  case False
  then show ?thesis by (simp add: signal_support_def)
qed

section \<open>Delivery of asynchronous signals\<close>

text \<open>One delivery: a pending signal is taken off and the handler, if there is one, is called.\<close>

definition ats_one :: "upcall \<Rightarrow> kernel \<Rightarrow> kernel option" where
  "ats_one H s = do {
     s \<leftarrow> upd_thread (current_thread s) (\<lambda>t. t\<lparr>ats_pending := ats_pending t - 1\<rparr>) s;
     push_ATS_signal H s }"

text \<open>Handlers that return to their thread and leave its count of pending signals alone.\<close>

definition handler_quiet :: "upcall \<Rightarrow> bool" where
  "handler_quiet H \<longleftrightarrow> (\<forall>f e s s'. H f e s = Some s' \<longrightarrow>
     current_thread s' = current_thread s \<and> ats_left s' = ats_left s)"

lemma ats_loop_unfold:
  assumes "deref (current_thread s) s = Some t"
  shows "ats_loop H s = (if ats_pending t = 0 then Some s else Option.bind (ats_one H s) (ats_loop H))"
proof -
  let ?t1 = "t\<lparr>ats_pending := ats_pending t - 1\<rparr>"
  let ?s1 = "s\<lparr>threads := (threads s)(current_thread s \<mapsto> ?t1)\<rparr>"
  have u: "upd_thread (current_thread s) (\<lambda>t. t\<lparr>ats_pending := ats_pending t - 1\<rparr>) s = Some ?s1"
    using assms by (simp add: upd_thread_def)
  have "deref (current_thread ?s1) ?s1 = Some ?t1" using assms by (simp add: deref_def split: if_splits)
  then show ?thesis
    by (subst ats_loop.simps) (simp add: assms u ats_one_def push_ATS_signal_def)
qed

lemma ats_one_left:
  assumes "handler_quiet H" and "deref (current_thread s) s = Some t" and "ats_one H s = Some s'"
  shows "current_thread s' = current_thread s" and "ats_left s' = ats_pending t - 1"
proof -
  let ?t1 = "t\<lparr>ats_pending := ats_pending t - 1\<rparr>"
  let ?s1 = "s\<lparr>threads := (threads s)(current_thread s \<mapsto> ?t1)\<rparr>"
  have "deref (current_thread ?s1) ?s1 = Some ?t1" using assms(2) by (simp add: deref_def split: if_splits)
  then have r: "(if error_handler ?t1 \<noteq> NULL then H (error_handler ?t1) SIMPLERTFRAMEWORK_ATS_SIGNAL ?s1
      else Some ?s1) = Some s'"
    using assms(2,3) by (simp add: ats_one_def upd_thread_def push_ATS_signal_def)
  have c: "current_thread ?s1 = current_thread s" and l: "ats_left ?s1 = ats_pending t - 1"
    by (simp_all add: ats_left_def)
  have "current_thread s' = current_thread ?s1 \<and> ats_left s' = ats_left ?s1"
  proof (cases "error_handler ?t1 = NULL")
    case True
    with r show ?thesis by simp
  next
    case False
    with r have "H (error_handler ?t1) SIMPLERTFRAMEWORK_ATS_SIGNAL ?s1 = Some s'" by (simp only: if_True simp_thms)
    then show ?thesis using assms(1) unfolding handler_quiet_def by blast
  qed
  then show "current_thread s' = current_thread s" and "ats_left s' = ats_pending t - 1"
    by (simp_all only: c l)
qed

lemma ats_loop_counts:
  assumes "handler_ok H" and "handler_quiet H"
  shows "kernel_wf s \<Longrightarrow> unat (ats_left s) = n \<Longrightarrow>
    ats_loop H s = ((\<lambda>m. Option.bind m (ats_one H)) ^^ n) (Some s)"
proof (induction n arbitrary: s)
  case 0
  obtain t where t: "deref (current_thread s) s = Some t" "threads s (current_thread s) = Some t"
    using kernel_wf_current [OF 0(1)] .
  with 0(2) have "ats_pending t = 0" by (simp add: ats_left_def word_unat_eq_iff)
  with ats_loop_unfold [OF t(1)] show ?case by simp
next
  case (Suc n)
  let ?c = "current_thread s"
  obtain t where t: "deref ?c s = Some t" "threads s ?c = Some t"
    using kernel_wf_current [OF Suc.prems(1)] .
  with Suc.prems(2) have n: "unat (ats_pending t) = Suc n" by (simp add: ats_left_def)
  then have p: "ats_pending t \<noteq> 0" by auto
  let ?s1 = "s\<lparr>threads := (threads s)(?c \<mapsto> t\<lparr>ats_pending := ats_pending t - 1\<rparr>)\<rparr>"
  have u: "upd_thread ?c (\<lambda>t. t\<lparr>ats_pending := ats_pending t - 1\<rparr>) s = Some ?s1"
    using t by (simp add: upd_thread_def)
  have wf1: "kernel_wf ?s1" by (rule kernel_wf_upd_thread [OF Suc.prems(1) u]) simp
  have d1: "deref ?c ?s1 = Some (t\<lparr>ats_pending := ats_pending t - 1\<rparr>)"
    using t by (simp add: deref_def split: if_splits)
  obtain s2 where one: "ats_one H s = Some s2" and wf2: "kernel_wf s2"
  proof (cases "error_handler t = NULL")
    case True
    with that [of ?s1] u wf1 d1 show thesis by (simp add: ats_one_def push_ATS_signal_def)
  next
    case False
    with handler_okD [OF assms(1) wf1, of "error_handler t" SIMPLERTFRAMEWORK_ATS_SIGNAL] that u d1
    show thesis by (auto simp: ats_one_def push_ATS_signal_def)
  qed
  from ats_one_left [OF assms(2) t(1) one] have "unat (ats_left s2) = n"
    using p n by (simp add: unat_pred_pos)
  from Suc.IH [OF wf2 this] have "ats_loop H s2 = ((\<lambda>m. Option.bind m (ats_one H)) ^^ n) (Some s2)" .
  moreover have "((\<lambda>m. Option.bind m (ats_one H)) ^^ Suc n) (Some s) = ((\<lambda>m. Option.bind m (ats_one H)) ^^ n) (Some s2)"
    by (simp only: funpow_Suc_right o_apply one bind.bind_lunit)
  ultimately show ?case using ats_loop_unfold [OF t(1)] p one by simp
qed

section \<open>Properties\<close>


definition demo_sporadic :: thread where
  "demo_sporadic = blank_thread\<lparr>block_pattern := 1, mit_policy := 0x22, queue_length_max := 3,
     min_period_ticks := 10\<rparr>"


text \<open>The overflow test lets one activation too many in: a thread whose queue already holds
  \<open>queue_length_max\<close> activations accepts another one, without applying its overflow policy.\<close>

theorem signal_queue_overshoots:
  assumes "queue_pending t = queue_length_max t" and "sint (queue_length_max t) < 2 ^ 31 - 1"
    and "block_pattern t \<noteq> 0x01 \<or> min_period_ticks t < now - queue_last_input t"
  shows "fst (signal_update now t) = 0
    \<and> sint (queue_pending (snd (signal_update now t))) = sint (queue_length_max t) + 1"
  using assms sint_inc [of "queue_length_max t"] by (auto simp: signal_update_def)

theorem signal_queue_overshoots_witness:
  "sint (queue_pending (snd (signal_update 50 (demo_sporadic\<lparr>queue_pending := 3\<rparr>)))) = 4"
  using signal_queue_overshoots [of "demo_sporadic\<lparr>queue_pending := 3\<rparr>" 50]
  by (simp add: demo_sporadic_def blank_thread_def)

text \<open>A sporadic thread whose policies neither save nor replace early or surplus signals is never
  activated twice within its minimum interarrival time: any two consecutive accepted signals are more
  than \<open>min_period_ticks\<close> apart, across overflows of the counter too.\<close>

theorem sporadic_separation:
  assumes "strict_mit t"
  shows "successively (\<lambda>a b. min_period_ticks t < b - a) (queue_last_input t # accepted t ns)"
  using assms by (rule accepted_separated)

theorem sporadic_separation_witness:
  "accepted demo_sporadic [5, 11, 20, 22] = [11, 22]
   \<and> successively (\<lambda>a b. 10 < b - a) (0 # accepted demo_sporadic [5, 11, 20, 22])"
proof -
  have "strict_mit demo_sporadic"
    by (simp add: strict_mit_def policy_mit_def policy_ov_def demo_sporadic_def blank_thread_def rt_consts)
  from sporadic_separation [OF this, of "[5, 11, 20, 22]"] show ?thesis
    by (simp add: signal_update_def policy_mit_def policy_ov_def demo_sporadic_def blank_thread_def rt_consts)
qed

text \<open>The walk of a yield moves the window of a blocked thread forward without changing any
  decision: a signal respects the minimum interarrival time after the move exactly if it did before
  (as long as the window does not reach over the counter's end).\<close>

theorem window_move_is_invisible:
  assumes "unat (queue_last_input t) + 2 * unat (min_period_ticks t) < 2 ^ 32"
  shows "min_period_ticks t < now - queue_last_input (signal_support now t)
     \<longleftrightarrow> min_period_ticks t < now - queue_last_input t"
  using assms by (rule signal_support_window)

theorem window_move_is_invisible_witness:
  "queue_last_input (signal_support 100 (demo_sporadic\<lparr>status := SIMPLERTFRAMEWORK_BLOCKED\<rparr>)) = 10
   \<and> 10 < 100 - queue_last_input (signal_support 100 (demo_sporadic\<lparr>status := SIMPLERTFRAMEWORK_BLOCKED\<rparr>))"
  using window_move_is_invisible [of "demo_sporadic\<lparr>status := SIMPLERTFRAMEWORK_BLOCKED\<rparr>" 100]
  by (simp add: signal_support_def demo_sporadic_def blank_thread_def)

text \<open>C31: a signal to a blocked thread that has a higher priority than every other thread gives it the
  processor at once.\<close>

theorem signal_preempts:
  assumes "handler_ok H" and "runq_wf s ts" and "th \<in> set ts" and "threads s th = Some t"
    and "status t = SIMPLERTFRAMEWORK_BLOCKED" and "th \<noteq> current_thread s"
    and "\<And>a. a \<in> set ts \<Longrightarrow> a \<noteq> th \<Longrightarrow> prio (threads s) a < prio (threads s) th"
  shows "\<exists>r s'. thread_signal H th s = Some (r, s') \<and> current_thread s' = th \<and> kernel_wf s'"
proof -
  let ?u = "signal_update (global_thread_tick_counter s) t"
  let ?t2 = "(snd ?u)\<lparr>status := SIMPLERTFRAMEWORK_ACTIVE\<rparr>"
  let ?s1 = "s\<lparr>threads := (threads s)(th \<mapsto> snd ?u)\<rparr>" and ?s2 = "s\<lparr>threads := (threads s)(th \<mapsto> ?t2)\<rparr>"
  have th: "th \<noteq> NULL" using runq_wf_deref [OF assms(2,3)] by (auto simp: deref_Some_iff)
  have wf: "runq_wf ?s2 ts"
    by (rule runq_wf_cong [OF _ _ _ _ assms(2)]) (simp_all add: assms(4) runq_wf_current [OF assms(2)])
  have pr: "prio (threads ?s2) = prio (threads s)"
    by (rule ext) (simp add: prio_def assms(4) signal_update_def)
  have "yield_pick ?s2 ts = th"
  proof (rule yield_pick_top [OF wf assms(3)])
    show "active (yield_heap ?s2 ts) th"
      using assms(3) by (simp add: active_def yield_heap_def refresh_on_def refresh_active)
    show "th \<noteq> current_thread ?s2" using assms(6) by simp
    show "prio (threads ?s2) a < prio (threads ?s2) th" if "a \<in> set ts" "a \<noteq> th" for a
      unfolding pr using assms(7) that .
  qed
  then have c: "current_thread (yield_result ?s2 ts) = th" by simp
  have "kernel_wf (yield_result ?s2 ts)" by (rule kernel_wfI) (rule yield_result_wf [OF wf])
  from ats_deliver_ok [OF assms(1) this] obtain s' where s': "thread_yield H ?s2 = Some s'"
    and "kernel_wf s'" and "current_thread s' = th"
    unfolding thread_yield_exact [OF wf] c by blast
  moreover have "thread_signal H th s = map_option (Pair (fst ?u)) (thread_yield H ?s2)"
    using th assms(4,5)
    by (simp add: thread_signal_def upd_thread_def deref_def case_prod_beta thread_unblock_def s')
  ultimately show ?thesis by auto
qed

definition demo_waiting :: kernel where
  "demo_waiting = demo\<lparr>threads := demo_threads(0x200 \<mapsto>
     demo_sporadic\<lparr>runq_next := 0x100, priority := 10, status := SIMPLERTFRAMEWORK_BLOCKED\<rparr>)\<rparr>"

theorem signal_preempts_witness:
  "\<exists>r s'. thread_signal no_handler 0x200 demo_waiting = Some (r, s') \<and> current_thread s' = 0x200"
proof -
  have wf: "runq_wf demo_waiting demo_list"
    by (simp add: runq_wf_def demo_waiting_def demo_sporadic_def demo_defs)
  have t: "threads demo_waiting 0x200 = Some (demo_sporadic\<lparr>runq_next := 0x100, priority := 10,
      status := SIMPLERTFRAMEWORK_BLOCKED\<rparr>)" by (simp add: demo_waiting_def)
  have "\<exists>r s'. thread_signal no_handler 0x200 demo_waiting = Some (r, s') \<and> current_thread s' = 0x200 \<and> kernel_wf s'"
    by (rule signal_preempts [OF no_handler_ok wf _ t])
      (auto simp: demo_waiting_def prio_def demo_sporadic_def demo_defs)
  then show ?thesis by blast
qed

text \<open>C32: when a thread that accepts asynchronous signals gets the processor, its handler is called
  exactly once for each pending signal before the thread goes on, and none is left pending.\<close>

theorem ats_delivers_all:
  assumes "handler_ok H" and "handler_quiet H" and "kernel_wf s"
    and "threads s (current_thread s) = Some t" and "ats_active t = 1"
  shows "ats_deliver H s = ((\<lambda>m. Option.bind m (ats_one H)) ^^ unat (ats_pending t)) (Some s)
    \<and> (\<exists>s'. ats_deliver H s = Some s' \<and> ats_left s' = 0)"
proof -
  have d: "deref (current_thread s) s = Some t"
    using kernel_wf_current [OF assms(3)] assms(4) by (metis option.inject)
  then have l: "ats_deliver H s = ats_loop H s" using assms(5) by (simp add: ats_deliver_def)
  have "unat (ats_left s) = unat (ats_pending t)" using assms(4) by (simp add: ats_left_def)
  from ats_loop_counts [OF assms(1,2,3) this] l
  have "ats_deliver H s = ((\<lambda>m. Option.bind m (ats_one H)) ^^ unat (ats_pending t)) (Some s)" by simp
  moreover have "\<exists>s'. ats_deliver H s = Some s' \<and> ats_left s' = 0" using ats_loop_ok [OF assms(1,3)] l by auto
  ultimately show ?thesis ..
qed

definition demo_ats :: kernel where
  "demo_ats = demo\<lparr>threads := demo_threads(0x100 \<mapsto> blank_thread\<lparr>ats_active := 1, ats_pending := 3\<rparr>)\<rparr>"

theorem ats_delivers_all_witness:
  "\<exists>s'. ats_deliver no_handler demo_ats = Some s' \<and> ats_left s' = 0"
proof (rule ats_delivers_all [OF no_handler_ok, THEN conjunct2])
  show "handler_quiet no_handler" by (simp add: handler_quiet_def no_handler_def)
  show "kernel_wf demo_ats"
    by (rule kernel_wfI [of _ demo_list]) (simp add: runq_wf_def demo_ats_def demo_defs)
  show "threads demo_ats (current_thread demo_ats) = Some (blank_thread\<lparr>ats_active := 1, ats_pending := 3\<rparr>)"
    by (simp add: demo_ats_def demo_def)
qed simp

end
