(* ===== verification/RT_Requests.thy ===== *)
theory RT_Requests
  imports RT_Semaphore RT_Signal
begin

text \<open>
  The kernel as a whole: the requests that can be made of it, in any order, and the states they lead to.
\<close>

text \<open>
  The requests threads, the main program and the timer make of the library, and what serves them. A
  request that names a thread or a semaphore is valid when the name is that of a live one; results the
  caller gets besides the new state are dropped here.
\<close>

datatype request = Yield | Tick | Tick_sleep u32 | Usleep u32 | Block | Unblock addr | Signal addr
  | ATS_signal addr | ATS_enable | ATS_disable | Sem_P addr | Sem_V addr | Charge

fun serve :: "upcall \<Rightarrow> request \<Rightarrow> kernel \<Rightarrow> kernel option" where
  "serve H Yield s = thread_yield H s"
| "serve H Tick s = timer_isr H s"
| "serve H (Tick_sleep n) s = tick_sleep H n s"
| "serve H (Usleep n) s = thread_usleep H n s"
| "serve H Block s = thread_block H s"
| "serve H (Unblock th) s = thread_unblock H th s"
| "serve H (Signal th) s = map_option snd (thread_signal H th s)"
| "serve H (ATS_signal th) s = map_option snd (thread_ATS_signal H th s)"
| "serve H ATS_enable s = thread_ATS_enable H s"
| "serve H ATS_disable s = thread_ATS_disable s"
| "serve H (Sem_P sem) s = thread_semaphore_P H sem s"
| "serve H (Sem_V sem) s = thread_semaphore_V H sem s"
| "serve H Charge s = map_option snd (get_current_cost_ticks s)"

fun valid :: "request \<Rightarrow> kernel \<Rightarrow> bool" where
  "valid (Unblock th) s = (deref th s \<noteq> None)"
| "valid (Signal th) s = (th = NULL \<or> deref th s \<noteq> None)"
| "valid (ATS_signal th) s = (deref th s \<noteq> None)"
| "valid (Sem_P sem) s = (sem = NULL \<or> sems s sem \<noteq> None)"
| "valid (Sem_V sem) s = (sem = NULL \<or> sems s sem \<noteq> None)"
| "valid _ s = True"

inductive reachable :: "upcall \<Rightarrow> kernel \<Rightarrow> kernel \<Rightarrow> bool" for H s0 where
  initial: "reachable H s0 s0"
| served: "reachable H s0 s \<Longrightarrow> valid r s \<Longrightarrow> serve H r s = Some s' \<Longrightarrow> reachable H s0 s'"
| resumed: "reachable H s0 s \<Longrightarrow> reachable H s0 (timer_isr_resumed s)"

lemma charge_safe:
  assumes "kernel_wf s"
  shows "\<exists>c s'. get_current_cost_ticks s = Some (c, s') \<and> kernel_wf s'"
proof -
  obtain ts where ts: "runq_wf s ts" using assms by (rule kernel_wfE)
  obtain t where t: "deref (current_thread s) s = Some t"
    using runq_wf_deref [OF ts runq_wf_current [OF ts]] by blast
  obtain s' where s': "charge_current s = Some s'" using charge_current_exact [OF t] by blast
  have wf: "runq_wf s' ts" by (rule charge_current_wf [OF ts s'])
  obtain t' where "deref (current_thread s') s' = Some t'"
    using runq_wf_deref [OF wf runq_wf_current [OF wf]] by blast
  with s' kernel_wfI [OF wf] show ?thesis by (simp add: get_current_cost_ticks_def)
qed

lemma serve_safe:
  assumes "handler_ok H" and "kernel_wf s" and "valid r s"
  shows "\<exists>s'. serve H r s = Some s' \<and> kernel_wf s'"
proof (cases r)
  case (Unblock th)
  with assms thread_unblock_safe [OF assms(1,2)] show ?thesis by auto
next
  case (Signal th)
  with assms thread_signal_safe [OF assms(1,2), of th] show ?thesis by fastforce
next
  case (ATS_signal th)
  with assms thread_ATS_signal_safe [OF assms(1,2), of th] show ?thesis by fastforce
next
  case (Sem_P sem)
  with assms sem_P_safe [OF assms(1,2)] show ?thesis by simp
next
  case (Sem_V sem)
  with assms sem_V_safe [OF assms(1,2)] show ?thesis by simp
next
  case Charge
  with charge_safe [OF assms(2)] show ?thesis by auto
qed (use assms(1,2) yielding.op_safe ticking.op_safe sleeping.op_safe usleeping.op_safe blocking.op_safe
      ats_enabling.op_safe ats_disabling.op_safe in simp_all)

lemma resumed_wf: "kernel_wf s \<Longrightarrow> kernel_wf (timer_isr_resumed s)"
  by (rule kernel_wf_fields [THEN iffD2]) (simp_all add: timer_isr_resumed_def)

lemma reachable_wf:
  assumes "handler_ok H" and "kernel_wf s0" and "reachable H s0 s"
  shows "kernel_wf s"
  using assms(3)
proof induction
  case (served s r s')
  with serve_safe [OF assms(1), of s r] show ?case by auto
qed (simp_all add: assms(2) resumed_wf)

end
