(* ===== verification/RT_Typing.thy ===== *)
theory RT_Typing
  imports RT_Requests
begin

text \<open>
  What the operations of the kernel leave of the fields of a thread: which values the enumerated fields can
  take, and which parameters never change. Both are instances of one contract, a property of single threads
  that every update the kernel makes respects.
\<close>

section \<open>Properties of single threads\<close>

text \<open>The property is asked of the threads in \<open>A\<close> and may depend on the time. Signals and ticks are left to
  those who extend the contract.\<close>

locale timed_property =
  fixes A :: "addr set" and P :: "u32 \<Rightarrow> addr \<Rightarrow> thread \<Rightarrow> bool"
  assumes P_sp: "P now a t \<Longrightarrow> P now a (t\<lparr>sp := x\<rparr>)"
    and P_cost: "P now a t \<Longrightarrow> P now a (t\<lparr>current_cost_ticks := c\<rparr>)"
    and P_account: "P now a t \<Longrightarrow> P now a (account d t)"
    and P_refresh: "P now a t \<Longrightarrow> P now a (refresh now carry t)"
    and P_pending: "P now a t \<Longrightarrow> P now a (t\<lparr>ats_pending := n\<rparr>)"
    and P_sleep: "P now a t \<Longrightarrow> P now a (set_sleep m now t)"
    and P_status: "P now a t \<Longrightarrow> v \<in> {SIMPLERTFRAMEWORK_ACTIVE, SIMPLERTFRAMEWORK_BLOCKED, SIMPLERTFRAMEWORK_SLEPT,
      SIMPLERTFRAMEWORK_SEM_BLOCKED} \<Longrightarrow> P now a (t\<lparr>status := v\<rparr>)"
    and P_semaphore: "P now a t \<Longrightarrow> P now a (t\<lparr>blocked_semaphore := b\<rparr>)"
    and P_active: "P now a t \<Longrightarrow> f \<in> {0, 1} \<Longrightarrow> P now a (t\<lparr>ats_active := f\<rparr>)"
begin

definition holds :: "kernel \<Rightarrow> bool" where
  "holds s \<longleftrightarrow> (\<forall>a\<in>A. \<forall>t. threads s a = Some t \<longrightarrow> P (global_thread_tick_counter s) a t)"

text \<open>Error handlers that respect the property.\<close>

definition respected :: "upcall \<Rightarrow> bool" where
  "respected H \<longleftrightarrow> (\<forall>f e s s'. H f e s = Some s' \<longrightarrow> holds s \<longrightarrow> holds s')"

lemma holds_threads:
  "threads s' = threads s \<Longrightarrow> global_thread_tick_counter s' = global_thread_tick_counter s \<Longrightarrow> holds s' = holds s"
  by (simp add: holds_def)

lemma holds_upd:
  assumes "upd_thread a f s = Some s'" and "holds s" 
    and "\<And>t. a \<in> A \<Longrightarrow> threads s a = Some t \<Longrightarrow> P (global_thread_tick_counter s) a t
      \<Longrightarrow> P (global_thread_tick_counter s) a (f t)"
  shows "holds s'"
proof -
  obtain t where "threads s a = Some t" and "s' = s\<lparr>threads := (threads s)(a \<mapsto> f t)\<rparr>"
    using assms(1) by (auto simp: upd_thread_Some_iff deref_Some_iff)
  with assms(2,3) show ?thesis by (auto simp: holds_def)
qed

lemma yield_result_holds:
  assumes "runq_wf s ts" and "holds s"
  shows "holds (yield_result s ts)"
proof -
  let ?h = "yield_heap s ts" and ?c = "current_thread s" and ?g = "global_thread_tick_counter s"
  obtain t where t: "?h ?c = Some t" using yield_heap_live [OF assms(1) runq_wf_current [OF assms(1)]] by blast
  have h: "P ?g a u" if "a \<in> A" "?h a = Some u" for a u
    using that assms(2) P_refresh by (auto simp: holds_def yield_heap_def refresh_on_def split: if_splits)
  have e: "threads (yield_result s ts) = ?h(?c \<mapsto>
      (account (global_thread_tick_counter s - tick_counter_last_cost s) t)\<lparr>sp := hw_sp s - switch_frame\<rparr>)"
    and g: "global_thread_tick_counter (yield_result s ts) = ?g"
    using t by (simp_all add: yield_result_def switched_def Let_def del: fun_upd_apply)
  have "P ?g ?c ((account (global_thread_tick_counter s - tick_counter_last_cost s) t)\<lparr>sp := hw_sp s - switch_frame\<rparr>)"
    if "?c \<in> A" using P_sp P_account h [OF that t] by blast
  with h show ?thesis unfolding holds_def e g by auto
qed

lemma ats_deliver_holds:
  assumes "respected H" and "ats_deliver H s = Some s'" and "holds s"
  shows "holds s'"
proof -
  have "holds s \<longrightarrow> holds s'"
  proof (rule ats_deliver_frame [where R = "\<lambda>s s'. holds s \<longrightarrow> holds s'", OF _ _ _ _ assms(2)])
    show "holds s \<longrightarrow> holds s1" if "upd_thread (current_thread s) (\<lambda>t. t\<lparr>ats_pending := ats_pending t - 1\<rparr>) s = Some s1" for s s1
      using holds_upd [OF that] P_pending by blast
    show "holds s \<longrightarrow> holds s1" if "H f e s = Some s1" for f e s s1
      using that assms(1) unfolding respected_def by blast
  qed auto
  with assms(3) show ?thesis by blast
qed

lemma yield_holds:
  assumes "respected H" and "kernel_wf s" and "thread_yield H s = Some s'" and "holds s"
  shows "holds s'"
proof -
  obtain ts where ts: "runq_wf s ts" using assms(2) by (rule kernel_wfE)
  have "ats_deliver H (yield_result s ts) = Some s'" using assms(3) by (simp add: thread_yield_exact [OF ts])
  from ats_deliver_holds [OF assms(1) this yield_result_holds [OF ts assms(4)]] show ?thesis .
qed

text \<open>An update followed by a yield.\<close>

lemma upd_yield_holds:
  assumes "respected H" and "kernel_wf s" and "holds s" and "upd_thread a f s = Some s1" and "thread_yield H s1 = Some s'"
    and "\<And>t. runq_next (f t) = runq_next t" and "\<And>t. P (global_thread_tick_counter s) a t \<Longrightarrow> P (global_thread_tick_counter s) a (f t)"
  shows "holds s'"
  using yield_holds [OF assms(1) kernel_wf_upd_thread [OF assms(2,4,6)] assms(5)] holds_upd [OF assms(4,3)] assms(7) by blast

lemma sleep_holds:
  assumes "respected H" and "kernel_wf s" and "tick_sleep H n s = Some s'" and "holds s"
  shows "holds s'"
proof -
  obtain s1 where "upd_thread (current_thread s) (set_sleep n (global_thread_tick_counter s)) s = Some s1"
    and "thread_yield H s1 = Some s'"
    using assms(3) unfolding tick_sleep_def bind_eq_Some_conv by blast
  then show ?thesis by (rule upd_yield_holds [OF assms(1,2,4)]) (simp_all add: P_sleep)
qed

lemma usleep_holds:
  assumes "respected H" and "kernel_wf s" and "thread_usleep H n s = Some s'" and "holds s"
  shows "holds s'"
proof -
  obtain s1 where u: "upd_thread (current_thread s) (\<lambda>t. t\<lparr>status := SIMPLERTFRAMEWORK_SLEPT\<rparr>) s = Some s1"
    and t: "tick_sleep H (n div us_per_tick) s1 = Some s'"
    using assms(3) unfolding thread_usleep_def bind_eq_Some_conv by blast
  show ?thesis
    by (rule sleep_holds [OF assms(1) kernel_wf_upd_thread [OF assms(2) u] t holds_upd [OF u assms(4)]])
      (simp_all add: P_status)
qed

lemma tick_holds:
  assumes "respected H" and "kernel_wf s" and "timer_isr H s = Some s'" and "holds s"
    and "\<And>a t. a \<in> A \<Longrightarrow> P (global_thread_tick_counter s) a t \<Longrightarrow> P (global_thread_tick_counter s + 1) a t"
  shows "holds s'"
proof (cases "yield_count s = 0")
  case True
  have "kernel_wf (isr_state s)"
    by (rule kernel_wf_fields [THEN iffD2, OF _ _ _ _ assms(2)]) (simp_all add: isr_state_def Let_def)
  moreover have "holds (isr_state s)" using assms(4,5) by (simp add: holds_def isr_state_def Let_def)
  ultimately show ?thesis using yield_holds [OF assms(1)] assms(3) True by (simp add: timer_isr_eq)
next
  case False
  with assms(3) have "threads s' = threads s" and "global_thread_tick_counter s' = global_thread_tick_counter s + 1"
    by (auto simp: timer_isr_eq)
  with assms(4,5) show ?thesis by (simp add: holds_def)
qed

lemma block_holds:
  assumes "respected H" and "kernel_wf s" and "thread_block H s = Some s'" and "holds s"
  shows "holds s'"
proof -
  obtain t where t: "deref (current_thread s) s = Some t" using kernel_wf_current [OF assms(2)] .
  obtain s1 where s1: "upd_thread (current_thread s) (\<lambda>t. t\<lparr>status := SIMPLERTFRAMEWORK_BLOCKED\<rparr>) s = Some s1"
    using upd_current_ok [OF assms(2)] .
  show ?thesis
  proof (cases "status t = SIMPLERTFRAMEWORK_ACTIVE")
    case True
    with assms(3) t s1 have "thread_yield H s1 = Some s'" by (simp add: thread_block_def)
    with s1 show ?thesis by (rule upd_yield_holds [OF assms(1,2,4)]) (simp_all add: P_status)
  next
    case False
    with assms(3,4) t show ?thesis by (simp add: thread_block_def)
  qed
qed

lemma unblock_holds:
  assumes "respected H" and "kernel_wf s" and "thread_unblock H th s = Some s'" and "holds s"
  shows "holds s'"
proof -
  from assms(3) obtain t where t: "deref th s = Some t" by (auto simp: thread_unblock_def bind_eq_Some_conv)
  obtain s1 where s1: "upd_thread th (\<lambda>t. t\<lparr>status := SIMPLERTFRAMEWORK_ACTIVE\<rparr>) s = Some s1"
    using t by (auto simp: upd_thread_Some_iff)
  show ?thesis
  proof (cases "status t = SIMPLERTFRAMEWORK_BLOCKED")
    case True
    with assms(3) t s1 have "thread_yield H s1 = Some s'" by (simp add: thread_unblock_def)
    with s1 show ?thesis by (rule upd_yield_holds [OF assms(1,2,4)]) (simp_all add: P_status)
  next
    case False
    with assms(3,4) t show ?thesis by (simp add: thread_unblock_def)
  qed
qed

lemma signal_holds:
  assumes "respected H" and "kernel_wf s" and "thread_signal H th s = Some (r, s')" and "holds s"
    and "\<And>t. th \<in> A \<Longrightarrow> P (global_thread_tick_counter s) th t
      \<Longrightarrow> P (global_thread_tick_counter s) th (snd (signal_update (global_thread_tick_counter s) t))"
  shows "holds s'"
proof (cases "th = NULL")
  case True
  with assms(3,4) show ?thesis by (simp add: thread_signal_def)
next
  case False
  with assms(3) obtain t s1 where t: "deref th s = Some t"
    and u: "upd_thread th (\<lambda>_. snd (signal_update (global_thread_tick_counter s) t)) s = Some s1"
    and b: "thread_unblock H th s1 = Some s'"
    by (auto simp: thread_signal_def bind_eq_Some_conv case_prod_beta)
  from t u have s1: "s1 = s\<lparr>threads := (threads s)(th \<mapsto> snd (signal_update (global_thread_tick_counter s) t))\<rparr>"
    by (auto simp: upd_thread_Some_iff)
  obtain ts where ts: "runq_wf s ts" using assms(2) by (rule kernel_wfE)
  have h: "threads s th = Some t" using t by (simp add: deref_Some_iff)
  have "runq_wf s1 ts"
    by (rule runq_wf_cong [OF _ _ _ _ ts]) (simp_all add: s1 h runq_wf_current [OF ts])
  then have wf: "kernel_wf s1" by (rule kernel_wfI)
  have "holds s1" by (rule holds_upd [OF u assms(4)]) (use t assms(5) in \<open>auto simp: deref_Some_iff\<close>)
  with unblock_holds [OF assms(1) wf b] show ?thesis .
qed

lemma ats_signal_holds:
  assumes "respected H" and "kernel_wf s" and "thread_ATS_signal H th s = Some (r, s')" and "holds s"
  shows "holds s'"
proof -
  obtain s1 where "upd_thread th (\<lambda>t. t\<lparr>ats_pending := ats_pending t + 1\<rparr>) s = Some s1" and "thread_yield H s1 = Some s'"
    using assms(3) unfolding thread_ATS_signal_def bind_eq_Some_conv by blast
  then show ?thesis by (rule upd_yield_holds [OF assms(1,2,4)]) (simp_all add: P_pending)
qed

lemma ats_enable_holds:
  assumes "respected H" and "kernel_wf s" and "thread_ATS_enable H s = Some s'" and "holds s"
  shows "holds s'"
proof -
  obtain t where t: "deref (current_thread s) s = Some t" using kernel_wf_current [OF assms(2)] .
  obtain s1 where s1: "upd_thread (current_thread s) (\<lambda>t. t\<lparr>ats_active := 1\<rparr>) s = Some s1"
    using upd_current_ok [OF assms(2)] .
  show ?thesis
  proof (cases "ats_active t = 0")
    case True
    with assms(3) t s1 have "thread_yield H s1 = Some s'" by (simp add: thread_ATS_enable_def)
    with s1 show ?thesis by (rule upd_yield_holds [OF assms(1,2,4)]) (simp_all add: P_active)
  next
    case False
    with assms(3,4) t show ?thesis by (simp add: thread_ATS_enable_def)
  qed
qed

lemma ats_disable_holds:
  assumes "thread_ATS_disable s = Some s'" and "holds s"
  shows "holds s'"
  using assms holds_upd [of "current_thread s" "\<lambda>t. t\<lparr>ats_active := 0\<rparr>" s s'] P_active
  by (auto simp: thread_ATS_disable_def bind_eq_Some_conv split: if_splits)

lemma P_holds:
  assumes "respected H" and "kernel_wf s" and "thread_semaphore_P H sem s = Some s'" and "holds s"
  shows "holds s'"
proof (cases "sem = NULL")
  case True
  with assms(3,4) show ?thesis by (simp add: thread_semaphore_P_def)
next
  case False
  with assms(3) obtain v where v: "sems s sem = Some v" by (auto simp: thread_semaphore_P_def bind_eq_Some_conv)
  show ?thesis
  proof (cases "sint v \<le> 0")
    case True
    obtain s1 where u: "upd_thread (current_thread s) (\<lambda>t. t\<lparr>blocked_semaphore := sem, status := SIMPLERTFRAMEWORK_SEM_BLOCKED\<rparr>) s = Some s1"
      using upd_current_ok [OF assms(2)] .
    with assms(3) False v True have "thread_yield H s1 = Some s'" by (simp add: thread_semaphore_P_def)
    with u show ?thesis by (rule upd_yield_holds [OF assms(1,2,4)]) (simp_all add: P_semaphore P_status)
  next
    case pos: False
    with assms(3) False v have "threads s' = threads s" and "global_thread_tick_counter s' = global_thread_tick_counter s"
      by (auto simp: thread_semaphore_P_def)
    with assms(4) show ?thesis using holds_threads by blast
  qed
qed

lemma V_holds:
  assumes "respected H" and "kernel_wf s" and "thread_semaphore_V H sem s = Some s'" and "holds s"
  shows "holds s'"
proof (cases "sem = NULL")
  case True
  with assms(3,4) show ?thesis by (simp add: thread_semaphore_V_def)
next
  case False
  with assms(3) obtain c where c: "sem_scan sem (thread_list s) NULL s = Some c"
    by (auto simp: thread_semaphore_V_def bind_eq_Some_conv)
  show ?thesis
  proof (cases "c = NULL")
    case True
    with assms(3) False c have "threads s' = threads s" and "global_thread_tick_counter s' = global_thread_tick_counter s"
      by (auto simp: thread_semaphore_V_def bind_eq_Some_conv)
    with assms(4) show ?thesis using holds_threads by blast
  next
    case nn: False
    with assms(3) False c obtain s1 where
      "upd_thread c (\<lambda>t. t\<lparr>status := SIMPLERTFRAMEWORK_ACTIVE, blocked_semaphore := NULL\<rparr>) s = Some s1"
      and "thread_yield H s1 = Some s'"
      by (auto simp: thread_semaphore_V_def bind_eq_Some_conv)
    then show ?thesis by (rule upd_yield_holds [OF assms(1,2,4)]) (simp_all add: P_semaphore P_status)
  qed
qed

lemma charge_holds:
  assumes "get_current_cost_ticks s = Some (c, s')" and "holds s"
  shows "holds s'"
proof -
  obtain d s1 where u: "upd_thread (current_thread s) (\<lambda>t. t\<lparr>current_cost_ticks := current_cost_ticks t + d\<rparr>) s = Some s1"
    and "threads s' = threads s1" and "global_thread_tick_counter s' = global_thread_tick_counter s1"
    using assms(1) by (auto simp: get_current_cost_ticks_def charge_current_def Let_def bind_eq_Some_conv)
  then show ?thesis using holds_upd [OF u assms(2)] P_cost holds_threads by blast
qed

lemma request_holds:
  assumes "respected H" and "kernel_wf s" and "serve H r s = Some s'" and "holds s"
    and "r \<noteq> Tick" and "\<And>th. r \<noteq> Signal th"
  shows "holds s'"
proof (cases r)
  case Yield
  with assms yield_holds show ?thesis by simp
next
  case (Tick_sleep n)
  with assms sleep_holds show ?thesis by simp
next
  case (Usleep n)
  with assms usleep_holds show ?thesis by simp
next
  case Block
  with assms block_holds show ?thesis by simp
next
  case (Unblock th)
  with assms unblock_holds show ?thesis by simp
next
  case (ATS_signal th)
  with assms ats_signal_holds show ?thesis by auto
next
  case ATS_enable
  with assms ats_enable_holds show ?thesis by simp
next
  case ATS_disable
  with assms ats_disable_holds show ?thesis by simp
next
  case (Sem_P sem)
  with assms P_holds show ?thesis by simp
next
  case (Sem_V sem)
  with assms V_holds show ?thesis by simp
next
  case Charge
  with assms charge_holds show ?thesis by auto
qed (use assms(5,6) in simp_all)

end

text \<open>A property that does not depend on the time and that a signal respects, too.\<close>

locale thread_property = timed_property +
  assumes P_tick: "P now a t \<Longrightarrow> P (now + 1) a t"
    and P_signal: "P now a t \<Longrightarrow> P now a (snd (signal_update time t))"
begin

lemma serve_holds:
  assumes "respected H" and "kernel_wf s" and "serve H r s = Some s'" and "holds s"
  shows "holds s'"
proof (cases r)
  case Tick
  with assms tick_holds P_tick show ?thesis by simp
next
  case (Signal th)
  with assms signal_holds P_signal show ?thesis by auto
qed (use request_holds [OF assms] in simp_all)

lemma reachable_holds:
  assumes "respected H" and "handler_ok H" and "kernel_wf s0" and "holds s0" and "reachable H s0 s"
  shows "holds s"
  using assms(5)
proof induction
  case (served s r s')
  from serve_holds [OF assms(1) reachable_wf [OF assms(2,3) served.hyps(1)] served.hyps(3)] served.IH show ?case .
next
  case (resumed s)
  then show ?case using holds_threads [of "timer_isr_resumed s" s] by (simp add: timer_isr_resumed_def)
qed (rule assms(4))

end

section \<open>The types of the fields\<close>

text \<open>
  The values the code gives a meaning to: four values of \<open>status\<close>, three patterns, flags of 0 and 1. The
  structure of the main thread is left out: its status and carry are whatever its memory held.
\<close>

definition well_typed :: "thread \<Rightarrow> bool" where
  "well_typed t \<longleftrightarrow> status t \<in> {SIMPLERTFRAMEWORK_BLOCKED, SIMPLERTFRAMEWORK_ACTIVE, SIMPLERTFRAMEWORK_SLEPT,
       SIMPLERTFRAMEWORK_SEM_BLOCKED}
     \<and> block_pattern t \<in> {0x00, 0x01, 0x02} \<and> ats_active t \<in> {0, 1}"

lemma signal_update_typed:
  "status (snd (signal_update now t)) = status t"
  "block_pattern (snd (signal_update now t)) = block_pattern t"
  "ats_active (snd (signal_update now t)) = ats_active t"
  by (simp_all add: signal_update_def)

lemma refresh_fields:
  "block_pattern (refresh now c t) = block_pattern t" "ats_active (refresh now c t) = ats_active t"
  "status (refresh now c t) \<in> {status t, SIMPLERTFRAMEWORK_ACTIVE}"
  by (simp_all add: refresh_def wake_check_def signal_support_def Let_def)

lemma well_typed_refresh: "well_typed t \<Longrightarrow> well_typed (refresh now c t)"
  using refresh_fields [of now c t] by (auto simp: well_typed_def)

interpretation typing: thread_property A "\<lambda>_ _. well_typed" for A
  by unfold_locales
    (simp_all add: well_typed_refresh, auto simp: well_typed_def account_def set_sleep_def Let_def signal_update_typed)

text \<open>What the creator of a thread asked for; the priority can be lowered, but to one value only.\<close>

definition same_parameters :: "thread \<Rightarrow> thread \<Rightarrow> bool" where
  "same_parameters t t' \<longleftrightarrow> stack t' = stack t \<and> stack_size t' = stack_size t \<and> block_pattern t' = block_pattern t
     \<and> min_period_ticks t' = min_period_ticks t \<and> max_deadline_ticks t' = max_deadline_ticks t
     \<and> max_cost_ticks t' = max_cost_ticks t \<and> offset_ticks t' = offset_ticks t \<and> mit_policy t' = mit_policy t
     \<and> queue_length_max t' = queue_length_max t \<and> executor t' = executor t
     \<and> params_and_data t' = params_and_data t \<and> error_handler t' = error_handler t \<and> parm t' = parm t
     \<and> priority t' \<in> {priority t, SIMPLERTFRAMEWORK_OVERRUN_PRIO}"

lemma same_parameters_refl: "same_parameters t t"
  by (simp add: same_parameters_def)

interpretation parameters: thread_property A "\<lambda>_ a. same_parameters (the (h a))" for A h
  by unfold_locales
    (simp_all add: same_parameters_def account_def refresh_def wake_check_def signal_support_def set_sleep_def
      signal_update_def Let_def)

section \<open>Properties\<close>

text \<open>Error handlers that leave the fields typed and the parameters alone.\<close>

definition handler_typed :: "addr set \<Rightarrow> (addr \<rightharpoonup> thread) \<Rightarrow> upcall \<Rightarrow> bool" where
  "handler_typed A h H \<longleftrightarrow> (\<forall>f e s s'. H f e s = Some s' \<longrightarrow>
     ((\<forall>a\<in>A. \<forall>t. threads s a = Some t \<longrightarrow> well_typed t) \<longrightarrow> (\<forall>a\<in>A. \<forall>t. threads s' a = Some t \<longrightarrow> well_typed t))
     \<and> ((\<forall>a\<in>A. \<forall>t. threads s a = Some t \<longrightarrow> same_parameters (the (h a)) t)
       \<longrightarrow> (\<forall>a\<in>A. \<forall>t. threads s' a = Some t \<longrightarrow> same_parameters (the (h a)) t)))"

text \<open>C18: the fields of a thread keep their types and its parameters their values: in every state the kernel
  can reach by requests and ticks, a thread whose enumerated fields had meaningful values at the start
  has meaningful values in them (one of the four states, one of the three activation patterns, a flag that is 0 or 1), its
  parameters are those it started with, and its priority is the original one or OVERRUN_PRIO.\<close>

theorem fields_stay_typed:
  assumes "handler_ok H" and "handler_typed A (threads s0) H" and "kernel_wf s0"
    and "\<And>a t. a \<in> A \<Longrightarrow> threads s0 a = Some t \<Longrightarrow> well_typed t" and "reachable H s0 s"
    and "a \<in> A" and "threads s0 a = Some t0" and "threads s a = Some t"
  shows "well_typed t \<and> same_parameters t0 t"
proof -
  have "typing.respected A H" and "parameters.respected A (threads s0) H"
    using assms(2)
    by (auto simp: handler_typed_def typing.respected_def parameters.respected_def typing.holds_def parameters.holds_def)
  moreover have "typing.holds A s0" using assms(4) by (simp add: typing.holds_def)
  moreover have "parameters.holds A (threads s0) s0"
    by (simp add: parameters.holds_def same_parameters_refl)
  ultimately have "typing.holds A s" and "parameters.holds A (threads s0) s"
    using typing.reachable_holds [OF _ assms(1,3) _ assms(5)] parameters.reachable_holds [OF _ assms(1,3) _ assms(5)]
    by blast+
  with assms(6-8) show ?thesis by (auto simp: typing.holds_def parameters.holds_def)
qed

theorem fields_stay_typed_witness:
  "\<exists>s1 t. serve no_handler (Sem_P 0x400) demo = Some s1 \<and> threads s1 0x200 = Some t \<and> well_typed t \<and> min_period_ticks t = 10"
proof -
  have v: "valid (Sem_P 0x400) demo" by (simp add: demo_def)
  obtain s1 where s1: "serve no_handler (Sem_P 0x400) demo = Some s1" and wf: "kernel_wf s1"
    using serve_safe [OF no_handler_ok demo_wf v] by blast
  have r: "reachable no_handler demo s1" by (rule reachable.served [OF reachable.initial v s1])
  have H: "handler_typed UNIV (threads demo) no_handler" by (simp add: handler_typed_def no_handler_def)
  have w: "well_typed t" if "a \<in> UNIV" "threads demo a = Some t" for a t
    using that by (auto simp: demo_defs well_typed_def rt_consts split: if_splits)
  have t0: "threads demo 0x200 = Some (blank_thread\<lparr>runq_next := 0x100, priority := 10, sp := 0x1000\<rparr>)"
    by (simp add: demo_def demo_threads_def)
  have "threads s1 = threads demo"
    using s1 by (auto simp: thread_semaphore_P_def demo_def)
  with t0 obtain t where t: "threads s1 0x200 = Some t" by simp
  from fields_stay_typed [OF no_handler_ok H demo_wf w r UNIV_I t0 t] s1 t show ?thesis
    by (auto simp: same_parameters_def blank_thread_def)
qed

end
