(* ===== verification/RT_Create.thy ===== *)
theory RT_Create
  imports RT_Timer
begin

text \<open>
  Creation and removal of threads. What the board and the linker fix is a parameter of the
  operations: the end of the RAM and the address of \<open>periodic_pattern\<close>. A block fresh from
  \<open>malloc\<close> keeps what it held in the fields the code does not set.
\<close>

record image =
  RAMEND :: addr
  periodic_pattern_at :: addr

section \<open>thread_create\<close>

text \<open>The statement \<open>*th->sp-- = b\<close>.\<close>

definition push_byte :: "addr \<Rightarrow> u8 \<Rightarrow> kernel \<Rightarrow> kernel option" where
  "push_byte th b s = do {
     t \<leftarrow> deref th s;
     upd_thread th (\<lambda>t. t\<lparr>sp := sp t - 1\<rparr>) (s\<lparr>mem := (mem s)(sp t := b)\<rparr>) }"

text \<open>The stack of the new thread: the caller's or a block of its own. False stands for the early
  return of NULL.\<close>

definition give_stack :: "addr \<Rightarrow> addr \<Rightarrow> u16 \<Rightarrow> kernel \<Rightarrow> (bool \<times> kernel) option" where
  "give_stack th stk stk_size s =
     (if stk \<noteq> NULL
      then do {
        s \<leftarrow> upd_thread th (\<lambda>t. t\<lparr>stack := stk, stack_size := stk_size\<rparr>) s;
        Some (True, s) }
      else (case malloc s of
          (None, s) \<Rightarrow> do {
            s \<leftarrow> upd_thread th (\<lambda>t. t\<lparr>stack := NULL\<rparr>) s;
            s \<leftarrow> thread_free th s;
            Some (False, s) }
        | (Some c, s) \<Rightarrow> do {
            s \<leftarrow> upd_thread th (\<lambda>t. t\<lparr>stack := ptr c, stack_size := stk_size\<rparr>) s;
            Some (True, s) }))"

definition init_stack :: "addr \<Rightarrow> addr \<Rightarrow> kernel \<Rightarrow> kernel option" where
  "init_stack entry th s = do {
     s \<leftarrow> upd_thread th (\<lambda>t. t\<lparr>sp := stack t + stack_size t - 1\<rparr>) s;
     s \<leftarrow> push_byte th 0x00 s;
     s \<leftarrow> push_byte th 0x11 s;
     s \<leftarrow> push_byte th 0x22 s;
     s \<leftarrow> push_byte th 0x23 s;
     s \<leftarrow> upd_thread th (\<lambda>t. t\<lparr>aux1 := 0, aux2 := 0\<rparr>) s;
     s \<leftarrow> push_byte th (ucast (entry AND 0xff)) s;
     push_byte th (ucast (drop_bit 8 entry AND 0xff)) s }"

text \<open>The structure of the main thread, made together with the first thread.\<close>

definition create_main :: "upcall \<Rightarrow> image \<Rightarrow> addr \<Rightarrow> kernel \<Rightarrow> kernel option" where
  "create_main H img th s =
     (let (c, s) = malloc s;
          thmain = (case c of None \<Rightarrow> NULL | Some c \<Rightarrow> ptr c);
          s = (case c of None \<Rightarrow> s | Some c \<Rightarrow> s\<lparr>threads := (threads s)(ptr c \<mapsto> as_thread c)\<rparr>)
      in do {
        s \<leftarrow> upd_thread thmain (\<lambda>t. t\<lparr>priority := SIMPLERTFRAMEWORK_NORM_PRIO, parm := NULL,
               max_cost_ticks := of_int ((0 - 2) div 2), stack := RAMEND img - 300, stack_size := 300,
               blocked_semaphore := NULL, current_cost_ticks := 0\<rparr>) (s\<lparr>thread_main_inf := thmain\<rparr>);
        s \<leftarrow> upd_thread th (\<lambda>t. t\<lparr>status := SIMPLERTFRAMEWORK_ACTIVE\<rparr>) s;
        s \<leftarrow> upd_thread thmain (\<lambda>t. t\<lparr>runq_next := NULL, ats_active := 0, ats_pending := 0, ats_max := 0\<rparr>)
               (s\<lparr>thread_list := thmain\<rparr>);
        thread_start H thmain (s\<lparr>current_thread := thmain\<rparr>) })"

definition thread_create ::
  "upcall \<Rightarrow> image \<Rightarrow> addr \<Rightarrow> addr \<Rightarrow> u16 \<Rightarrow> u8 \<Rightarrow> addr \<Rightarrow> kernel \<Rightarrow> (addr \<times> kernel) option" where
  "thread_create H img entry stk stk_size pri arg s =
     (case malloc s of
        (None, s) \<Rightarrow> Some (NULL, s)
      | (Some c, s) \<Rightarrow> do {
          let th = ptr c;
          let s = s\<lparr>threads := (threads s)(th \<mapsto> (as_thread c)
                \<lparr>priority := pri, parm := arg, status := SIMPLERTFRAMEWORK_ACTIVE\<rparr>)\<rparr>;
          (ok, s) \<leftarrow> give_stack th stk stk_size s;
          (if \<not> ok then Some (NULL, s)
           else do {
             s \<leftarrow> init_stack entry th s;
             s \<leftarrow> (if thread_list s = NULL then create_main H img th s else Some s);
             s \<leftarrow> upd_thread th (\<lambda>t. t\<lparr>runq_next := thread_list s\<rparr>) s;
             Some (th, s\<lparr>thread_list := th\<rparr>) }) })"

section \<open>Periodic, sporadic and aperiodic threads\<close>

definition periodic_thread_create ::
  "upcall \<Rightarrow> image \<Rightarrow> addr \<Rightarrow> addr \<Rightarrow> addr \<Rightarrow> u16 \<Rightarrow> u8 \<Rightarrow> u32 \<Rightarrow> u32 \<Rightarrow> u32 \<Rightarrow> u32 \<Rightarrow> addr
   \<Rightarrow> kernel \<Rightarrow> (addr \<times> kernel) option" where
  "periodic_thread_create H img entry params stk stk_size pri offset_us period_us max_deadline_us max_cost_us
     handler s = do {
     (base_th, s) \<leftarrow> thread_create H img (periodic_pattern_at img) stk stk_size pri NULL s;
     (if base_th = NULL then Some (NULL, s)
      else do {
        s \<leftarrow> upd_thread base_th (\<lambda>t. t\<lparr>executor := entry, params_and_data := params,
               error_handler := handler, offset_ticks := offset_us div us_per_tick,
               min_period_ticks := period_us div us_per_tick,
               max_cost_ticks := max_cost_us div us_per_tick,
               max_deadline_ticks := max_deadline_us div us_per_tick, block_pattern := 0x00,
               ats_active := 0, ats_pending := 0, ats_max := 0, blocked_semaphore := NULL\<rparr>) s;
        Some (base_th, s) }) }"

definition sporadic_thread_create ::
  "upcall \<Rightarrow> image \<Rightarrow> addr \<Rightarrow> addr \<Rightarrow> addr \<Rightarrow> u16 \<Rightarrow> u8 \<Rightarrow> u32 \<Rightarrow> u32 \<Rightarrow> u32 \<Rightarrow> u32 \<Rightarrow> u8 \<Rightarrow> u32 \<Rightarrow> addr
   \<Rightarrow> kernel \<Rightarrow> (addr \<times> kernel) option" where
  "sporadic_thread_create H img entry params stk stk_size pri offset_us mit_period_us max_deadline_us
     max_cost_us policy qmax handler s = do {
     (spthread, s) \<leftarrow> periodic_thread_create H img entry params stk stk_size pri offset_us mit_period_us
        max_deadline_us max_cost_us handler s;
     (if spthread = NULL then Some (NULL, s)
      else do {
        s \<leftarrow> upd_thread spthread (\<lambda>t. t\<lparr>block_pattern := 0x01, mit_policy := policy,
               queue_length_max := qmax, queue_pending := 0, queue_last_input := 0\<rparr>) s;
        Some (spthread, s) }) }"

definition aperiodic_thread_create ::
  "upcall \<Rightarrow> image \<Rightarrow> addr \<Rightarrow> addr \<Rightarrow> addr \<Rightarrow> u16 \<Rightarrow> u8 \<Rightarrow> u32 \<Rightarrow> u32 \<Rightarrow> u32 \<Rightarrow> u8 \<Rightarrow> u32 \<Rightarrow> addr
   \<Rightarrow> kernel \<Rightarrow> (addr \<times> kernel) option" where
  "aperiodic_thread_create H img entry params stk stk_size pri offset_us max_deadline_us max_cost_us
     policy qmax handler s = do {
     (spthread, s) \<leftarrow> sporadic_thread_create H img entry params stk stk_size pri offset_us 0
        max_deadline_us max_cost_us policy qmax handler s;
     s \<leftarrow> upd_thread spthread (\<lambda>t. t\<lparr>block_pattern := 0x02\<rparr>) s;
     Some (spthread, s) }"

section \<open>thread_remove\<close>

text \<open>The search loop: the entry before the one it stopped at, and that entry.\<close>

partial_function (option) remove_find :: "addr \<Rightarrow> addr \<Rightarrow> addr \<Rightarrow> kernel \<Rightarrow> (addr \<times> addr) option" where
  "remove_find th th_previous th_index s =
     (if th_index = thread_main_inf s then Some (th_previous, th_index)
      else if th_index = th then Some (th_previous, th_index)
      else do {
        t \<leftarrow> deref th_index s;
        remove_find th th_index (runq_next t) s })"

definition thread_remove :: "addr \<Rightarrow> kernel \<Rightarrow> (s16 \<times> kernel) option" where
  "thread_remove th s = do {
     (th_previous, th_index) \<leftarrow> remove_find th (thread_list s) (thread_list s) s;
     (if thread_main_inf s \<noteq> th_index
      then do {
        s \<leftarrow> (if th_index = thread_list s
              then do {
                t \<leftarrow> deref (thread_list s) s;
                Some (s\<lparr>thread_list := runq_next t\<rparr>) }
              else do {
                t \<leftarrow> deref th s;
                upd_thread th_previous (\<lambda>p. p\<lparr>runq_next := runq_next t\<rparr>) s });
        t \<leftarrow> deref th s;
        s \<leftarrow> thread_free (stack t) s;
        s \<leftarrow> thread_free th s;
        Some (0, s) }
      else Some (- 1, s)) }"

section \<open>What thread_create leaves\<close>

lemma malloc_Some_iff:
  "malloc s = (Some c, s') \<longleftrightarrow> (\<exists>cs. answers s = c # cs \<and> ptr c \<noteq> NULL \<and> ptr c \<notin> blocks s
     \<and> s' = s\<lparr>answers := cs, blocks := insert (ptr c) (blocks s)\<rparr>)"
  by (cases "answers s") (auto simp: malloc_def)

text \<open>The six bytes at the top of a new stack.\<close>

definition entry_frame :: "addr \<Rightarrow> addr \<Rightarrow> (addr \<Rightarrow> u8) \<Rightarrow> addr \<Rightarrow> u8" where
  "entry_frame high entry m = m(high := 0x00, high - 1 := 0x11, high - 2 := 0x22, high - 3 := 0x23,
     high - 4 := ucast (entry AND 0xff), high - 5 := ucast (drop_bit 8 entry AND 0xff))"

definition fresh_thread :: "thread \<Rightarrow> addr \<Rightarrow> u16 \<Rightarrow> u8 \<Rightarrow> addr \<Rightarrow> thread" where
  "fresh_thread junk stk stk_size pri arg =
     junk\<lparr>priority := pri, parm := arg, status := SIMPLERTFRAMEWORK_ACTIVE, stack := stk,
       stack_size := stk_size, aux1 := 0, aux2 := 0, sp := stk + stk_size - 7\<rparr>"

lemma push_byte_exact:
  assumes "th \<noteq> NULL" and "threads s th = Some t"
  shows "push_byte th b s = Some (s\<lparr>mem := (mem s)(sp t := b), threads := (threads s)(th \<mapsto> t\<lparr>sp := sp t - 1\<rparr>)\<rparr>)"
  using assms by (simp add: push_byte_def deref_def upd_thread_def)

lemma init_stack_exact:
  assumes "th \<noteq> NULL" and "threads s th = Some t" and "high = stack t + stack_size t - 1"
  shows "init_stack entry th s = Some (s\<lparr>mem := entry_frame high entry (mem s),
     threads := (threads s)(th \<mapsto> t\<lparr>aux1 := 0, aux2 := 0, sp := high - 6\<rparr>)\<rparr>)"
  using assms(1,2) unfolding assms(3)
  by (simp add: init_stack_def upd_thread_def deref_def push_byte_exact entry_frame_def)

text \<open>Where the stack comes from.\<close>

definition stack_source :: "addr \<Rightarrow> kernel \<Rightarrow> addr \<Rightarrow> kernel \<Rightarrow> bool" where
  "stack_source stk s stk' s' \<longleftrightarrow> stk \<noteq> NULL \<and> stk' = stk \<and> s' = s
     \<or> stk = NULL \<and> (\<exists>d. malloc s = (Some d, s') \<and> stk' = ptr d)"

lemma malloc_with_threads:
  "malloc s = (c, s') \<Longrightarrow> malloc (s\<lparr>threads := h\<rparr>) = (c, s'\<lparr>threads := h\<rparr>)"
  by (cases "answers s") (auto simp: malloc_def split: if_splits)

lemma malloc_keeps:
  "malloc s = (c, s') \<Longrightarrow> threads s' = threads s \<and> thread_list s' = thread_list s
     \<and> thread_main_inf s' = thread_main_inf s \<and> current_thread s' = current_thread s \<and> mem s' = mem s
     \<and> hw_sp s' = hw_sp s \<and> sems s' = sems s \<and> queues s' = queues s"
  by (cases "answers s") (auto simp: malloc_def split: if_splits)

lemma stack_source_keeps:
  "stack_source stk s stk' s' \<Longrightarrow> threads s' = threads s \<and> thread_list s' = thread_list s
     \<and> thread_main_inf s' = thread_main_inf s \<and> current_thread s' = current_thread s \<and> mem s' = mem s
     \<and> hw_sp s' = hw_sp s \<and> sems s' = sems s \<and> queues s' = queues s"
  using malloc_keeps by (fastforce simp: stack_source_def)

lemma give_stack_exact:
  assumes "stack_source stk s stk' s'" and "th \<noteq> NULL"
  shows "give_stack th stk stk_size (s\<lparr>threads := (threads s)(th \<mapsto> t)\<rparr>)
    = Some (True, s'\<lparr>threads := (threads s)(th \<mapsto> t\<lparr>stack := stk', stack_size := stk_size\<rparr>)\<rparr>)"
proof (cases "stk = NULL")
  case True
  with assms(1) obtain d where d: "malloc s = (Some d, s')" and stk': "stk' = ptr d" by (auto simp: stack_source_def)
  show ?thesis
    using assms(2) True by (simp add: give_stack_def malloc_with_threads [OF d] upd_thread_def deref_def stk')
next
  case False
  with assms show ?thesis by (auto simp: stack_source_def give_stack_def upd_thread_def deref_def)
qed

text \<open>The state when the new thread is complete but for its link.\<close>

definition with_thread :: "chunk \<Rightarrow> addr \<Rightarrow> u16 \<Rightarrow> u8 \<Rightarrow> addr \<Rightarrow> addr \<Rightarrow> kernel \<Rightarrow> kernel" where
  "with_thread c stk stk_size pri arg entry s =
     s\<lparr>mem := entry_frame (stk + stk_size - 1) entry (mem s),
       threads := (threads s)(ptr c \<mapsto> fresh_thread (as_thread c) stk stk_size pri arg)\<rparr>"

lemma thread_create_unfold:
  assumes "malloc s = (Some c, s1)" and "stack_source stk s1 stk' s2"
    and "x = with_thread c stk' stk_size pri arg entry s2"
  shows "thread_create H img entry stk stk_size pri arg s = do {
      s \<leftarrow> (if thread_list x = NULL then create_main H img (ptr c) x else Some x);
      s \<leftarrow> upd_thread (ptr c) (\<lambda>t. t\<lparr>runq_next := thread_list s\<rparr>) s;
      Some (ptr c, s\<lparr>thread_list := ptr c\<rparr>) }"
proof -
  have th: "ptr c \<noteq> NULL" using assms(1) by (auto simp: malloc_Some_iff)
  have k: "threads s1 = threads s" "threads s2 = threads s"
    using malloc_keeps [OF assms(1)] stack_source_keeps [OF assms(2)] by simp_all
  let ?t = "(as_thread c)\<lparr>priority := pri, parm := arg, status := SIMPLERTFRAMEWORK_ACTIVE\<rparr>"
  let ?t2 = "?t\<lparr>stack := stk', stack_size := stk_size\<rparr>"
  let ?s2 = "s2\<lparr>threads := (threads s)(ptr c \<mapsto> ?t2)\<rparr>"
  have g: "give_stack (ptr c) stk stk_size (s1\<lparr>threads := (threads s)(ptr c \<mapsto> ?t)\<rparr>) = Some (True, ?s2)"
    using give_stack_exact [OF assms(2) th, of stk_size ?t] by (simp add: k del: fun_upd_apply)
  have h: "threads ?s2 (ptr c) = Some ?t2" by simp
  have i: "init_stack entry (ptr c) ?s2 = Some (?s2\<lparr>mem := entry_frame (stk' + stk_size - 1) entry (mem ?s2),
     threads := (threads ?s2)(ptr c \<mapsto> ?t2\<lparr>aux1 := 0, aux2 := 0, sp := stk' + stk_size - 1 - 6\<rparr>)\<rparr>)"
    by (rule init_stack_exact [OF th h]) simp
  have "?s2\<lparr>mem := entry_frame (stk' + stk_size - 1) entry (mem ?s2),
     threads := (threads ?s2)(ptr c \<mapsto> ?t2\<lparr>aux1 := 0, aux2 := 0, sp := stk' + stk_size - 1 - 6\<rparr>)\<rparr> = x"
    unfolding assms(3) with_thread_def fresh_thread_def by (simp add: k)
  note i = i [unfolded this]
  show ?thesis
    unfolding thread_create_def assms(1) prod.case option.case Let_def k(1)
    by (simp only: g i bind.bind_lunit prod.case not_True_eq_False if_False)
qed

lemma with_thread_keeps:
  "thread_list (with_thread c stk z pri arg e s) = thread_list s"
  "thread_main_inf (with_thread c stk z pri arg e s) = thread_main_inf s"
  "current_thread (with_thread c stk z pri arg e s) = current_thread s"
  "blocks (with_thread c stk z pri arg e s) = blocks s"
  "answers (with_thread c stk z pri arg e s) = answers s"
  by (simp_all add: with_thread_def)

lemma thread_create_exact:
  assumes "malloc s = (Some c, s1)" and "stack_source stk s1 stk' s2" and "thread_list s \<noteq> NULL"
  shows "thread_create H img entry stk stk_size pri arg s = Some (ptr c,
    s2\<lparr>mem := entry_frame (stk' + stk_size - 1) entry (mem s),
       threads := (threads s)(ptr c \<mapsto>
         (fresh_thread (as_thread c) stk' stk_size pri arg)\<lparr>runq_next := thread_list s\<rparr>),
       thread_list := ptr c\<rparr>)"
proof -
  have th: "ptr c \<noteq> NULL" using assms(1) by (auto simp: malloc_Some_iff)
  have k: "threads s2 = threads s" "thread_list s2 = thread_list s" "mem s2 = mem s"
    using malloc_keeps [OF assms(1)] stack_source_keeps [OF assms(2)] by simp_all
  show ?thesis
    unfolding thread_create_unfold [OF assms(1,2) refl] with_thread_keeps k(2)
    using assms(3) th by (simp add: upd_thread_def deref_def with_thread_def k)
qed

lemma thread_create_wf:
  assumes "runq_wf s ts" and "set ts \<subseteq> blocks s" and "malloc s = (Some c, s1)" and "stack_source stk s1 stk' s2"
    and "thread_create H img entry stk stk_size pri arg s = Some (th, s')"
  shows "th = ptr c" and "th \<notin> set ts" and "runq_wf s' (th # ts)"
proof -
  note e = thread_create_exact [OF assms(3,4) runq_wf_list_nonnull [OF assms(1)], of H img entry stk_size pri arg]
  show th: "th = ptr c" using assms(5) e by simp
  show new: "th \<notin> set ts" using assms(2,3) th by (auto simp: malloc_Some_iff)
  have k: "thread_main_inf s2 = thread_main_inf s" "current_thread s2 = current_thread s"
    using malloc_keeps [OF assms(3)] stack_source_keeps [OF assms(4)] by simp_all
  have nn: "th \<noteq> NULL" using assms(3) th by (auto simp: malloc_Some_iff)
  have q: "runq ((threads s)(th \<mapsto> x)) (thread_list s) ts" for x
    using assms(1) runq_upd_other [OF new] by (simp add: runq_wf_def)
  show "runq_wf s' (th # ts)"
    using assms(1,5) e nn new q th unfolding runq_wf_def by (auto simp: k)
qed

text \<open>The main thread's structure, and the state before the switch that records its stack pointer.\<close>

definition main_thread :: "image \<Rightarrow> thread \<Rightarrow> thread" where
  "main_thread img junk = junk\<lparr>priority := SIMPLERTFRAMEWORK_NORM_PRIO, parm := NULL,
     max_cost_ticks := - 1, stack := RAMEND img - 300, stack_size := 300, blocked_semaphore := NULL,
     current_cost_ticks := 0, runq_next := NULL, ats_active := 0, ats_pending := 0, ats_max := 0\<rparr>"

definition with_main :: "image \<Rightarrow> chunk \<Rightarrow> kernel \<Rightarrow> kernel" where
  "with_main img m s = s\<lparr>thread_main_inf := ptr m, thread_list := ptr m,
     threads := (threads s)(ptr m \<mapsto> main_thread img (as_thread m)), current_thread := ptr m\<rparr>"

lemma same_status: "status t = x \<Longrightarrow> t\<lparr>status := x\<rparr> = (t :: thread)"
  by (cases t) simp

lemma switch_to_self:
  assumes "deref (current_thread s) s = Some t"
  shows "thread_start H (current_thread s) s = ats_deliver H (switched s (current_thread s) t t)"
  by (simp add: thread_start_def do_switch_exact [OF assms assms])

lemma create_main_exact:
  assumes "malloc s = (Some m, s1)" and "th \<noteq> NULL" and "threads s th = Some t"
    and "status t = SIMPLERTFRAMEWORK_ACTIVE" and "th \<noteq> ptr m"
  shows "create_main H img th s = Some (switched (with_main img m s1) (ptr m)
    (main_thread img (as_thread m)) (main_thread img (as_thread m)))"
proof -
  let ?M = "main_thread img (as_thread m)"
  let ?s = "with_main img m s1"
  have m: "ptr m \<noteq> NULL" using assms(1) by (auto simp: malloc_Some_iff)
  have k: "threads s1 = threads s" using malloc_keeps [OF assms(1)] by simp
  have x: "of_int ((0 - 2) div 2) = (- 1 :: u32)" by simp
  have h: "(threads s)(th \<mapsto> t, ptr m \<mapsto> b) = (threads s)(ptr m \<mapsto> b)" for b
    using assms(3) by (auto simp: fun_eq_iff)
  have st: "t\<lparr>status := SIMPLERTFRAMEWORK_ACTIVE\<rparr> = t" using assms(4) by (rule same_status)
  have d: "deref (current_thread ?s) ?s = Some ?M" using m by (simp add: with_main_def deref_def)
  have "create_main H img th s = thread_start H (ptr m) ?s"
    using assms m
    by (simp add: create_main_def upd_thread_def deref_def k x st h Let_def with_main_def main_thread_def)
  also have "\<dots> = ats_deliver H (switched ?s (ptr m) ?M ?M)"
    using switch_to_self [OF d, of H] by (simp add: with_main_def)
  also have "\<dots> = Some (switched ?s (ptr m) ?M ?M)"
    by (rule ats_deliver_idle [of _ "?M\<lparr>sp := hw_sp ?s - switch_frame\<rparr>"])
      (simp_all add: switched_def Let_def with_main_def m main_thread_def)
  finally show ?thesis .
qed

text \<open>The first thread of a program.\<close>

lemma malloc_cong:
  assumes "answers s' = answers s" and "blocks s' = blocks s" and "malloc s = (Some c, s1)"
  shows "malloc s' = (Some c, s'\<lparr>answers := answers s1, blocks := blocks s1\<rparr>)"
proof -
  from assms(3) obtain cs where "answers s = c # cs" "ptr c \<noteq> NULL" "ptr c \<notin> blocks s"
    and s1: "s1 = s\<lparr>answers := cs, blocks := insert (ptr c) (blocks s)\<rparr>"
    by (auto simp: malloc_Some_iff)
  then show ?thesis using assms(1,2) by (simp add: malloc_def s1)
qed

lemma thread_create_first:
  assumes "malloc s = (Some c, s1)" and "stack_source stk s1 stk' s2" and "thread_list s = NULL"
    and "malloc s2 = (Some m, s3)"
  shows "\<exists>s'. thread_create H img entry stk stk_size pri arg s = Some (ptr c, s')
    \<and> runq_wf s' [ptr c, ptr m] \<and> current_thread s' = ptr m \<and> hw_sp s' = hw_sp s \<and> blocks s' = blocks s3
    \<and> answers s' = answers s3 \<and> threads s' (ptr c) = Some ((fresh_thread (as_thread c) stk' stk_size pri arg)\<lparr>runq_next := ptr m\<rparr>)
    \<and> threads s' (ptr m) = Some ((main_thread img (as_thread m))\<lparr>sp := hw_sp s - switch_frame\<rparr>)"
proof -
  let ?T = "fresh_thread (as_thread c) stk' stk_size pri arg" and ?M = "main_thread img (as_thread m)"
  let ?x = "with_thread c stk' stk_size pri arg entry s2"
  let ?y = "?x\<lparr>answers := answers s3, blocks := blocks s3\<rparr>"
  let ?z = "switched (with_main img m ?y) (ptr m) ?M ?M"
  have c: "ptr c \<noteq> NULL" and m: "ptr m \<noteq> NULL" and "ptr m \<notin> blocks s2"
    using assms(1,4) by (auto simp: malloc_Some_iff)
  moreover have "ptr c \<in> blocks s2" using assms(1,2) by (auto simp: malloc_Some_iff stack_source_def)
  ultimately have ne: "ptr c \<noteq> ptr m" by auto
  have l: "thread_list ?x = NULL" and k: "hw_sp s2 = hw_sp s"
    using malloc_keeps [OF assms(1)] stack_source_keeps [OF assms(2)] assms(3)
    by (simp_all add: with_thread_keeps)
  have "malloc ?x = (Some m, ?y)"
    by (rule malloc_cong [OF _ _ assms(4)]) (simp_all add: with_thread_keeps)
  from create_main_exact [OF this c, of ?T H img] have 1: "create_main H img (ptr c) ?x = Some ?z"
    using ne by (simp add: with_thread_def fresh_thread_def)
  have zc: "threads ?z (ptr c) = Some ?T"
    using ne by (simp add: switched_def Let_def with_main_def with_thread_def)
  have zm: "threads ?z (ptr m) = Some (?M\<lparr>sp := hw_sp s - switch_frame\<rparr>)"
    by (simp add: switched_def Let_def with_main_def with_thread_def k)
  have zf: "thread_list ?z = ptr m" "thread_main_inf ?z = ptr m" "current_thread ?z = ptr m"
    "hw_sp ?z = hw_sp s" "blocks ?z = blocks s3" "answers ?z = answers s3"
    by (simp_all add: switched_def Let_def with_main_def with_thread_def k)
  let ?r = "?z\<lparr>threads := (threads ?z)(ptr c \<mapsto> ?T\<lparr>runq_next := ptr m\<rparr>), thread_list := ptr c\<rparr>"
  have "thread_create H img entry stk stk_size pri arg s = Some (ptr c, ?r)"
    unfolding thread_create_unfold [OF assms(1,2) refl] l
    by (simp only: 1 upd_thread_def deref_def c zc zf bind.bind_lunit if_False if_True simp_thms)
  moreover have "runq_wf ?r [ptr c, ptr m]"
    using c m ne zm zf by (simp add: runq_wf_def main_thread_def)
  ultimately show ?thesis using ne zm zf by simp
qed

lemma thread_create_no_stack:
  assumes "malloc s = (Some c, s1)" and "malloc s1 = (None, s2)" and "ptr c \<notin> dom (threads s)"
  shows "\<exists>s'. thread_create H img entry NULL stk_size pri arg s = Some (NULL, s') \<and> blocks s' = blocks s
    \<and> threads s' = threads s \<and> thread_list s' = thread_list s \<and> thread_main_inf s' = thread_main_inf s
    \<and> current_thread s' = current_thread s \<and> mem s' = mem s"
proof -
  have th: "ptr c \<noteq> NULL" "ptr c \<notin> blocks s" and s1: "blocks s1 = insert (ptr c) (blocks s)" "threads s1 = threads s"
    using assms(1) by (auto simp: malloc_Some_iff)
  have b: "blocks s2 = blocks s1" using assms(2) by (cases "answers s1") (auto simp: malloc_def split: if_splits)
  have m: "malloc (s1\<lparr>threads := h\<rparr>) = (None, s2\<lparr>threads := h\<rparr>)" for h
    by (rule malloc_with_threads [OF assms(2)])
  have "threads s (ptr c) = None" using assms(3) by auto
  then have "(threads s)(ptr c := None) = threads s" by (simp add: fun_upd_idem)
  with th b s1 malloc_keeps [OF assms(1)] malloc_keeps [OF assms(2)] show ?thesis
    by (simp add: thread_create_def assms(1) give_stack_def m upd_thread_def deref_def thread_free_def Let_def)
qed

section \<open>What thread_remove leaves\<close>

lemma remove_find_run:
  assumes "runq (threads s) p (xs @ q # ys)" and "th \<notin> set xs" and "thread_main_inf s \<notin> set xs"
    and "q = th \<or> q = thread_main_inf s"
  shows "remove_find th prv p s = Some (last (prv # xs), q)"
  using assms
proof (induction xs arbitrary: p prv)
  case Nil
  then show ?case by (subst remove_find.simps) auto
next
  case (Cons a xs)
  from Cons.prems(1) have a: "p = a" "a \<noteq> NULL" by simp_all
  from Cons.prems(1) obtain t :: thread where t: "threads s a = Some t"
    and r: "runq (threads s) (runq_next t) (xs @ q # ys)" by (cases "threads s a") auto
  have "deref a s = Some t" using a t by (simp add: deref_def)
  with Cons.prems(2,3) have "remove_find th prv p s = remove_find th a (runq_next t) s"
    by (subst remove_find.simps) (auto simp: a)
  with Cons.IH [OF r] Cons.prems show ?case by simp
qed

lemma runq_unlink:
  assumes "runq h p (xs @ b # th # ys)" and "distinct (xs @ b # th # ys)" and "h th = Some t" and "h b = Some u"
  shows "runq (h(b \<mapsto> u\<lparr>runq_next := runq_next t\<rparr>)) p (xs @ b # ys)"
  using assms
proof (induction xs arbitrary: p)
  case Nil
  then have "runq h (runq_next t) ys" by simp
  with Nil have "runq (h(b \<mapsto> u\<lparr>runq_next := runq_next t\<rparr>)) (runq_next t) ys"
    by (simp add: runq_upd_other del: fun_upd_apply)
  with Nil show ?case by (simp add: fun_upd_same del: fun_upd_apply)
next
  case (Cons a xs)
  then obtain v :: thread where v: "h a = Some v" and r: "runq h (runq_next v) (xs @ b # th # ys)"
    by (cases "h a") auto
  from Cons.IH [OF r] Cons.prems v show ?case by auto
qed

definition unlinked :: "addr list \<Rightarrow> addr \<Rightarrow> kernel \<Rightarrow> kernel" where
  "unlinked xs nxt s =
     (if xs = [] then s\<lparr>thread_list := nxt\<rparr>
      else s\<lparr>threads := (threads s)(last xs \<mapsto> (the (threads s (last xs)))\<lparr>runq_next := nxt\<rparr>)\<rparr>)"

lemma unlinked_keeps [simp]:
  "current_thread (unlinked xs n s) = current_thread s" "thread_main_inf (unlinked xs n s) = thread_main_inf s"
  "blocks (unlinked xs n s) = blocks s" "a \<notin> set xs \<Longrightarrow> threads (unlinked xs n s) a = threads s a"
  by (auto simp: unlinked_def)

lemma unlinked_runq:
  assumes "runq (threads s) (thread_list s) (xs @ th # ys)" and "distinct (xs @ th # ys)"
    and "threads s th = Some t"
  shows "runq (threads (unlinked xs (runq_next t) s)) (thread_list (unlinked xs (runq_next t) s)) (xs @ ys)"
proof (cases xs rule: rev_cases)
  case Nil
  then show ?thesis using assms by (simp add: unlinked_def)
next
  case (snoc us b)
  with assms(1) obtain u where "threads s b = Some u" using runq_live by fastforce
  with runq_unlink [of "threads s" "thread_list s" us b th ys t u] assms snoc show ?thesis
    by (simp add: unlinked_def)
qed

lemma thread_remove_unfold:
  assumes "runq_wf s (xs @ th # ys)" and "ys \<noteq> []" and "threads s th = Some t"
  shows "thread_remove th s = do {
      s \<leftarrow> thread_free (stack t) (unlinked xs (runq_next t) s);
      s \<leftarrow> thread_free th s;
      Some (0, s) }"
proof -
  have d: "distinct (xs @ th # ys)" and q: "runq (threads s) (thread_list s) (xs @ th # ys)"
    and m: "last ys = thread_main_inf s"
    using assms(1,2) by (simp_all add: runq_wf_def)
  then have ne: "thread_main_inf s \<notin> set xs" "thread_main_inf s \<noteq> th" "th \<notin> set xs"
    using assms(2) last_in_set by fastforce+
  have th: "th \<noteq> NULL" using runq_live [OF q, of th] by simp
  have f: "remove_find th (thread_list s) (thread_list s) s = Some (last (thread_list s # xs), th)"
    by (rule remove_find_run [OF q]) (use ne in auto)
  have hd: "(th = thread_list s) = (xs = [])" using q d by (cases xs) auto
  have dt: "deref th (unlinked xs (runq_next t) s) = Some t" using ne(3) th assms(3) by (simp add: deref_def)
  have dth: "deref th s = Some t" using th assms(3) by (simp add: deref_def)
  show ?thesis
  proof (cases "xs = []")
    case True
    with hd have "thread_list s = th" by simp
    with True dt dth ne(2) f show ?thesis by (simp add: thread_remove_def unlinked_def)
  next
    case False
    then have "last xs \<in> set xs" by simp
    then have "\<exists>u. threads s (last xs) = Some u \<and> last xs \<noteq> NULL" using runq_live [OF q, of "last xs"] by auto
    then obtain u where u: "threads s (last xs) = Some u" "last xs \<noteq> NULL" by blast
    then have "upd_thread (last xs) (\<lambda>p. p\<lparr>runq_next := runq_next t\<rparr>) s = Some (unlinked xs (runq_next t) s)"
      using False by (simp add: upd_thread_def deref_def unlinked_def)
    with False hd dt dth ne(2) f show ?thesis by (simp add: thread_remove_def)
  qed
qed

lemma thread_remove_absent_eq:
  assumes "runq_wf s ts" and "th \<notin> set ts \<or> th = thread_main_inf s"
  shows "thread_remove th s = Some (- 1, s)"
proof -
  obtain us where ts: "ts = us @ [thread_main_inf s]"
    using assms(1) unfolding runq_wf_def by (metis append_butlast_last_id)
  then have "remove_find th (thread_list s) (thread_list s) s = Some (last (thread_list s # us), thread_main_inf s)"
    using assms by (intro remove_find_run [where ys = "[]"]) (auto simp: runq_wf_def)
  then show ?thesis by (simp add: thread_remove_def)
qed

text \<open>What the thread owns: its structure and its stack.\<close>

definition removed :: "addr list \<Rightarrow> addr \<Rightarrow> thread \<Rightarrow> kernel \<Rightarrow> kernel" where
  "removed xs th t s =
     (let u = unlinked xs (runq_next t) s in
      u\<lparr>blocks := blocks u - {stack t} - {th}, threads := (threads u)(stack t := None, th := None),
        sems := (sems u)(stack t := None, th := None), queues := (queues u)(stack t := None, th := None)\<rparr>)"

lemma thread_remove_exact:
  assumes "runq_wf s (xs @ th # ys)" and "ys \<noteq> []" and "threads s th = Some t"
    and "stack t \<in> blocks s" and "th \<in> blocks s" and "stack t \<noteq> th" and "stack t \<noteq> NULL"
  shows "thread_remove th s = Some (0, removed xs th t s)"
proof -
  have th: "th \<noteq> NULL" using runq_wf_deref [OF assms(1), of th] by (auto simp: deref_def)
  show ?thesis
    using assms th by (simp add: thread_remove_unfold [OF assms(1-3)] thread_free_def removed_def Let_def)
qed

lemma removed_wf:
  assumes "runq_wf s (xs @ th # ys)" and "ys \<noteq> []" and "threads s th = Some t"
    and "stack t \<notin> set (xs @ ys)" and "current_thread s \<noteq> th"
  shows "runq_wf (removed xs th t s) (xs @ ys)"
proof -
  let ?u = "unlinked xs (runq_next t) s"
  have d: "distinct (xs @ th # ys)" and q: "runq (threads s) (thread_list s) (xs @ th # ys)"
    using assms(1) by (simp_all add: runq_wf_def)
  have "runq ((threads ?u)(stack t := None, th := None)) (thread_list ?u) (xs @ ys)"
    using unlinked_runq [OF q d assms(3)] d assms(4) by (simp add: runq_upd_other)
  then show ?thesis using assms by (auto simp: runq_wf_def removed_def Let_def)
qed

section \<open>Properties of thread_create\<close>

text \<open>C26: with memory available, \<open>thread_create\<close> puts the new thread, ready to run and with its
  priority, in front of the run queue; the other threads and the running one are untouched.\<close>

theorem thread_create_links:
  assumes "runq_wf s ts" and "set ts \<subseteq> blocks s" and "malloc s = (Some c, s1)" and "stack_source stk s1 stk' s2"
  shows "\<exists>s'. thread_create H img entry stk stk_size pri arg s = Some (ptr c, s')
    \<and> ptr c \<notin> set ts \<and> runq_wf s' (ptr c # ts) \<and> set (ptr c # ts) \<subseteq> blocks s'
    \<and> current_thread s' = current_thread s \<and> (\<forall>a. a \<noteq> ptr c \<longrightarrow> threads s' a = threads s a)
    \<and> active (threads s') (ptr c) \<and> prio (threads s') (ptr c) = pri"
proof -
  obtain s' where e: "thread_create H img entry stk stk_size pri arg s = Some (ptr c, s')"
    and s': "s' = s2\<lparr>mem := entry_frame (stk' + stk_size - 1) entry (mem s),
       threads := (threads s)(ptr c \<mapsto>
         (fresh_thread (as_thread c) stk' stk_size pri arg)\<lparr>runq_next := thread_list s\<rparr>),
       thread_list := ptr c\<rparr>"
    using thread_create_exact [OF assms(3,4) runq_wf_list_nonnull [OF assms(1)]] by blast
  have "set (ptr c # ts) \<subseteq> blocks s2"
    using assms(2-4) by (auto simp: malloc_Some_iff stack_source_def)
  moreover have "current_thread s2 = current_thread s"
    using malloc_keeps [OF assms(3)] stack_source_keeps [OF assms(4)] by simp
  ultimately show ?thesis
    using e thread_create_wf [OF assms e] by (simp add: s' active_def prio_def fresh_thread_def)
qed

definition demo_image :: image where
  "demo_image = \<lparr>RAMEND = 0x21FF, periodic_pattern_at = 0x1A2B\<rparr>"

text \<open>\<open>malloc\<close> will answer with 0x500 and then 0x600.\<close>

definition demo_chunk :: "addr \<Rightarrow> chunk" where
  "demo_chunk a = \<lparr>ptr = a, as_thread = blank_thread\<lparr>status := 0x99\<rparr>, as_words = (\<lambda>_. 0)\<rparr>"

definition demo_rich :: kernel where
  "demo_rich = demo\<lparr>answers := [demo_chunk 0x500, demo_chunk 0x600]\<rparr>"

lemma demo_rich_malloc:
  "malloc demo_rich = (Some (demo_chunk 0x500), demo_rich\<lparr>answers := [demo_chunk 0x600],
     blocks := {0x500, 0x100, 0x200, 0x300, 0x400}\<rparr>)"
  by (simp add: malloc_def demo_rich_def demo_def demo_chunk_def)

lemma demo_rich_stack:
  "stack_source 0 (demo_rich\<lparr>answers := [demo_chunk 0x600], blocks := {0x500, 0x100, 0x200, 0x300, 0x400}\<rparr>)
     0x600 (demo_rich\<lparr>answers := [], blocks := {0x600, 0x500, 0x100, 0x200, 0x300, 0x400}\<rparr>)"
  by (auto simp: stack_source_def malloc_Some_iff demo_chunk_def)

lemma demo_rich_wf: "runq_wf demo_rich demo_list" "set demo_list \<subseteq> blocks demo_rich"
  by (simp_all add: runq_wf_def demo_rich_def demo_defs)

theorem thread_create_links_witness:
  "\<exists>s'. thread_create no_handler demo_image 0x1234 0 200 7 0 demo_rich = Some (0x500, s')
     \<and> runq_wf s' [0x500, 0x300, 0x200, 0x100]"
  using thread_create_links [OF demo_rich_wf demo_rich_malloc demo_rich_stack,
      of no_handler demo_image "0x1234" 200 7 0]
  by (auto simp: demo_chunk_def demo_list_def)

text \<open>The first call of \<open>thread_create\<close> also makes the main thread: it leaves the run queue of the
  new thread and, behind it, the main thread, which goes on running, with priority
  \<open>NORM_PRIO\<close> and its own stack pointer; but the status of the main thread is whatever its block of
  memory held before.\<close>

theorem thread_create_starts:
  assumes "malloc s = (Some c, s1)" and "stack_source stk s1 stk' s2" and "thread_list s = NULL"
    and "malloc s2 = (Some m, s3)"
  shows "\<exists>s' t. thread_create H img entry stk stk_size pri arg s = Some (ptr c, s')
    \<and> runq_wf s' [ptr c, ptr m] \<and> current_thread s' = ptr m \<and> active (threads s') (ptr c)
    \<and> threads s' (ptr m) = Some t \<and> priority t = SIMPLERTFRAMEWORK_NORM_PRIO
    \<and> status t = status (as_thread m) \<and> sp t = hw_sp s - switch_frame \<and> hw_sp s' = hw_sp s"
  using thread_create_first [OF assms, of H img entry stk_size pri arg]
  by (auto simp: active_def fresh_thread_def main_thread_def)

definition demo_reset :: kernel where
  "demo_reset = demo\<lparr>thread_list := 0, current_thread := 0, thread_main_inf := 0, threads := Map.empty,
     blocks := {}, answers := [demo_chunk 0x500, demo_chunk 0x600]\<rparr>"

theorem thread_create_starts_witness:
  "\<exists>s' t. thread_create no_handler demo_image 0x1234 0x700 200 7 0 demo_reset = Some (0x500, s')
     \<and> runq_wf s' [0x500, 0x600] \<and> threads s' 0x600 = Some t \<and> status t = 0x99"
proof -
  let ?s1 = "demo_reset\<lparr>answers := [demo_chunk 0x600], blocks := {0x500}\<rparr>"
  let ?s3 = "demo_reset\<lparr>answers := [], blocks := {0x600, 0x500}\<rparr>"
  have 1: "malloc demo_reset = (Some (demo_chunk 0x500), ?s1)" and 3: "malloc ?s1 = (Some (demo_chunk 0x600), ?s3)"
    by (simp_all add: malloc_def demo_reset_def demo_chunk_def)
  have 2: "stack_source 0x700 ?s1 0x700 ?s1" by (simp add: stack_source_def)
  have "thread_list demo_reset = NULL" by (simp add: demo_reset_def)
  from thread_create_starts [OF 1 2 this 3, of no_handler demo_image "0x1234" 200 7 0]
  show ?thesis by (auto simp: demo_chunk_def)
qed

text \<open>\<open>thread_create\<close> fails cleanly: when there is memory for the structure but not for the stack it
  returns NULL, gives the structure back, and leaves the threads, the run queue and the memory as
  they were.\<close>

theorem thread_create_fails_clean:
  assumes "malloc s = (Some c, s1)" and "malloc s1 = (None, s2)" and "ptr c \<notin> dom (threads s)"
  shows "\<exists>s'. thread_create H img entry NULL stk_size pri arg s = Some (NULL, s') \<and> blocks s' = blocks s
    \<and> threads s' = threads s \<and> thread_list s' = thread_list s \<and> thread_main_inf s' = thread_main_inf s
    \<and> current_thread s' = current_thread s \<and> mem s' = mem s"
  using assms by (rule thread_create_no_stack)

theorem thread_create_fails_clean_witness:
  "\<exists>s'. thread_create no_handler demo_image 0x1234 0 200 7 0 (demo\<lparr>answers := [demo_chunk 0x500]\<rparr>) = Some (0, s')
     \<and> blocks s' = blocks demo \<and> threads s' = threads demo"
proof -
  let ?s = "demo\<lparr>answers := [demo_chunk 0x500]\<rparr>"
  let ?s1 = "demo\<lparr>blocks := {0x500, 0x100, 0x200, 0x300, 0x400}\<rparr>"
  have 1: "malloc ?s = (Some (demo_chunk 0x500), ?s1)" and 2: "malloc ?s1 = (None, ?s1)"
    by (simp_all add: malloc_def demo_def demo_chunk_def)
  have "ptr (demo_chunk 0x500) \<notin> dom (threads ?s)" by (simp add: demo_defs demo_chunk_def)
  from thread_create_fails_clean [OF 1 2 this, of no_handler demo_image "0x1234" 200 7 0]
  show ?thesis by (auto simp: demo_def)
qed

lemma entry_frame_outside:
  assumes "6 \<le> unat z" and "unat stk + unat z \<le> 2 ^ 16" and "unat a < unat stk \<or> unat stk + unat z \<le> unat a"
  shows "entry_frame (stk + z - 1) entry m a = m a"
proof -
  have "a \<noteq> stk + z - 1 - of_nat k" if "k < 6" for k
  proof
    assume eq: "a = stk + z - 1 - of_nat k"
    have sum: "stk + z - 1 - of_nat k = of_nat (unat stk + unat z - 1 - k)"
      using that assms(1) by (simp add: of_nat_diff)
    have "unat stk + unat z - 1 - k < 2 ^ 16" using assms(1,2) by linarith
    then have "unat a = unat stk + unat z - 1 - k"
      unfolding eq sum by (simp add: unat_of_nat)
    with assms that show False by linarith
  qed
  from this [of 0] this [of 1] this [of 2] this [of 3] this [of 4] this [of 5] show ?thesis
    by (simp add: entry_frame_def)
qed

text \<open>\<open>thread_create\<close> writes inside the stack it was given: with a stack of at least six bytes that
  does not run over the end of the address space, no byte outside it changes. The new thread's stack
  pointer is seven below the end of the stack.\<close>

theorem thread_create_stack_bounds:
  assumes "runq_wf s ts" and "malloc s = (Some c, s1)" and "stack_source stk s1 stk' s2"
    and "6 \<le> unat stk_size" and "unat stk' + unat stk_size \<le> 2 ^ 16"
  shows "\<exists>s' t. thread_create H img entry stk stk_size pri arg s = Some (ptr c, s')
    \<and> threads s' (ptr c) = Some t \<and> stack t = stk' \<and> stack_size t = stk_size \<and> sp t = stk' + stk_size - 7
    \<and> (\<forall>a. unat a < unat stk' \<or> unat stk' + unat stk_size \<le> unat a \<longrightarrow> mem s' a = mem s a)"
  using thread_create_exact [OF assms(2,3) runq_wf_list_nonnull [OF assms(1)], of H img entry stk_size pri arg]
    entry_frame_outside [OF assms(4,5)]
  by (auto simp: fresh_thread_def)

theorem thread_create_stack_bounds_witness:
  "\<exists>s' t. thread_create no_handler demo_image 0x1234 0 200 7 0 demo_rich = Some (0x500, s')
     \<and> threads s' 0x500 = Some t \<and> sp t = 0x6C1 \<and> mem s' 0x700 = mem demo_rich 0x700"
proof -
  have "mem s' 0x700 = mem demo_rich 0x700"
    if "\<forall>a. unat a < unat (0x600 :: addr) \<or> unat (0x600 :: addr) + unat (200 :: u16) \<le> unat a \<longrightarrow> mem s' a = mem demo_rich a"
    for s' using that by simp
  with thread_create_stack_bounds [OF demo_rich_wf(1) demo_rich_malloc demo_rich_stack, of 200 no_handler demo_image
      "0x1234" 7 0]
  show ?thesis by (fastforce simp: demo_chunk_def)
qed

section \<open>Properties of the creation of periodic, sporadic and aperiodic threads\<close>

lemma periodic_exact:
  assumes "malloc s = (Some c, s1)" and "stack_source stk s1 stk' s2" and "thread_list s \<noteq> NULL"
  shows "\<exists>s' t. periodic_thread_create H img entry params stk stk_size pri offset_us period_us max_deadline_us
      max_cost_us handler s = Some (ptr c, s') \<and> ptr c \<noteq> NULL \<and> thread_list s' = ptr c
    \<and> threads s' (ptr c) = Some t
    \<and> executor t = entry \<and> error_handler t = handler \<and> priority t = pri \<and> status t = SIMPLERTFRAMEWORK_ACTIVE
    \<and> offset_ticks t = offset_us div us_per_tick \<and> min_period_ticks t = period_us div us_per_tick
    \<and> max_deadline_ticks t = max_deadline_us div us_per_tick \<and> max_cost_ticks t = max_cost_us div us_per_tick
    \<and> block_pattern t = 0 \<and> ats_pending t = 0 \<and> blocked_semaphore t = NULL"
proof -
  have "ptr c \<noteq> NULL" using assms(1) by (auto simp: malloc_Some_iff)
  then show ?thesis
    by (simp add: periodic_thread_create_def thread_create_exact [OF assms] upd_thread_def deref_def fresh_thread_def)
qed

lemma ticks_of_us:
  fixes us :: u32
  shows "unat (us div us_per_tick) * 128 \<le> unat us" and "unat us < unat (us div us_per_tick) * 128 + 128"
proof -
  have "unat (us div us_per_tick) = unat us div 128" by (simp add: us_per_tick_def unat_div)
  then show "unat (us div us_per_tick) * 128 \<le> unat us" and "unat us < unat (us div us_per_tick) * 128 + 128"
    by simp_all
qed

text \<open>A sporadic thread is created with the parameters asked for, its minimum interarrival time and
  its deadline rounded down to ticks by less than one tick of 128 microseconds, an empty activation
  queue and no semaphore to wait for.\<close>

theorem sporadic_parameters:
  assumes "malloc s = (Some c, s1)" and "stack_source stk s1 stk' s2" and "thread_list s \<noteq> NULL"
  shows "\<exists>s' t. sporadic_thread_create H img entry params stk stk_size pri offset_us mit_us max_deadline_us
      max_cost_us policy qmax handler s = Some (ptr c, s') \<and> threads s' (ptr c) = Some t
    \<and> executor t = entry \<and> error_handler t = handler \<and> priority t = pri \<and> block_pattern t = 1
    \<and> mit_policy t = policy \<and> queue_length_max t = qmax \<and> queue_pending t = 0 \<and> blocked_semaphore t = NULL
    \<and> unat (min_period_ticks t) * 128 \<le> unat mit_us \<and> unat mit_us < unat (min_period_ticks t) * 128 + 128
    \<and> unat (max_deadline_ticks t) * 128 \<le> unat max_deadline_us
    \<and> unat max_deadline_us < unat (max_deadline_ticks t) * 128 + 128"
proof -
  obtain s' t where p: "periodic_thread_create H img entry params stk stk_size pri offset_us mit_us max_deadline_us
      max_cost_us handler s = Some (ptr c, s')" "ptr c \<noteq> NULL" and t: "threads s' (ptr c) = Some t"
    "executor t = entry" "error_handler t = handler" "priority t = pri" "blocked_semaphore t = NULL"
    "min_period_ticks t = mit_us div us_per_tick" "max_deadline_ticks t = max_deadline_us div us_per_tick"
    using periodic_exact [OF assms] by blast
  then show ?thesis
    using ticks_of_us [of mit_us] ticks_of_us [of max_deadline_us]
    by (simp add: sporadic_thread_create_def upd_thread_def deref_def)
qed

lemma demo_rich_list: "thread_list demo_rich \<noteq> NULL"
  by (simp add: demo_rich_def demo_def)

theorem sporadic_parameters_witness:
  "\<exists>s' t. sporadic_thread_create no_handler demo_image 0x1234 0 0 200 7 0 1000000 2000000 500 0x22 3 0 demo_rich
     = Some (0x500, s') \<and> threads s' 0x500 = Some t \<and> block_pattern t = 1 \<and> queue_length_max t = 3"
  using sporadic_parameters [OF demo_rich_malloc demo_rich_stack demo_rich_list,
      of no_handler demo_image "0x1234" 0 200 7 0 1000000 2000000 500 "0x22" 3 0]
  by (auto simp: demo_chunk_def)

text \<open>Without memory for the new structure, \<open>periodic_thread_create\<close> and
  \<open>sporadic_thread_create\<close> return NULL and leave the threads alone, but
  \<open>aperiodic_thread_create\<close> writes through the NULL pointer.\<close>

theorem creation_without_memory:
  assumes "malloc s = (None, s1)"
  shows "periodic_thread_create H img entry params stk stk_size pri offset_us period_us max_deadline_us
      max_cost_us handler s = Some (NULL, s1)
    \<and> sporadic_thread_create H img entry params stk stk_size pri offset_us period_us max_deadline_us
      max_cost_us policy qmax handler s = Some (NULL, s1)
    \<and> aperiodic_thread_create H img entry params stk stk_size pri offset_us max_deadline_us
      max_cost_us policy qmax handler s = None
    \<and> threads s1 = threads s \<and> blocks s1 = blocks s \<and> thread_list s1 = thread_list s"
  using assms malloc_keeps [OF assms]
  by (cases "answers s") (auto simp: aperiodic_thread_create_def sporadic_thread_create_def
      periodic_thread_create_def thread_create_def upd_thread_def deref_def malloc_def split: if_splits)

theorem creation_without_memory_witness:
  "aperiodic_thread_create no_handler demo_image 0x1234 0 0x700 200 7 0 2000000 500 0x22 3 0 demo = None"
proof -
  have "malloc demo = (None, demo)" by (simp add: malloc_def demo_def)
  from creation_without_memory [OF this, of no_handler demo_image "0x1234" 0 "0x700" 200 7 0 0 2000000 500 0 "0x22" 3]
  show ?thesis by simp
qed

section \<open>Properties of thread_remove\<close>

text \<open>C27: removing a thread that does not run and has a stack from \<open>malloc\<close> takes it out of the run
  queue, keeps the order of the others, and frees its structure and its stack and nothing else.\<close>

theorem thread_remove_unlinks:
  assumes "runq_wf s (xs @ th # ys)" and "ys \<noteq> []" and "threads s th = Some t"
    and "stack t \<in> blocks s" and "th \<in> blocks s" and "stack t \<notin> insert NULL (set (xs @ th # ys))"
    and "current_thread s \<noteq> th"
  shows "\<exists>s'. thread_remove th s = Some (0, s') \<and> runq_wf s' (xs @ ys)
    \<and> blocks s' = blocks s - {th, stack t} \<and> threads s' th = None"
proof -
  have "thread_remove th s = Some (0, removed xs th t s)"
    by (rule thread_remove_exact [OF assms(1-5)]) (use assms(6) in auto)
  moreover have "runq_wf (removed xs th t s) (xs @ ys)"
    by (rule removed_wf [OF assms(1-3) _ assms(7)]) (use assms(6) in auto)
  ultimately show ?thesis by (auto simp: removed_def Let_def)
qed

definition demo_owned :: kernel where
  "demo_owned = demo\<lparr>threads := demo_threads(0x200 \<mapsto> blank_thread\<lparr>runq_next := 0x100, priority := 10,
     sp := 0x1000, stack := 0xF00\<rparr>), blocks := {0x100, 0x200, 0x300, 0x400, 0xF00}\<rparr>"

lemma demo_owned_wf: "runq_wf demo_owned ([0x300] @ 0x200 # [0x100])"
  by (simp add: runq_wf_def demo_owned_def demo_defs)

theorem thread_remove_unlinks_witness:
  "\<exists>s'. thread_remove 0x200 demo_owned = Some (0, s') \<and> runq_wf s' [0x300, 0x100] \<and> 0xF00 \<notin> blocks s'"
proof -
  let ?t = "blank_thread\<lparr>runq_next := 0x100, priority := 10, sp := 0x1000, stack := 0xF00\<rparr>"
  have t: "threads demo_owned 0x200 = Some ?t" by (simp add: demo_owned_def)
  have "\<exists>s'. thread_remove 0x200 demo_owned = Some (0, s') \<and> runq_wf s' ([0x300] @ [0x100])
    \<and> blocks s' = blocks demo_owned - {0x200, stack ?t} \<and> threads s' 0x200 = None"
    by (rule thread_remove_unlinks [OF demo_owned_wf _ t]) (simp_all add: demo_owned_def demo_def)
  then show ?thesis by auto
qed

text \<open>A thread that is not in the run queue, and the main thread, are not removed: the call returns
  -1 and changes nothing.\<close>

theorem thread_remove_absent:
  assumes "runq_wf s ts" and "th \<notin> set ts \<or> th = thread_main_inf s"
  shows "thread_remove th s = Some (- 1, s)"
  using assms by (rule thread_remove_absent_eq)

theorem thread_remove_absent_witness:
  "thread_remove 0x100 demo = Some (- 1, demo) \<and> thread_remove 0x999 demo = Some (- 1, demo)"
  using thread_remove_absent [OF demo_runq_wf, of "0x100"] thread_remove_absent [OF demo_runq_wf, of "0x999"]
  by (simp add: demo_def demo_list_def)

text \<open>A thread may not be removed when its stack came from the application: \<open>thread_remove\<close> hands
  that stack to \<open>free\<close>, which is undefined.\<close>

theorem thread_remove_frees_callers_stack:
  assumes "runq_wf s (xs @ th # ys)" and "ys \<noteq> []" and "threads s th = Some t"
    and "stack t \<noteq> NULL" and "stack t \<notin> blocks s"
  shows "thread_remove th s = None"
  using assms(4,5) by (simp add: thread_remove_unfold [OF assms(1-3)] thread_free_def)

theorem thread_remove_frees_callers_stack_witness:
  "thread_remove 0x200 (demo_owned\<lparr>blocks := {0x100, 0x200, 0x300}\<rparr>) = None"
proof (rule thread_remove_frees_callers_stack)
  show "runq_wf (demo_owned\<lparr>blocks := {0x100, 0x200, 0x300}\<rparr>) ([0x300] @ 0x200 # [0x100])"
    using demo_owned_wf by (simp add: runq_wf_def)
  show "threads (demo_owned\<lparr>blocks := {0x100, 0x200, 0x300}\<rparr>) 0x200
    = Some (blank_thread\<lparr>runq_next := 0x100, priority := 10, sp := 0x1000, stack := 0xF00\<rparr>)"
    by (simp add: demo_owned_def)
qed simp_all

text \<open>A thread may not remove itself: \<open>thread_remove\<close> succeeds, but the scheduler's
  \<open>current_thread\<close> points to the freed structure, and the next yield (the next tick) is
  undefined.\<close>

theorem thread_remove_self_dangles:
  assumes "runq_wf s (xs @ th # ys)" and "ys \<noteq> []" and "threads s th = Some t"
    and "stack t \<in> blocks s" and "th \<in> blocks s" and "stack t \<notin> insert NULL (set (xs @ th # ys))"
    and "current_thread s = th"
  shows "\<exists>s'. thread_remove th s = Some (0, s') \<and> thread_yield H s' = None"
proof -
  let ?r = "removed xs th t s"
  have "thread_remove th s = Some (0, ?r)"
    by (rule thread_remove_exact [OF assms(1-5)]) (use assms(6) in auto)
  moreover have "thread_yield H ?r = None"
  proof -
    have d: "distinct (xs @ th # ys)" and q: "runq (threads s) (thread_list s) (xs @ th # ys)"
      using assms(1) by (simp_all add: runq_wf_def)
    have "thread_list (unlinked xs (runq_next t) s) \<noteq> NULL"
      using unlinked_runq [OF q d assms(3)] assms(2) by (cases "xs @ ys") auto
    then have l: "thread_list ?r \<noteq> NULL" by (simp add: removed_def Let_def)
    have "deref (current_thread ?r) ?r = None" by (simp add: removed_def Let_def assms(7) deref_def)
    with l show ?thesis by (simp add: thread_yield_def yield_loop.simps [of "current_thread ?r"])
  qed
  ultimately show ?thesis by blast
qed

theorem thread_remove_self_dangles_witness:
  "\<exists>s'. thread_remove 0x200 (demo_owned\<lparr>current_thread := 0x200\<rparr>) = Some (0, s') \<and> thread_yield no_handler s' = None"
proof (rule thread_remove_self_dangles)
  show "runq_wf (demo_owned\<lparr>current_thread := 0x200\<rparr>) ([0x300] @ 0x200 # [0x100])"
    using demo_owned_wf by (simp add: runq_wf_def)
  show "threads (demo_owned\<lparr>current_thread := 0x200\<rparr>) 0x200
    = Some (blank_thread\<lparr>runq_next := 0x100, priority := 10, sp := 0x1000, stack := 0xF00\<rparr>)"
    by (simp add: demo_owned_def)
qed (simp_all add: demo_owned_def demo_def)

text \<open>C38: removal undoes creation: a thread created with a stack from \<open>malloc\<close> and removed again leaves
  the run queue and the allocated blocks as they were before it was created.\<close>

theorem create_then_remove:
  assumes "runq_wf s ts" and "set ts \<subseteq> blocks s" and "malloc s = (Some c, s1)" and "malloc s1 = (Some d, s2)"
  shows "\<exists>s' s''. thread_create H img entry NULL stk_size pri arg s = Some (ptr c, s')
    \<and> thread_remove (ptr c) s' = Some (0, s'') \<and> runq_wf s'' ts \<and> blocks s'' = blocks s"
proof -
  have src: "stack_source NULL s1 (ptr d) s2" using assms(4) by (auto simp: stack_source_def)
  note e = thread_create_exact [OF assms(3) src runq_wf_list_nonnull [OF assms(1)], of H img entry stk_size pri arg]
  obtain s' where e': "thread_create H img entry NULL stk_size pri arg s = Some (ptr c, s')" using e by blast
  let ?t = "(fresh_thread (as_thread c) (ptr d) stk_size pri arg)\<lparr>runq_next := thread_list s\<rparr>"
  note w = thread_create_wf [OF assms(1-3) src e']
  have t: "threads s' (ptr c) = Some ?t" and b: "blocks s' = insert (ptr d) (insert (ptr c) (blocks s))"
    and cur: "current_thread s' = current_thread s"
    and dc: "ptr d \<noteq> NULL" "ptr d \<noteq> ptr c" "ptr d \<notin> blocks s" "ptr c \<notin> blocks s"
    using e e' assms(3,4) by (auto simp: malloc_Some_iff)
  have st: "stack ?t = ptr d" by (simp add: fresh_thread_def)
  have "\<exists>s''. thread_remove (ptr c) s' = Some (0, s'') \<and> runq_wf s'' ([] @ ts)
    \<and> blocks s'' = blocks s' - {ptr c, stack ?t} \<and> threads s'' (ptr c) = None"
  proof -
    have r: "thread_remove (ptr c) s' = Some (0, removed [] (ptr c) ?t s')"
    proof (rule thread_remove_exact)
      show "runq_wf s' ([] @ ptr c # ts)" using w by simp
      show "ts \<noteq> []" using assms(1) by (simp add: runq_wf_def)
    qed (use t b dc st in simp_all)
    have "runq_wf (removed [] (ptr c) ?t s') ([] @ ts)"
    proof (rule removed_wf)
      show "runq_wf s' ([] @ ptr c # ts)" using w by simp
      show "ts \<noteq> []" using assms(1) by (simp add: runq_wf_def)
      show "stack ?t \<notin> set ([] @ ts)" using dc(3) assms(2) st by auto
      show "current_thread s' \<noteq> ptr c" using cur runq_wf_current [OF assms(1)] w(2) by auto
    qed (rule t)
    with r show ?thesis by (auto simp: removed_def Let_def)
  qed
  moreover have "blocks s' - {ptr c, stack ?t} = blocks s" using b dc st by auto
  ultimately show ?thesis using e' by auto
qed

theorem create_then_remove_witness:
  "\<exists>s' s''. thread_create no_handler demo_image 0x1234 0 200 7 0 demo_rich = Some (0x500, s')
     \<and> thread_remove 0x500 s' = Some (0, s'') \<and> runq_wf s'' demo_list \<and> blocks s'' = blocks demo_rich"
proof -
  have "malloc (demo_rich\<lparr>answers := [demo_chunk 0x600], blocks := {0x500, 0x100, 0x200, 0x300, 0x400}\<rparr>)
    = (Some (demo_chunk 0x600), demo_rich\<lparr>answers := [], blocks := {0x600, 0x500, 0x100, 0x200, 0x300, 0x400}\<rparr>)"
    by (simp add: malloc_def demo_chunk_def)
  from create_then_remove [OF demo_rich_wf demo_rich_malloc this, of no_handler demo_image "0x1234" 200 7 0]
  show ?thesis by (simp add: demo_chunk_def)
qed

end
