(* ===== verification/RT_Switch.thy ===== *)
theory RT_Switch
  imports RT_Create
begin

text \<open>
  The context switch, instruction by instruction. \<open>do_switch\<close> is a naked function of assembler
  statements around one call of the C function \<open>change_high\<close>; here its instructions run on a small
  model of the AVR: the 32 registers, the stack pointer, the status register, the program counter and
  the RAM (a processor with a 16-bit program counter: a call leaves two bytes on the stack). What the
  call of \<open>change_high\<close> does to the processor is a parameter.
\<close>

section \<open>The processor\<close>

record cpu =
  regs :: "nat \<Rightarrow> u8"
  cpu_sp :: u16
  sreg :: u8
  pc :: u16
  ram :: "addr \<Rightarrow> u8"

datatype instr = CLI | PUSH nat | POP nat | IN nat u8 | OUT u8 nat | LDI nat u8 | LDS nat addr
  | ST_X_inc nat | LD_X_inc nat | CALL_change_high | RETI | RET

definition word16 :: "u8 \<Rightarrow> u8 \<Rightarrow> u16" where
  "word16 hi lo = push_bit 8 (ucast hi) OR ucast lo"

definition X_reg :: "cpu \<Rightarrow> addr" where
  "X_reg c = word16 (regs c 27) (regs c 26)"

definition set_X :: "addr \<Rightarrow> cpu \<Rightarrow> cpu" where
  "set_X a c = c\<lparr>regs := (regs c)(26 := ucast a, 27 := ucast (drop_bit 8 a))\<rparr>"

definition io_read :: "u8 \<Rightarrow> cpu \<Rightarrow> u8" where
  "io_read p c = (if p = 0x3d then ucast (cpu_sp c) else if p = 0x3e then ucast (drop_bit 8 (cpu_sp c))
     else if p = 0x3f then sreg c else 0)"

definition io_write :: "u8 \<Rightarrow> u8 \<Rightarrow> cpu \<Rightarrow> cpu" where
  "io_write p b c =
     (if p = 0x3d then c\<lparr>cpu_sp := word16 (ucast (drop_bit 8 (cpu_sp c))) b\<rparr>
      else if p = 0x3e then c\<lparr>cpu_sp := word16 b (ucast (cpu_sp c))\<rparr>
      else if p = 0x3f then c\<lparr>sreg := b\<rparr> else c)"

fun exec :: "(cpu \<Rightarrow> cpu) \<Rightarrow> instr \<Rightarrow> cpu \<Rightarrow> cpu" where
  "exec C CLI c = c\<lparr>sreg := sreg c AND 0x7F\<rparr>"
| "exec C (PUSH n) c = c\<lparr>ram := (ram c)(cpu_sp c := regs c n), cpu_sp := cpu_sp c - 1\<rparr>"
| "exec C (POP n) c = c\<lparr>regs := (regs c)(n := ram c (cpu_sp c + 1)), cpu_sp := cpu_sp c + 1\<rparr>"
| "exec C (IN n p) c = c\<lparr>regs := (regs c)(n := io_read p c)\<rparr>"
| "exec C (OUT p n) c = io_write p (regs c n) c"
| "exec C (LDI n b) c = c\<lparr>regs := (regs c)(n := b)\<rparr>"
| "exec C (LDS n a) c = c\<lparr>regs := (regs c)(n := ram c a)\<rparr>"
| "exec C (ST_X_inc n) c = set_X (X_reg c + 1) (c\<lparr>ram := (ram c)(X_reg c := regs c n)\<rparr>)"
| "exec C (LD_X_inc n) c = set_X (X_reg c + 1) (c\<lparr>regs := (regs c)(n := ram c (X_reg c))\<rparr>)"
| "exec C CALL_change_high c = C c"
| "exec C RETI c = c\<lparr>pc := word16 (ram c (cpu_sp c + 1)) (ram c (cpu_sp c + 2)), cpu_sp := cpu_sp c + 2,
     sreg := sreg c OR 0x80\<rparr>"
| "exec C RET c = c\<lparr>pc := word16 (ram c (cpu_sp c + 1)) (ram c (cpu_sp c + 2)), cpu_sp := cpu_sp c + 2\<rparr>"

definition run :: "(cpu \<Rightarrow> cpu) \<Rightarrow> instr list \<Rightarrow> cpu \<Rightarrow> cpu" where
  "run C is c = fold (exec C) is c"

section \<open>The code of do_switch\<close>

text \<open>\<open>px\<close> is the address of the variable \<open>pxCurrentTCB\<close>.\<close>

definition switch_out_code :: "addr \<Rightarrow> instr list" where
  "switch_out_code px = CLI # map PUSH [0..<32] @
     [IN 0 0x3f, PUSH 0, LDI 16 0xAB, PUSH 16, PUSH 16,
      LDS 26 px, LDS 27 (px + 1), IN 0 0x3d, ST_X_inc 0, IN 0 0x3e, ST_X_inc 0]"

definition switch_in_code :: "addr \<Rightarrow> instr list" where
  "switch_in_code px =
     [LDS 26 px, LDS 27 (px + 1), LD_X_inc 0, OUT 0x3d 0, LD_X_inc 0, OUT 0x3e 0,
      POP 0, POP 16, POP 16, OUT 0x3f 0] @ map POP (rev [0..<32]) @ [RETI]"

definition do_switch_code :: "addr \<Rightarrow> instr list" where
  "do_switch_code px = switch_out_code px @ CALL_change_high # switch_in_code px"

section \<open>Bytes and words\<close>

lemma word16_bytes: "word16 (ucast (drop_bit 8 w)) (ucast w) = w"
  unfolding word16_def by (rule bytes_of_u16)

lemma high_word16: "ucast (drop_bit 8 (word16 h l)) = h"
  unfolding word16_def by (rule bit_word_eqI) (auto simp: bit_simps dest: bit_imp_le_length)

lemma low_word16: "ucast (word16 h l) = l"
  unfolding word16_def by (rule bit_word_eqI) (auto simp: bit_simps)

lemma X_set_X [simp]: "X_reg (set_X a c) = a"
  by (simp add: X_reg_def set_X_def word16_bytes)

lemma set_X_keeps [simp]:
  "cpu_sp (set_X a c) = cpu_sp c" "sreg (set_X a c) = sreg c" "ram (set_X a c) = ram c" "pc (set_X a c) = pc c"
  "n \<noteq> 26 \<Longrightarrow> n \<noteq> 27 \<Longrightarrow> regs (set_X a c) n = regs c n"
  by (simp_all add: set_X_def)

section \<open>Runs of pushes and pops\<close>

fun write_down :: "(addr \<Rightarrow> u8) \<Rightarrow> addr \<Rightarrow> u8 list \<Rightarrow> addr \<Rightarrow> u8" where
  "write_down m a [] = m"
| "write_down m a (b # bs) = write_down (m(a := b)) (a - 1) bs"

lemma run_append: "run C (is @ js) c = run C js (run C is c)"
  by (simp add: run_def)

lemma run_Cons: "run C (i # is) c = run C is (exec C i c)"
  by (simp add: run_def)

lemma run_Nil: "run C [] c = c"
  by (simp add: run_def)

lemma run_pushes:
  "run C (map PUSH ns) c = c\<lparr>ram := write_down (ram c) (cpu_sp c) (map (regs c) ns),
     cpu_sp := cpu_sp c - of_nat (length ns)\<rparr>"
  by (induction ns arbitrary: c) (simp_all add: run_def algebra_simps)

lemma of_nat_eq_u16:
  assumes "j < 2 ^ 16" and "k < 2 ^ 16"
  shows "(of_nat j :: u16) = of_nat k \<longleftrightarrow> j = k"
  using assms by (simp add: word_of_nat_eq_iff take_bit_nat_eq_self)

lemma write_down_other:
  "(\<And>k. k < length bs \<Longrightarrow> x \<noteq> a - of_nat k) \<Longrightarrow> write_down m a bs x = m x"
proof (induction bs arbitrary: m a)
  case (Cons b bs)
  have "x \<noteq> a - 1 - of_nat k" if "k < length bs" for k
    using Cons.prems [of "Suc k"] that by (simp add: algebra_simps)
  then have "write_down (m(a := b)) (a - 1) bs x = (m(a := b)) x" by (rule Cons.IH)
  moreover have "x \<noteq> a" using Cons.prems [of 0] by simp
  ultimately show ?case by (simp add: fun_upd_other del: fun_upd_apply)
qed simp

lemma write_down_nth:
  "k < length bs \<Longrightarrow> length bs \<le> 2 ^ 16 \<Longrightarrow> write_down m a bs (a - of_nat k) = bs ! k"
proof (induction bs arbitrary: m a k)
  case (Cons b bs)
  show ?case
  proof (cases k)
    case 0
    have "a \<noteq> a - 1 - of_nat j" if "j < length bs" for j
    proof
      assume "a = a - 1 - of_nat j"
      then have "(of_nat (Suc j) :: u16) = of_nat 0" by (simp add: algebra_simps)
      moreover have "Suc j < 2 ^ 16" using that Cons.prems by simp
      ultimately show False by (subst (asm) of_nat_eq_u16) simp_all
    qed
    then have "write_down (m(a := b)) (a - 1) bs a = (m(a := b)) a" by (intro write_down_other)
    with 0 show ?thesis by (simp add: fun_upd_same del: fun_upd_apply)
  next
    case (Suc j)
    with Cons.prems have "write_down (m(a := b)) (a - 1) bs (a - 1 - of_nat j) = bs ! j"
      by (intro Cons.IH) simp_all
    moreover have "a - of_nat k = a - 1 - of_nat j" using Suc by simp
    ultimately show ?thesis using Suc by (simp only: write_down.simps nth_Cons_Suc)
  qed
qed simp

lemma run_pops_keeps:
  "cpu_sp (run C (map POP ns) c) = cpu_sp c + of_nat (length ns)" "ram (run C (map POP ns) c) = ram c"
  "sreg (run C (map POP ns) c) = sreg c" "n \<notin> set ns \<Longrightarrow> regs (run C (map POP ns) c) n = regs c n"
  by (induction ns arbitrary: c) (simp_all add: run_Nil run_Cons algebra_simps)

lemma run_pops:
  "distinct ns \<Longrightarrow> k < length ns \<Longrightarrow> regs (run C (map POP ns) c) (ns ! k) = ram c (cpu_sp c + 1 + of_nat k)"
proof (induction ns arbitrary: c k)
  case (Cons n ns)
  show ?case
  proof (cases k)
    case 0
    with Cons.prems show ?thesis by (simp add: run_Cons run_pops_keeps)
  next
    case (Suc j)
    with Cons.prems Cons.IH [of j "exec C (POP n) c"] show ?thesis
      by (simp add: run_Cons algebra_simps)
  qed
qed simp

section \<open>Saving a thread\<close>

lemma write_down_append:
  "write_down m a (xs @ ys) = write_down (write_down m a xs) (a - of_nat (length xs)) ys"
  by (induction xs arbitrary: m a) (simp_all add: algebra_simps del: fun_upd_apply)

text \<open>The 35 bytes \<open>do_switch\<close> pushes, and the addresses it and its caller's return address occupy.\<close>

definition saved_bytes :: "cpu \<Rightarrow> u8 list" where
  "saved_bytes c = map (regs c) [0..<32] @ [sreg c AND 0x7F, 0xAB, 0xAB]"

definition saved_area :: "cpu \<Rightarrow> addr set" where
  "saved_area c = set (map (\<lambda>k. cpu_sp c + 2 - of_nat k) [0..<37])"

definition aux_at :: "addr \<Rightarrow> cpu \<Rightarrow> addr" where
  "aux_at px c = word16 (ram c (px + 1)) (ram c px)"

lemma saved_bytes_length [simp]: "length (saved_bytes c) = 35"
  by (simp add: saved_bytes_def)

lemma not_saved:
  assumes "x \<notin> saved_area c"
  shows "write_down m (cpu_sp c) (saved_bytes c) x = m x"
proof (rule write_down_other)
  fix k assume "k < length (saved_bytes c)"
  then have "cpu_sp c + 2 - of_nat (k + 2) \<in> saved_area c" unfolding saved_area_def set_map by (intro imageI) (simp del: upt_rec_numeral)
  moreover have "cpu_sp c + 2 - of_nat (k + 2) = cpu_sp c - of_nat k" by simp
  ultimately show "x \<noteq> cpu_sp c - of_nat k" using assms by metis
qed

lemma push_tail:
  "run C [IN 0 0x3f, PUSH 0, LDI 16 0xAB, PUSH 16, PUSH 16] c =
     c\<lparr>regs := (regs c)(0 := sreg c, 16 := 0xAB), ram := write_down (ram c) (cpu_sp c) [sreg c, 0xAB, 0xAB],
       cpu_sp := cpu_sp c - 3\<rparr>"
  by (simp add: run_Cons run_Nil io_read_def del: fun_upd_apply) (simp add: fun_upd_same)

lemma store_sp:
  assumes "a = word16 (ram c (px + 1)) (ram c px)" and "d = run C [LDS 26 px, LDS 27 (px + 1), IN 0 0x3d,
      ST_X_inc 0, IN 0 0x3e, ST_X_inc 0] c"
  shows "cpu_sp d = cpu_sp c" and "ram d = (ram c)(a := ucast (cpu_sp c), a + 1 := ucast (drop_bit 8 (cpu_sp c)))"
  unfolding assms(2) by (simp_all add: run_Cons run_Nil io_read_def X_reg_def set_X_def assms(1) word16_bytes)

lemma switch_out_exact:
  assumes "a = aux_at px c" and "{px, px + 1} \<inter> saved_area c = {}" and "d = run C (switch_out_code px) c"
  shows "cpu_sp d = cpu_sp c - 35"
    and "ram d = (write_down (ram c) (cpu_sp c) (saved_bytes c))
      (a := ucast (cpu_sp c - 35), a + 1 := ucast (drop_bit 8 (cpu_sp c - 35)))"
proof -
  let ?c1 = "run C (map PUSH [0..<32]) (exec C CLI c)"
  let ?c2 = "run C [IN 0 0x3f, PUSH 0, LDI 16 0xAB, PUSH 16, PUSH 16] ?c1"
  have d: "d = run C [LDS 26 px, LDS 27 (px + 1), IN 0 0x3d, ST_X_inc 0, IN 0 0x3e, ST_X_inc 0] ?c2"
    unfolding assms(3) switch_out_code_def
    by (subst run_append [symmetric], subst run_append [symmetric]) (simp add: run_Cons run_append)
  have r: "ram ?c2 = write_down (ram c) (cpu_sp c) (saved_bytes c)"
    by (simp add: push_tail run_pushes saved_bytes_def write_down_append del: write_down.simps upt_rec_numeral)
  have p: "cpu_sp ?c2 = cpu_sp c - 35"
    by (simp add: push_tail run_pushes del: upt_rec_numeral)
  have a: "a = word16 (ram ?c2 (px + 1)) (ram ?c2 px)"
    unfolding r assms(1) aux_at_def using assms(2) by (simp add: not_saved)
  from store_sp [OF a d] show "cpu_sp d = cpu_sp c - 35"
    and "ram d = (write_down (ram c) (cpu_sp c) (saved_bytes c))
      (a := ucast (cpu_sp c - 35), a + 1 := ucast (drop_bit 8 (cpu_sp c - 35)))"
    unfolding r p by simp_all
qed

section \<open>Restoring a thread\<close>

lemma X_reg_simps:
  "X_reg (c\<lparr>cpu_sp := x\<rparr>) = X_reg c" "X_reg (c\<lparr>regs := r\<rparr>) = word16 (r 27) (r 26)"
  by (simp_all add: X_reg_def)

lemma load_sp:
  assumes "a = aux_at px e" and "p = word16 (ram e (a + 1)) (ram e a)"
    and "f = run C [LDS 26 px, LDS 27 (px + 1), LD_X_inc 0, OUT 0x3d 0, LD_X_inc 0, OUT 0x3e 0] e"
  shows "cpu_sp f = p" and "ram f = ram e"
proof -
  have "ram f = ram e \<and> cpu_sp f = word16 (ram e (aux_at px e + 1)) (ram e (aux_at px e))"
    unfolding assms(3)
    by (simp add: run_Cons run_Nil io_write_def X_reg_simps aux_at_def low_word16)
  then show "cpu_sp f = p" and "ram f = ram e" using assms(1,2) by simp_all
qed

lemma regs_RETI: "regs (exec C RETI c) = regs c"
  by simp

lemma switch_in_exact:
  assumes "a = aux_at px e" and "p = word16 (ram e (a + 1)) (ram e a)" and "f = run C (switch_in_code px) e"
  shows "cpu_sp f = p + 37" and "pc f = word16 (ram e (p + 36)) (ram e (p + 37))"
    and "sreg f = ram e (p + 1) OR 0x80" and "n < 32 \<Longrightarrow> regs f n = ram e (p + 35 - of_nat n)"
proof -
  define e1 where "e1 = run C [LDS 26 px, LDS 27 (px + 1), LD_X_inc 0, OUT 0x3d 0, LD_X_inc 0, OUT 0x3e 0] e"
  let ?e2 = "run C [POP 0, POP 16, POP 16, OUT 0x3f 0] e1"
  let ?e3 = "run C (map POP (rev [0..<32])) ?e2"
  have f: "f = exec C RETI ?e3"
    unfolding assms(3) switch_in_code_def e1_def
    by (simp add: run_Cons run_append run_Nil del: upt_rec_numeral)
  note l = load_sp [OF assms(1,2) e1_def]
  have e2: "cpu_sp ?e2 = p + 3" "ram ?e2 = ram e" "sreg ?e2 = ram e (p + 1)"
    by (simp_all add: run_Cons run_Nil io_write_def l)
  have e3: "cpu_sp ?e3 = p + 35" "ram ?e3 = ram e" "sreg ?e3 = ram e (p + 1)"
    by (simp_all add: run_pops_keeps e2 del: upt_rec_numeral)
  show "cpu_sp f = p + 37" and "pc f = word16 (ram e (p + 36)) (ram e (p + 37))"
    and "sreg f = ram e (p + 1) OR 0x80"
    unfolding f by (simp_all add: e3 algebra_simps)
  show "regs f n = ram e (p + 35 - of_nat n)" if "n < 32"
  proof -
    have nth: "rev [0..<32] ! (31 - n) = n" using that by (simp add: rev_nth del: upt_rec_numeral)
    have "regs ?e3 (rev [0..<32] ! (31 - n)) = ram ?e2 (cpu_sp ?e2 + 1 + of_nat (31 - n))"
      by (rule run_pops) (simp_all del: upt_rec_numeral)
    moreover have "cpu_sp ?e2 + 1 + of_nat (31 - n) = p + 35 - of_nat n"
      using that by (simp add: e2 of_nat_diff)
    ultimately have "regs ?e3 n = ram e (p + 35 - of_nat n)" unfolding nth e2(2) by (simp only:)
    moreover have "regs f n = regs ?e3 n" unfolding f regs_RETI ..
    ultimately show ?thesis by (simp only:)
  qed
qed

section \<open>The saved area\<close>

lemma saved_byte:
  assumes "{px, px + 1, aux_at px c, aux_at px c + 1} \<inter> saved_area c = {}" and "k < 35"
  shows "ram (run C (switch_out_code px) c) (cpu_sp c - of_nat k) = saved_bytes c ! k"
proof -
  have "cpu_sp c + 2 - of_nat (k + 2) \<in> saved_area c" unfolding saved_area_def set_map using assms(2) by (intro imageI) (simp del: upt_rec_numeral)
  moreover have "cpu_sp c + 2 - of_nat (k + 2) = cpu_sp c - of_nat k" by simp
  ultimately have "cpu_sp c - of_nat k \<notin> {aux_at px c, aux_at px c + 1}" using assms(1) by auto
  then show ?thesis
    using assms write_down_nth [of k "saved_bytes c"] switch_out_exact(2) [OF refl _ refl, of px c C] by simp
qed

lemma return_byte:
  assumes "{px, px + 1, aux_at px c, aux_at px c + 1} \<inter> saved_area c = {}" and "j = 1 \<or> j = 2"
  shows "ram (run C (switch_out_code px) c) (cpu_sp c + of_nat j) = ram c (cpu_sp c + of_nat j)"
proof -
  have "cpu_sp c + 2 - of_nat (2 - j) \<in> saved_area c" unfolding saved_area_def set_map by (intro imageI) (simp del: upt_rec_numeral)
  moreover have "cpu_sp c + 2 - of_nat (2 - j) = cpu_sp c + of_nat j" using assms(2) by auto
  ultimately have "cpu_sp c + of_nat j \<notin> {aux_at px c, aux_at px c + 1}" using assms(1) by auto
  then have "ram (run C (switch_out_code px) c) (cpu_sp c + of_nat j)
      = write_down (ram c) (cpu_sp c) (saved_bytes c) (cpu_sp c + of_nat j)"
    using assms(1) switch_out_exact(2) [OF refl _ refl, of px c C] by simp
  also have "\<dots> = ram c (cpu_sp c + of_nat j)"
  proof (rule write_down_other)
    fix k assume k: "k < length (saved_bytes c)"
    show "cpu_sp c + of_nat j \<noteq> cpu_sp c - of_nat k"
    proof
      assume "cpu_sp c + of_nat j = cpu_sp c - of_nat k"
      then have "(of_nat (j + k) :: u16) = of_nat 0" by (simp add: algebra_simps)
      with assms(2) k show False by (subst (asm) of_nat_eq_u16) auto
    qed
  qed
  finally show ?thesis .
qed

section \<open>Properties\<close>

text \<open>What a processor needs to resume a saved thread: the saved area as it was left, and the thread's
  stack pointer where \<open>pxCurrentTCB\<close> points.\<close>

definition resumes :: "addr \<Rightarrow> cpu \<Rightarrow> cpu \<Rightarrow> bool" where
  "resumes px d e \<longleftrightarrow> (\<forall>k < 37. ram e (cpu_sp d + 1 + of_nat k) = ram d (cpu_sp d + 1 + of_nat k))
     \<and> ram e (aux_at px e) = ucast (cpu_sp d) \<and> ram e (aux_at px e + 1) = ucast (drop_bit 8 (cpu_sp d))"

text \<open>C15: the context switch is faithful: when a thread is switched out and later, whatever ran in
  between, switched in again with its saved area intact, it continues behind its call of
  \<open>do_switch\<close> with all 32 registers and its stack pointer as they were; but its status register is
  0xAB, not the one that was pushed, so that interrupts are enabled.\<close>

theorem switch_round_trip:
  assumes "{px, px + 1, aux_at px c, aux_at px c + 1} \<inter> saved_area c = {}"
    and "resumes px (run C (switch_out_code px) c) e"
  shows "let f = run C' (switch_in_code px) e in
    (\<forall>n < 32. regs f n = regs c n) \<and> cpu_sp f = cpu_sp c + 2
    \<and> pc f = word16 (ram c (cpu_sp c + 1)) (ram c (cpu_sp c + 2)) \<and> sreg f = 0xAB"
proof -
  define d where "d = run C (switch_out_code px) c"
  define f where "f = run C' (switch_in_code px) e"
  have sp: "cpu_sp d = cpu_sp c - 35" using switch_out_exact(1) [OF refl _ d_def] assms(1) by auto
  note r = assms(2) [unfolded resumes_def d_def [symmetric] sp]
  have p: "cpu_sp c - 35 = word16 (ram e (aux_at px e + 1)) (ram e (aux_at px e))"
    using r by (simp add: word16_bytes)
  have e: "ram e x = ram d x" if "x = cpu_sp c - 35 + 1 + of_nat k" and "k < 37" for x k
    using r that by blast
  have byte: "ram e (cpu_sp c - of_nat k) = saved_bytes c ! k" if "k < 35" for k
    using e [of _ "34 - k"] saved_byte [OF assms(1) that, of C] that by (simp add: d_def of_nat_diff)
  have ret: "ram e (cpu_sp c + 1) = ram c (cpu_sp c + 1)" "ram e (cpu_sp c + 2) = ram c (cpu_sp c + 2)"
    using e [of _ 35] e [of _ 36] return_byte [OF assms(1), of 1 C] return_byte [OF assms(1), of 2 C]
    by (simp_all add: d_def algebra_simps)
  note f = switch_in_exact [OF refl p f_def]
  have "regs f n = regs c n" if "n < 32" for n
    using f(4) [OF that] byte [of n] that
    by (simp add: saved_bytes_def nth_append algebra_simps del: upt_rec_numeral)
  moreover have "sreg f = 0xAB"
    using f(3) byte [of 34] by (simp add: saved_bytes_def nth_append algebra_simps del: upt_rec_numeral)
  ultimately show ?thesis using f(1,2) ret by (simp add: f_def Let_def algebra_simps)
qed

definition demo_cpu :: cpu where
  "demo_cpu = \<lparr>regs = (\<lambda>n. of_nat n + 1), cpu_sp = 0x800, sreg = 0x81, pc = 0,
     ram = (\<lambda>_. 0)(0x100 := 0x02, 0x101 := 0x01, 0x801 := 0x12, 0x802 := 0x34)\<rparr>"

lemma demo_cpu_apart: "{0x100, 0x100 + 1, aux_at 0x100 demo_cpu, aux_at 0x100 demo_cpu + 1} \<inter> saved_area demo_cpu = {}"
  by code_simp

lemma demo_cpu_resumes: "resumes 0x100 (run id (switch_out_code 0x100) demo_cpu) (run id (switch_out_code 0x100) demo_cpu)"
proof -
  define d where "d = run id (switch_out_code 0x100) demo_cpu"
  have a: "aux_at 0x100 demo_cpu = 0x102" by code_simp
  have apart: "{0x100, 0x100 + 1} \<inter> saved_area demo_cpu = {}" using demo_cpu_apart by auto
  from switch_out_exact [OF refl apart d_def] have p: "cpu_sp d = cpu_sp demo_cpu - 35"
    and o: "ram d = (write_down (ram demo_cpu) (cpu_sp demo_cpu) (saved_bytes demo_cpu))
      (0x102 := ucast (cpu_sp d), 0x103 := ucast (drop_bit 8 (cpu_sp d)))"
    by (simp_all add: a)
  have "ram d 0x100 = ram demo_cpu 0x100" "ram d 0x101 = ram demo_cpu 0x101"
    using not_saved [of "0x100" demo_cpu "ram demo_cpu"] not_saved [of "0x101" demo_cpu "ram demo_cpu"] apart
    by (simp_all add: o)
  then have "aux_at 0x100 d = aux_at 0x100 demo_cpu" by (simp add: aux_at_def)
  then show ?thesis unfolding d_def [symmetric] a by (simp add: resumes_def o a)
qed

theorem switch_round_trip_witness:
  "regs (run id (switch_in_code 0x100) (run id (switch_out_code 0x100) demo_cpu)) 16 = 17
   \<and> pc (run id (switch_in_code 0x100) (run id (switch_out_code 0x100) demo_cpu)) = 0x1234"
  using switch_round_trip [OF demo_cpu_apart demo_cpu_resumes, of id]
  by (auto simp: Let_def demo_cpu_def word16_def)

text \<open>C33: the C-level model of the switch counts bytes the way the instructions do: when the processor
  enters \<open>do_switch\<close> with the stack pointer of the kernel state less its return address, and the
  call of \<open>change_high\<close> leaves in \<open>pxCurrentTCB_aux\<close> what the C model says, then it leaves
  \<open>do_switch\<close> with the stack pointer of the C model's result, and the stack pointer it saved is the
  one the C model stores for the thread switched out.\<close>

theorem switch_refines:
  assumes "deref (current_thread s) s = Some t" and "do_switch s = Some s'"
    and "cpu_sp c + 2 = hw_sp s" and "{px, px + 1} \<inter> saved_area c = {}"
    and "e = C (run C (switch_out_code px) c)"
    and "ram e (aux_at px e) = pxCurrentTCB_aux0 s'" and "ram e (aux_at px e + 1) = pxCurrentTCB_aux1 s'"
  shows "cpu_sp (run C (do_switch_code px) c) = hw_sp s'
    \<and> map_option sp (threads s' (current_thread s)) = Some (cpu_sp (run C (switch_out_code px) c))"
proof -
  have out: "cpu_sp (run C (switch_out_code px) c) = cpu_sp c - 35"
    using switch_out_exact(1) [OF refl assms(4) refl] .
  have "run C (do_switch_code px) c = run C (switch_in_code px) e"
    by (simp add: do_switch_code_def run_append run_Cons assms(5))
  moreover have "cpu_sp (run C (switch_in_code px) e) = word16 (pxCurrentTCB_aux1 s') (pxCurrentTCB_aux0 s') + 37"
    using switch_in_exact(1) [OF refl refl refl, of C px e] assms(6,7) by simp
  moreover have "deref (next_thread s) s \<noteq> None"
  proof
    assume n: "deref (next_thread s) s = None"
    then have "next_thread s \<noteq> current_thread s" using assms(1) by auto
    with n assms(1,2) show False
      by (auto simp: do_switch_def change_high_def upd_thread_def deref_def Let_def split: if_splits)
  qed
  then obtain u where u: "deref (next_thread s) s = Some u" by auto
  have s': "s' = switched s (next_thread s) t u"
    using do_switch_exact [OF assms(1) u] assms(2) by simp
  have "word16 (pxCurrentTCB_aux1 s') (pxCurrentTCB_aux0 s') + 37 = hw_sp s'"
    by (simp add: s' switched_def Let_def word16_bytes switch_frame_def)
  moreover have "map_option sp (threads s' (current_thread s)) = Some (cpu_sp c - 35)"
    using assms(3) [symmetric] by (simp add: s' switched_def Let_def switch_frame_def)
  ultimately show ?thesis by (simp add: out)
qed

text \<open>The main thread is about to hand over to thread 0x200, whose stack pointer is 0x1000.\<close>

definition demo_handover :: kernel where
  "demo_handover = demo\<lparr>next_thread := 0x200\<rparr>"

definition demo_entering :: cpu where
  "demo_entering = demo_cpu\<lparr>cpu_sp := 0x7FE\<rparr>"

definition demo_change_high :: "cpu \<Rightarrow> cpu" where
  "demo_change_high c = c\<lparr>ram := (ram c)(0x102 := 0x00, 0x103 := 0x10)\<rparr>"

theorem switch_refines_witness:
  "cpu_sp (run demo_change_high (do_switch_code 0x100) demo_entering) = 0x1025"
proof -
  let ?t = "blank_thread\<lparr>runq_next := 0x100, priority := 10, sp := 0x1000\<rparr>"
  let ?s' = "switched demo_handover 0x200 blank_thread ?t"
  have d: "deref (current_thread demo_handover) demo_handover = Some blank_thread"
    and n: "deref 0x200 demo_handover = Some ?t"
    by (simp_all add: deref_def demo_handover_def demo_def demo_threads_def)
  have sw: "do_switch demo_handover = Some ?s'"
    using do_switch_exact [OF d n] by (simp add: demo_handover_def)
  have f: "current_thread demo_handover = 0x100" by (simp add: demo_handover_def demo_def)
  have aux: "pxCurrentTCB_aux0 ?s' = 0" "pxCurrentTCB_aux1 ?s' = 0x10" "hw_sp ?s' = 0x1025"
    by (simp_all add: switched_def f Let_def switch_frame_def drop_bit_eq_div)
  have "cpu_sp (run demo_change_high (do_switch_code 0x100) demo_entering) = hw_sp ?s'
    \<and> map_option sp (threads ?s' (current_thread demo_handover))
      = Some (cpu_sp (run demo_change_high (switch_out_code 0x100) demo_entering))"
  proof (rule switch_refines [OF d sw _ _ refl])
    show "cpu_sp demo_entering + 2 = hw_sp demo_handover"
      by (simp add: demo_entering_def demo_handover_def demo_def)
    show "{0x100, 0x100 + 1} \<inter> saved_area demo_entering = {}" by code_simp
  next
    let ?e = "demo_change_high (run demo_change_high (switch_out_code 0x100) demo_entering)"
    have "ram ?e (aux_at 0x100 ?e) = 0 \<and> ram ?e (aux_at 0x100 ?e + 1) = 0x10" by code_simp
    then show "ram ?e (aux_at 0x100 ?e) = pxCurrentTCB_aux0 ?s'"
      and "ram ?e (aux_at 0x100 ?e + 1) = pxCurrentTCB_aux1 ?s'" by (simp_all add: aux)
  qed
  then show ?thesis by (simp add: aux)
qed

text \<open>C34: a new thread does not start at its entry point: \<open>thread_create\<close> leaves six bytes on the new
  stack, the switch pops 37, so the program counter it returns to is read from two bytes above the
  thread's own stack, whatever they held, and does not depend on the entry point at all.\<close>

theorem fresh_thread_misses_entry:
  assumes "runq_wf s ts" and "malloc s = (Some c, s1)" and "stack_source stk s1 stk' s2"
    and "thread_create H img entry stk stk_size pri arg s = Some (th, s')" and "threads s' th = Some t"
    and "\<And>k. 0 < k \<Longrightarrow> k \<le> 37 \<Longrightarrow> ram e (sp t + of_nat k) = mem s' (sp t + of_nat k)"
    and "word16 (ram e (aux_at px e + 1)) (ram e (aux_at px e)) = sp t"
  shows "pc (run C (switch_in_code px) e) = word16 (mem s (stk' + stk_size + 29)) (mem s (stk' + stk_size + 30))"
proof -
  note x = thread_create_exact [OF assms(2,3) runq_wf_list_nonnull [OF assms(1)], of H img entry stk_size pri arg]
  have sp: "sp t = stk' + stk_size - 7" and m: "mem s' = entry_frame (stk' + stk_size - 1) entry (mem s)"
    using x assms(4,5) by (auto simp: fresh_thread_def)
  have "stk' + stk_size + j \<noteq> stk' + stk_size - 1 - k" if "j = 29 \<or> j = 30" "k \<in> {0, 1, 2, 3, 4, 5}" for j k :: u16
  proof
    assume "stk' + stk_size + j = stk' + stk_size - 1 - k"
    then have "j + k + 1 = 0" by (simp add: algebra_simps)
    with that show False by auto
  qed
  from this [of 29 0] this [of 29 1] this [of 29 2] this [of 29 3] this [of 29 4] this [of 29 5]
    this [of 30 0] this [of 30 1] this [of 30 2] this [of 30 3] this [of 30 4] this [of 30 5]
  have f: "mem s' (stk' + stk_size + 29) = mem s (stk' + stk_size + 29)"
    "mem s' (stk' + stk_size + 30) = mem s (stk' + stk_size + 30)"
    unfolding m entry_frame_def by (simp_all add: diff_diff_eq)
  have "pc (run C (switch_in_code px) e) = word16 (ram e (sp t + 36)) (ram e (sp t + 37))"
    by (rule switch_in_exact(2) [OF refl assms(7) [symmetric] refl])
  also have "ram e (sp t + 36) = mem s (stk' + stk_size + 29)"
    using assms(6) [of 36] f(1) by (simp add: sp algebra_simps)
  also have "ram e (sp t + 37) = mem s (stk' + stk_size + 30)"
    using assms(6) [of 37] f(2) by (simp add: sp algebra_simps)
  finally show ?thesis .
qed

theorem fresh_thread_misses_entry_witness:
  "\<exists>s' t. thread_create no_handler demo_image 0x1234 0 200 7 0 demo_rich = Some (0x500, s')
     \<and> threads s' 0x500 = Some t
     \<and> pc (run id (switch_in_code 0x100) (demo_cpu\<lparr>ram := (mem s')(0x101 := 0x20, 0x2000 := ucast (sp t),
          0x2001 := ucast (drop_bit 8 (sp t)))\<rparr>)) = 0"
proof -
  obtain s' where e: "thread_create no_handler demo_image 0x1234 0 200 7 0 demo_rich = Some (0x500, s')"
    and s': "s' = demo_rich\<lparr>answers := [], blocks := {0x600, 0x500, 0x100, 0x200, 0x300, 0x400},
      mem := entry_frame (0x600 + 200 - 1) 0x1234 (mem demo_rich), threads := (threads demo_rich)(0x500 \<mapsto>
      (fresh_thread (as_thread (demo_chunk 0x500)) 0x600 200 7 0)\<lparr>runq_next := thread_list demo_rich\<rparr>),
      thread_list := 0x500\<rparr>"
    using thread_create_exact [OF demo_rich_malloc demo_rich_stack demo_rich_list,
      of no_handler demo_image "0x1234" 200 7 0] by (simp add: demo_chunk_def)
  let ?t = "(fresh_thread (as_thread (demo_chunk 0x500)) 0x600 200 7 0)\<lparr>runq_next := thread_list demo_rich\<rparr>"
  let ?e = "demo_cpu\<lparr>ram := (mem s')(0x101 := 0x20, 0x2000 := ucast (sp ?t), 0x2001 := ucast (drop_bit 8 (sp ?t)))\<rparr>"
  have t: "threads s' 0x500 = Some ?t" by (simp add: s')
  have sp: "sp ?t = 0x6C1" by (simp add: fresh_thread_def)
  have a: "aux_at 0x100 ?e = 0x2000"
    by (simp add: aux_at_def s' entry_frame_def demo_rich_def demo_def word16_def)
  have k: "ram ?e (sp ?t + of_nat k) = mem s' (sp ?t + of_nat k)" if "0 < k" "k \<le> 37" for k
  proof -
    have "unat (0x6C1 + of_nat k :: u16) = 0x6C1 + k" using that by (simp add: unat_word_ariths unat_of_nat)
    then have "0x6C1 + of_nat k \<noteq> (x :: u16)" if "unat x < 0x6C1 \<or> 0x700 < unat x" for x
      using that \<open>k \<le> 37\<close> by auto
    from this [of "0x101"] this [of "0x2000"] this [of "0x2001"] show ?thesis
      unfolding sp by (simp add: fun_upd_other del: fun_upd_apply)
  qed
  have "ram ?e (0x2000 + 1) = ucast (drop_bit 8 (sp ?t))" and "ram ?e 0x2000 = ucast (sp ?t)" by simp_all
  then have x: "word16 (ram ?e (aux_at 0x100 ?e + 1)) (ram ?e (aux_at 0x100 ?e)) = sp ?t"
    unfolding a by (simp only: word16_bytes)
  have "pc (run id (switch_in_code 0x100) ?e) = word16 (mem demo_rich (0x600 + 200 + 29)) (mem demo_rich (0x600 + 200 + 30))"
    by (rule fresh_thread_misses_entry [OF demo_rich_wf(1) demo_rich_malloc demo_rich_stack e t k x])
  also have "\<dots> = 0" by (simp add: demo_rich_def demo_def word16_def)
  finally show ?thesis using e t by blast
qed

end
