(* ===== verification/RT_Memory.thy ===== *)
theory RT_Memory
  imports RT_Example
begin

text \<open>
  Reading and writing memory at a position given as a number. A pointer of the AVR has 16 bits, so
  of a 32-bit position only the lower half counts; values of several bytes lie with their lowest byte
  first. A float is its 32 bits.
\<close>

type_synonym memory = "addr \<Rightarrow> u8"

section \<open>Bytes in memory\<close>

definition load16 :: "addr \<Rightarrow> memory \<Rightarrow> u16" where
  "load16 a m = push_bit 8 (ucast (m (a + 1))) OR ucast (m a)"

definition store16 :: "addr \<Rightarrow> u16 \<Rightarrow> memory \<Rightarrow> memory" where
  "store16 a v m = m(a := ucast v, a + 1 := ucast (drop_bit 8 v))"

definition load32 :: "addr \<Rightarrow> memory \<Rightarrow> u32" where
  "load32 a m = push_bit 16 (ucast (load16 (a + 2) m)) OR ucast (load16 a m)"

definition store32 :: "addr \<Rightarrow> u32 \<Rightarrow> memory \<Rightarrow> memory" where
  "store32 a v m = store16 (a + 2) (ucast (drop_bit 16 v)) (store16 a (ucast v) m)"

section \<open>The operations\<close>

definition thread_read_byte :: "u32 \<Rightarrow> kernel \<Rightarrow> u8" where
  "thread_read_byte position s = mem s (ucast position)"

definition thread_read_float :: "u32 \<Rightarrow> kernel \<Rightarrow> u32" where
  "thread_read_float position s = load32 (ucast position) (mem s)"

definition thread_read_uint16_t :: "u32 \<Rightarrow> kernel \<Rightarrow> u16" where
  "thread_read_uint16_t position s = load16 (ucast position) (mem s)"

definition thread_read_uint32_t :: "u32 \<Rightarrow> kernel \<Rightarrow> u32" where
  "thread_read_uint32_t position s = load32 (ucast position) (mem s)"

definition thread_write_byte :: "u32 \<Rightarrow> u8 \<Rightarrow> kernel \<Rightarrow> kernel" where
  "thread_write_byte position data s = s\<lparr>mem := (mem s)(ucast position := data)\<rparr>"

definition thread_write_float :: "u32 \<Rightarrow> u32 \<Rightarrow> kernel \<Rightarrow> kernel" where
  "thread_write_float position data s = s\<lparr>mem := store32 (ucast position) data (mem s)\<rparr>"

definition thread_write_uint16_t :: "u32 \<Rightarrow> u16 \<Rightarrow> kernel \<Rightarrow> kernel" where
  "thread_write_uint16_t position data s = s\<lparr>mem := store16 (ucast position) data (mem s)\<rparr>"

definition thread_write_uint32_t :: "u32 \<Rightarrow> u32 \<Rightarrow> kernel \<Rightarrow> kernel" where
  "thread_write_uint32_t position data s = s\<lparr>mem := store32 (ucast position) data (mem s)\<rparr>"

section \<open>Cells\<close>

text \<open>The bytes of a cell of width \<open>w\<close> at a position.\<close>

definition cell_bytes :: "nat \<Rightarrow> u32 \<Rightarrow> addr set" where
  "cell_bytes w p = (\<lambda>i. ucast p + of_nat i) ` {..<w}"

text \<open>The contract of a kind of cell: what is written can be read back, and cells that share no byte
  do not disturb each other.\<close>

locale cells =
  fixes rd :: "u32 \<Rightarrow> kernel \<Rightarrow> 'v" and wr :: "u32 \<Rightarrow> 'v \<Rightarrow> kernel \<Rightarrow> kernel" and w :: nat
  assumes read_own: "rd p (wr p v s) = v"
    and read_cong: "(\<And>a. a \<in> cell_bytes w p \<Longrightarrow> mem s' a = mem s a) \<Longrightarrow> rd p s' = rd p s"
    and write_frame: "a \<notin> cell_bytes w p \<Longrightarrow> mem (wr p v s) a = mem s a"
begin

lemma read_other: "cell_bytes w p \<inter> cell_bytes w q = {} \<Longrightarrow> rd q (wr p v s) = rd q s"
  by (rule read_cong) (auto intro: write_frame)

text \<open>A table of cells: after any writes to cells that share no bytes, each cell that was written holds
  the value last written to it, and the others what they held.\<close>

lemma read_all:
  assumes "\<And>p. p \<in> fst ` set ps \<Longrightarrow> p \<noteq> q \<Longrightarrow> cell_bytes w p \<inter> cell_bytes w q = {}"
  shows "rd q (fold (\<lambda>(p, v). wr p v) ps s) = (case map_of (rev ps) q of None \<Rightarrow> rd q s | Some v \<Rightarrow> v)"
  using assms
proof (induction ps rule: rev_induct)
  case (snoc x ps)
  obtain p v where x: "x = (p, v)" by (cases x)
  have s: "fold (\<lambda>(p, v). wr p v) (ps @ [x]) s = wr p v (fold (\<lambda>(p, v). wr p v) ps s)" by (simp add: x)
  show ?case
  proof (cases "p = q")
    case True
    then show ?thesis unfolding s by (simp add: x read_own)
  next
    case False
    with snoc.prems [of p] have "cell_bytes w p \<inter> cell_bytes w q = {}" by (simp add: x)
    then have "rd q (fold (\<lambda>(p, v). wr p v) (ps @ [x]) s) = rd q (fold (\<lambda>(p, v). wr p v) ps s)"
      unfolding s by (rule read_other)
    also have "\<dots> = (case map_of (rev ps) q of None \<Rightarrow> rd q s | Some v \<Rightarrow> v)"
      by (rule snoc.IH) (use snoc.prems in auto)
    finally show ?thesis using False by (simp add: x)
  qed
qed simp

end

lemma load_store16: "load16 a (store16 a v m) = v"
proof -
  have "push_bit 8 (ucast (ucast (drop_bit 8 v) :: u8)) OR ucast (ucast v :: u8) = v"
    by (rule bit_word_eqI) (auto simp: bit_simps)
  then show ?thesis by (simp add: load16_def store16_def)
qed

lemma load16_cong: "m' a = m a \<Longrightarrow> m' (a + 1) = m (a + 1) \<Longrightarrow> load16 a m' = load16 a m"
  by (simp add: load16_def)

lemma load_store32: "load32 a (store32 a v m) = v"
proof -
  have "store32 a v m a = store16 a (ucast v) m a" and "store32 a v m (a + 1) = store16 a (ucast v) m (a + 1)"
    by (simp_all add: store32_def store16_def)
  from load16_cong [of "store32 a v m", OF this] have "load16 a (store32 a v m) = ucast v"
    by (simp only: load_store16)
  moreover have "load16 (a + 2) (store32 a v m) = ucast (drop_bit 16 v)"
    by (simp add: store32_def load_store16)
  moreover have "push_bit 16 (ucast (ucast (drop_bit 16 v) :: u16)) OR ucast (ucast v :: u16) = v"
    by (rule bit_word_eqI) (auto simp: bit_simps)
  ultimately show ?thesis by (simp add: load32_def)
qed

lemma cell_bytes_in: "i < w \<Longrightarrow> ucast p + of_nat i \<in> cell_bytes w p"
  by (simp add: cell_bytes_def)

lemma cell_bytes_2: "cell_bytes 2 p = {ucast p, ucast p + 1}"
  by (auto simp: cell_bytes_def lessThan_Suc numeral_2_eq_2)

lemma cell_bytes_4: "cell_bytes 4 p = {ucast p, ucast p + 1, ucast p + 2, ucast p + 3}"
  by (auto simp: cell_bytes_def lessThan_Suc numeral_eq_Suc)

lemma load32_cong:
  assumes "\<And>i. i \<in> {a, a + 1, a + 2, a + 3} \<Longrightarrow> m' i = m i"
  shows "load32 a m' = load32 a m"
proof -
  have "load16 (a + 2) m' = load16 (a + 2) m" by (rule load16_cong) (use assms in simp_all)
  moreover have "load16 a m' = load16 a m" by (rule load16_cong) (use assms in simp_all)
  ultimately show ?thesis by (simp add: load32_def)
qed

lemma store32_frame: "x \<notin> {a, a + 1, a + 2, a + 3} \<Longrightarrow> store32 a v m x = m x"
  by (simp add: store32_def store16_def add.assoc)

lemma store16_frame: "x \<notin> {a, a + 1} \<Longrightarrow> store16 a v m x = m x"
  by (simp add: store16_def)

interpretation bytes: cells thread_read_byte thread_write_byte 1
  by unfold_locales (auto simp: thread_read_byte_def thread_write_byte_def cell_bytes_def lessThan_Suc)

interpretation words: cells thread_read_uint16_t thread_write_uint16_t 2
  unfolding thread_read_uint16_t_def thread_write_uint16_t_def
  by unfold_locales (auto simp: cell_bytes_2 load_store16 store16_frame intro: load16_cong)

lemma cells_32:
  assumes "\<And>p s. rd p s = load32 (ucast p) (mem s)"
    and "\<And>p v s. wr p v s = s\<lparr>mem := store32 (ucast p) v (mem s)\<rparr>"
  shows "cells rd wr 4"
proof
  show "rd p (wr p v s) = v" for p v s by (simp add: assms load_store32)
  show "rd p s' = rd p s" if "\<And>a. a \<in> cell_bytes 4 p \<Longrightarrow> mem s' a = mem s a" for p s s'
    unfolding assms by (rule load32_cong) (rule that, simp add: cell_bytes_4)
  show "mem (wr p v s) a = mem s a" if "a \<notin> cell_bytes 4 p" for a p v s
    using that unfolding assms cell_bytes_4 by (simp add: store32_frame)
qed

interpretation longs: cells thread_read_uint32_t thread_write_uint32_t 4
  by (rule cells_32) (simp_all add: thread_read_uint32_t_def thread_write_uint32_t_def)

interpretation floats: cells thread_read_float thread_write_float 4
  by (rule cells_32) (simp_all add: thread_read_float_def thread_write_float_def)

section \<open>Properties\<close>

text \<open>What is written at a position can be read back from it, for bytes, 16-bit and 32-bit numbers
  and floats.\<close>

theorem memory_round_trip:
  "thread_read_byte p (thread_write_byte p b s) = b
   \<and> thread_read_uint16_t p (thread_write_uint16_t p h s) = h
   \<and> thread_read_uint32_t p (thread_write_uint32_t p x s) = x
   \<and> thread_read_float p (thread_write_float p f s) = f"
  by (intro conjI bytes.read_own words.read_own longs.read_own floats.read_own)

text \<open>A table of 32-bit cells at positions that share no bytes works like a map: after any sequence
  of writes each cell holds what was last written to it, and the cells not written keep their
  contents.\<close>

theorem memory_table:
  assumes "\<And>p. p \<in> fst ` set ps \<Longrightarrow> p \<noteq> q \<Longrightarrow> cell_bytes 4 p \<inter> cell_bytes 4 q = {}"
  shows "thread_read_uint32_t q (fold (\<lambda>(p, v). thread_write_uint32_t p v) ps s)
    = (case map_of (rev ps) q of None \<Rightarrow> thread_read_uint32_t q s | Some v \<Rightarrow> v)"
  using assms by (rule longs.read_all)

theorem memory_table_witness:
  "thread_read_uint32_t 0x204 (fold (\<lambda>(p, v). thread_write_uint32_t p v)
     [(0x204, 7), (0x200, 70000), (0x204, 9), (0x208, 11)] demo) = 9"
proof -
  let ?ps = "[(0x204, 7), (0x200, 70000), (0x204, 9), (0x208, 11)] :: (u32 \<times> u32) list"
  have "cell_bytes 4 p \<inter> cell_bytes 4 0x204 = {}" if "p \<in> fst ` set ?ps" "p \<noteq> 0x204" for p
    using that by (auto simp: cell_bytes_4)
  from memory_table [of ?ps "0x204" demo, OF this] show ?thesis by simp
qed

text \<open>Only the lower 16 bits of a position count: positions 65536 apart are the same cell, so a
  write to one changes the other.\<close>

theorem memory_aliases:
  "thread_read_byte (p + 0x10000) s = thread_read_byte p s
   \<and> thread_read_byte p (thread_write_byte (p + 0x10000) b s) = b
   \<and> thread_read_uint32_t p (thread_write_uint32_t (p + 0x10000) x s) = x"
proof -
  have e: "(ucast (p + 0x10000) :: addr) = ucast p"
  proof -
    have "(0x10000 :: u32) = push_bit 16 1" by simp
    have "uint (p + 0x10000) mod 2 ^ 16 = uint p mod 2 ^ 16"
      by (simp add: uint_word_ariths mod_mod_cancel)
    then show ?thesis by (simp add: word_uint_eq_iff unsigned_ucast_eq take_bit_eq_mod)
  qed
  show ?thesis
    by (simp add: thread_read_byte_def thread_write_byte_def thread_read_uint32_t_def
        thread_write_uint32_t_def e load_store32)
qed

end
