(* ===== verification/V2_Kernel.thy ===== *)
theory V2_Kernel
  imports RT_Semaphore
begin

text \<open>
  The kernel of context_switch_2_0.ino, the sketch the library grew out of: one file, threads in a
  doubly linked run queue, no queues, semaphores or signals. This theory holds its data, clock,
  scheduler and timer interrupt; the names carry the suffix \<open>2\<close>. The sketch context_switch_1_0.ino
  has the same text from its third line on.
\<close>

section \<open>Data\<close>

definition RTARDUINO_NORM_PRIO2 :: u8 where [rt_consts]: "RTARDUINO_NORM_PRIO2 = 2"
definition RTARDUINO_OVERRUN_PRIO2 :: u8 where [rt_consts]: "RTARDUINO_OVERRUN_PRIO2 = 3"
definition RTARDUINO_BLOCKED2 :: u8 where [rt_consts]: "RTARDUINO_BLOCKED2 = 0x02"
definition RTARDUINO_ACTIVE2 :: u8 where [rt_consts]: "RTARDUINO_ACTIVE2 = 0x01"
definition RTARDUINO_SLEPT2 :: u8 where [rt_consts]: "RTARDUINO_SLEPT2 = 0x00"
definition RTARDUINO_COST_OVERUN2 :: s16 where [rt_consts]: "RTARDUINO_COST_OVERUN2 = 0x03"
definition RTARDUINO_DEADLINE_MISS2 :: s16 where [rt_consts]: "RTARDUINO_DEADLINE_MISS2 = 0x01"
definition RTARDUINO_PERIOD_MISS2 :: s16 where [rt_consts]: "RTARDUINO_PERIOD_MISS2 = 0x00"

definition us_per_tick2 :: u32 where "us_per_tick2 = 128"
definition yield_max2 :: u32 where "yield_max2 = 1"

record thread2 =
  runq_prev2 :: addr
  runq_next2 :: addr
  sp2 :: addr
  stack2 :: addr
  priority2 :: u8
  block_pattern2 :: u8
  flags2 :: u8
  stack_size2 :: u16
  ticks_to_wait2 :: u32
  carry_ticks_to_wait2 :: u8
  min_period_ticks2 :: u32
  max_deadline_ticks2 :: u32
  max_cost_ticks2 :: u32
  current_cost_ticks2 :: u32
  offset_ticks2 :: u32
  executor2 :: addr
  error_handler2 :: addr
  parm2 :: addr

record chunk2 =
  ptr2 :: addr
  as_thread2 :: thread2

record kernel2 =
  tick_counter_us2 :: u32
  tick_counter_last_cost_us2 :: u32
  tick_counter_previous_us2 :: u32
  carry_tick_counter2 :: u8
  yield2 :: u32
  thread_list2 :: addr
  current_thread2 :: addr
  thread_main_inf2 :: addr
  next_thread2 :: addr
  pxCurrentTCB_aux2_0 :: u8
  pxCurrentTCB_aux2_1 :: u8
  hw_sp2 :: u16
  threads2 :: "addr \<rightharpoonup> thread2"
  mem2 :: "addr \<Rightarrow> u8"
  blocks2 :: "addr set"
  answers2 :: "chunk2 list"

definition deref2 :: "addr \<Rightarrow> kernel2 \<Rightarrow> thread2 option" where
  "deref2 a s = (if a = NULL then None else threads2 s a)"

definition upd_thread2 :: "addr \<Rightarrow> (thread2 \<Rightarrow> thread2) \<Rightarrow> kernel2 \<Rightarrow> kernel2 option" where
  "upd_thread2 a f s = do {
     t \<leftarrow> deref2 a s;
     Some (s\<lparr>threads2 := (threads2 s)(a \<mapsto> f t)\<rparr>) }"

section \<open>Clock\<close>

definition get_current_cost_ticks2 :: "kernel2 \<Rightarrow> (u32 \<times> kernel2) option" where
  "get_current_cost_ticks2 s = do {
     let aux_cost_add = tick_counter_us2 s - tick_counter_last_cost_us2 s;
     s \<leftarrow> upd_thread2 (current_thread2 s) (\<lambda>t. t\<lparr>current_cost_ticks2 := current_cost_ticks2 t + aux_cost_add\<rparr>) s;
     let s = s\<lparr>tick_counter_last_cost_us2 := tick_counter_last_cost_us2 s + aux_cost_add\<rparr>;
     t \<leftarrow> deref2 (current_thread2 s) s;
     Some (current_cost_ticks2 t, s) }"

definition get_current_cost2 :: "kernel2 \<Rightarrow> (u32 \<times> kernel2) option" where
  "get_current_cost2 s = do {
     (c, s) \<leftarrow> get_current_cost_ticks2 s;
     Some (c * us_per_tick2, s) }"

definition get_current_priority2 :: "kernel2 \<Rightarrow> u8 option" where
  "get_current_priority2 s = map_option priority2 (deref2 (current_thread2 s) s)"

section \<open>Scheduler\<close>

definition change_high2 :: "kernel2 \<Rightarrow> kernel2 option" where
  "change_high2 s = do {
     let aux = push_bit 8 (ucast (pxCurrentTCB_aux2_1 s)) OR ucast (pxCurrentTCB_aux2_0 s);
     s \<leftarrow> upd_thread2 (current_thread2 s) (\<lambda>t. t\<lparr>sp2 := aux\<rparr>) s;
     s \<leftarrow> (if current_thread2 s \<noteq> next_thread2 s
           then do {
             n \<leftarrow> deref2 (next_thread2 s) s;
             Some (s\<lparr>pxCurrentTCB_aux2_0 := ucast (sp2 n AND 0xff),
                     pxCurrentTCB_aux2_1 := ucast (drop_bit 8 (sp2 n) AND 0xff)\<rparr>) }
           else Some s);
     Some (s\<lparr>current_thread2 := next_thread2 s\<rparr>) }"

text \<open>
  The return address, 32 registers and the status register; the instructions are in the theory of
  the switch.
\<close>

definition switch_frame2 :: u16 where
  "switch_frame2 = 35"

definition do_switch2 :: "kernel2 \<Rightarrow> kernel2 option" where
  "do_switch2 s = do {
     let low = hw_sp2 s - switch_frame2;
     s \<leftarrow> change_high2 (s\<lparr>pxCurrentTCB_aux2_0 := ucast low, pxCurrentTCB_aux2_1 := ucast (drop_bit 8 low)\<rparr>);
     let new = push_bit 8 (ucast (pxCurrentTCB_aux2_1 s)) OR ucast (pxCurrentTCB_aux2_0 s);
     Some (s\<lparr>hw_sp2 := new + switch_frame2\<rparr>) }"

definition thread_start2 :: "addr \<Rightarrow> kernel2 \<Rightarrow> kernel2 option" where
  "thread_start2 th s = do_switch2 (s\<lparr>next_thread2 := th\<rparr>)"

definition wake_check2 :: "u32 \<Rightarrow> u8 \<Rightarrow> thread2 \<Rightarrow> thread2" where
  "wake_check2 now carry t =
     (if flags2 t = RTARDUINO_SLEPT2 then
        let t = (if carry_ticks_to_wait2 t = 1
                 then (if carry = 1 then t\<lparr>carry_ticks_to_wait2 := 0\<rparr> else t) else t)
        in if carry_ticks_to_wait2 t = 0 \<and> ticks_to_wait2 t < now
           then t\<lparr>flags2 := RTARDUINO_ACTIVE2\<rparr> else t
      else t)"

partial_function (option) yield_loop2 :: "addr \<Rightarrow> addr \<Rightarrow> kernel2 \<Rightarrow> (addr \<times> kernel2) option" where
  "yield_loop2 th th_candidate s = do {
     t \<leftarrow> deref2 th s;
     let th = (if runq_next2 t = NULL then thread_list2 s else runq_next2 t);
     let s = s\<lparr>next_thread2 := th\<rparr>;
     s \<leftarrow> upd_thread2 th (wake_check2 (tick_counter_us2 s) (carry_tick_counter2 s)) s;
     t \<leftarrow> deref2 th s;
     th_candidate \<leftarrow>
       (if flags2 t = RTARDUINO_ACTIVE2
        then do {
          c \<leftarrow> deref2 th_candidate s;
          Some (if priority2 c \<le> priority2 t \<and> next_thread2 s \<noteq> current_thread2 s
                then th else th_candidate) }
        else Some th_candidate);
     (if next_thread2 s \<noteq> current_thread2 s then yield_loop2 th th_candidate s
      else Some (th_candidate, s)) }"

definition charge2 :: "kernel2 \<Rightarrow> kernel2 option" where
  "charge2 s = do {
     let aux_cost_add = tick_counter_us2 s - tick_counter_last_cost_us2 s;
     s \<leftarrow> upd_thread2 (current_thread2 s) (\<lambda>t. t\<lparr>current_cost_ticks2 := current_cost_ticks2 t + aux_cost_add\<rparr>) s;
     Some (s\<lparr>tick_counter_last_cost_us2 := tick_counter_last_cost_us2 s + aux_cost_add\<rparr>) }"

definition overrun_check2 :: "kernel2 \<Rightarrow> kernel2 option" where
  "overrun_check2 s =
     upd_thread2 (current_thread2 s)
       (\<lambda>t. if max_cost_ticks2 t < current_cost_ticks2 t
            then t\<lparr>priority2 := RTARDUINO_OVERRUN_PRIO2\<rparr> else t) s"

definition thread_yield2 :: "kernel2 \<Rightarrow> kernel2 option" where
  "thread_yield2 s =
     (if thread_list2 s = NULL then Some s
      else do {
        (th_candidate, s) \<leftarrow> yield_loop2 (current_thread2 s) (thread_main_inf2 s) s;
        s \<leftarrow> charge2 s;
        s \<leftarrow> overrun_check2 s;
        let s = s\<lparr>next_thread2 := th_candidate\<rparr>;
        thread_start2 (next_thread2 s) s })"

section \<open>Operations that end in a yield\<close>

definition thread_block2 :: "kernel2 \<Rightarrow> kernel2 option" where
  "thread_block2 s = do {
     t \<leftarrow> deref2 (current_thread2 s) s;
     if flags2 t = RTARDUINO_ACTIVE2
     then do {
       s \<leftarrow> upd_thread2 (current_thread2 s) (\<lambda>t. t\<lparr>flags2 := RTARDUINO_BLOCKED2\<rparr>) s;
       thread_yield2 s }
     else Some s }"

definition thread_unblock2 :: "addr \<Rightarrow> kernel2 \<Rightarrow> kernel2 option" where
  "thread_unblock2 th s = do {
     t \<leftarrow> deref2 th s;
     if flags2 t = RTARDUINO_BLOCKED2
     then do {
       s \<leftarrow> upd_thread2 th (\<lambda>t. t\<lparr>flags2 := RTARDUINO_ACTIVE2\<rparr>) s;
       thread_yield2 s }
     else Some s }"

text \<open>What \<open>tick_sleep\<close> writes before it yields.\<close>

definition set_sleep2 :: "u32 \<Rightarrow> u32 \<Rightarrow> thread2 \<Rightarrow> thread2" where
  "set_sleep2 ticks ticks_aux t =
     (let t = t\<lparr>flags2 := RTARDUINO_SLEPT2, ticks_to_wait2 := ticks + ticks_aux\<rparr>
      in if ticks_to_wait2 t < ticks_aux then t\<lparr>carry_ticks_to_wait2 := 1\<rparr>
         else t\<lparr>carry_ticks_to_wait2 := 0\<rparr>)"

definition tick_sleep2 :: "u32 \<Rightarrow> kernel2 \<Rightarrow> kernel2 option" where
  "tick_sleep2 ticks s = do {
     s \<leftarrow> upd_thread2 (current_thread2 s) (set_sleep2 ticks (tick_counter_us2 s)) s;
     thread_yield2 s }"

definition thread_usleep2 :: "u32 \<Rightarrow> kernel2 \<Rightarrow> kernel2 option" where
  "thread_usleep2 time_us s = do {
     s \<leftarrow> upd_thread2 (current_thread2 s) (\<lambda>t. t\<lparr>flags2 := RTARDUINO_SLEPT2\<rparr>) s;
     tick_sleep2 (time_us div us_per_tick2) s }"

text \<open>A function without statements.\<close>

definition thread_ms2 :: "u32 \<Rightarrow> kernel2 \<Rightarrow> kernel2" where
  "thread_ms2 time_ms s = s"

section \<open>Timer\<close>

text \<open>The interrupt up to its yield; the last assignment happens when the interrupted thread resumes.\<close>

definition timer_isr2 :: "kernel2 \<Rightarrow> kernel2 option" where
  "timer_isr2 s =
     (let s = s\<lparr>tick_counter_us2 := tick_counter_us2 s + 1, yield2 := yield2 s + 1\<rparr>
      in if yield2 s = yield_max2
         then (let s = s\<lparr>yield2 := 0\<rparr>;
                   s = (if tick_counter_us2 s < tick_counter_previous_us2 s
                        then s\<lparr>carry_tick_counter2 := 1\<rparr> else s\<lparr>carry_tick_counter2 := 0\<rparr>)
               in thread_yield2 s)
         else Some s)"

definition timer_isr_resumed2 :: "kernel2 \<Rightarrow> kernel2" where
  "timer_isr_resumed2 s = s\<lparr>tick_counter_previous_us2 := tick_counter_us2 s\<rparr>"

end
