(* ===== verification/V2_Refines.thy ===== *)
theory V2_Refines
  imports V2_Kernel
begin

text \<open>
  The scheduler of version 2.0 and the library's scheduler run in step. \<open>sim\<close> relates their states
  by everything both have but stack pointers, which differ because the library's switch pushes two
  bytes more; a library thread that never enabled asynchronous signals stands for a thread of
  version 2.0. Each operation of the scheduler is an instance of the locale \<open>simulated\<close>.
\<close>

section \<open>The relation\<close>

definition sim_thread :: "thread2 \<Rightarrow> thread \<Rightarrow> bool" where
  "sim_thread t2 t \<longleftrightarrow> runq_next2 t2 = runq_next t \<and> stack2 t2 = stack t \<and> priority2 t2 = priority t
     \<and> block_pattern2 t2 = block_pattern t \<and> flags2 t2 = status t \<and> stack_size2 t2 = stack_size t
     \<and> ticks_to_wait2 t2 = ticks_to_wait t \<and> carry_ticks_to_wait2 t2 = carry_ticks_to_wait t
     \<and> min_period_ticks2 t2 = min_period_ticks t \<and> max_deadline_ticks2 t2 = max_deadline_ticks t
     \<and> max_cost_ticks2 t2 = max_cost_ticks t \<and> current_cost_ticks2 t2 = current_cost_ticks t
     \<and> offset_ticks2 t2 = offset_ticks t \<and> executor2 t2 = executor t \<and> error_handler2 t2 = error_handler t
     \<and> parm2 t2 = parm t \<and> ats_active t = 0"

definition sim :: "kernel2 \<Rightarrow> kernel \<Rightarrow> bool" where
  "sim s2 s \<longleftrightarrow> tick_counter_us2 s2 = global_thread_tick_counter s
     \<and> tick_counter_last_cost_us2 s2 = tick_counter_last_cost s
     \<and> tick_counter_previous_us2 s2 = tick_counter_previous s
     \<and> carry_tick_counter2 s2 = carry_tick_counter s \<and> yield2 s2 = yield_count s
     \<and> thread_list2 s2 = thread_list s \<and> current_thread2 s2 = current_thread s
     \<and> thread_main_inf2 s2 = thread_main_inf s \<and> next_thread2 s2 = next_thread s
     \<and> (\<forall>a. rel_option sim_thread (threads2 s2 a) (threads s a))"

lemma sim_threads: "sim s2 s \<Longrightarrow> rel_option sim_thread (threads2 s2 a) (threads s a)"
  by (simp add: sim_def)

lemma sim_deref:
  assumes "sim s2 s" and "deref a s = Some t"
  obtains t2 where "deref2 a s2 = Some t2" and "sim_thread t2 t"
  using sim_threads [OF assms(1), of a] assms(2)
  by (cases "threads2 s2 a") (auto simp: deref2_def deref_def split: if_splits)

lemma sim_upd:
  assumes "sim s2 s" and "upd_thread a f s = Some s'"
    and "\<And>t2 t. sim_thread t2 t \<Longrightarrow> sim_thread (f2 t2) (f t)"
  obtains s2' where "upd_thread2 a f2 s2 = Some s2'" and "sim s2' s'"
proof -
  from assms(2) obtain t where t: "deref a s = Some t"
    and s': "s' = s\<lparr>threads := (threads s)(a \<mapsto> f t)\<rparr>" by (auto simp: upd_thread_Some_iff)
  obtain t2 where t2: "deref2 a s2 = Some t2" and r: "sim_thread t2 t" by (rule sim_deref [OF assms(1) t])
  have "upd_thread2 a f2 s2 = Some (s2\<lparr>threads2 := (threads2 s2)(a \<mapsto> f2 t2)\<rparr>)"
    by (simp add: upd_thread2_def t2)
  moreover have "sim (s2\<lparr>threads2 := (threads2 s2)(a \<mapsto> f2 t2)\<rparr>) s'"
    using assms(1) assms(3) [OF r] by (simp add: sim_def s')
  ultimately show ?thesis by (rule that)
qed

lemma sim_fields:
  assumes "sim s2 s"
  shows "tick_counter_us2 s2 = global_thread_tick_counter s" "tick_counter_last_cost_us2 s2 = tick_counter_last_cost s"
    "tick_counter_previous_us2 s2 = tick_counter_previous s" "carry_tick_counter2 s2 = carry_tick_counter s"
    "yield2 s2 = yield_count s" "thread_list2 s2 = thread_list s" "current_thread2 s2 = current_thread s"
    "thread_main_inf2 s2 = thread_main_inf s" "next_thread2 s2 = next_thread s"
  using assms by (simp_all add: sim_def)

section \<open>The contract of an operation\<close>

locale simulated = simulation sim op2 op1
  for op2 :: "kernel2 \<Rightarrow> kernel2 option" and op1 :: "kernel \<Rightarrow> kernel option"
begin

text \<open>After an update of one thread on both sides.\<close>

lemma sim_after_update:
  assumes "sim s2 s" and "upd_thread a f s = Some s1" and "op1 s1 = Some s'"
    and "\<And>t2 t. sim_thread t2 t \<Longrightarrow> sim_thread (f2 t2) (f t)"
  shows "\<exists>s2'. Option.bind (upd_thread2 a f2 s2) op2 = Some s2' \<and> sim s2' s'"
proof -
  obtain s3 where "upd_thread2 a f2 s2 = Some s3" and "sim s3 s1" by (rule sim_upd [OF assms(1,2,4)])
  then show ?thesis using assms(3) by (metis sim_prefix)
qed

end

section \<open>The yield\<close>

lemma sim_wake_check: "sim_thread t2 t \<Longrightarrow> sim_thread (wake_check2 now c t2) (refresh now c t)"
  by (simp add: sim_thread_def wake_check2_def wake_check_def refresh_def signal_support_def rt_consts Let_def)

lemma sim_cost: "sim_thread t2 t \<Longrightarrow>
  sim_thread (t2\<lparr>current_cost_ticks2 := current_cost_ticks2 t2 + d\<rparr>) (t\<lparr>current_cost_ticks := current_cost_ticks t + d\<rparr>)"
  by (simp add: sim_thread_def)

lemma sim_over: "sim_thread t2 t \<Longrightarrow>
  sim_thread (if max_cost_ticks2 t2 < current_cost_ticks2 t2 then t2\<lparr>priority2 := RTARDUINO_OVERRUN_PRIO2\<rparr> else t2)
    (if max_cost_ticks t < current_cost_ticks t then t\<lparr>priority := SIMPLERTFRAMEWORK_OVERRUN_PRIO\<rparr> else t)"
  by (simp add: sim_thread_def rt_consts)

lemma sim_status: "sim_thread t2 t \<Longrightarrow> sim_thread (t2\<lparr>flags2 := x\<rparr>) (t\<lparr>status := x\<rparr>)"
  by (simp add: sim_thread_def)

lemma sim_set_sleep: "sim_thread t2 t \<Longrightarrow> sim_thread (set_sleep2 n now t2) (set_sleep n now t)"
  by (simp add: sim_thread_def set_sleep2_def set_sleep_def rt_consts Let_def)

lemma sim_account:
  assumes "sim s2 s" and "charge_current s = Some s'"
  shows "\<exists>s2'. charge2 s2 = Some s2' \<and> sim s2' s'"
proof -
  let ?d = "global_thread_tick_counter s - tick_counter_last_cost s"
  from assms(2) obtain s1 where s1: "upd_thread (current_thread s) (\<lambda>t. t\<lparr>current_cost_ticks := current_cost_ticks t + ?d\<rparr>) s = Some s1"
    and s': "s' = s1\<lparr>tick_counter_last_cost := tick_counter_last_cost s1 + ?d\<rparr>"
    by (auto simp: charge_current_def Let_def bind_eq_Some_conv)
  obtain s3 where s3: "upd_thread2 (current_thread s) (\<lambda>t. t\<lparr>current_cost_ticks2 := current_cost_ticks2 t + ?d\<rparr>) s2 = Some s3"
    and r: "sim s3 s1"
    by (rule sim_upd [OF assms(1) s1 sim_cost])
  have "charge2 s2 = Some (s3\<lparr>tick_counter_last_cost_us2 := tick_counter_last_cost_us2 s3 + ?d\<rparr>)"
    using s3 by (simp add: charge2_def sim_fields [OF assms(1)])
  moreover have "sim (s3\<lparr>tick_counter_last_cost_us2 := tick_counter_last_cost_us2 s3 + ?d\<rparr>) s'"
    using r by (simp add: sim_def s')
  ultimately show ?thesis by blast
qed

lemma sim_overrun:
  assumes "sim s2 s" and "overrun_check s = Some s'"
  obtains s2' where "overrun_check2 s2 = Some s2'" and "sim s2' s'"
  unfolding overrun_check2_def sim_fields [OF assms(1)]
  by (rule sim_upd [OF assms(1) assms(2) [unfolded overrun_check_def] sim_over])

text \<open>One round of the walk.\<close>

lemma sim_candidate:
  assumes "sim s2 s" and "sim_thread t2 t"
    and "(if status t = SIMPLERTFRAMEWORK_ACTIVE
        then do { c \<leftarrow> deref cand s;
          Some (if priority c \<le> priority t \<and> next_thread s \<noteq> current_thread s then th else cand) }
        else Some cand) = Some r"
  shows "(if flags2 t2 = RTARDUINO_ACTIVE2
        then do { c \<leftarrow> deref2 cand s2;
          Some (if priority2 c \<le> priority2 t2 \<and> next_thread2 s2 \<noteq> current_thread2 s2 then th else cand) }
        else Some cand) = Some r"
proof (cases "status t = SIMPLERTFRAMEWORK_ACTIVE")
  case True
  with assms(3) obtain c where c: "deref cand s = Some c" by (cases "deref cand s") auto
  obtain c2 where "deref2 cand s2 = Some c2" and "sim_thread c2 c" by (rule sim_deref [OF assms(1) c])
  with True assms c show ?thesis by (simp add: sim_thread_def sim_fields [OF assms(1)] rt_consts)
next
  case False
  with assms show ?thesis by (simp add: sim_thread_def rt_consts)
qed

text \<open>A round of the library's walk, with the rest of the walk as a parameter.\<close>

definition walk_round :: "(addr \<Rightarrow> addr \<Rightarrow> kernel \<Rightarrow> (addr \<times> kernel) option) \<Rightarrow> addr \<Rightarrow> addr \<Rightarrow> kernel
    \<Rightarrow> (addr \<times> kernel) option" where
  "walk_round loop th cand s = do {
     t \<leftarrow> deref th s;
     let th = (if runq_next t = NULL then thread_list s else runq_next t);
     let s = s\<lparr>next_thread := th\<rparr>;
     s \<leftarrow> upd_thread th (refresh (global_thread_tick_counter s) (carry_tick_counter s)) s;
     t \<leftarrow> deref th s;
     th_candidate \<leftarrow>
       (if status t = SIMPLERTFRAMEWORK_ACTIVE
        then do {
          c \<leftarrow> deref cand s;
          Some (if priority c \<le> priority t \<and> next_thread s \<noteq> current_thread s
                then th else cand) }
        else Some cand);
     (if next_thread s \<noteq> current_thread s then loop th th_candidate s
      else Some (th_candidate, s)) }"

lemma sim_walk_round:
  assumes "sim s2 s" and "walk_round loop th cand s = Some r"
  obtains n r' s1 s3 where "sim s3 s1"
    and "(if next_thread s1 \<noteq> current_thread s1 then loop n r' s1 else Some (r', s1)) = Some r"
    and "yield_loop2 th cand s2 = (if next_thread s1 \<noteq> current_thread s1 then yield_loop2 n r' s3 else Some (r', s3))"
proof -
  from assms(2) obtain t where t: "deref th s = Some t" unfolding walk_round_def by (cases "deref th s") auto
  obtain t2 where t2: "deref2 th s2 = Some t2" and rt: "sim_thread t2 t" by (rule sim_deref [OF assms(1) t])
  define n where "n = (if runq_next t = NULL then thread_list s else runq_next t)"
  define s0 where "s0 = s\<lparr>next_thread := n\<rparr>"
  have n2: "(if runq_next2 t2 = NULL then thread_list2 s2 else runq_next2 t2) = n"
    using rt assms(1) by (simp add: n_def sim_thread_def sim_fields)
  have r0: "sim (s2\<lparr>next_thread2 := n\<rparr>) s0" using assms(1) by (simp add: s0_def sim_def)
  from assms(2) t obtain s1 u r' where s1: "upd_thread n (refresh (global_thread_tick_counter s0) (carry_tick_counter s0)) s0 = Some s1"
    and u: "deref n s1 = Some u"
    and r': "(if status u = SIMPLERTFRAMEWORK_ACTIVE
          then do { c \<leftarrow> deref cand s1;
            Some (if priority c \<le> priority u \<and> next_thread s1 \<noteq> current_thread s1 then n else cand) }
          else Some cand) = Some r'"
    and rest: "(if next_thread s1 \<noteq> current_thread s1 then loop n r' s1 else Some (r', s1)) = Some r"
    by (simp only: walk_round_def Let_def n_def [symmetric] s0_def [symmetric] bind.bind_lunit)
      (fastforce simp only: bind_eq_Some_conv)
  obtain s3 where s3: "upd_thread2 n (wake_check2 (global_thread_tick_counter s0) (carry_tick_counter s0))
      (s2\<lparr>next_thread2 := n\<rparr>) = Some s3" and r1: "sim s3 s1"
    by (rule sim_upd [OF r0 s1 sim_wake_check])
  obtain u2 where u2: "deref2 n s3 = Some u2" and ru: "sim_thread u2 u" by (rule sim_deref [OF r1 u])
  note c2 = sim_candidate [OF r1 ru r', unfolded sim_fields [OF r1]]
  have "yield_loop2 th cand s2 = (if next_thread s1 \<noteq> current_thread s1 then yield_loop2 n r' s3 else Some (r', s3))"
    by (subst yield_loop2.simps)
      (simp only: t2 n2 Let_def s3 u2 c2 bind.bind_lunit sim_fields [OF r0] sim_fields [OF r1])
  with that r1 rest show ?thesis by blast
qed

lemma sim_yield_loop:
  assumes "sim s2 s" and "yield_loop th cand s = Some r"
  shows "\<exists>s2'. yield_loop2 th cand s2 = Some (fst r, s2') \<and> sim s2' (snd r)"
proof -
  let ?P = "\<lambda>th cand s r. \<forall>s2. sim s2 s \<longrightarrow> (\<exists>s2'. yield_loop2 th cand s2 = Some (fst r, s2') \<and> sim s2' (snd r))"
  have "?P th cand s r"
  proof (rule yield_loop.raw_induct [where P = ?P, OF _ assms(2), folded walk_round_def], intro allI impI)
    fix loop th cand s r s2
    assume IH: "\<And>th cand s r. loop th cand s = Some r \<Longrightarrow> ?P th cand s r"
      and step: "walk_round loop th cand s = Some r" and s2: "sim s2 s"
    obtain n r' s1 s3 where r1: "sim s3 s1"
      and rest: "(if next_thread s1 \<noteq> current_thread s1 then loop n r' s1 else Some (r', s1)) = Some r"
      and eq: "yield_loop2 th cand s2 = (if next_thread s1 \<noteq> current_thread s1 then yield_loop2 n r' s3 else Some (r', s3))"
      by (rule sim_walk_round [OF s2 step])
    show "\<exists>s2'. yield_loop2 th cand s2 = Some (fst r, s2') \<and> sim s2' (snd r)"
    proof (cases "next_thread s1 = current_thread s1")
      case True
      with rest eq r1 show ?thesis by auto
    next
      case False
      with rest have "loop n r' s1 = Some r" by simp
      from IH [OF this] r1 False eq show ?thesis by auto
    qed
  qed
  with assms(1) show ?thesis by blast
qed

section \<open>The switch\<close>

text \<open>The relation reads no stack pointer.\<close>

lemma sim_cong:
  assumes "sim s2 s" and "threads2 s2' = threads2 s2" "threads s' = threads s"
    and "tick_counter_us2 s2' = tick_counter_us2 s2" "global_thread_tick_counter s' = global_thread_tick_counter s"
    and "tick_counter_last_cost_us2 s2' = tick_counter_last_cost_us2 s2" "tick_counter_last_cost s' = tick_counter_last_cost s"
    and "tick_counter_previous_us2 s2' = tick_counter_previous_us2 s2" "tick_counter_previous s' = tick_counter_previous s"
    and "carry_tick_counter2 s2' = carry_tick_counter2 s2" "carry_tick_counter s' = carry_tick_counter s"
    and "yield2 s2' = yield2 s2" "yield_count s' = yield_count s"
    and "thread_list2 s2' = thread_list2 s2" "thread_list s' = thread_list s"
    and "thread_main_inf2 s2' = thread_main_inf2 s2" "thread_main_inf s' = thread_main_inf s"
    and "current_thread2 s2' = current_thread s'" "next_thread2 s2' = next_thread s'"
  shows "sim s2' s'"
  using assms by (simp add: sim_def)

lemma sim_sp: "sim_thread t2 t \<Longrightarrow> sim_thread (t2\<lparr>sp2 := a\<rparr>) (t\<lparr>sp := b\<rparr>)"
  by (simp add: sim_thread_def)

lemma change_high_keeps:
  assumes "change_high s = Some s'"
  shows "\<exists>a s1. upd_thread (current_thread s) (\<lambda>t. t\<lparr>sp := a\<rparr>) s = Some s1 \<and> deref (next_thread s) s1 \<noteq> None
    \<and> (\<exists>x y. s' = s1\<lparr>pxCurrentTCB_aux0 := x, pxCurrentTCB_aux1 := y, current_thread := next_thread s\<rparr>)"
proof -
  define a :: addr where "a = push_bit 8 (ucast (pxCurrentTCB_aux1 s)) OR ucast (pxCurrentTCB_aux0 s)"
  from assms obtain t where t: "deref (current_thread s) s = Some t"
    by (cases "deref (current_thread s) s") (simp_all add: change_high_def upd_thread_def)
  define s1 where "s1 = s\<lparr>threads := (threads s)(current_thread s \<mapsto> t\<lparr>sp := a\<rparr>)\<rparr>"
  have s1: "upd_thread (current_thread s) (\<lambda>t. t\<lparr>sp := a\<rparr>) s = Some s1"
    by (simp add: upd_thread_def t s1_def)
  have f: "current_thread s1 = current_thread s" "next_thread s1 = next_thread s" by (simp_all add: s1_def)
  have d: "deref (current_thread s) s1 \<noteq> None" using t by (simp add: s1_def deref_def split: if_splits)
  note e = assms [unfolded change_high_def Let_def a_def [symmetric] s1 bind.bind_lunit f]
  show ?thesis
  proof (cases "current_thread s = next_thread s")
    case True
    with e have "s' = s1\<lparr>current_thread := next_thread s\<rparr>" by (simp add: f)
    then have "s' = s1\<lparr>pxCurrentTCB_aux0 := pxCurrentTCB_aux0 s1, pxCurrentTCB_aux1 := pxCurrentTCB_aux1 s1,
        current_thread := next_thread s\<rparr>" by simp
    with s1 d True show ?thesis by metis
  next
    case False
    with e obtain n where n: "deref (next_thread s) s1 = Some n"
      by (cases "deref (next_thread s) s1") simp_all
    with e False have "s' = s1\<lparr>pxCurrentTCB_aux0 := ucast (sp n AND 0xff),
        pxCurrentTCB_aux1 := ucast (drop_bit 8 (sp n) AND 0xff), current_thread := next_thread s\<rparr>"
      by (simp add: f)
    with s1 n show ?thesis by (metis option.distinct(1))
  qed
qed

lemma sim_change_high:
  assumes "sim s2 s" and "change_high s = Some s'"
  shows "\<exists>s2'. change_high2 s2 = Some s2' \<and> sim s2' s'"
proof -
  from change_high_keeps [OF assms(2)] obtain a s1 x y where
    s1: "upd_thread (current_thread s) (\<lambda>t. t\<lparr>sp := a\<rparr>) s = Some s1" and d: "deref (next_thread s) s1 \<noteq> None"
    and s': "s' = s1\<lparr>pxCurrentTCB_aux0 := x, pxCurrentTCB_aux1 := y, current_thread := next_thread s\<rparr>" by blast
  define b :: addr where "b = push_bit 8 (ucast (pxCurrentTCB_aux2_1 s2)) OR ucast (pxCurrentTCB_aux2_0 s2)"
  obtain s3 where s3: "upd_thread2 (current_thread s) (\<lambda>t. t\<lparr>sp2 := b\<rparr>) s2 = Some s3" and r: "sim s3 s1"
    by (rule sim_upd [OF assms(1) s1 sim_sp])
  have n: "next_thread2 s3 = next_thread s"
    using s3 sim_fields [OF assms(1)] by (auto simp: upd_thread2_def bind_eq_Some_conv)
  from d obtain u where u: "deref (next_thread s) s1 = Some u" by auto
  obtain u2 where u2: "deref2 (next_thread s) s3 = Some u2" by (rule sim_deref [OF r u])
  define s4 where "s4 = (if current_thread2 s3 \<noteq> next_thread s
    then s3\<lparr>pxCurrentTCB_aux2_0 := ucast (sp2 u2 AND 0xff), pxCurrentTCB_aux2_1 := ucast (drop_bit 8 (sp2 u2) AND 0xff)\<rparr> else s3)"
  have n4: "next_thread2 s4 = next_thread s" by (simp add: s4_def n)
  have "change_high2 s2 = Some (s4\<lparr>current_thread2 := next_thread s\<rparr>)"
    using n4 by (simp add: change_high2_def b_def [symmetric] sim_fields [OF assms(1)] s3 n u2 s4_def [symmetric])
      (simp add: s4_def)
  moreover have "sim (s4\<lparr>current_thread2 := next_thread s\<rparr>) s'"
    using n sim_fields(9) [OF r] by (intro sim_cong [OF r]) (simp_all add: s4_def s')
  ultimately show ?thesis by blast
qed

lemma sim_do_switch:
  assumes "sim s2 s" and "do_switch s = Some s'"
  shows "\<exists>s2'. do_switch2 s2 = Some s2' \<and> sim s2' s'"
proof -
  define l where "l = hw_sp s - switch_frame"
  define l2 where "l2 = hw_sp2 s2 - switch_frame2"
  from assms(2) obtain s1 x where s1: "change_high (s\<lparr>pxCurrentTCB_aux0 := ucast l, pxCurrentTCB_aux1 := ucast (drop_bit 8 l)\<rparr>) = Some s1"
    and s': "s' = s1\<lparr>hw_sp := x\<rparr>"
    unfolding do_switch_def Let_def l_def [symmetric] bind_eq_Some_conv by blast
  have "sim (s2\<lparr>pxCurrentTCB_aux2_0 := ucast l2, pxCurrentTCB_aux2_1 := ucast (drop_bit 8 l2)\<rparr>)
      (s\<lparr>pxCurrentTCB_aux0 := ucast l, pxCurrentTCB_aux1 := ucast (drop_bit 8 l)\<rparr>)"
    using assms(1) by (simp add: sim_def)
  from sim_change_high [OF this s1] obtain s3 where
    s3: "change_high2 (s2\<lparr>pxCurrentTCB_aux2_0 := ucast l2, pxCurrentTCB_aux2_1 := ucast (drop_bit 8 l2)\<rparr>) = Some s3"
    and r: "sim s3 s1" by blast
  have "\<exists>y. do_switch2 s2 = Some (s3\<lparr>hw_sp2 := y\<rparr>)"
    unfolding do_switch2_def Let_def l2_def [symmetric] s3 bind.bind_lunit by (rule exI) (rule refl)
  moreover have "sim (s3\<lparr>hw_sp2 := y\<rparr>) s'" for y using r by (simp add: sim_def s')
  ultimately show ?thesis by blast
qed

lemma sim_thread_start:
  assumes "sim s2 s" and "thread_start H th s = Some s'"
  shows "\<exists>s2'. thread_start2 th s2 = Some s2' \<and> sim s2' s'"
proof -
  from assms(2) obtain s1 where s1: "do_switch (s\<lparr>next_thread := th\<rparr>) = Some s1" and a: "ats_deliver H s1 = Some s'"
    by (auto simp: thread_start_def bind_eq_Some_conv)
  have "sim (s2\<lparr>next_thread2 := th\<rparr>) (s\<lparr>next_thread := th\<rparr>)" using assms(1) by (simp add: sim_def)
  from sim_do_switch [OF this s1] obtain s2' where s2': "do_switch2 (s2\<lparr>next_thread2 := th\<rparr>) = Some s2'"
    and r: "sim s2' s1" by blast
  from a obtain t where t: "deref (current_thread s1) s1 = Some t"
    by (cases "deref (current_thread s1) s1") (simp_all add: ats_deliver_def)
  obtain t2 where "sim_thread t2 t" by (rule sim_deref [OF r t])
  with a t have "s' = s1" by (simp add: ats_deliver_def sim_thread_def)
  with s2' r show ?thesis by (simp add: thread_start2_def)
qed

section \<open>The operations\<close>

lemma consts2:
  "RTARDUINO_ACTIVE2 = SIMPLERTFRAMEWORK_ACTIVE" "RTARDUINO_BLOCKED2 = SIMPLERTFRAMEWORK_BLOCKED"
  "RTARDUINO_SLEPT2 = SIMPLERTFRAMEWORK_SLEPT" "RTARDUINO_OVERRUN_PRIO2 = SIMPLERTFRAMEWORK_OVERRUN_PRIO"
  "us_per_tick2 = us_per_tick"
  by (simp_all add: rt_consts us_per_tick_def us_per_tick2_def)

lemma sim_thread_yield:
  assumes "sim s2 s" and "thread_yield H s = Some s'"
  shows "\<exists>s2'. thread_yield2 s2 = Some s2' \<and> sim s2' s'"
proof (cases "thread_list s = NULL")
  case True
  with assms show ?thesis by (simp add: thread_yield_def thread_yield2_def sim_fields)
next
  case False
  with assms(2) obtain n s1 s3 s4 where s1: "yield_loop (current_thread s) (thread_main_inf s) s = Some (n, s1)"
    and s3: "charge_current s1 = Some s3" and s4: "overrun_check s3 = Some s4"
    and s': "thread_start H n (s4\<lparr>next_thread := n\<rparr>) = Some s'"
    by (auto simp: thread_yield_def bind_eq_Some_conv)
  from sim_yield_loop [OF assms(1) s1] obtain r1 where
    r1: "yield_loop2 (current_thread s) (thread_main_inf s) s2 = Some (n, r1)" "sim r1 s1" by auto
  from sim_account [OF r1(2) s3] obtain r3 where r3: "charge2 r1 = Some r3" "sim r3 s3" by blast
  obtain r4 where r4: "overrun_check2 r3 = Some r4" "sim r4 s4" by (rule sim_overrun [OF r3(2) s4])
  have "sim (r4\<lparr>next_thread2 := n\<rparr>) (s4\<lparr>next_thread := n\<rparr>)" using r4(2) by (simp add: sim_def)
  from sim_thread_start [OF this s'] show ?thesis
    using False r1 r3 r4 by (simp add: thread_yield2_def sim_fields [OF assms(1)])
qed

interpretation yield_sim: simulated thread_yield2 "thread_yield H" for H
  by unfold_locales (rule sim_thread_yield)

lemma sim_tick_sleep:
  assumes "sim s2 s" and "tick_sleep H n s = Some s'"
  shows "\<exists>s2'. tick_sleep2 n s2 = Some s2' \<and> sim s2' s'"
proof -
  from assms(2) obtain s1 where
    "upd_thread (current_thread s) (set_sleep n (global_thread_tick_counter s)) s = Some s1"
    and "thread_yield H s1 = Some s'"
    by (auto simp: tick_sleep_def bind_eq_Some_conv)
  from yield_sim.sim_after_update [OF assms(1) this sim_set_sleep] show ?thesis
    by (simp add: tick_sleep2_def sim_fields [OF assms(1)])
qed

interpretation sleep_sim: simulated "tick_sleep2 n" "tick_sleep H n" for n H
  by unfold_locales (rule sim_tick_sleep)

lemma sim_thread_usleep:
  assumes "sim s2 s" and "thread_usleep H n s = Some s'"
  shows "\<exists>s2'. thread_usleep2 n s2 = Some s2' \<and> sim s2' s'"
proof -
  from assms(2) obtain s1 where
    "upd_thread (current_thread s) (\<lambda>t. t\<lparr>status := SIMPLERTFRAMEWORK_SLEPT\<rparr>) s = Some s1"
    and "tick_sleep H (n div us_per_tick) s1 = Some s'"
    by (auto simp: thread_usleep_def bind_eq_Some_conv)
  from sleep_sim.sim_after_update [OF assms(1) this sim_status] show ?thesis
    by (simp add: thread_usleep2_def consts2 sim_fields [OF assms(1)])
qed

interpretation usleep_sim: simulated "thread_usleep2 n" "thread_usleep H n" for n H
  by unfold_locales (rule sim_thread_usleep)

text \<open>A test of a thread's status, the change of status and the yield, as in block and unblock.\<close>

lemma sim_status_change:
  assumes "sim s2 s" and "do { t \<leftarrow> deref a s;
      if status t = x then do { s \<leftarrow> upd_thread a (\<lambda>t. t\<lparr>status := y\<rparr>) s; thread_yield H s } else Some s } = Some s'"
  shows "\<exists>s2'. do { t \<leftarrow> deref2 a s2;
      if flags2 t = x then do { s \<leftarrow> upd_thread2 a (\<lambda>t. t\<lparr>flags2 := y\<rparr>) s2; thread_yield2 s } else Some s2 } = Some s2'
    \<and> sim s2' s'"
proof -
  from assms(2) obtain t where t: "deref a s = Some t" by (cases "deref a s") simp_all
  obtain t2 where t2: "deref2 a s2 = Some t2" and r: "sim_thread t2 t" by (rule sim_deref [OF assms(1) t])
  have f: "flags2 t2 = status t" using r by (simp add: sim_thread_def)
  show ?thesis
  proof (cases "status t = x")
    case True
    with assms(2) t obtain s1 where "upd_thread a (\<lambda>t. t\<lparr>status := y\<rparr>) s = Some s1" and "thread_yield H s1 = Some s'"
      by (auto simp: bind_eq_Some_conv)
    from yield_sim.sim_after_update [OF assms(1) this sim_status] show ?thesis
      using True by (simp add: t2 f)
  next
    case False
    with assms t show ?thesis by (simp add: t2 f)
  qed
qed

interpretation block_sim: simulated thread_block2 "thread_block H" for H
proof
  fix s2 s s' assume r: "sim s2 s" and e: "thread_block H s = Some s'"
  show "\<exists>s2'. thread_block2 s2 = Some s2' \<and> sim s2' s'"
    unfolding thread_block2_def consts2 sim_fields(7) [OF r]
    by (rule sim_status_change [OF r e [unfolded thread_block_def]])
qed

interpretation unblock_sim: simulated "thread_unblock2 th" "thread_unblock H th" for th H
proof
  fix s2 s s' assume "sim s2 s" and "thread_unblock H th s = Some s'"
  then show "\<exists>s2'. thread_unblock2 th s2 = Some s2' \<and> sim s2' s'"
    unfolding thread_unblock_def thread_unblock2_def consts2
    by (rule sim_status_change)
qed

interpretation tick_sim: simulated timer_isr2 "timer_isr H" for H
proof
  fix s2 s s' assume r: "sim s2 s" and s': "timer_isr H s = Some s'"
  define s1 where "s1 = s2\<lparr>tick_counter_us2 := tick_counter_us2 s2 + 1, yield2 := 0,
     carry_tick_counter2 := (if tick_counter_us2 s2 + 1 < tick_counter_previous_us2 s2 then 1 else 0)\<rparr>"
  have y: "(yield2 s2 + 1 = yield_max2) = (yield_count s = 0)"
    unfolding sim_fields [OF r] yield_max2_def by (metis add_left_cancel add.commute add_0)
  have e: "timer_isr2 s2 = (if yield_count s = 0 then thread_yield2 s1
      else Some (s2\<lparr>tick_counter_us2 := tick_counter_us2 s2 + 1, yield2 := yield2 s2 + 1\<rparr>))"
    using y by (simp add: timer_isr2_def s1_def Let_def)
  have "sim s1 (isr_state s)" using r by (simp add: s1_def isr_state_def sim_def Let_def)
  with e s' yield_sim.sim_step r show "\<exists>s2'. timer_isr2 s2 = Some s2' \<and> sim s2' s'"
    by (cases "yield_count s = 0") (auto simp: timer_isr_eq sim_def)
qed

section \<open>Any sequence of requests\<close>

datatype request2 = Yield2 | Tick2 | Sleep2 u32 | Usleep2 u32 | Block2 | Unblock2 addr

fun serve2 :: "request2 \<Rightarrow> kernel2 \<Rightarrow> kernel2 option" where
  "serve2 Yield2 = thread_yield2"
| "serve2 Tick2 = timer_isr2"
| "serve2 (Sleep2 n) = tick_sleep2 n"
| "serve2 (Usleep2 n) = thread_usleep2 n"
| "serve2 Block2 = thread_block2"
| "serve2 (Unblock2 th) = thread_unblock2 th"

fun serve_library :: "upcall \<Rightarrow> request2 \<Rightarrow> kernel \<Rightarrow> kernel option" where
  "serve_library H Yield2 = thread_yield H"
| "serve_library H Tick2 = timer_isr H"
| "serve_library H (Sleep2 n) = tick_sleep H n"
| "serve_library H (Usleep2 n) = thread_usleep H n"
| "serve_library H Block2 = thread_block H"
| "serve_library H (Unblock2 th) = thread_unblock H th"

fun serve_all2 :: "request2 list \<Rightarrow> kernel2 \<Rightarrow> kernel2 option" where
  "serve_all2 [] s = Some s"
| "serve_all2 (r # rs) s = Option.bind (serve2 r s) (serve_all2 rs)"

fun serve_all_library :: "upcall \<Rightarrow> request2 list \<Rightarrow> kernel \<Rightarrow> kernel option" where
  "serve_all_library H [] s = Some s"
| "serve_all_library H (r # rs) s = Option.bind (serve_library H r s) (serve_all_library H rs)"

lemma serve_simulated: "simulation sim (serve2 r) (serve_library H r)"
  by (cases r) (simp_all add: yield_sim.simulation_axioms tick_sim.simulation_axioms sleep_sim.simulation_axioms
      usleep_sim.simulation_axioms block_sim.simulation_axioms unblock_sim.simulation_axioms)

lemma serve_all_simulated:
  "sim s2 s \<Longrightarrow> serve_all_library H rs s = Some s' \<Longrightarrow> \<exists>s2'. serve_all2 rs s2 = Some s2' \<and> sim s2' s'"
proof (induction rs arbitrary: s2 s)
  case (Cons r rs)
  then obtain s1 where s1: "serve_library H r s = Some s1" and rest: "serve_all_library H rs s1 = Some s'"
    by (auto simp: bind_eq_Some_conv)
  obtain s3 where "serve2 r s2 = Some s3" and "sim s3 s1"
    by (rule simulation.sim_obtain [OF serve_simulated Cons.prems(1) s1])
  with Cons.IH [OF this(2) rest] show ?case by simp
qed simp

text \<open>A kernel of version 2.0 that corresponds to a state of the library.\<close>

definition thread_of :: "thread \<Rightarrow> thread2" where
  "thread_of t = \<lparr>runq_prev2 = 0, runq_next2 = runq_next t, sp2 = sp t, stack2 = stack t, priority2 = priority t,
     block_pattern2 = block_pattern t, flags2 = status t, stack_size2 = stack_size t,
     ticks_to_wait2 = ticks_to_wait t, carry_ticks_to_wait2 = carry_ticks_to_wait t,
     min_period_ticks2 = min_period_ticks t, max_deadline_ticks2 = max_deadline_ticks t,
     max_cost_ticks2 = max_cost_ticks t, current_cost_ticks2 = current_cost_ticks t,
     offset_ticks2 = offset_ticks t, executor2 = executor t, error_handler2 = error_handler t, parm2 = parm t\<rparr>"

definition kernel_of :: "kernel \<Rightarrow> kernel2" where
  "kernel_of s = \<lparr>tick_counter_us2 = global_thread_tick_counter s,
     tick_counter_last_cost_us2 = tick_counter_last_cost s, tick_counter_previous_us2 = tick_counter_previous s,
     carry_tick_counter2 = carry_tick_counter s, yield2 = yield_count s, thread_list2 = thread_list s,
     current_thread2 = current_thread s, thread_main_inf2 = thread_main_inf s, next_thread2 = next_thread s,
     pxCurrentTCB_aux2_0 = 0, pxCurrentTCB_aux2_1 = 0, hw_sp2 = hw_sp s,
     threads2 = (\<lambda>a. map_option thread_of (threads s a)), mem2 = mem s, blocks2 = blocks s, answers2 = []\<rparr>"

text \<open>No thread has asynchronous signals enabled.\<close>

definition no_ats :: "kernel \<Rightarrow> bool" where
  "no_ats s \<longleftrightarrow> (\<forall>a t. threads s a = Some t \<longrightarrow> ats_active t = 0)"

lemma sim_kernel_of:
  assumes "no_ats s"
  shows "sim (kernel_of s) s"
proof -
  have "rel_option sim_thread (threads2 (kernel_of s) a) (threads s a)" for a
    using assms by (cases "threads s a") (simp_all add: no_ats_def kernel_of_def thread_of_def sim_thread_def)
  then show ?thesis by (simp add: sim_def kernel_of_def)
qed

section \<open>Properties\<close>

text \<open>C7: version 2.0 and the library schedule alike: whatever sequence of yields, timer ticks, sleeps,
  blocks and unblocks the library serves from a state without asynchronous signals, version 2.0 serves
  it too from the corresponding state, without undefined behaviour, and in the end the same thread
  runs, at the same tick, and all threads agree in status, priority, wake-up time and cost.\<close>

theorem versions_schedule_alike:
  assumes "no_ats s" and "serve_all_library H rs s = Some s'"
  shows "\<exists>s2'. serve_all2 rs (kernel_of s) = Some s2' \<and> current_thread2 s2' = current_thread s'
    \<and> tick_counter_us2 s2' = global_thread_tick_counter s'
    \<and> (\<forall>a. rel_option (\<lambda>t2 t. flags2 t2 = status t \<and> priority2 t2 = priority t \<and> ticks_to_wait2 t2 = ticks_to_wait t
          \<and> carry_ticks_to_wait2 t2 = carry_ticks_to_wait t \<and> current_cost_ticks2 t2 = current_cost_ticks t)
        (threads2 s2' a) (threads s' a))"
proof -
  from serve_all_simulated [OF sim_kernel_of [OF assms(1)] assms(2)] obtain s2' where
    "serve_all2 rs (kernel_of s) = Some s2'" and r: "sim s2' s'" by blast
  moreover have "rel_option (\<lambda>t2 t. flags2 t2 = status t \<and> priority2 t2 = priority t
      \<and> ticks_to_wait2 t2 = ticks_to_wait t \<and> carry_ticks_to_wait2 t2 = carry_ticks_to_wait t
      \<and> current_cost_ticks2 t2 = current_cost_ticks t) (threads2 s2' a) (threads s' a)" for a
    by (rule option.rel_mono_strong [OF sim_threads [OF r]]) (simp add: sim_thread_def)
  ultimately show ?thesis using sim_fields [OF r] by blast
qed

theorem versions_schedule_alike_witness:
  "\<exists>s' s2'. serve_all_library no_handler [Tick2, Sleep2 10, Tick2] demo = Some s'
     \<and> serve_all2 [Tick2, Sleep2 10, Tick2] (kernel_of demo) = Some s2' \<and> current_thread2 s2' = current_thread s'"
proof -
  obtain s1 where 1: "timer_isr no_handler demo = Some s1" "kernel_wf s1"
    by (rule ticking.op_cases [OF no_handler_ok demo_wf])
  obtain s2 where 2: "tick_sleep no_handler 10 s1 = Some s2" "kernel_wf s2"
    by (rule sleeping.op_cases [OF no_handler_ok 1(2)])
  obtain s3 where 3: "timer_isr no_handler s2 = Some s3"
    by (rule ticking.op_cases [OF no_handler_ok 2(2)])
  have run: "serve_all_library no_handler [Tick2, Sleep2 10, Tick2] demo = Some s3" by (simp add: 1 2 3)
  have "no_ats demo" by (auto simp: no_ats_def demo_def demo_threads_def blank_thread_def split: if_splits)
  from versions_schedule_alike [OF this run] run show ?thesis by blast
qed

end
