(* ===== verification/RT_Periodic.thy ===== *)
theory RT_Periodic
  imports RT_Signal
begin

text \<open>
  The body of periodic, sporadic and aperiodic threads, \<open>periodic_pattern\<close>, as a state machine: its
  local variables, the stage it has reached, and one step per stage. A step that yields returns the
  state in which some thread has the processor; the next step of this one happens when it is the
  current thread again. What the thread's job (\<open>executor\<close>) and its error handler do is a parameter.
\<close>

datatype stage = Start | Offset_slept | Cycle | Waiting | Release | Executed | Checked | Slept

record pattern =
  stage :: stage
  this_thread :: addr
  thread_counter_us :: u32
  previous_thread_counter_us :: u32
  ticks_aux :: u32

type_synonym job = "addr \<Rightarrow> kernel \<Rightarrow> kernel option"

section \<open>The steps\<close>

definition enter_pattern :: "upcall \<Rightarrow> pattern \<Rightarrow> kernel \<Rightarrow> (pattern \<times> kernel) option" where
  "enter_pattern H l s = do {
     let now = global_thread_tick_counter s;
     let l = l\<lparr>this_thread := current_thread s, thread_counter_us := now, previous_thread_counter_us := now,
               stage := Offset_slept\<rparr>;
     s \<leftarrow> upd_thread (current_thread s) (\<lambda>t. t\<lparr>current_cost_ticks := 0\<rparr>) s;
     t \<leftarrow> deref (current_thread s) s;
     s \<leftarrow> tick_sleep H (offset_ticks t) s;
     Some (l, s) }"

text \<open>The loop \<open>while (queue_pending <= 0) thread_block()\<close>.\<close>

definition await_activation :: "upcall \<Rightarrow> pattern \<Rightarrow> kernel \<Rightarrow> (pattern \<times> kernel) option" where
  "await_activation H l s = do {
     t \<leftarrow> deref (current_thread s) s;
     if sint (queue_pending t) \<le> 0
     then do { s \<leftarrow> thread_block H s; Some (l, s) }
     else Some (l\<lparr>stage := Release\<rparr>, s) }"

definition release_job :: "job \<Rightarrow> pattern \<Rightarrow> kernel \<Rightarrow> (pattern \<times> kernel) option" where
  "release_job E l s = do {
     let l = l\<lparr>thread_counter_us := global_thread_tick_counter s, stage := Executed\<rparr>;
     s \<leftarrow> upd_thread (current_thread s) (\<lambda>t. t\<lparr>current_cost_ticks := 0\<rparr>) s;
     t \<leftarrow> deref (this_thread l) s;
     s \<leftarrow> (if executor t = NULL then None else E (executor t) s);
     Some (l, s) }"

definition check_job :: "upcall \<Rightarrow> pattern \<Rightarrow> kernel \<Rightarrow> (pattern \<times> kernel) option" where
  "check_job H l s = do {
     let l = l\<lparr>ticks_aux := global_thread_tick_counter s, stage := Checked\<rparr>;
     (_, s) \<leftarrow> get_current_cost_ticks s;
     t \<leftarrow> deref (this_thread l) s;
     (if error_handler t \<noteq> NULL
      then do {
        s \<leftarrow> (if max_deadline_ticks t \<le> ticks_aux l - thread_counter_us l
              then H (error_handler t) SIMPLERTFRAMEWORK_DEADLINE_MISS s else Some s);
        t \<leftarrow> deref (this_thread l) s;
        s \<leftarrow> (if max_cost_ticks t \<le> current_cost_ticks t
              then H (error_handler t) SIMPLERTFRAMEWORK_COST_OVERUN s else Some s);
        Some (l, s) }
      else Some (l, s)) }"

definition sleep_to_next :: "upcall \<Rightarrow> pattern \<Rightarrow> kernel \<Rightarrow> (pattern \<times> kernel) option" where
  "sleep_to_next H l s = do {
     t \<leftarrow> deref (this_thread l) s;
     let l = l\<lparr>previous_thread_counter_us := thread_counter_us l,
               thread_counter_us := thread_counter_us l + min_period_ticks t, stage := Slept\<rparr>;
     t \<leftarrow> deref (current_thread s) s;
     s \<leftarrow> (if block_pattern t \<noteq> 0x02 then tick_sleep H (thread_counter_us l - ticks_aux l) s else Some s);
     Some (l, s) }"

definition pattern_step :: "upcall \<Rightarrow> job \<Rightarrow> pattern \<Rightarrow> kernel \<Rightarrow> (pattern \<times> kernel) option" where
  "pattern_step H E l s = (case stage l of
     Start \<Rightarrow> enter_pattern H l s
   | Offset_slept \<Rightarrow> Some (l\<lparr>thread_counter_us := global_thread_tick_counter s, stage := Cycle\<rparr>, s)
   | Cycle \<Rightarrow> do {
       t \<leftarrow> deref (current_thread s) s;
       Some (l\<lparr>stage := (if block_pattern t \<noteq> 0x0 then Waiting else Release)\<rparr>, s) }
   | Waiting \<Rightarrow> await_activation H l s
   | Release \<Rightarrow> release_job E l s
   | Executed \<Rightarrow> check_job H l s
   | Checked \<Rightarrow> sleep_to_next H l s
   | Slept \<Rightarrow> do {
       s \<leftarrow> upd_thread (current_thread s) (\<lambda>t. t\<lparr>queue_pending := queue_pending t - 1\<rparr>) s;
       Some (l\<lparr>stage := Cycle\<rparr>, s) })"

section \<open>Sleeping to the next release\<close>

lemma sleep_to_next_eq:
  assumes "deref (this_thread l) s = Some t" and "current_thread s = this_thread l" and "block_pattern t \<noteq> 2"
  shows "sleep_to_next H l s = map_option (Pair (l\<lparr>previous_thread_counter_us := thread_counter_us l,
      thread_counter_us := thread_counter_us l + min_period_ticks t, stage := Slept\<rparr>))
    (tick_sleep H (thread_counter_us l + min_period_ticks t - ticks_aux l) s)"
  using assms
  by (cases "tick_sleep H (thread_counter_us l + min_period_ticks t - ticks_aux l) s")
    (simp_all add: sleep_to_next_def)

lemma remaining_on_time:
  fixes c p a :: u32
  assumes "a - c \<le> p"
  shows "unat (c + p - a) = unat p - unat (a - c)"
proof -
  have "c + p - a = p - (a - c)" by (simp add: algebra_simps)
  moreover have "unat (p - (a - c)) = unat p - unat (a - c)" using assms by (rule unat_sub)
  ultimately show ?thesis by (simp only:)
qed

lemma remaining_late:
  fixes c p a :: u32
  assumes "p < a - c"
  shows "unat (c + p - a) = 2 ^ 32 - (unat (a - c) - unat p)"
proof -
  let ?e = "a - c - p"
  have e: "unat ?e = unat (a - c) - unat p" by (rule unat_sub) (use assms in simp)
  have "- ?e = of_nat (2 ^ 32 - unat ?e)"
    using unat_u32 [of ?e] by (simp add: of_nat_diff)
  moreover have "0 < unat ?e" using assms unfolding e by (simp add: word_less_nat_alt)
  ultimately have "unat (- ?e) = 2 ^ 32 - unat ?e"
    by (simp only: unat_of_nat) simp
  moreover have "- ?e = c + p - a" by (simp add: algebra_simps)
  ultimately show ?thesis unfolding e by (simp only:)
qed

lemma asleep_so_long:
  "k \<le> unat n \<Longrightarrow> status (after_ticks now (set_sleep n now t) k) = SIMPLERTFRAMEWORK_SLEPT"
  using after_ticks_asleep [of now n k t] after_ticks_stuck [of now n t k]
  by (cases "unat now + unat n = 2 ^ 32 - 1") (auto simp: still_asleep_def)

section \<open>Properties\<close>

text \<open>A job that finishes within its period is followed by a sleep that ends one tick late: measured
  from the release of the job, the thread is asleep up to and with \<open>min_period_ticks\<close> ticks and ready
  in the tick after, so that a period of \<open>n\<close> ticks takes \<open>n + 1\<close> (unless the release is due on the last
  value of the counter).\<close>

theorem period_takes_one_tick_more:
  assumes "stage l = Checked" and "current_thread s = this_thread l" and "deref (this_thread l) s = Some t"
    and "block_pattern t \<noteq> 2" and "ticks_aux l = global_thread_tick_counter s"
    and "ticks_aux l - thread_counter_us l \<le> min_period_ticks t" and "unat (min_period_ticks t) < 2 ^ 32 - 1"
    and "unat (ticks_aux l) + unat (thread_counter_us l + min_period_ticks t - ticks_aux l) \<noteq> 2 ^ 32 - 1"
  shows "\<exists>n. pattern_step H E l s = map_option (Pair (l\<lparr>previous_thread_counter_us := thread_counter_us l,
        thread_counter_us := thread_counter_us l + min_period_ticks t, stage := Slept\<rparr>)) (tick_sleep H n s)
    \<and> (\<forall>k. status (after_ticks (global_thread_tick_counter s) (set_sleep n (global_thread_tick_counter s) t) k) =
        (if unat (ticks_aux l - thread_counter_us l) + k \<le> unat (min_period_ticks t)
         then SIMPLERTFRAMEWORK_SLEPT else SIMPLERTFRAMEWORK_ACTIVE))"
proof -
  let ?n = "thread_counter_us l + min_period_ticks t - ticks_aux l" and ?now = "global_thread_tick_counter s"
  have n: "unat ?n = unat (min_period_ticks t) - unat (ticks_aux l - thread_counter_us l)"
    by (rule remaining_on_time [OF assms(6)])
  have le: "unat (ticks_aux l - thread_counter_us l) \<le> unat (min_period_ticks t)"
    using assms(6) by (simp add: word_le_nat_alt)
  have b: "unat ?now + unat ?n \<noteq> 2 ^ 32 - 1" using assms(5,8) by simp
  have lt: "unat ?n < 2 ^ 32 - 1" using n assms(7) by linarith
  have "status (after_ticks ?now (set_sleep ?n ?now t) k) =
      (if unat (ticks_aux l - thread_counter_us l) + k \<le> unat (min_period_ticks t)
       then SIMPLERTFRAMEWORK_SLEPT else SIMPLERTFRAMEWORK_ACTIVE)" for k
  proof (cases "k \<le> unat ?n")
    case True
    with asleep_so_long [OF True] n le show ?thesis by auto
  next
    case False
    with after_ticks_awake [OF b _ lt, of k t] n le show ?thesis by auto
  qed
  moreover have "pattern_step H E l s = map_option (Pair (l\<lparr>previous_thread_counter_us := thread_counter_us l,
        thread_counter_us := thread_counter_us l + min_period_ticks t, stage := Slept\<rparr>)) (tick_sleep H ?n s)"
    using sleep_to_next_eq [OF assms(3,2,4), of H] assms(1) by (simp add: pattern_step_def)
  ultimately show ?thesis by blast
qed

definition demo_runner :: thread where
  "demo_runner = blank_thread\<lparr>runq_next := 0x100, priority := 10, sp := 0x1000\<rparr>"

definition demo_job :: kernel where
  "demo_job = demo\<lparr>current_thread := 0x200, global_thread_tick_counter := 1000\<rparr>"

definition demo_local :: "u32 \<Rightarrow> pattern" where
  "demo_local c = \<lparr>stage = Checked, this_thread = 0x200, thread_counter_us = c,
     previous_thread_counter_us = 0, ticks_aux = 1000\<rparr>"

lemma demo_job_facts:
  "deref 0x200 demo_job = Some demo_runner" "current_thread demo_job = 0x200"
  "global_thread_tick_counter demo_job = 1000" "block_pattern demo_runner = 0" "min_period_ticks demo_runner = 10"
  "stage (demo_local c) = Checked" "this_thread (demo_local c) = 0x200" "thread_counter_us (demo_local c) = c"
  "ticks_aux (demo_local c) = 1000"
  by (simp_all add: deref_def demo_job_def demo_def demo_threads_def demo_runner_def demo_local_def blank_thread_def)

theorem period_takes_one_tick_more_witness:
  "\<exists>n l'. pattern_step no_handler (\<lambda>_. Some) (demo_local 997) demo_job = map_option (Pair l') (tick_sleep no_handler n demo_job)
     \<and> status (after_ticks 1000 (set_sleep n 1000 demo_runner) 7) = SIMPLERTFRAMEWORK_SLEPT
     \<and> status (after_ticks 1000 (set_sleep n 1000 demo_runner) 8) = SIMPLERTFRAMEWORK_ACTIVE"
proof -
  have "\<exists>n. pattern_step no_handler (\<lambda>_. Some) (demo_local 997) demo_job
      = map_option (Pair ((demo_local 997)\<lparr>previous_thread_counter_us := thread_counter_us (demo_local 997),
        thread_counter_us := thread_counter_us (demo_local 997) + min_period_ticks demo_runner, stage := Slept\<rparr>))
        (tick_sleep no_handler n demo_job)
    \<and> (\<forall>k. status (after_ticks (global_thread_tick_counter demo_job)
          (set_sleep n (global_thread_tick_counter demo_job) demo_runner) k) =
        (if unat (ticks_aux (demo_local 997) - thread_counter_us (demo_local 997)) + k \<le> unat (min_period_ticks demo_runner)
         then SIMPLERTFRAMEWORK_SLEPT else SIMPLERTFRAMEWORK_ACTIVE))"
    by (rule period_takes_one_tick_more) (simp_all add: demo_job_facts)
  then obtain n l' where p: "pattern_step no_handler (\<lambda>_. Some) (demo_local 997) demo_job
      = map_option (Pair l') (tick_sleep no_handler n demo_job)"
    and k: "\<And>k. status (after_ticks 1000 (set_sleep n 1000 demo_runner) k) =
        (if 3 + k \<le> 10 then SIMPLERTFRAMEWORK_SLEPT else SIMPLERTFRAMEWORK_ACTIVE)"
    by (auto simp: demo_job_facts)
  from p k [of 7] k [of 8] show ?thesis by auto
qed

text \<open>C35: a job that runs over its period stops its thread for days: the time left to the next release,
  \<open>thread_counter_us - ticks_aux\<close>, wraps around, and the thread sleeps for at least \<open>2 ^ 32\<close> ticks less
  the delay (at 128 microseconds a tick, more than six days) instead of going on at once.\<close>

theorem overrun_sleeps_for_days:
  assumes "stage l = Checked" and "current_thread s = this_thread l" and "deref (this_thread l) s = Some t"
    and "block_pattern t \<noteq> 2" and "min_period_ticks t < ticks_aux l - thread_counter_us l"
  shows "\<exists>n l'. pattern_step H E l s = map_option (Pair l') (tick_sleep H n s)
    \<and> (\<forall>k \<le> 2 ^ 32 - (unat (ticks_aux l - thread_counter_us l) - unat (min_period_ticks t)).
         status (after_ticks (global_thread_tick_counter s) (set_sleep n (global_thread_tick_counter s) t) k)
           = SIMPLERTFRAMEWORK_SLEPT)"
proof -
  let ?n = "thread_counter_us l + min_period_ticks t - ticks_aux l" and ?now = "global_thread_tick_counter s"
  have n: "unat ?n = 2 ^ 32 - (unat (ticks_aux l - thread_counter_us l) - unat (min_period_ticks t))"
    by (rule remaining_late [OF assms(5)])
  have "status (after_ticks ?now (set_sleep ?n ?now t) k) = SIMPLERTFRAMEWORK_SLEPT"
    if "k \<le> 2 ^ 32 - (unat (ticks_aux l - thread_counter_us l) - unat (min_period_ticks t))" for k
    by (rule asleep_so_long) (use that n in simp)
  moreover have "pattern_step H E l s = map_option (Pair (l\<lparr>previous_thread_counter_us := thread_counter_us l,
        thread_counter_us := thread_counter_us l + min_period_ticks t, stage := Slept\<rparr>)) (tick_sleep H ?n s)"
    using sleep_to_next_eq [OF assms(3,2,4), of H] assms(1) by (simp add: pattern_step_def)
  ultimately show ?thesis by blast
qed

theorem overrun_sleeps_for_days_witness:
  "\<exists>n l'. pattern_step no_handler (\<lambda>_. Some) (demo_local 980) demo_job = map_option (Pair l') (tick_sleep no_handler n demo_job)
     \<and> status (after_ticks 1000 (set_sleep n 1000 demo_runner) 4294967286) = SIMPLERTFRAMEWORK_SLEPT"
proof -
  have "\<exists>n l'. pattern_step no_handler (\<lambda>_. Some) (demo_local 980) demo_job = map_option (Pair l') (tick_sleep no_handler n demo_job)
    \<and> (\<forall>k \<le> 2 ^ 32 - (unat (ticks_aux (demo_local 980) - thread_counter_us (demo_local 980))
          - unat (min_period_ticks demo_runner)).
         status (after_ticks (global_thread_tick_counter demo_job)
           (set_sleep n (global_thread_tick_counter demo_job) demo_runner) k) = SIMPLERTFRAMEWORK_SLEPT)"
    by (rule overrun_sleeps_for_days) (simp_all add: demo_job_facts)
  then show ?thesis by (auto simp: demo_job_facts)
qed

text \<open>C36: the deadline check is right also when the tick counter overflows during the job: a job released
  at any counter value that is done \<open>e\<close> ticks later, within its cost, has its error handler called
  with DEADLINE_MISS if \<open>e\<close> has reached the deadline, and no handler called otherwise.\<close>

theorem deadline_check_exact:
  assumes "stage l = Executed" and "global_thread_tick_counter s = thread_counter_us l + of_nat e" and "e < 2 ^ 32"
    and "get_current_cost_ticks s = Some (c, s1)" and "deref (this_thread l) s1 = Some t" and "error_handler t \<noteq> NULL"
    and "\<And>s2. H (error_handler t) SIMPLERTFRAMEWORK_DEADLINE_MISS s1 = Some s2 \<Longrightarrow> deref (this_thread l) s2 = Some t"
    and "current_cost_ticks t < max_cost_ticks t"
  shows "map_option snd (pattern_step H E l s) =
    (if unat (max_deadline_ticks t) \<le> e then H (error_handler t) SIMPLERTFRAMEWORK_DEADLINE_MISS s1 else Some s1)"
proof -
  have "unat (of_nat e :: u32) = e" using assms(3) by (simp add: unat_of_nat)
  then have d: "max_deadline_ticks t \<le> global_thread_tick_counter s - thread_counter_us l \<longleftrightarrow> unat (max_deadline_ticks t) \<le> e"
    using assms(2) by (simp add: word_le_nat_alt)
  have nc: "\<not> max_cost_ticks t \<le> current_cost_ticks t" using assms(8) by simp
  show ?thesis
  proof (cases "unat (max_deadline_ticks t) \<le> e")
    case True
    then show ?thesis
      using assms(1,4-7) d nc
      by (cases "H (error_handler t) SIMPLERTFRAMEWORK_DEADLINE_MISS s1") (simp_all add: pattern_step_def check_job_def)
  next
    case False
    then show ?thesis using assms(1,4-6) d nc by (simp add: pattern_step_def check_job_def)
  qed
qed

text \<open>A job released at the last tick before the overflow that takes 12 ticks; its deadline is 10.\<close>

definition demo_late :: kernel where
  "demo_late = demo\<lparr>current_thread := 0x200, global_thread_tick_counter := 0xB, tick_counter_last_cost := 0xA,
     threads := demo_threads(0x200 \<mapsto> demo_runner\<lparr>error_handler := 0x77\<rparr>)\<rparr>"

theorem deadline_check_exact_witness:
  "\<exists>s1. map_option snd (pattern_step no_handler (\<lambda>_. Some)
      ((demo_local 0xFFFFFFFF)\<lparr>stage := Executed\<rparr>) demo_late) = no_handler 0x77 SIMPLERTFRAMEWORK_DEADLINE_MISS s1"
proof -
  let ?l = "(demo_local 0xFFFFFFFF)\<lparr>stage := Executed\<rparr>"
  let ?t = "demo_runner\<lparr>error_handler := 0x77, current_cost_ticks := 1\<rparr>"
  let ?s1 = "demo_late\<lparr>threads := (threads demo_late)(0x200 \<mapsto> ?t), tick_counter_last_cost := 0xB\<rparr>"
  have t: "deref 0x200 demo_late = Some (demo_runner\<lparr>error_handler := 0x77\<rparr>)" and c: "current_thread demo_late = 0x200"
    by (simp_all add: deref_def demo_late_def)
  have g: "get_current_cost_ticks demo_late = Some (1, ?s1)"
    using charge_current_exact [of demo_late] t c
    by (simp add: get_current_cost_ticks_def deref_def demo_late_def demo_runner_def blank_thread_def)
  have "map_option snd (pattern_step no_handler (\<lambda>_. Some) ?l demo_late)
    = (if unat (max_deadline_ticks ?t) \<le> 12 then no_handler (error_handler ?t) SIMPLERTFRAMEWORK_DEADLINE_MISS ?s1 else Some ?s1)"
    by (rule deadline_check_exact [OF _ _ _ g])
      (simp_all add: demo_late_def demo_local_def deref_def no_handler_def demo_runner_def blank_thread_def)
  then show ?thesis by (simp add: demo_runner_def blank_thread_def) blast
qed

end
