(* ===== verification/RT_Activation.thy ===== *)
theory RT_Activation
  imports V2_Refines RT_Periodic
begin

text \<open>
  Who can activate a sporadic or an aperiodic thread. Its body waits until \<open>queue_pending\<close> is positive;
  this theory follows that counter through the operations of the library.
\<close>

section \<open>Operations that leave the counters alone\<close>

definition pending_of :: "kernel \<Rightarrow> addr \<Rightarrow> s32 option" where
  "pending_of s a = map_option queue_pending (threads s a)"

definition keeps_pending :: "kernel \<Rightarrow> kernel \<Rightarrow> bool" where
  "keeps_pending s s' \<longleftrightarrow> (\<forall>a. pending_of s' a = pending_of s a)"

text \<open>Error handlers that do not signal.\<close>

definition handler_no_signals :: "upcall \<Rightarrow> bool" where
  "handler_no_signals H \<longleftrightarrow> (\<forall>f e s s'. H f e s = Some s' \<longrightarrow> keeps_pending s s')"

lemma keeps_pending_trans: "keeps_pending s s1 \<Longrightarrow> keeps_pending s1 s2 \<Longrightarrow> keeps_pending s s2"
  by (simp add: keeps_pending_def)

lemma keeps_pending_fields: "threads s' = threads s \<Longrightarrow> keeps_pending s s'"
  by (simp add: keeps_pending_def pending_of_def)

lemma keeps_pending_upd:
  assumes "upd_thread a f s = Some s'" and "\<And>t. queue_pending (f t) = queue_pending t"
  shows "keeps_pending s s'"
proof -
  obtain t where "threads s a = Some t" and "s' = s\<lparr>threads := (threads s)(a \<mapsto> f t)\<rparr>"
    using assms(1) by (auto simp: upd_thread_Some_iff deref_Some_iff)
  with assms(2) show ?thesis by (simp add: keeps_pending_def pending_of_def)
qed

lemma refresh_pending: "queue_pending (refresh now c t) = queue_pending t"
  by (simp add: refresh_def wake_check_def signal_support_def Let_def)

lemma yield_result_pending:
  assumes "runq_wf s ts"
  shows "keeps_pending s (yield_result s ts)"
proof -
  obtain t where t: "yield_heap s ts (current_thread s) = Some t"
    using yield_heap_live [OF assms runq_wf_current [OF assms]] by blast
  have "threads (yield_result s ts) = (yield_heap s ts)(current_thread s \<mapsto>
      (account (global_thread_tick_counter s - tick_counter_last_cost s) t)\<lparr>sp := hw_sp s - switch_frame\<rparr>)"
    using t by (simp add: yield_result_def switched_def Let_def del: fun_upd_apply)
  then have "pending_of (yield_result s ts) a = map_option queue_pending (yield_heap s ts a)" for a
    using t by (simp add: pending_of_def account_def Let_def)
  moreover have "map_option queue_pending (yield_heap s ts a) = pending_of s a" for a
    by (cases "threads s a") (simp_all add: yield_heap_def refresh_on_def pending_of_def refresh_pending)
  ultimately show ?thesis by (simp add: keeps_pending_def)
qed

lemma ats_deliver_pending:
  assumes "handler_no_signals H" and "ats_deliver H s = Some s'"
  shows "keeps_pending s s'"
proof (rule ats_deliver_frame [where R = keeps_pending, OF _ _ _ _ assms(2)])
  show "keeps_pending s s1" if "upd_thread (current_thread s) (\<lambda>t. t\<lparr>ats_pending := ats_pending t - 1\<rparr>) s = Some s1" for s s1
    using that by (rule keeps_pending_upd) simp
  show "keeps_pending s s1" if "H f e s = Some s1" for f e s s1
    using that assms(1) unfolding handler_no_signals_def by blast
qed (auto intro: keeps_pending_trans keeps_pending_fields)

text \<open>The contract of an operation that activates nobody.\<close>

locale no_activation = kernel_op +
  assumes op_pending: "handler_no_signals H \<Longrightarrow> kernel_wf s \<Longrightarrow> op H s = Some s' \<Longrightarrow> keeps_pending s s'"
begin

lemma pending_after_update:
  assumes "handler_no_signals H" and "kernel_wf s" and "upd_thread a f s = Some s1" and "op H s1 = Some s'"
    and "\<And>t. runq_next (f t) = runq_next t" and "\<And>t. queue_pending (f t) = queue_pending t"
  shows "keeps_pending s s'"
  using keeps_pending_trans [OF keeps_pending_upd [OF assms(3,6)]]
    op_pending [OF assms(1) kernel_wf_upd_thread [OF assms(2,3,5)] assms(4)] .

end

lemma thread_yield_pending:
  assumes "handler_no_signals H" and "kernel_wf s" and "thread_yield H s = Some s'"
  shows "keeps_pending s s'"
proof -
  obtain ts where ts: "runq_wf s ts" using assms(2) by (rule kernel_wfE)
  have "ats_deliver H (yield_result s ts) = Some s'" using assms(3) by (simp add: thread_yield_exact [OF ts])
  from ats_deliver_pending [OF assms(1) this] yield_result_pending [OF ts] show ?thesis
    by (blast intro: keeps_pending_trans)
qed

interpretation inert_yield: no_activation thread_yield
  by unfold_locales (rule thread_yield_pending)

interpretation inert_tick: no_activation timer_isr
proof
  fix H s s'
  assume H: "handler_no_signals H" and wf: "kernel_wf s" and s': "timer_isr H s = Some s'"
  show "keeps_pending s s'"
  proof (cases "yield_count s = 0")
    case True
    have "kernel_wf (isr_state s)"
      by (rule kernel_wf_fields [THEN iffD2, OF _ _ _ _ wf]) (simp_all add: isr_state_def Let_def)
    moreover have "keeps_pending s (isr_state s)" by (rule keeps_pending_fields) (simp add: isr_state_def Let_def)
    ultimately show ?thesis
      using inert_yield.op_pending [OF H] s' True keeps_pending_trans by (auto simp: timer_isr_eq)
  next
    case False
    with s' show ?thesis by (auto simp: timer_isr_eq intro: keeps_pending_fields)
  qed
qed

interpretation inert_sleep: no_activation "\<lambda>H. tick_sleep H n" for n
proof
  fix H s s'
  assume H: "handler_no_signals H" and wf: "kernel_wf s" and "tick_sleep H n s = Some s'"
  then obtain s1 where "upd_thread (current_thread s) (set_sleep n (global_thread_tick_counter s)) s = Some s1"
    and "thread_yield H s1 = Some s'"
    unfolding tick_sleep_def bind_eq_Some_conv by blast
  then show "keeps_pending s s'"
    by (rule inert_yield.pending_after_update [OF H wf]) (simp_all add: set_sleep_def Let_def)
qed

interpretation inert_usleep: no_activation "\<lambda>H. thread_usleep H n" for n
proof
  fix H s s'
  assume H: "handler_no_signals H" and wf: "kernel_wf s" and "thread_usleep H n s = Some s'"
  then obtain s1 where "upd_thread (current_thread s) (\<lambda>t. t\<lparr>status := SIMPLERTFRAMEWORK_SLEPT\<rparr>) s = Some s1"
    and "tick_sleep H (n div us_per_tick) s1 = Some s'"
    unfolding thread_usleep_def bind_eq_Some_conv by blast
  then show "keeps_pending s s'" by (rule inert_sleep.pending_after_update [OF H wf]) simp_all
qed

interpretation inert_block: no_activation thread_block
proof
  fix H s s'
  assume H: "handler_no_signals H" and wf: "kernel_wf s" and s': "thread_block H s = Some s'"
  obtain t where t: "deref (current_thread s) s = Some t" using kernel_wf_current [OF wf] .
  obtain s1 where s1: "upd_thread (current_thread s) (\<lambda>t. t\<lparr>status := SIMPLERTFRAMEWORK_BLOCKED\<rparr>) s = Some s1"
    using upd_current_ok [OF wf] .
  show "keeps_pending s s'"
  proof (cases "status t = SIMPLERTFRAMEWORK_ACTIVE")
    case True
    with s' t s1 have "thread_yield H s1 = Some s'" by (simp add: thread_block_def)
    with s1 show ?thesis by (rule inert_yield.pending_after_update [OF H wf]) simp_all
  next
    case False
    with s' t show ?thesis by (simp add: thread_block_def keeps_pending_fields)
  qed
qed

lemma thread_unblock_pending:
  assumes "handler_no_signals H" and "kernel_wf s" and "thread_unblock H th s = Some s'"
  shows "keeps_pending s s' \<and> (handler_ok H \<longrightarrow> kernel_wf s')"
proof -
  from assms(3) obtain t where t: "deref th s = Some t" by (auto simp: thread_unblock_def bind_eq_Some_conv)
  obtain s1 where s1: "upd_thread th (\<lambda>t. t\<lparr>status := SIMPLERTFRAMEWORK_ACTIVE\<rparr>) s = Some s1"
    using t by (auto simp: upd_thread_Some_iff)
  have "handler_ok H \<longrightarrow> kernel_wf s'" using thread_unblock_safe [OF _ assms(2) t, of H] assms(3) by auto
  moreover have "keeps_pending s s'"
  proof (cases "status t = SIMPLERTFRAMEWORK_BLOCKED")
    case True
    with assms(3) t s1 have "thread_yield H s1 = Some s'" by (simp add: thread_unblock_def)
    with s1 show ?thesis by (rule inert_yield.pending_after_update [OF assms(1,2)]) simp_all
  next
    case False
    with assms(3) t show ?thesis by (simp add: thread_unblock_def keeps_pending_fields)
  qed
  ultimately show ?thesis by blast
qed

lemma serve_library_pending:
  assumes "handler_ok H" and "handler_no_signals H" and "kernel_wf s" and "serve_library H r s = Some s'"
  shows "keeps_pending s s' \<and> kernel_wf s'"
proof (cases r)
  case Yield2
  with assms show ?thesis using inert_yield.op_pending yielding.op_keeps by auto
next
  case Tick2
  with assms show ?thesis using inert_tick.op_pending ticking.op_keeps by auto
next
  case (Sleep2 n)
  with assms show ?thesis using inert_sleep.op_pending sleeping.op_keeps by auto
next
  case (Usleep2 n)
  with assms show ?thesis using inert_usleep.op_pending usleeping.op_keeps by auto
next
  case Block2
  with assms show ?thesis using inert_block.op_pending blocking.op_keeps by auto
next
  case (Unblock2 th)
  with assms show ?thesis using thread_unblock_pending by auto
qed

lemma serve_all_pending:
  assumes "handler_ok H" and "handler_no_signals H"
  shows "kernel_wf s \<Longrightarrow> serve_all_library H rs s = Some s' \<Longrightarrow> keeps_pending s s' \<and> kernel_wf s'"
proof (induction rs arbitrary: s)
  case Nil
  then show ?case by (simp add: keeps_pending_def)
next
  case (Cons r rs)
  from Cons.prems(2) obtain s1 where s1: "serve_library H r s = Some s1" and r: "serve_all_library H rs s1 = Some s'"
    by (auto simp: bind_eq_Some_conv)
  from serve_library_pending [OF assms Cons.prems(1) s1] Cons.IH [OF _ r] show ?case
    using keeps_pending_trans by blast
qed

section \<open>Properties\<close>

text \<open>C37: waking a sporadic or aperiodic thread with \<open>thread_unblock\<close> does not make it run its job: whatever
  yields, ticks, sleeps, blocking and unblocking of threads have happened, a thread that waits for an
  activation with none pending and gets the processor blocks again, in the same stage; only
  \<open>thread_signal\<close> counts activations.\<close>

theorem unblock_activates_nothing:
  assumes "handler_ok H" and "handler_no_signals H" and "kernel_wf s"
    and "serve_all_library H rs s = Some s'" and "threads s th = Some t" and "sint (queue_pending t) \<le> 0"
    and "current_thread s' = th" and "stage l = Waiting"
  shows "pattern_step H E l s' = map_option (Pair l) (thread_block H s')
    \<and> (\<exists>s''. thread_block H s' = Some s'' \<and> pending_of s'' th = Some (queue_pending t))"
proof -
  from serve_all_pending [OF assms(1-4)] have k: "keeps_pending s s'" and wf: "kernel_wf s'" by simp_all
  obtain u where u: "deref th s' = Some u" "threads s' th = Some u"
    using kernel_wf_current [OF wf] unfolding assms(7) by blast
  from k u(2) assms(5) have p: "queue_pending u = queue_pending t"
    by (simp add: keeps_pending_def pending_of_def) (metis option.inject option.map(2))
  obtain s'' where b: "thread_block H s' = Some s''" using blocking.op_safe [OF assms(1) wf] by blast
  from inert_block.op_pending [OF assms(2) wf b] u(2) p have "pending_of s'' th = Some (queue_pending t)"
    by (simp add: keeps_pending_def pending_of_def)
  moreover have "pattern_step H E l s' = map_option (Pair l) (thread_block H s')"
    using assms(6-8) u(1) p b by (simp add: pattern_step_def await_activation_def)
  ultimately show ?thesis using b by blast
qed

text \<open>The thread 0x200 waits for an activation; unblocking it gives it the processor, not its job.\<close>

definition demo_dormant :: kernel where
  "demo_dormant = demo\<lparr>threads := demo_threads(0x200 \<mapsto>
     blank_thread\<lparr>runq_next := 0x100, priority := 10, status := SIMPLERTFRAMEWORK_BLOCKED, block_pattern := 1\<rparr>)\<rparr>"

lemma demo_dormant_wakes:
  "\<exists>s'. thread_unblock no_handler 0x200 demo_dormant = Some s' \<and> current_thread s' = 0x200"
proof -
  define s where "s = demo\<lparr>threads := demo_threads(0x200 \<mapsto>
     blank_thread\<lparr>runq_next := 0x100, priority := 10, block_pattern := 1\<rparr>)\<rparr>"
  have e: "thread_unblock no_handler 0x200 demo_dormant = thread_yield no_handler s"
    by (simp add: thread_unblock_def deref_def upd_thread_def demo_dormant_def s_def demo_defs)
  have wf: "runq_wf s demo_list" by (simp add: runq_wf_def s_def demo_defs)
  have "yield_pick s demo_list = 0x200"
  proof (rule yield_pick_top [OF wf])
    show "active (yield_heap s demo_list) 0x200"
      by (simp add: active_def yield_heap_def refresh_on_def refresh_active s_def demo_defs)
    show "prio (threads s) a < prio (threads s) 0x200" if "a \<in> set demo_list" "a \<noteq> 0x200" for a
      using that by (auto simp: prio_def s_def demo_defs)
  qed (simp_all add: s_def demo_defs)
  then have c: "current_thread (yield_result s demo_list) = 0x200" by simp
  have "kernel_wf (yield_result s demo_list)" by (rule kernel_wfI) (rule yield_result_wf [OF wf])
  from ats_deliver_ok [OF no_handler_ok this] show ?thesis
    unfolding e thread_yield_exact [OF wf] c by blast
qed

theorem unblock_activates_nothing_witness:
  "\<exists>s' l. thread_unblock no_handler 0x200 demo_dormant = Some s' \<and> current_thread s' = 0x200 \<and> stage l = Waiting
     \<and> pattern_step no_handler (\<lambda>_ _. None) l s' = map_option (Pair l) (thread_block no_handler s')"
proof -
  obtain s' where s': "thread_unblock no_handler 0x200 demo_dormant = Some s'" and c: "current_thread s' = 0x200"
    using demo_dormant_wakes by blast
  define l where "l = (demo_local 0)\<lparr>stage := Waiting\<rparr>"
  have wf: "kernel_wf demo_dormant" by (rule kernel_wfI [of _ demo_list]) (simp add: runq_wf_def demo_dormant_def demo_defs)
  have q: "handler_no_signals no_handler" by (simp add: handler_no_signals_def no_handler_def keeps_pending_def)
  have r: "serve_all_library no_handler [Unblock2 0x200] demo_dormant = Some s'" by (simp add: s')
  have t: "threads demo_dormant 0x200 = Some (blank_thread\<lparr>runq_next := 0x100, priority := 10,
      status := SIMPLERTFRAMEWORK_BLOCKED, block_pattern := 1\<rparr>)" by (simp add: demo_dormant_def)
  have p: "sint (queue_pending (blank_thread\<lparr>runq_next := 0x100, priority := 10,
      status := SIMPLERTFRAMEWORK_BLOCKED, block_pattern := 1\<rparr>)) \<le> 0" by (simp add: blank_thread_def)
  have st: "stage l = Waiting" by (simp add: l_def)
  from unblock_activates_nothing [OF no_handler_ok q wf r t p c st, of "\<lambda>_ _. None"] s' c st show ?thesis by blast
qed

end
