(* ===== verification/RT_Board.thy ===== *)
theory RT_Board
  imports RT_Types
begin

text \<open>
  The timer that makes the ticks. \<open>enable_timer2\<close> writes three registers of Timer 2; where their bits
  lie and how fast the processor runs is fixed by the board and is a parameter here. A board is
  \<open>atmega\<close> when its bits lie where the data sheet of the ATmega328 and ATmega2560 puts them.
\<close>

record board =
  COM2A1 :: nat
  TOIE2 :: nat
  CS20 :: nat
  CS21 :: nat
  CS22 :: nat
  F_CPU :: nat

record timer2 =
  TCCR2A :: u8
  TCCR2B :: u8
  TIMSK2 :: u8
  interrupts_on :: bool

text \<open>Terms of the source that shift a 0 are left out.\<close>

definition enable_timer2 :: "board \<Rightarrow> timer2 \<Rightarrow> timer2" where
  "enable_timer2 B r =
     (let r = r\<lparr>interrupts_on := False\<rparr>;
          r = r\<lparr>TCCR2A := push_bit (COM2A1 B) 1\<rparr>;
          r = r\<lparr>TCCR2B := push_bit (CS22 B) 0 OR push_bit (CS21 B) 1 OR push_bit (CS20 B) 0\<rparr>;
          r = r\<lparr>TIMSK2 := push_bit (TOIE2 B) 1\<rparr>
      in r\<lparr>interrupts_on := True\<rparr>)"

text \<open>The table of clock selections above \<open>enable_timer2\<close>; None is a stopped clock.\<close>

definition prescaler :: "board \<Rightarrow> timer2 \<Rightarrow> nat option" where
  "prescaler B r =
     (case (bit (TCCR2B r) (CS22 B), bit (TCCR2B r) (CS21 B), bit (TCCR2B r) (CS20 B)) of
        (False, False, False) \<Rightarrow> None
      | (False, False, True) \<Rightarrow> Some 1
      | (False, True, False) \<Rightarrow> Some 8
      | (False, True, True) \<Rightarrow> Some 32
      | (True, False, False) \<Rightarrow> Some 64
      | (True, False, True) \<Rightarrow> Some 128
      | (True, True, False) \<Rightarrow> Some 256
      | (True, True, True) \<Rightarrow> Some 1024)"

text \<open>Microseconds between two overflows of the 8-bit timer, 256 counts apart.\<close>

definition tick_length :: "board \<Rightarrow> timer2 \<Rightarrow> nat option" where
  "tick_length B r = map_option (\<lambda>p. 256 * p * 1000000 div F_CPU B) (prescaler B r)"

definition atmega :: "board \<Rightarrow> bool" where
  "atmega B \<longleftrightarrow> COM2A1 B = 7 \<and> TOIE2 B = 0 \<and> CS22 B = 2 \<and> CS21 B = 1 \<and> CS20 B = 0"

section \<open>Properties\<close>

text \<open>The timer is set up for the tick the library counts in: on a 16 MHz board two overflow
  interrupts are exactly \<open>us_per_tick\<close> microseconds apart, the overflow interrupt is the only one of the
  timer that is enabled, and interrupts are on.\<close>

theorem timer_matches_tick:
  assumes "atmega B" and "F_CPU B = 16000000"
  shows "tick_length B (enable_timer2 B r) = Some (unat us_per_tick)
    \<and> TIMSK2 (enable_timer2 B r) = 1 \<and> interrupts_on (enable_timer2 B r)"
  using assms by (simp add: tick_length_def prescaler_def enable_timer2_def atmega_def us_per_tick_def Let_def
      bit_simps)

definition uno :: board where
  "uno = \<lparr>COM2A1 = 7, TOIE2 = 0, CS20 = 0, CS21 = 1, CS22 = 2, F_CPU = 16000000\<rparr>"

theorem timer_matches_tick_witness:
  "tick_length uno (enable_timer2 uno \<lparr>TCCR2A = 0, TCCR2B = 4, TIMSK2 = 7, interrupts_on = False\<rparr>) = Some 128"
  using timer_matches_tick [of uno] by (simp add: atmega_def uno_def us_per_tick_def)

end
