(* ===== verification/RT_Rate.thy ===== *)
theory RT_Rate
  imports RT_Requests RT_Periodic
begin

text \<open>
  Timing of the whole system: the thread of the highest priority against everything the other threads, the
  main program and the timer do in the meantime. A thread that sleeps \<open>n\<close> ticks is off the processor
  for the next \<open>n\<close> ticks and has it at tick \<open>n + 1\<close>; a periodic thread is released every
  \<open>min_period_ticks + 1\<close> ticks.
\<close>

section \<open>Handlers that leave a thread and the time alone\<close>

definition handler_spares :: "addr \<Rightarrow> upcall \<Rightarrow> bool" where
  "handler_spares th H \<longleftrightarrow> (\<forall>f e s s'. H f e s = Some s' \<longrightarrow>
     threads s' th = threads s th \<and> thread_list s' = thread_list s \<and> thread_main_inf s' = thread_main_inf s
     \<and> current_thread s' = current_thread s \<and> global_thread_tick_counter s' = global_thread_tick_counter s
     \<and> tick_counter_last_cost s' = tick_counter_last_cost s \<and> yield_count s' = yield_count s
     \<and> (\<forall>a. map_option (\<lambda>t. (runq_next t, priority t)) (threads s' a)
          = map_option (\<lambda>t. (runq_next t, priority t)) (threads s a)))"

lemma no_handler_spares: "handler_spares th no_handler"
  by (simp add: handler_spares_def no_handler_def)

section \<open>The other threads\<close>

text \<open>Everybody else has a lower priority; the priority of an overrun is lower, too.\<close>

definition below :: "u8 \<Rightarrow> addr \<Rightarrow> addr list \<Rightarrow> kernel \<Rightarrow> bool" where
  "below p th ts s \<longleftrightarrow> runq_wf s ts \<and> th \<in> set ts \<and> th \<noteq> thread_main_inf s \<and> yield_count s = 0
     \<and> SIMPLERTFRAMEWORK_OVERRUN_PRIO < p \<and> (\<forall>a \<in> set ts - {th}. prio (threads s) a < p)"

lemma below_cong:
  assumes "below p th ts s" and "thread_list s' = thread_list s" and "thread_main_inf s' = thread_main_inf s"
    and "current_thread s' \<in> set ts" and "yield_count s' = 0"
    and "\<And>a. a \<in> set ts \<Longrightarrow> map_option runq_next (threads s' a) = map_option runq_next (threads s a)"
    and "\<And>a. a \<in> set ts \<Longrightarrow> a \<noteq> th \<Longrightarrow> prio (threads s' ) a = prio (threads s) a
      \<or> prio (threads s') a = SIMPLERTFRAMEWORK_OVERRUN_PRIO"
  shows "below p th ts s'"
proof -
  have wf: "runq_wf s ts" using assms(1) by (simp add: below_def)
  have "runq_wf s' ts" by (rule runq_wf_cong [OF assms(2-4) assms(6) wf])
  moreover have "prio (threads s') a < p" if "a \<in> set ts - {th}" for a
    using that assms(1) assms(7) [of a] by (auto simp: below_def)
  ultimately show ?thesis using assms(1,3,5) by (simp add: below_def)
qed

lemma below_upd:
  assumes "below p th ts s" and "upd_thread a f s = Some s'"
    and "\<And>t. threads s a = Some t \<Longrightarrow> runq_next (f t) = runq_next t"
    and "\<And>t. threads s a = Some t \<Longrightarrow> a \<noteq> th \<Longrightarrow> priority (f t) = priority t \<or> priority (f t) = SIMPLERTFRAMEWORK_OVERRUN_PRIO"
  shows "below p th ts s'"
proof -
  obtain t where t: "threads s a = Some t" and s': "s' = s\<lparr>threads := (threads s)(a \<mapsto> f t)\<rparr>"
    using assms(2) by (auto simp: upd_thread_Some_iff deref_Some_iff)
  have "runq_wf s ts" using assms(1) by (simp add: below_def)
  then show ?thesis
    using assms(1) assms(3) [OF t] assms(4) [OF t] t s' runq_wf_current
    by (intro below_cong [OF assms(1)]) (auto simp: below_def prio_def)
qed

lemma below_fields:
  assumes "below p th ts s" and "thread_list s' = thread_list s" and "thread_main_inf s' = thread_main_inf s"
    and "current_thread s' = current_thread s" and "yield_count s' = yield_count s" and "threads s' = threads s"
  shows "below p th ts s'"
  using assms runq_wf_fields [OF assms(2-4,6)] by (simp add: below_def)

lemma below_handler:
  assumes "below p th ts s" and "handler_spares th H" and "H f e s = Some s'"
  shows "below p th ts s'"
proof -
  have h: "thread_list s' = thread_list s" "thread_main_inf s' = thread_main_inf s"
      "current_thread s' = current_thread s" "yield_count s' = yield_count s"
      "\<forall>a. map_option (\<lambda>t. (runq_next t, priority t)) (threads s' a)
          = map_option (\<lambda>t. (runq_next t, priority t)) (threads s a)"
    using assms(2,3) unfolding handler_spares_def by blast+
  have "map_option fst (map_option (\<lambda>t. (runq_next t, priority t)) (threads s' a))
      = map_option fst (map_option (\<lambda>t. (runq_next t, priority t)) (threads s a))" for a
    using h(5) by simp
  then have n: "map_option runq_next (threads s' a) = map_option runq_next (threads s a)" for a
    by (simp add: option.map_comp comp_def)
  have p: "prio (threads s') a = prio (threads s) a" for a
    using h(5) [rule_format, of a] by (cases "threads s' a"; cases "threads s a") (simp_all add: prio_def)
  have "runq_wf s ts" using assms(1) by (simp add: below_def)
  with assms(1) h n p runq_wf_current show ?thesis
    by (intro below_cong [OF assms(1)]) (simp_all add: below_def)
qed

text \<open>What a yield leaves of priorities.\<close>

lemma account_priority_cases:
  "priority (account d t) = priority t \<or> priority (account d t) = SIMPLERTFRAMEWORK_OVERRUN_PRIO"
  by (simp add: account_def Let_def)

lemma yield_result_prio:
  assumes "runq_wf s ts"
  shows "prio (threads (yield_result s ts)) a = prio (threads s) a
    \<or> a = current_thread s \<and> prio (threads (yield_result s ts)) a = SIMPLERTFRAMEWORK_OVERRUN_PRIO"
proof -
  obtain t where t: "yield_heap s ts (current_thread s) = Some t"
    using yield_heap_live [OF assms runq_wf_current [OF assms]] by blast
  have e: "threads (yield_result s ts) = (yield_heap s ts)(current_thread s \<mapsto>
      (account (global_thread_tick_counter s - tick_counter_last_cost s) t)\<lparr>sp := hw_sp s - switch_frame\<rparr>)"
    using t by (simp add: yield_result_def switched_def Let_def del: fun_upd_apply)
  have p: "prio (yield_heap s ts) b = prio (threads s) b" for b by (simp add: yield_heap_def)
  show ?thesis
    using account_priority_cases [of "global_thread_tick_counter s - tick_counter_last_cost s" t] t p [of a]
    unfolding e by (auto simp: prio_def)
qed

lemma below_yield_result:
  assumes "below p th ts s"
  shows "below p th ts (yield_result s ts)"
proof -
  have wf: "runq_wf s ts" using assms by (simp add: below_def)
  show ?thesis
    using assms yield_result_prio [OF wf]
    by (intro below_cong [OF assms]) (auto simp: yield_pick_mem [OF wf] yield_result_next [OF wf] below_def)
qed

section \<open>The sleeping thread\<close>

text \<open>The fields of a periodic thread that its own body reads.\<close>

definition profile :: "thread \<Rightarrow> u8 \<times> u8 \<times> u32 \<times> u32 \<times> addr" where
  "profile t = (priority t, block_pattern t, min_period_ticks t, max_cost_ticks t, executor t)"

lemma profile_refresh [simp]: "profile (refresh now carry t) = profile t"
  by (simp add: profile_def refresh_def wake_check_def signal_support_def Let_def)

definition asleep :: "u32 \<Rightarrow> thread \<Rightarrow> bool" where
  "asleep w t \<longleftrightarrow> status t = SIMPLERTFRAMEWORK_SLEPT \<and> ticks_to_wait t = w \<and> carry_ticks_to_wait t = 0
     \<and> blocked_semaphore t = NULL"

definition dozing :: "u8 \<times> u8 \<times> u32 \<times> u32 \<times> addr \<Rightarrow> u32 \<Rightarrow> u32 \<Rightarrow> addr list \<Rightarrow> addr \<Rightarrow> kernel \<Rightarrow> bool" where
  "dozing c g w ts th s \<longleftrightarrow> below (fst c) th ts s \<and> current_thread s \<noteq> th \<and> global_thread_tick_counter s = g \<and> g \<le> w
     \<and> (\<exists>t. threads s th = Some t \<and> profile t = c \<and> asleep w t)"

lemma asleep_refresh: "asleep w t \<Longrightarrow> now \<le> w \<Longrightarrow> asleep w (refresh now carry t)"
  using refresh_slept [of t "carry_ticks_to_wait t" carry now] by (auto simp: asleep_def)

lemma asleep_wakes: "asleep w t \<Longrightarrow> w < now \<Longrightarrow> status (refresh now carry t) = SIMPLERTFRAMEWORK_ACTIVE"
  using refresh_slept [of t "carry_ticks_to_wait t" carry now] by (simp add: asleep_def)

lemma dozing_upd:
  assumes "dozing c g w ts th s" and "upd_thread a f s = Some s'" and "a \<noteq> th"
    and "\<And>t. threads s a = Some t \<Longrightarrow> runq_next (f t) = runq_next t \<and> priority (f t) = priority t"
  shows "dozing c g w ts th s'"
proof -
  have "below (fst c) th ts s'"
    by (rule below_upd [OF _ assms(2)]) (use assms(1,4) in \<open>auto simp: dozing_def\<close>)
  moreover obtain t where "s' = s\<lparr>threads := (threads s)(a \<mapsto> f t)\<rparr>"
    using assms(2) by (auto simp: upd_thread_Some_iff)
  ultimately show ?thesis using assms(1,3) by (simp add: dozing_def)
qed

lemma dozing_fields:
  assumes "dozing c g w ts th s" and "thread_list s' = thread_list s" and "thread_main_inf s' = thread_main_inf s"
    and "current_thread s' = current_thread s" and "yield_count s' = yield_count s" and "threads s' = threads s"
    and "global_thread_tick_counter s' = global_thread_tick_counter s"
  shows "dozing c g w ts th s'"
  using assms below_fields [OF _ assms(2-6)] by (simp add: dozing_def)

lemma dozing_handler:
  assumes "dozing c g w ts th s" and "handler_spares th H" and "H f e s = Some s'"
  shows "dozing c g w ts th s'"
proof -
  have "threads s' th = threads s th" "current_thread s' = current_thread s"
    "global_thread_tick_counter s' = global_thread_tick_counter s"
    using assms(2,3) unfolding handler_spares_def by blast+
  with assms(1) below_handler [OF _ assms(2,3)] show ?thesis by (simp add: dozing_def)
qed

lemma dozing_deliver:
  assumes "dozing c g w ts th s" and "handler_spares th H" and "ats_deliver H s = Some s'"
  shows "dozing c g w ts th s'"
proof -
  have "dozing c g w ts th s \<longrightarrow> dozing c g w ts th s'"
  proof (rule ats_deliver_frame [where R = "\<lambda>s s'. dozing c g w ts th s \<longrightarrow> dozing c g w ts th s'", OF _ _ _ _ assms(3)])
    show "dozing c g w ts th s \<longrightarrow> dozing c g w ts th s1"
      if "upd_thread (current_thread s) (\<lambda>t. t\<lparr>ats_pending := ats_pending t - 1\<rparr>) s = Some s1" for s s1
    proof
      assume d: "dozing c g w ts th s"
      then have "current_thread s \<noteq> th" by (simp add: dozing_def)
      with dozing_upd [OF d that] show "dozing c g w ts th s1" by simp
    qed
    show "dozing c g w ts th s \<longrightarrow> dozing c g w ts th s1" if "H f e s = Some s1" for f e s s1
      using dozing_handler [OF _ assms(2) that] by blast
  qed auto
  with assms(1) show ?thesis by blast
qed

lemma dozing_yield_result:
  assumes "dozing c g w ts th s"
  shows "dozing c g w ts th (yield_result s ts)"
proof -
  let ?g = "global_thread_tick_counter s"
  from assms obtain t where b: "below (fst c) th ts s" and ne: "current_thread s \<noteq> th" and g: "?g = g" "?g \<le> w"
    and t: "threads s th = Some t" "profile t = c" "asleep w t" unfolding dozing_def by blast
  have wf: "runq_wf s ts" and mem: "th \<in> set ts" and main: "th \<noteq> thread_main_inf s"
    using b by (simp_all add: below_def)
  let ?u = "refresh ?g (carry_tick_counter s) t"
  have u: "asleep w ?u" by (rule asleep_refresh [OF t(3) g(2)])
  have "yield_heap s ts th = Some ?u" using t mem by (simp add: yield_heap_def refresh_on_def)
  with u have "\<not> active (yield_heap s ts) th" by (simp add: active_def asleep_def rt_consts)
  then have "yield_pick s ts \<noteq> th"
    using pick_active [of "yield_heap s ts" "current_thread s" "thread_main_inf s" "ring_after (current_thread s) ts"] main
    unfolding yield_pick_def by metis
  moreover have "threads (yield_result s ts) th = Some ?u"
    using yield_result_other [OF wf mem] ne t by simp
  ultimately show ?thesis using below_yield_result [OF b] u t(2) g by (simp add: dozing_def)
qed

lemma dozing_yield:
  assumes "dozing c g w ts th s" and "handler_spares th H" and "thread_yield H s = Some s'"
  shows "dozing c g w ts th s'"
proof -
  have "runq_wf s ts" using assms(1) by (simp add: dozing_def below_def)
  with assms(3) have "ats_deliver H (yield_result s ts) = Some s'" by (simp add: thread_yield_exact)
  with dozing_deliver [OF dozing_yield_result [OF assms(1)] assms(2)] show ?thesis .
qed

lemma dozing_upd_yield:
  assumes "dozing c g w ts th s" and "handler_spares th H" and "upd_thread a f s = Some s1" and "thread_yield H s1 = Some s'"
    and "a \<noteq> th" and "\<And>t. threads s a = Some t \<Longrightarrow> runq_next (f t) = runq_next t \<and> priority (f t) = priority t"
  shows "dozing c g w ts th s'"
  using dozing_yield [OF dozing_upd [OF assms(1,3,5,6)] assms(2,4)] .

lemma dozing_wf: "dozing c g w ts th s \<Longrightarrow> runq_wf s ts" "dozing c g w ts th s \<Longrightarrow> kernel_wf s"
  "dozing c g w ts th s \<Longrightarrow> current_thread s \<noteq> th"
  by (auto simp: dozing_def below_def intro: kernel_wfI)

lemma set_sleep_priority [simp]: "priority (set_sleep n now t) = priority t"
  by (simp add: set_sleep_def Let_def)

lemma dozing_sleep:
  assumes "dozing c g w ts th s" and "handler_spares th H" and "tick_sleep H n s = Some s'"
  shows "dozing c g w ts th s'"
proof -
  obtain s1 where "upd_thread (current_thread s) (set_sleep n (global_thread_tick_counter s)) s = Some s1"
    and "thread_yield H s1 = Some s'"
    using assms(3) unfolding tick_sleep_def bind_eq_Some_conv by blast
  then show ?thesis by (rule dozing_upd_yield [OF assms(1,2)]) (use dozing_wf [OF assms(1)] in simp_all)
qed

lemma dozing_usleep:
  assumes "dozing c g w ts th s" and "handler_spares th H" and "thread_usleep H n s = Some s'"
  shows "dozing c g w ts th s'"
proof -
  obtain s1 where "upd_thread (current_thread s) (\<lambda>t. t\<lparr>status := SIMPLERTFRAMEWORK_SLEPT\<rparr>) s = Some s1"
    and "tick_sleep H (n div us_per_tick) s1 = Some s'"
    using assms(3) unfolding thread_usleep_def bind_eq_Some_conv by blast
  with dozing_sleep [OF dozing_upd [OF assms(1)] assms(2)] dozing_wf [OF assms(1)] show ?thesis by simp
qed

lemma dozing_block:
  assumes "dozing c g w ts th s" and "handler_spares th H" and "thread_block H s = Some s'"
  shows "dozing c g w ts th s'"
proof -
  obtain t where t: "deref (current_thread s) s = Some t" using kernel_wf_current [OF dozing_wf(2) [OF assms(1)]] .
  obtain s1 where s1: "upd_thread (current_thread s) (\<lambda>t. t\<lparr>status := SIMPLERTFRAMEWORK_BLOCKED\<rparr>) s = Some s1"
    using upd_current_ok [OF dozing_wf(2) [OF assms(1)]] .
  show ?thesis
  proof (cases "status t = SIMPLERTFRAMEWORK_ACTIVE")
    case True
    with assms(3) t s1 have "thread_yield H s1 = Some s'" by (simp add: thread_block_def)
    with s1 show ?thesis by (rule dozing_upd_yield [OF assms(1,2)]) (use dozing_wf [OF assms(1)] in simp_all)
  qed (use assms(1,3) t in \<open>simp add: thread_block_def\<close>)
qed

lemma dozing_unblock:
  assumes "dozing c g w ts th s" and "handler_spares th H" and "a \<noteq> th" and "thread_unblock H a s = Some s'"
  shows "dozing c g w ts th s'"
proof -
  from assms(4) obtain t where t: "deref a s = Some t" by (auto simp: thread_unblock_def bind_eq_Some_conv)
  obtain s1 where s1: "upd_thread a (\<lambda>t. t\<lparr>status := SIMPLERTFRAMEWORK_ACTIVE\<rparr>) s = Some s1"
    using t by (auto simp: upd_thread_Some_iff)
  show ?thesis
  proof (cases "status t = SIMPLERTFRAMEWORK_BLOCKED")
    case True
    with assms(4) t s1 have "thread_yield H s1 = Some s'" by (simp add: thread_unblock_def)
    with s1 show ?thesis by (rule dozing_upd_yield [OF assms(1,2)]) (use assms(3) in simp_all)
  qed (use assms(1,4) t in \<open>simp add: thread_unblock_def\<close>)
qed

lemma signal_update_priority [simp]: "priority (snd (signal_update now t)) = priority t"
  by (simp add: signal_update_def)

lemma dozing_signal:
  assumes "dozing c g w ts th s" and "handler_spares th H" and "a \<noteq> th" and "thread_signal H a s = Some (r, s')"
  shows "dozing c g w ts th s'"
proof (cases "a = NULL")
  case True
  with assms(1,4) show ?thesis by (simp add: thread_signal_def)
next
  case False
  with assms(4) obtain t s1 where t: "deref a s = Some t"
    and u: "upd_thread a (\<lambda>_. snd (signal_update (global_thread_tick_counter s) t)) s = Some s1"
    and b: "thread_unblock H a s1 = Some s'"
    by (auto simp: thread_signal_def bind_eq_Some_conv case_prod_beta)
  from t have "dozing c g w ts th s1"
    by (intro dozing_upd [OF assms(1) u assms(3)]) (simp add: deref_Some_iff)
  then show ?thesis by (rule dozing_unblock [OF _ assms(2,3) b])
qed

lemma dozing_ATS_signal:
  assumes "dozing c g w ts th s" and "handler_spares th H" and "a \<noteq> th" and "thread_ATS_signal H a s = Some (r, s')"
  shows "dozing c g w ts th s'"
proof -
  obtain s1 where "upd_thread a (\<lambda>t. t\<lparr>ats_pending := ats_pending t + 1\<rparr>) s = Some s1" and "thread_yield H s1 = Some s'"
    using assms(4) unfolding thread_ATS_signal_def bind_eq_Some_conv by blast
  then show ?thesis by (rule dozing_upd_yield [OF assms(1,2)]) (use assms(3) in simp_all)
qed

lemma dozing_ATS_enable:
  assumes "dozing c g w ts th s" and "handler_spares th H" and "thread_ATS_enable H s = Some s'"
  shows "dozing c g w ts th s'"
proof -
  obtain t where t: "deref (current_thread s) s = Some t" using kernel_wf_current [OF dozing_wf(2) [OF assms(1)]] .
  obtain s1 where s1: "upd_thread (current_thread s) (\<lambda>t. t\<lparr>ats_active := 1\<rparr>) s = Some s1"
    using upd_current_ok [OF dozing_wf(2) [OF assms(1)]] .
  show ?thesis
  proof (cases "ats_active t = 0")
    case True
    with assms(3) t s1 have "thread_yield H s1 = Some s'" by (simp add: thread_ATS_enable_def)
    with s1 show ?thesis by (rule dozing_upd_yield [OF assms(1,2)]) (use dozing_wf [OF assms(1)] in simp_all)
  qed (use assms(1,3) t in \<open>simp add: thread_ATS_enable_def\<close>)
qed

lemma dozing_ATS_disable:
  assumes "dozing c g w ts th s" and "thread_ATS_disable s = Some s'"
  shows "dozing c g w ts th s'"
proof -
  obtain t where t: "deref (current_thread s) s = Some t" using kernel_wf_current [OF dozing_wf(2) [OF assms(1)]] .
  show ?thesis
  proof (cases "ats_active t = 1")
    case True
    with assms(2) t have "upd_thread (current_thread s) (\<lambda>t. t\<lparr>ats_active := 0\<rparr>) s = Some s'"
      by (simp add: thread_ATS_disable_def)
    then show ?thesis by (rule dozing_upd [OF assms(1)]) (use dozing_wf [OF assms(1)] in simp_all)
  qed (use assms t in \<open>simp add: thread_ATS_disable_def\<close>)
qed

lemma dozing_P:
  assumes "dozing c g w ts th s" and "handler_spares th H" and "thread_semaphore_P H sem s = Some s'"
  shows "dozing c g w ts th s'"
proof (cases "sem = NULL")
  case True
  with assms show ?thesis by (simp add: thread_semaphore_P_def)
next
  case False
  with assms(3) obtain v where v: "sems s sem = Some v" by (auto simp: thread_semaphore_P_def bind_eq_Some_conv)
  show ?thesis
  proof (cases "sint v \<le> 0")
    case True
    obtain s1 where u: "upd_thread (current_thread s) (\<lambda>t. t\<lparr>blocked_semaphore := sem, status := SIMPLERTFRAMEWORK_SEM_BLOCKED\<rparr>) s = Some s1"
      using upd_current_ok [OF dozing_wf(2) [OF assms(1)]] .
    with assms(3) False v True have "thread_yield H s1 = Some s'" by (simp add: thread_semaphore_P_def)
    with u show ?thesis by (rule dozing_upd_yield [OF assms(1,2)]) (use dozing_wf [OF assms(1)] in simp_all)
  next
    case pos: False
    with assms(3) False v have "s' = s\<lparr>sems := (sems s)(sem \<mapsto> v - 1)\<rparr>" by (simp add: thread_semaphore_P_def)
    then show ?thesis by (intro dozing_fields [OF assms(1)]) simp_all
  qed
qed

lemma dozing_V:
  assumes "dozing c g w ts th s" and "handler_spares th H" and "thread_semaphore_V H sem s = Some s'"
  shows "dozing c g w ts th s'"
proof (cases "sem = NULL")
  case True
  with assms show ?thesis by (simp add: thread_semaphore_V_def)
next
  case False
  let ?c = "sem_choice sem ts s"
  have wf: "runq_wf s ts" by (rule dozing_wf [OF assms(1)])
  have sc: "sem_scan sem (thread_list s) NULL s = Some ?c" by (rule sem_scan_wf [OF wf])
  show ?thesis
  proof (cases "?c = NULL")
    case True
    with assms(3) False sc obtain v where "s' = s\<lparr>sems := (sems s)(sem \<mapsto> v)\<rparr>"
      by (auto simp: thread_semaphore_V_def bind_eq_Some_conv)
    then show ?thesis by (intro dozing_fields [OF assms(1)]) simp_all
  next
    case c: False
    with sem_choice_cases [OF wf, of sem] have w: "waits (threads s) sem ?c" by blast
    have "?c \<noteq> th"
      using w False assms(1) by (auto simp: dozing_def waits_def asleep_def)
    moreover from assms(3) False sc c obtain s1 where
      "upd_thread ?c (\<lambda>t. t\<lparr>status := SIMPLERTFRAMEWORK_ACTIVE, blocked_semaphore := NULL\<rparr>) s = Some s1"
      "thread_yield H s1 = Some s'"
      by (auto simp: thread_semaphore_V_def bind_eq_Some_conv)
    ultimately show ?thesis using dozing_upd_yield [OF assms(1,2)] by fastforce
  qed
qed

lemma dozing_charge:
  assumes "dozing c g w ts th s" and "get_current_cost_ticks s = Some (n, s')"
  shows "dozing c g w ts th s'"
proof -
  let ?d = "global_thread_tick_counter s - tick_counter_last_cost s"
  from assms(2) obtain s1 where u: "upd_thread (current_thread s) (\<lambda>t. t\<lparr>current_cost_ticks := current_cost_ticks t + ?d\<rparr>) s = Some s1"
    and s': "s' = s1\<lparr>tick_counter_last_cost := tick_counter_last_cost s1 + ?d\<rparr>"
    by (auto simp: get_current_cost_ticks_def charge_current_def bind_eq_Some_conv Let_def)
  have "dozing c g w ts th s1"
    by (rule dozing_upd [OF assms(1) u]) (use dozing_wf [OF assms(1)] in simp_all)
  then show ?thesis by (rule dozing_fields) (simp_all add: s')
qed

section \<open>A run of everybody else\<close>

text \<open>Requests that do not name the thread.\<close>

fun not_about :: "addr \<Rightarrow> request \<Rightarrow> bool" where
  "not_about th (Unblock a) = (a \<noteq> th)"
| "not_about th (Signal a) = (a \<noteq> th)"
| "not_about th (ATS_signal a) = (a \<noteq> th)"
| "not_about th _ = True"

lemma dozing_serve:
  assumes "dozing c g w ts th s" and "handler_spares th H" and "not_about th r" and "r \<noteq> Tick" and "serve H r s = Some s'"
  shows "dozing c g w ts th s'"
proof (cases r)
  case Yield then show ?thesis using dozing_yield [OF assms(1,2)] assms(5) by simp
next case (Tick_sleep n) then show ?thesis using dozing_sleep [OF assms(1,2)] assms(5) by simp
next case (Usleep n) then show ?thesis using dozing_usleep [OF assms(1,2)] assms(5) by simp
next case Block then show ?thesis using dozing_block [OF assms(1,2)] assms(5) by simp
next case (Unblock a) then show ?thesis using dozing_unblock [OF assms(1,2)] assms(3,5) by simp
next case (Signal a) then show ?thesis using dozing_signal [OF assms(1,2)] assms(3,5) by auto
next case (ATS_signal a) then show ?thesis using dozing_ATS_signal [OF assms(1,2)] assms(3,5) by auto
next case ATS_enable then show ?thesis using dozing_ATS_enable [OF assms(1,2)] assms(5) by simp
next case ATS_disable then show ?thesis using dozing_ATS_disable [OF assms(1)] assms(5) by simp
next case (Sem_P sem) then show ?thesis using dozing_P [OF assms(1,2)] assms(5) by simp
next case (Sem_V sem) then show ?thesis using dozing_V [OF assms(1,2)] assms(5) by simp
next case Charge then show ?thesis using dozing_charge [OF assms(1)] assms(5) by auto
qed (use assms(4) in simp)

section \<open>Ticks\<close>

lemma isr_state_fields:
  "thread_list (isr_state s) = thread_list s" "thread_main_inf (isr_state s) = thread_main_inf s"
  "current_thread (isr_state s) = current_thread s" "threads (isr_state s) = threads s"
  "yield_count (isr_state s) = 0" "global_thread_tick_counter (isr_state s) = global_thread_tick_counter s + 1"
  by (simp_all add: isr_state_def Let_def)

lemma below_isr: "below p th ts s \<Longrightarrow> below p th ts (isr_state s)"
  by (rule below_fields) (simp_all add: isr_state_fields below_def)

lemma dozing_tick:
  assumes "dozing c g w ts th s" and "handler_spares th H" and "g < w" and "timer_isr H s = Some s'"
  shows "dozing c (g + 1) w ts th s'"
proof -
  have "yield_count s = 0" using assms(1) by (simp add: dozing_def below_def)
  then have y: "thread_yield H (isr_state s) = Some s'" using assms(4) by (simp add: timer_isr_eq)
  have "g + 1 \<le> w" using assms(3) by (rule inc_le)
  then have "dozing c (g + 1) w ts th (isr_state s)"
    using assms(1) below_isr by (simp add: dozing_def isr_state_fields)
  then show ?thesis by (rule dozing_yield [OF _ assms(2) y])
qed

text \<open>The thread with the processor, all its ticks charged.\<close>

definition awake :: "u8 \<times> u8 \<times> u32 \<times> u32 \<times> addr \<Rightarrow> addr list \<Rightarrow> addr \<Rightarrow> kernel \<Rightarrow> bool" where
  "awake c ts th s \<longleftrightarrow> below (fst c) th ts s \<and> current_thread s = th
     \<and> (\<exists>t. threads s th = Some t \<and> profile t = c \<and> blocked_semaphore t = NULL)"

lemma awake_upd:
  assumes "awake c ts th s" and "upd_thread th f s = Some s'"
    and "\<And>t. runq_next (f t) = runq_next t \<and> profile (f t) = profile t \<and> blocked_semaphore (f t) = blocked_semaphore t"
  shows "awake c ts th s'"
proof -
  have "below (fst c) th ts s'"
    by (rule below_upd [OF _ assms(2)]) (use assms(1,3) in \<open>auto simp: awake_def\<close>)
  moreover obtain t where "threads s th = Some t" "s' = s\<lparr>threads := (threads s)(th \<mapsto> f t)\<rparr>"
    using assms(2) by (auto simp: upd_thread_Some_iff deref_Some_iff)
  ultimately show ?thesis using assms(1,3) by (auto simp: awake_def)
qed

lemma awake_handler:
  assumes "awake c ts th s" and "handler_spares th H" and "H f e s = Some s'"
  shows "awake c ts th s'" and "global_thread_tick_counter s' = global_thread_tick_counter s"
    and "tick_counter_last_cost s' = tick_counter_last_cost s" and "threads s' th = threads s th"
proof -
  show h: "threads s' th = threads s th" "global_thread_tick_counter s' = global_thread_tick_counter s"
    "tick_counter_last_cost s' = tick_counter_last_cost s"
    using assms(2,3) unfolding handler_spares_def by blast+
  have "current_thread s' = current_thread s"
    using assms(2,3) unfolding handler_spares_def by blast
  with h assms(1) below_handler [OF _ assms(2,3)] show "awake c ts th s'" by (simp add: awake_def)
qed

definition at_tick :: "u32 \<Rightarrow> kernel \<Rightarrow> bool" where
  "at_tick g s \<longleftrightarrow> global_thread_tick_counter s = g \<and> tick_counter_last_cost s = g"

lemma upd_thread_at_tick:
  assumes "upd_thread a f s = Some s'"
  shows "at_tick g s' = at_tick g s"
proof -
  obtain t where "s' = s\<lparr>threads := (threads s)(a \<mapsto> f t)\<rparr>" using assms by (auto simp: upd_thread_Some_iff)
  then show ?thesis by (simp add: at_tick_def)
qed

lemma awake_deliver:
  assumes "awake c ts th s" and "at_tick g s" and "handler_spares th H" and "ats_deliver H s = Some s'"
  shows "awake c ts th s' \<and> at_tick g s'"
proof -
  let ?P = "\<lambda>s. awake c ts th s \<and> at_tick g s"
  have "?P s \<longrightarrow> ?P s'"
  proof (rule ats_deliver_frame [where R = "\<lambda>s s'. ?P s \<longrightarrow> ?P s'", OF _ _ _ _ assms(4)])
    show "?P s \<longrightarrow> ?P s1"
      if u: "upd_thread (current_thread s) (\<lambda>t. t\<lparr>ats_pending := ats_pending t - 1\<rparr>) s = Some s1" for s s1
    proof
      assume p: "?P s"
      then have a: "awake c ts th s" and "current_thread s = th" by (simp_all add: awake_def)
      with u have "upd_thread th (\<lambda>t. t\<lparr>ats_pending := ats_pending t - 1\<rparr>) s = Some s1" by simp
      then have "awake c ts th s1" by (rule awake_upd [OF a]) (simp add: profile_def)
      moreover have "at_tick g s1" using p upd_thread_at_tick [OF u] by blast
      ultimately show "?P s1" by blast
    qed
    show "?P s \<longrightarrow> ?P s1" if "H f e s = Some s1" for f e s s1
      using awake_handler [of c ts th s, OF _ assms(3) that] by (simp add: at_tick_def)
  qed auto
  with assms(1,2) show ?thesis by blast
qed

lemma dozing_dispatch:
  assumes "dozing c w w ts th s" and "handler_spares th H" and "w \<noteq> - 1"
    and "timer_isr H s = Some s'"
  shows "awake c ts th s' \<and> at_tick (w + 1) s'"
proof -
  let ?i = "isr_state s"
  from assms(1) obtain t where b: "below (fst c) th ts s" and ne: "current_thread s \<noteq> th"
    and now: "global_thread_tick_counter s = w" and t: "threads s th = Some t" "profile t = c" "asleep w t"
    unfolding dozing_def by blast
  have bi: "below (fst c) th ts ?i" by (rule below_isr [OF b])
  then have wf: "runq_wf ?i ts" and mem: "th \<in> set ts" by (simp_all add: below_def)
  have "yield_count s = 0" using b by (simp add: below_def)
  then have d: "ats_deliver H (yield_result ?i ts) = Some s'"
    using assms(4) by (simp add: timer_isr_eq thread_yield_exact [OF wf])
  let ?u = "refresh (w + 1) (carry_tick_counter ?i) t"
  have "w < w + 1" using assms(3) inc_less_eq_self_iff_eq [of w] by (simp add: not_le [symmetric])
  then have "status ?u = SIMPLERTFRAMEWORK_ACTIVE" by (rule asleep_wakes [OF t(3)])
  moreover have h: "yield_heap ?i ts th = Some ?u"
    using t mem now by (simp add: yield_heap_def refresh_on_def isr_state_fields)
  ultimately have act: "active (yield_heap ?i ts) th" by (simp add: active_def)
  have "fst c = prio (threads ?i) th" using t by (auto simp: profile_def prio_def isr_state_fields)
  then have pick: "yield_pick ?i ts = th"
    using bi ne by (intro yield_pick_top [OF wf mem act]) (auto simp: below_def isr_state_fields)
  have "threads (yield_result ?i ts) th = Some ?u"
    using yield_result_other [OF wf mem] ne t now by (simp add: isr_state_fields)
  then have "awake c ts th (yield_result ?i ts)"
    using below_yield_result [OF bi] t pick by (simp add: awake_def asleep_def)
  moreover have "at_tick (w + 1) (yield_result ?i ts)"
    using now by (simp add: at_tick_def isr_state_fields)
  ultimately show ?thesis using awake_deliver assms(2) d by blast
qed

section \<open>Runs\<close>

text \<open>
  A run from \<open>s\<close> in which \<open>th\<close> does not have the processor: valid requests of the others that do not
  name \<open>th\<close>, timer interrupts and returns from them, in any order. It carries the number of ticks and stops
  at the latest when \<open>th\<close> has the processor.
\<close>

inductive elapsed :: "upcall \<Rightarrow> addr \<Rightarrow> kernel \<Rightarrow> nat \<Rightarrow> kernel \<Rightarrow> bool" for H th s where
  begun: "elapsed H th s 0 s"
| ticked: "elapsed H th s k s1 \<Longrightarrow> current_thread s1 \<noteq> th \<Longrightarrow> timer_isr H s1 = Some s2 \<Longrightarrow> elapsed H th s (Suc k) s2"
| worked: "elapsed H th s k s1 \<Longrightarrow> current_thread s1 \<noteq> th \<Longrightarrow> r \<noteq> Tick \<Longrightarrow> not_about th r \<Longrightarrow> valid r s1
    \<Longrightarrow> serve H r s1 = Some s2 \<Longrightarrow> elapsed H th s k s2"
| resumed: "elapsed H th s k s1 \<Longrightarrow> current_thread s1 \<noteq> th \<Longrightarrow> elapsed H th s k (timer_isr_resumed s1)"

lemma dozing_resumed: "dozing c g w ts th s \<Longrightarrow> dozing c g w ts th (timer_isr_resumed s)"
  by (rule dozing_fields) (simp_all add: timer_isr_resumed_def)

lemma elapsed_dozing:
  assumes "dozing c g w ts th s" and "handler_spares th H" and "w \<noteq> - 1" and "elapsed H th s k s'"
  shows "k \<le> unat w - unat g \<and> dozing c (g + of_nat k) w ts th s'
    \<or> k = Suc (unat w - unat g) \<and> awake c ts th s' \<and> at_tick (w + 1) s'"
  using assms(4)
proof induction
  case begun
  with assms(1) show ?case by simp
next
  case (ticked k s1 s2)
  then have k: "k \<le> unat w - unat g" and d: "dozing c (g + of_nat k) w ts th s1" by (auto simp: awake_def)
  have gw: "unat g \<le> unat w" using assms(1) by (simp add: dozing_def word_le_nat_alt)
  then have g: "unat (g + of_nat k) = unat g + k"
    using k unat_u32 [of w] by (subst unat_plus_of_nat) simp
  show ?case
  proof (cases "k = unat w - unat g")
    case True
    then have "unat (g + of_nat k) = unat w" using g gw by simp
    then have "g + of_nat k = w" by (simp only: word_unat_eq_iff)
    with d have "dozing c w w ts th s1" by simp
    with dozing_dispatch [OF this assms(2,3) ticked.hyps(3)] True show ?thesis by simp
  next
    case False
    with k gw g have "g + of_nat k < w" by (simp add: word_less_nat_alt)
    from dozing_tick [OF d assms(2) this ticked.hyps(3)] False k show ?thesis by (simp add: ac_simps)
  qed
next
  case (worked k s1 r s2)
  then have "k \<le> unat w - unat g" and "dozing c (g + of_nat k) w ts th s1" by (auto simp: awake_def)
  with dozing_serve [OF _ assms(2) worked.hyps(4,3,6)] show ?case by blast
next
  case (resumed k s1)
  then have "k \<le> unat w - unat g" and "dozing c (g + of_nat k) w ts th s1" by (auto simp: awake_def)
  with dozing_resumed show ?case by blast
qed

text \<open>There is such a run, if only of ticks.\<close>

lemma elapsed_exists:
  assumes "dozing c g w ts th s" and "handler_ok H" and "handler_spares th H" and "w \<noteq> - 1"
  shows "k \<le> Suc (unat w - unat g) \<Longrightarrow> \<exists>s'. elapsed H th s k s'"
proof (induction k)
  case 0
  show ?case using elapsed.begun by blast
next
  case (Suc k)
  then obtain s1 where e: "elapsed H th s k s1" by auto
  with elapsed_dozing [OF assms(1,3,4) e] Suc.prems have d: "dozing c (g + of_nat k) w ts th s1" by auto
  obtain s2 where "timer_isr H s1 = Some s2" using timer_isr_safe [OF assms(2) dozing_wf(2) [OF d]] by blast
  with elapsed.ticked [OF e dozing_wf(3) [OF d]] show ?case by blast
qed

section \<open>From the call to the sleep\<close>

lemma profile_set_sleep [simp]: "profile (set_sleep n now t) = profile t"
  by (simp add: profile_def set_sleep_def Let_def)

text \<open>The thread is within its budget when it goes to sleep.\<close>

definition in_budget :: "kernel \<Rightarrow> addr \<Rightarrow> bool" where
  "in_budget s th \<longleftrightarrow> (\<exists>t. threads s th = Some t
     \<and> current_cost_ticks t + (global_thread_tick_counter s - tick_counter_last_cost s) \<le> max_cost_ticks t)"

lemma below_runq: "below p th ts s \<Longrightarrow> runq_wf s ts" "below p th ts s \<Longrightarrow> th \<in> set ts"
  "below p th ts s \<Longrightarrow> th \<noteq> thread_main_inf s" "below p th ts s \<Longrightarrow> yield_count s = 0"
  by (simp_all add: below_def)

lemma yield_result_current:
  assumes "runq_wf s ts" and "threads s (current_thread s) = Some t"
  shows "threads (yield_result s ts) (current_thread s) = Some ((account (global_thread_tick_counter s - tick_counter_last_cost s)
    (refresh (global_thread_tick_counter s) (carry_tick_counter s) t))\<lparr>sp := hw_sp s - switch_frame\<rparr>)"
  using assms(2) runq_wf_current [OF assms(1)]
  by (simp add: yield_result_def switched_def Let_def yield_heap_def refresh_on_def)

lemma account_in_budget:
  assumes "current_cost_ticks t + d \<le> max_cost_ticks t"
  shows "account d t = t\<lparr>current_cost_ticks := current_cost_ticks t + d\<rparr>"
  using assms by (simp add: account_def Let_def not_less)

lemma asleep_yields:
  assumes "below (fst c) th ts s" and "current_thread s = th" and "threads s th = Some t" and "profile t = c"
    and "asleep w t" and "global_thread_tick_counter s = g" and "g \<le> w" and "in_budget s th"
  shows "dozing c g w ts th (yield_result s ts)"
proof -
  have wf: "runq_wf s ts" by (rule below_runq [OF assms(1)])
  let ?d = "g - tick_counter_last_cost s" and ?u = "refresh g (carry_tick_counter s) t"
  have b: "current_cost_ticks ?u + ?d \<le> max_cost_ticks ?u"
    using assms(3,6,8) by (simp add: in_budget_def)
  have u: "asleep w ?u" by (rule asleep_refresh [OF assms(5,7)])
  have "threads (yield_result s ts) th
      = Some (?u\<lparr>current_cost_ticks := current_cost_ticks ?u + ?d, sp := hw_sp s - switch_frame\<rparr>)"
    using yield_result_current [OF wf] assms(2,3,6) account_in_budget [OF b] by simp
  moreover have "asleep w (?u\<lparr>current_cost_ticks := current_cost_ticks ?u + ?d, sp := hw_sp s - switch_frame\<rparr>)"
    using u by (simp add: asleep_def)
  moreover have "profile (?u\<lparr>current_cost_ticks := current_cost_ticks ?u + ?d, sp := hw_sp s - switch_frame\<rparr>) = c"
    using profile_refresh [of g "carry_tick_counter s" t] assms(4) by (simp add: profile_def)
  moreover have "yield_pick s ts \<noteq> th"
    using pick_active [of "yield_heap s ts" "current_thread s" "thread_main_inf s" "ring_after (current_thread s) ts"]
      below_runq(3) [OF assms(1)] assms(2) unfolding yield_pick_def by metis
  ultimately show ?thesis
    using below_yield_result [OF assms(1)] assms(6,7) by (simp add: dozing_def)
qed

lemma set_sleep_asleep:
  assumes "unat now + unat n < 2 ^ 32"
  shows "now \<le> n + now" and "blocked_semaphore t = NULL \<Longrightarrow> asleep (n + now) (set_sleep n now t)"
proof -
  have "unat (n + now) = unat now + unat n" using assms by (simp add: wake_word)
  then show w: "now \<le> n + now" by (simp add: word_le_nat_alt)
  then show "blocked_semaphore t = NULL \<Longrightarrow> asleep (n + now) (set_sleep n now t)"
    using set_sleep_fields [of n now t] by (simp add: asleep_def not_less) (simp add: set_sleep_def Let_def)
qed

lemma sleep_dozes:
  assumes "awake c ts th s" and "in_budget s th" and "handler_spares th H"
    and "unat (global_thread_tick_counter s) + unat n < 2 ^ 32" and "tick_sleep H n s = Some s'"
  shows "dozing c (global_thread_tick_counter s) (n + global_thread_tick_counter s) ts th s'"
proof -
  let ?g = "global_thread_tick_counter s"
  from assms(1) obtain t where b: "below (fst c) th ts s" and cur: "current_thread s = th"
    and t: "threads s th = Some t" "profile t = c" "blocked_semaphore t = NULL" unfolding awake_def by blast
  from assms(5) cur obtain s1 where u: "upd_thread th (set_sleep n ?g) s = Some s1" and y: "thread_yield H s1 = Some s'"
    by (auto simp: tick_sleep_def bind_eq_Some_conv)
  from u t have s1: "s1 = s\<lparr>threads := (threads s)(th \<mapsto> set_sleep n ?g t)\<rparr>"
    by (auto simp: upd_thread_Some_iff deref_Some_iff)
  have b1: "below (fst c) th ts s1" by (rule below_upd [OF b u]) simp_all
  have "in_budget s1 th" using assms(2) t s1 by (simp add: in_budget_def set_sleep_def Let_def)
  moreover have "threads s1 th = Some (set_sleep n ?g t)" "current_thread s1 = th" "global_thread_tick_counter s1 = ?g"
    using s1 cur by simp_all
  moreover have "profile (set_sleep n ?g t) = c" using t by simp
  ultimately have "dozing c ?g (n + ?g) ts th (yield_result s1 ts)"
    using asleep_yields [OF b1 _ _ _ set_sleep_asleep(2) [OF assms(4) t(3)] _ set_sleep_asleep(1) [OF assms(4)]] by blast
  moreover have "ats_deliver H (yield_result s1 ts) = Some s'"
    using y below_runq(1) [OF b1] by (simp add: thread_yield_exact)
  ultimately show ?thesis using dozing_deliver assms(3) by blast
qed

lemma sleep_times:
  fixes now n :: u32
  assumes "unat now + unat n < 2 ^ 32 - 1"
  shows "unat (n + now) - unat now = unat n" and "n + now \<noteq> - 1"
proof -
  have u: "unat (n + now) = unat now + unat n" using assms by (simp add: wake_word)
  then show "unat (n + now) - unat now = unat n" by simp
  show "n + now \<noteq> - 1"
  proof
    assume "n + now = - 1"
    then have "unat (n + now) = 2 ^ 32 - 1" by (simp add: unsigned_minus_1_eq_mask mask_eq_exp_minus_1)
    with u assms show False by simp
  qed
qed

lemma sleep_and_return:
  assumes "awake c ts th s" and "in_budget s th" and "handler_ok H" and "handler_spares th H"
    and "unat (global_thread_tick_counter s) + unat n < 2 ^ 32 - 1"
  shows "\<exists>s1. tick_sleep H n s = Some s1
    \<and> (\<forall>k s2. elapsed H th s1 k s2 \<longrightarrow> k \<le> unat n \<and> current_thread s2 \<noteq> th
      \<or> k = Suc (unat n) \<and> awake c ts th s2 \<and> at_tick (n + global_thread_tick_counter s + 1) s2)
    \<and> (\<forall>k \<le> Suc (unat n). \<exists>s2. elapsed H th s1 k s2)"
proof -
  let ?g = "global_thread_tick_counter s"
  have "kernel_wf s" using assms(1) by (auto simp: awake_def intro: kernel_wfI below_runq)
  then obtain s1 where s1: "tick_sleep H n s = Some s1" using tick_sleep_safe [OF assms(3)] by blast
  from assms(5) have "unat ?g + unat n < 2 ^ 32" by simp
  from sleep_dozes [OF assms(1,2,4) this s1] have d: "dozing c ?g (n + ?g) ts th s1" .
  note t = sleep_times [OF assms(5)]
  have "k \<le> unat n \<and> current_thread s2 \<noteq> th
      \<or> k = Suc (unat n) \<and> awake c ts th s2 \<and> at_tick (n + ?g + 1) s2" if "elapsed H th s1 k s2" for k s2
    using elapsed_dozing [OF d assms(4) t(2) that] dozing_wf(3) unfolding t(1) by blast
  moreover have "\<exists>s2. elapsed H th s1 k s2" if "k \<le> Suc (unat n)" for k
    using elapsed_exists [OF d assms(3,4) t(2), of k] that unfolding t(1) by blast
  ultimately show ?thesis using s1 by blast
qed


text \<open>The thread 0x200 of the demo kernel, with the processor.\<close>

definition demo_top :: kernel where
  "demo_top = demo\<lparr>current_thread := 0x200, tick_counter_last_cost := 7\<rparr>"

definition demo_profile :: "u8 \<times> u8 \<times> u32 \<times> u32 \<times> addr" where
  "demo_profile = (10, 0, 10, 100, 0)"

lemma demo_top_awake: "awake demo_profile demo_list 0x200 demo_top" "in_budget demo_top 0x200"
proof -
  have "runq_wf demo_top demo_list" by (simp add: runq_wf_def demo_top_def demo_defs)
  then have "below 10 0x200 demo_list demo_top"
    by (simp add: below_def demo_top_def demo_defs prio_def rt_consts)
  then show "awake demo_profile demo_list 0x200 demo_top"
    by (simp add: awake_def demo_profile_def profile_def demo_top_def demo_defs)
  show "in_budget demo_top 0x200" by (simp add: in_budget_def demo_top_def demo_defs)
qed


section \<open>The rate of a periodic thread\<close>

text \<open>
  One cycle of \<open>periodic_pattern\<close>, from a release to the next: the job, the checks, the sleep; then a run of
  everybody else until the thread has the processor again; then the steps to the next release.
\<close>

inductive cycle :: "upcall \<Rightarrow> job \<Rightarrow> pattern \<times> kernel \<Rightarrow> pattern \<times> kernel \<Rightarrow> bool" for H E where
  "stage l = Release \<Longrightarrow> pattern_step H E l s = Some (l1, s1) \<Longrightarrow> pattern_step H E l1 s1 = Some (l2, s2)
    \<Longrightarrow> pattern_step H E l2 s2 = Some (l3, s3)
    \<Longrightarrow> elapsed H (this_thread l) s3 k s4 \<Longrightarrow> current_thread s4 = this_thread l
    \<Longrightarrow> pattern_step H E l3 s4 = Some (l4, s5) \<Longrightarrow> pattern_step H E l4 s5 = Some (l5, s6)
    \<Longrightarrow> cycle H E (l, s) (l5, s6)"

inductive_cases cycleE: "cycle H E (l, s) (l', s')"

text \<open>
  A job that, begun on an empty account, returns to its thread within the period and the budget and leaves the
  profile of the thread alone.
\<close>

definition account_empty :: "kernel \<Rightarrow> addr \<Rightarrow> bool" where
  "account_empty s th \<longleftrightarrow> tick_counter_last_cost s = global_thread_tick_counter s
     \<and> (\<exists>t. threads s th = Some t \<and> current_cost_ticks t = 0)"

definition prompt_job :: "u8 \<times> u8 \<times> u32 \<times> u32 \<times> addr \<Rightarrow> addr \<Rightarrow> job \<Rightarrow> bool" where
  "prompt_job c th E \<longleftrightarrow> (\<forall>ts s f. awake c ts th s \<longrightarrow> account_empty s th \<longrightarrow> (\<exists>s'. E f s = Some s'
     \<and> awake c ts th s' \<and> in_budget s' th
     \<and> global_thread_tick_counter s' - global_thread_tick_counter s \<le> fst (snd (snd c))))"

definition at_release :: "u8 \<times> u8 \<times> u32 \<times> u32 \<times> addr \<Rightarrow> addr list \<Rightarrow> addr \<Rightarrow> pattern \<Rightarrow> kernel \<Rightarrow> bool" where
  "at_release c ts th l s \<longleftrightarrow> awake c ts th s \<and> stage l = Release \<and> this_thread l = th
     \<and> fst (snd c) = 0 \<and> snd (snd (snd (snd c))) \<noteq> NULL \<and> at_tick (global_thread_tick_counter s) s"

lemma awake_thread:
  assumes "awake c ts th s"
  obtains t where "threads s th = Some t" and "deref th s = Some t" and "profile t = c" and "current_thread s = th"
proof -
  have "runq_wf s ts" "th \<in> set ts" using assms by (auto simp: awake_def below_def)
  then obtain t where "deref th s = Some t" using runq_wf_deref by blast
  with assms that show ?thesis by (auto simp: awake_def deref_Some_iff)
qed

lemma awake_fields:
  assumes "awake c ts th s" and "thread_list s' = thread_list s" and "thread_main_inf s' = thread_main_inf s"
    and "current_thread s' = current_thread s" and "yield_count s' = yield_count s" and "threads s' = threads s"
  shows "awake c ts th s'"
  using assms below_fields [OF _ assms(2-6)] by (simp add: awake_def)

lemma release_step:
  assumes "at_release c ts th l s" and "prompt_job c th E"
  obtains s1 where "pattern_step H E l s = Some (l\<lparr>thread_counter_us := global_thread_tick_counter s, stage := Executed\<rparr>, s1)"
    and "awake c ts th s1" and "in_budget s1 th"
    and "global_thread_tick_counter s1 - global_thread_tick_counter s \<le> fst (snd (snd c))"
proof -
  from assms(1) have a: "awake c ts th s" and l: "stage l = Release" "this_thread l = th"
    and ex: "snd (snd (snd (snd c))) \<noteq> NULL" and last: "tick_counter_last_cost s = global_thread_tick_counter s"
    by (simp_all add: at_release_def at_tick_def)
  obtain t where t: "deref th s = Some t" "profile t = c" "current_thread s = th" by (rule awake_thread [OF a])
  let ?s = "s\<lparr>threads := (threads s)(th \<mapsto> t\<lparr>current_cost_ticks := 0\<rparr>)\<rparr>"
  have u: "upd_thread th (\<lambda>t. t\<lparr>current_cost_ticks := 0\<rparr>) s = Some ?s" using t by (simp add: upd_thread_def)
  have a': "awake c ts th ?s" by (rule awake_upd [OF a u]) (simp add: profile_def)
  from t have d: "deref th ?s = Some (t\<lparr>current_cost_ticks := 0\<rparr>)" and "th \<noteq> NULL" by (auto simp: deref_Some_iff)
  from last have "account_empty ?s th" by (simp add: account_empty_def)
  with a' assms(2) obtain s1 where "E (executor t) ?s = Some s1" "awake c ts th s1" "in_budget s1 th"
    "global_thread_tick_counter s1 - global_thread_tick_counter ?s \<le> fst (snd (snd c))"
    unfolding prompt_job_def by blast
  moreover have "executor t \<noteq> NULL" using ex t(2) by (auto simp: profile_def)
  ultimately show ?thesis using that [of s1] l t u d by (simp add: pattern_step_def release_job_def)
qed

lemma charged:
  assumes "awake c ts th s" and "in_budget s th"
  obtains n s1 where "get_current_cost_ticks s = Some (n, s1)" and "awake c ts th s1" and "in_budget s1 th"
    and "global_thread_tick_counter s1 = global_thread_tick_counter s"
proof -
  let ?g = "global_thread_tick_counter s" and ?d = "global_thread_tick_counter s - tick_counter_last_cost s"
  obtain t where t: "threads s th = Some t" "deref th s = Some t" "profile t = c" "current_thread s = th"
    by (rule awake_thread [OF assms(1)])
  let ?t = "t\<lparr>current_cost_ticks := current_cost_ticks t + ?d\<rparr>"
  let ?s0 = "s\<lparr>threads := (threads s)(th \<mapsto> ?t)\<rparr>"
  let ?s1 = "s\<lparr>threads := (threads s)(th \<mapsto> ?t), tick_counter_last_cost := ?g\<rparr>"
  have "charge_current s = Some ?s1" using charge_current_exact [of s t] t by simp
  then have g: "get_current_cost_ticks s = Some (current_cost_ticks t + ?d, ?s1)"
    using t by (simp add: get_current_cost_ticks_def deref_Some_iff [of th s]) (simp add: deref_def)
  have "upd_thread th (\<lambda>t. t\<lparr>current_cost_ticks := current_cost_ticks t + ?d\<rparr>) s = Some ?s0"
    using t by (simp add: upd_thread_def)
  then have "awake c ts th ?s0" by (rule awake_upd [OF assms(1)]) (simp add: profile_def)
  then have "awake c ts th ?s1" by (rule awake_fields) simp_all
  moreover have "in_budget ?s1 th" using assms(2) t by (simp add: in_budget_def)
  ultimately show ?thesis by (intro that [OF g]) simp_all
qed

lemma handler_called:
  assumes "awake c ts th s" and "in_budget s th" and "handler_ok H" and "handler_spares th H"
  shows "\<exists>s'. (if b then H f e s else Some s) = Some s' \<and> awake c ts th s' \<and> in_budget s' th
    \<and> global_thread_tick_counter s' = global_thread_tick_counter s"
proof (cases b)
  case True
  have "kernel_wf s" using assms(1) by (auto simp: awake_def intro: kernel_wfI below_runq)
  then obtain s' where s': "H f e s = Some s'" by (rule handler_okD [OF assms(3)])
  note awake_handler [OF assms(1,4) s']
  with s' True assms(2) show ?thesis by (simp add: in_budget_def)
qed (use assms(1,2) in simp)

lemma check_step:
  assumes "awake c ts th s" and "in_budget s th" and "stage l = Executed" and "this_thread l = th"
    and "handler_ok H" and "handler_spares th H"
  obtains s1 where "pattern_step H E l s = Some (l\<lparr>ticks_aux := global_thread_tick_counter s, stage := Checked\<rparr>, s1)"
    and "awake c ts th s1" and "in_budget s1 th" and "global_thread_tick_counter s1 = global_thread_tick_counter s"
proof -
  let ?l = "l\<lparr>ticks_aux := global_thread_tick_counter s, stage := Checked\<rparr>"
  obtain n s1 where g: "get_current_cost_ticks s = Some (n, s1)" and a1: "awake c ts th s1" "in_budget s1 th"
    and t1: "global_thread_tick_counter s1 = global_thread_tick_counter s" by (rule charged [OF assms(1,2)])
  obtain t where t: "deref th s1 = Some t" by (rule awake_thread [OF a1(1)])
  obtain s2 where s2: "(if max_deadline_ticks t \<le> ticks_aux ?l - thread_counter_us ?l
      then H (error_handler t) SIMPLERTFRAMEWORK_DEADLINE_MISS s1 else Some s1) = Some s2"
    and a2: "awake c ts th s2" "in_budget s2 th" and t2: "global_thread_tick_counter s2 = global_thread_tick_counter s1"
    using handler_called [OF a1 assms(5,6)] by blast
  obtain t' where t': "deref th s2 = Some t'" by (rule awake_thread [OF a2(1)])
  obtain s3 where s3: "(if max_cost_ticks t' \<le> current_cost_ticks t'
      then H (error_handler t') SIMPLERTFRAMEWORK_COST_OVERUN s2 else Some s2) = Some s3"
    and a3: "awake c ts th s3" "in_budget s3 th" and t3: "global_thread_tick_counter s3 = global_thread_tick_counter s2"
    using handler_called [OF a2 assms(5,6)] by blast
  show ?thesis
  proof (cases "error_handler t = NULL")
    case True
    with assms(3,4) g t a1 t1 show ?thesis by (intro that [of s1]) (simp_all add: pattern_step_def check_job_def)
  next
    case False
    have "check_job H l s = Some (?l, s3)"
      using assms(4) g t s2 t' s3 False by (simp add: check_job_def)
    with assms(3) a3 t1 t2 t3 show ?thesis by (intro that [of s3]) (simp_all add: pattern_step_def)
  qed
qed

lemma sleep_step:
  assumes "awake c ts th s" and "fst (snd c) = 0" and "stage l = Checked" and "this_thread l = th"
  shows "\<exists>l'. pattern_step H E l s = map_option (Pair l')
      (tick_sleep H (thread_counter_us l + fst (snd (snd c)) - ticks_aux l) s)
    \<and> stage l' = Slept \<and> this_thread l' = th"
proof -
  obtain t where t: "deref th s = Some t" "profile t = c" "current_thread s = th" by (rule awake_thread [OF assms(1)])
  have "block_pattern t \<noteq> 2" "min_period_ticks t = fst (snd (snd c))" using t(2) assms(2) by (auto simp: profile_def)
  with sleep_to_next_eq [of l s t H] t assms(3,4) show ?thesis
    by (intro exI [of _ "l\<lparr>previous_thread_counter_us := thread_counter_us l,
      thread_counter_us := thread_counter_us l + fst (snd (snd c)), stage := Slept\<rparr>"]) (simp add: pattern_step_def)
qed

lemma unat_plus_small: "unat a + unat b < 2 ^ 32 \<Longrightarrow> unat (a + b :: u32) = unat a + unat b"
  by (simp add: unat_word_ariths)

lemma next_release:
  assumes "awake c ts th s" and "at_tick g s" and "fst (snd c) = 0" and "snd (snd (snd (snd c))) \<noteq> NULL"
    and "stage l = Slept" and "this_thread l = th"
  obtains l1 s1 l2 s2 where "pattern_step H E l s = Some (l1, s1)" and "pattern_step H E l1 s1 = Some (l2, s2)"
    and "at_release c ts th l2 s2" and "global_thread_tick_counter s2 = g"
proof -
  obtain t where t: "deref th s = Some t" "profile t = c" "current_thread s = th" by (rule awake_thread [OF assms(1)])
  let ?f = "\<lambda>t. t\<lparr>queue_pending := queue_pending t - 1\<rparr>"
  let ?s = "s\<lparr>threads := (threads s)(th \<mapsto> ?f t)\<rparr>"
  have u: "upd_thread th ?f s = Some ?s" using t by (simp add: upd_thread_def)
  have a: "awake c ts th ?s" by (rule awake_upd [OF assms(1) u]) (simp add: profile_def)
  have 1: "pattern_step H E l s = Some (l\<lparr>stage := Cycle\<rparr>, ?s)" using assms(5) t u by (simp add: pattern_step_def)
  have "deref th ?s = Some (?f t)" using t(1) by (auto simp: deref_Some_iff)
  moreover have "block_pattern t = 0" using t(2) assms(3) by (auto simp: profile_def)
  ultimately have 2: "pattern_step H E (l\<lparr>stage := Cycle\<rparr>) ?s = Some (l\<lparr>stage := Release\<rparr>, ?s)"
    using t(3) by (simp add: pattern_step_def)
  have "at_tick g ?s" using assms(2) by (simp add: at_tick_def)
  with a assms(3,4,6) have "at_release c ts th (l\<lparr>stage := Release\<rparr>) ?s" "global_thread_tick_counter ?s = g"
    by (simp_all add: at_release_def at_tick_def)
  with that [OF 1 2] show ?thesis by blast
qed

text \<open>From a release to the sleep that follows the job, and what that sleep promises.\<close>

lemma released_sleeps:
  assumes "at_release c ts th l s" and "prompt_job c th E" and "handler_ok H" and "handler_spares th H"
    and "unat (global_thread_tick_counter s) + unat (fst (snd (snd c))) < 2 ^ 32 - 1"
  obtains l1 s1 l2 s2 l3 s3 n where "pattern_step H E l s = Some (l1, s1)" and "pattern_step H E l1 s1 = Some (l2, s2)"
    and "pattern_step H E l2 s2 = Some (l3, s3)" and "stage l3 = Slept" and "this_thread l3 = th"
    and "\<exists>s4. elapsed H th s3 n s4 \<and> current_thread s4 = th"
    and "\<And>k s4. elapsed H th s3 k s4 \<Longrightarrow> current_thread s4 = th
      \<Longrightarrow> awake c ts th s4 \<and> at_tick (global_thread_tick_counter s + fst (snd (snd c)) + 1) s4"
proof -
  let ?g = "global_thread_tick_counter s" and ?p = "fst (snd (snd c))"
  from assms(1) have l: "stage l = Release" "this_thread l = th" and c: "fst (snd c) = 0" by (simp_all add: at_release_def)
  let ?l1 = "l\<lparr>thread_counter_us := ?g, stage := Executed\<rparr>"
  obtain s1 where 1: "pattern_step H E l s = Some (?l1, s1)" and a1: "awake c ts th s1" "in_budget s1 th"
    and d: "global_thread_tick_counter s1 - ?g \<le> ?p" by (rule release_step [OF assms(1,2)])
  let ?l2 = "?l1\<lparr>ticks_aux := global_thread_tick_counter s1, stage := Checked\<rparr>"
  have "stage ?l1 = Executed" "this_thread ?l1 = th" using l by simp_all
  then obtain s2 where 2: "pattern_step H E ?l1 s1 = Some (?l2, s2)" and a2: "awake c ts th s2" "in_budget s2 th"
    and g2: "global_thread_tick_counter s2 = global_thread_tick_counter s1" by (rule check_step [OF a1 _ _ assms(3,4)])
  let ?n = "?g + ?p - global_thread_tick_counter s1"
  obtain l3 where st: "pattern_step H E ?l2 s2 = map_option (Pair l3) (tick_sleep H ?n s2)"
    and l3: "stage l3 = Slept" "this_thread l3 = th"
    using sleep_step [OF a2(1) c(1), of ?l2 H E] l by auto
  have n: "unat ?n = unat ?p - unat (global_thread_tick_counter s1 - ?g)" by (rule remaining_on_time [OF d])
  have "unat (?g + (global_thread_tick_counter s1 - ?g)) = unat ?g + unat (global_thread_tick_counter s1 - ?g)"
    using d assms(5) by (intro unat_plus_small) (simp add: word_le_nat_alt)
  then have "unat (global_thread_tick_counter s2) + unat ?n < 2 ^ 32 - 1"
    using n g2 d assms(5) by (simp add: word_le_nat_alt)
  then obtain s3 where 3: "tick_sleep H ?n s2 = Some s3"
    and r: "\<And>k s4. elapsed H th s3 k s4 \<Longrightarrow> k \<le> unat ?n \<and> current_thread s4 \<noteq> th
      \<or> k = Suc (unat ?n) \<and> awake c ts th s4 \<and> at_tick (?n + global_thread_tick_counter s2 + 1) s4"
    and ex: "\<And>k. k \<le> Suc (unat ?n) \<Longrightarrow> \<exists>s4. elapsed H th s3 k s4"
    using sleep_and_return [OF a2 assms(3,4)] by blast
  have woken: "awake c ts th s4 \<and> at_tick (?g + ?p + 1) s4" if "elapsed H th s3 k s4" "current_thread s4 = th" for k s4
    using r [OF that(1)] that(2) g2 by auto
  obtain s4 where e: "elapsed H th s3 (Suc (unat ?n)) s4" using ex by blast
  with r [OF e] have "\<exists>s4. elapsed H th s3 (Suc (unat ?n)) s4 \<and> current_thread s4 = th" by (auto simp: awake_def)
  moreover have "pattern_step H E ?l2 s2 = Some (l3, s3)" using st 3 by simp
  ultimately show ?thesis using that 1 2 l3 woken by blast
qed

lemma one_cycle:
  assumes "at_release c ts th l s" and "prompt_job c th E" and "handler_ok H" and "handler_spares th H"
    and "unat (global_thread_tick_counter s) + unat (fst (snd (snd c))) < 2 ^ 32 - 1"
  shows "\<exists>x. cycle H E (l, s) x" and "cycle H E (l, s) (l', s') \<Longrightarrow> at_release c ts th l' s'
    \<and> global_thread_tick_counter s' = global_thread_tick_counter s + fst (snd (snd c)) + 1"
proof -
  let ?g = "global_thread_tick_counter s" and ?p = "fst (snd (snd c))"
  from assms(1) have l: "stage l = Release" "this_thread l = th"
    and c: "fst (snd c) = 0" "snd (snd (snd (snd c))) \<noteq> NULL" by (simp_all add: at_release_def)
  obtain l1 s1 l2 s2 l3 s3 n where st: "pattern_step H E l s = Some (l1, s1)" "pattern_step H E l1 s1 = Some (l2, s2)"
      "pattern_step H E l2 s2 = Some (l3, s3)"
    and l3: "stage l3 = Slept" "this_thread l3 = th" and ex: "\<exists>s4. elapsed H th s3 n s4 \<and> current_thread s4 = th"
    and woken: "\<And>k s4. elapsed H th s3 k s4 \<Longrightarrow> current_thread s4 = th
      \<Longrightarrow> awake c ts th s4 \<and> at_tick (?g + ?p + 1) s4"
    using released_sleeps [OF assms] by blast
  have rest: "\<exists>l4 s5 l5 s6. pattern_step H E l3 s4 = Some (l4, s5) \<and> pattern_step H E l4 s5 = Some (l5, s6)
      \<and> at_release c ts th l5 s6 \<and> global_thread_tick_counter s6 = ?g + ?p + 1"
    if "elapsed H th s3 k s4" "current_thread s4 = th" for k s4
    using next_release [OF conjunct1 [OF woken [OF that]] conjunct2 [OF woken [OF that]] c l3] by metis
  from ex obtain s4 where e: "elapsed H th s3 n s4" "current_thread s4 = th" by blast
  from rest [OF e] obtain l4 s5 l5 s6 where "pattern_step H E l3 s4 = Some (l4, s5)" "pattern_step H E l4 s5 = Some (l5, s6)"
    by blast
  with cycle.intros [OF l(1) st] e l(2) show "\<exists>x. cycle H E (l, s) x" by fastforce
  show "at_release c ts th l' s' \<and> global_thread_tick_counter s' = ?g + ?p + 1" if "cycle H E (l, s) (l', s')"
    using that
  proof (rule cycleE)
    fix m1 x1 m2 x2 m3 x3 k x4 m4 x5
    assume p: "pattern_step H E l s = Some (m1, x1)" "pattern_step H E m1 x1 = Some (m2, x2)"
      "pattern_step H E m2 x2 = Some (m3, x3)" "elapsed H (this_thread l) x3 k x4" "current_thread x4 = this_thread l"
      "pattern_step H E m3 x4 = Some (m4, x5)" "pattern_step H E m4 x5 = Some (l', s')"
    with st have x: "m3 = l3" "x3 = s3" by auto
    with p l(2) rest [of k x4] show ?thesis by auto
  qed
qed

lemma cycle_tick:
  fixes g p :: u32
  assumes "unat g + unat p < 2 ^ 32 - 1"
  shows "unat (g + p + 1) = unat g + (unat p + 1)"
proof -
  have 1: "unat (g + p) = unat g + unat p" by (rule unat_plus_small) (use assms in simp)
  then have "unat (g + p + 1) = unat (g + p) + unat (1 :: u32)"
    by (intro unat_plus_small) (use assms in simp)
  with 1 show ?thesis by simp
qed

lemma cycles:
  assumes "at_release c ts th l s" and "prompt_job c th E" and "handler_ok H" and "handler_spares th H"
  shows "unat (global_thread_tick_counter s) + n * (unat (fst (snd (snd c))) + 1) < 2 ^ 32 \<Longrightarrow>
    (\<exists>x. (cycle H E ^^ n) (l, s) x) \<and> (\<forall>l' s'. (cycle H E ^^ n) (l, s) (l', s') \<longrightarrow> at_release c ts th l' s'
      \<and> unat (global_thread_tick_counter s') = unat (global_thread_tick_counter s) + n * (unat (fst (snd (snd c))) + 1))"
proof (induction n)
  case 0
  show ?case using assms(1) by auto
next
  case (Suc n)
  let ?g = "global_thread_tick_counter" and ?p = "fst (snd (snd c))"
  have b: "unat (?g s) + n * (unat ?p + 1) + unat ?p < 2 ^ 32 - 1" using Suc.prems by simp
  with Suc.IH obtain l1 s1 where r: "(cycle H E ^^ n) (l, s) (l1, s1)" by auto
  have IH: "at_release c ts th l' s' \<and> unat (?g s') = unat (?g s) + n * (unat ?p + 1)"
    if "(cycle H E ^^ n) (l, s) (l', s')" for l' s' using that Suc.IH b by auto
  have bound: "unat (?g s') + unat ?p < 2 ^ 32 - 1" if "(cycle H E ^^ n) (l, s) (l', s')" for l' s'
    using IH [OF that] b by simp
  have "\<exists>x. cycle H E (l1, s1) x" using one_cycle(1) [OF _ assms(2-4) bound [OF r]] IH [OF r] by blast
  with r have "\<exists>x. (cycle H E ^^ Suc n) (l, s) x" by (auto intro: relpowp_Suc_I)
  moreover have "at_release c ts th l' s' \<and> unat (?g s') = unat (?g s) + Suc n * (unat ?p + 1)"
    if "(cycle H E ^^ Suc n) (l, s) (l', s')" for l' s'
  proof -
    from that obtain l2 s2 where n: "(cycle H E ^^ n) (l, s) (l2, s2)" and c: "cycle H E (l2, s2) (l', s')"
      by (auto elim: relpowp_Suc_E)
    from one_cycle(2) [OF _ assms(2-4) bound [OF n] c] IH [OF n]
    have "at_release c ts th l' s'" "?g s' = ?g s2 + ?p + 1" by blast+
    with cycle_tick [OF bound [OF n]] IH [OF n] show ?thesis by simp
  qed
  ultimately show ?case by blast
qed


text \<open>A job of three ticks, every ten ticks, with a budget of 100.\<close>

definition demo_three_ticks :: job where
  "demo_three_ticks f s = Some (s\<lparr>global_thread_tick_counter := global_thread_tick_counter s + 3\<rparr>)"

definition demo_released :: kernel where
  "demo_released = demo\<lparr>current_thread := 0x200, tick_counter_last_cost := 7,
     threads := demo_threads(0x200 \<mapsto> demo_runner\<lparr>executor := 0x50\<rparr>)\<rparr>"

lemma demo_three_ticks_prompt: "prompt_job (10, 0, 10, 100, 0x50) th demo_three_ticks"
proof -
  let ?s = "\<lambda>s :: kernel. s\<lparr>global_thread_tick_counter := global_thread_tick_counter s + 3\<rparr>"
  have "awake (10, 0, 10, 100, 0x50) ts th (?s s)" if "awake (10, 0, 10, 100, 0x50) ts th s" for ts s
    using that by (rule awake_fields) simp_all
  moreover have "in_budget (?s s) th" if "awake (10, 0, 10, 100, 0x50) ts th s" "account_empty s th" for ts s
    using that by (auto simp: in_budget_def awake_def account_empty_def profile_def)
  ultimately show ?thesis by (auto simp: prompt_job_def demo_three_ticks_def)
qed


end
