(* ===== verification/RT_Body.thy ===== *)
theory RT_Body
  imports RT_Typing RT_Periodic
begin

text \<open>
  What a step of \<open>periodic_pattern\<close> leaves of a property of single threads, for any thread and job; and the
  consequence for budgets: an overrun lowers the priority of a thread for good.
\<close>

section \<open>Steps of the body\<close>

context timed_property
begin

text \<open>Jobs that respect the property.\<close>

definition respected_by :: "job \<Rightarrow> bool" where
  "respected_by E \<longleftrightarrow> (\<forall>f s s'. E f s = Some s' \<longrightarrow> kernel_wf s \<longrightarrow> holds s \<longrightarrow> kernel_wf s' \<and> holds s')"

lemma wf_upd_holds:
  assumes "upd_thread a f s = Some s'" and "kernel_wf s" and "holds s" and "\<And>t. runq_next (f t) = runq_next t"
    and "\<And>t. a \<in> A \<Longrightarrow> P (global_thread_tick_counter s) a t \<Longrightarrow> P (global_thread_tick_counter s) a (f t)"
  shows "kernel_wf s' \<and> holds s'"
  using kernel_wf_upd_thread [OF assms(2,1,4)] holds_upd [OF assms(1,3)] assms(5) by blast

lemma wf_handler_holds:
  assumes "respected H" and "handler_ok H" and "H f e s = Some s'" and "kernel_wf s" and "holds s"
  shows "kernel_wf s' \<and> holds s'"
  using assms(1,3,5) handler_okD [OF assms(2,4), of f e] unfolding respected_def by auto

lemma wf_sleep_holds:
  assumes "respected H" and "handler_ok H" and "tick_sleep H n s = Some s'" and "kernel_wf s" and "holds s"
  shows "kernel_wf s' \<and> holds s'"
  using sleep_holds [OF assms(1,4,3,5)] sleeping.op_safe [OF assms(2,4), of n] assms(3) by auto

text \<open>The last stage takes an activation from the pending ones.\<close>

lemma step_holds:
  assumes "respected H" and "handler_ok H" and "respected_by E" and "kernel_wf s" and "holds s"
    and "pattern_step H E l s = Some (l', s')"
    and "\<And>t. stage l = Slept \<Longrightarrow> current_thread s \<in> A \<Longrightarrow> P (global_thread_tick_counter s) (current_thread s) t
      \<Longrightarrow> P (global_thread_tick_counter s) (current_thread s) (t\<lparr>queue_pending := queue_pending t - 1\<rparr>)"
  shows "kernel_wf s' \<and> holds s'"
proof (cases "stage l")
  case Start
  with assms(6) obtain s1 n where u: "upd_thread (current_thread s) (\<lambda>t. t\<lparr>current_cost_ticks := 0\<rparr>) s = Some s1"
    and "tick_sleep H n s1 = Some s'"
    by (auto simp: pattern_step_def enter_pattern_def Let_def bind_eq_Some_conv)
  moreover have "kernel_wf s1 \<and> holds s1"
    by (rule wf_upd_holds [OF u assms(4,5)]) (simp_all add: P_cost)
  ultimately show ?thesis using wf_sleep_holds [OF assms(1,2)] by blast
next
  case Waiting
  with assms(6) have "s' = s \<or> thread_block H s = Some s'"
    by (auto simp: pattern_step_def await_activation_def bind_eq_Some_conv split: if_splits)
  then show ?thesis
    using block_holds [OF assms(1,4) _ assms(5)] blocking.op_safe [OF assms(2,4)] assms(4,5) by auto
next
  case Release
  with assms(6) obtain s1 f where u: "upd_thread (current_thread s) (\<lambda>t. t\<lparr>current_cost_ticks := 0\<rparr>) s = Some s1"
    and "E f s1 = Some s'"
    by (auto simp: pattern_step_def release_job_def Let_def bind_eq_Some_conv split: if_splits)
  moreover have "kernel_wf s1 \<and> holds s1"
    by (rule wf_upd_holds [OF u assms(4,5)]) (simp_all add: P_cost)
  ultimately show ?thesis using assms(3) unfolding respected_by_def by blast
next
  case Executed
  with assms(6) obtain c s1 where c: "get_current_cost_ticks s = Some (c, s1)"
    and r: "s' = s1 \<or> (\<exists>f s2. (s2 = s1 \<or> (\<exists>e. H f e s1 = Some s2)) \<and> (s' = s2 \<or> (\<exists>f e. H f e s2 = Some s')))"
    by (auto simp: pattern_step_def check_job_def Let_def bind_eq_Some_conv split: if_splits)
  have s1: "kernel_wf s1 \<and> holds s1"
    using charge_holds [OF c assms(5)] charge_safe [OF assms(4)] c by auto
  note h = wf_handler_holds [OF assms(1,2)]
  from r show ?thesis using s1 h by blast
next
  case Checked
  with assms(6) have "s' = s \<or> (\<exists>n. tick_sleep H n s = Some s')"
    by (auto simp: pattern_step_def sleep_to_next_def Let_def bind_eq_Some_conv split: if_splits)
  with wf_sleep_holds [OF assms(1,2) _ assms(4,5)] assms(4,5) show ?thesis by blast
next
  case Slept
  with assms(6) have u: "upd_thread (current_thread s) (\<lambda>t. t\<lparr>queue_pending := queue_pending t - 1\<rparr>) s = Some s'"
    by (auto simp: pattern_step_def bind_eq_Some_conv)
  show ?thesis by (rule wf_upd_holds [OF u assms(4,5)]) (use assms(7) Slept in simp_all)
qed (use assms in \<open>auto simp: pattern_step_def bind_eq_Some_conv\<close>)

end

section \<open>Overruns\<close>

text \<open>A thread that has used more ticks than its budget, counting those not yet charged to it.\<close>

definition over_budget :: "kernel \<Rightarrow> addr \<Rightarrow> bool" where
  "over_budget s th \<longleftrightarrow> (\<exists>t. threads s th = Some t \<and> max_cost_ticks t
     < current_cost_ticks t + (global_thread_tick_counter s - tick_counter_last_cost s))"

text \<open>
  Runs of the whole system: requests of whoever has the processor, ticks, returns from interrupts, and steps of
  the body of any thread.
\<close>

inductive progress :: "upcall \<Rightarrow> job \<Rightarrow> kernel \<Rightarrow> kernel \<Rightarrow> bool" for H E s0 where
  begun: "progress H E s0 s0"
| served: "progress H E s0 s \<Longrightarrow> valid r s \<Longrightarrow> serve H r s = Some s' \<Longrightarrow> progress H E s0 s'"
| stepped: "progress H E s0 s \<Longrightarrow> pattern_step H E l s = Some (l', s') \<Longrightarrow> progress H E s0 s'"
| resumed: "progress H E s0 s \<Longrightarrow> progress H E s0 (timer_isr_resumed s)"

interpretation demoted: thread_property "{th}" "\<lambda>_ _ t. priority t = SIMPLERTFRAMEWORK_OVERRUN_PRIO" for th
  by unfold_locales
    (simp_all add: account_def set_sleep_def signal_update_def refresh_def wake_check_def signal_support_def Let_def)

text \<open>Handlers and jobs that leave the priority of \<open>th\<close> alone.\<close>

definition same_priority :: "addr \<Rightarrow> kernel \<Rightarrow> kernel \<Rightarrow> bool" where
  "same_priority th s s' \<longleftrightarrow> (\<forall>t'. threads s' th = Some t' \<longrightarrow> (\<exists>t. threads s th = Some t \<and> priority t = priority t'))"

definition handler_keeps_priority :: "addr \<Rightarrow> upcall \<Rightarrow> bool" where
  "handler_keeps_priority th H \<longleftrightarrow> (\<forall>f e s s'. H f e s = Some s' \<longrightarrow> same_priority th s s')"

definition job_keeps_priority :: "addr \<Rightarrow> job \<Rightarrow> bool" where
  "job_keeps_priority th E \<longleftrightarrow> (\<forall>f s s'. E f s = Some s' \<longrightarrow> kernel_wf s \<longrightarrow> kernel_wf s' \<and> same_priority th s s')"

lemma demoted_same: "same_priority th s s' \<Longrightarrow> demoted.holds th s \<Longrightarrow> demoted.holds th s'"
  unfolding same_priority_def demoted.holds_def by (metis singletonD singletonI)

lemma progress_demoted:
  assumes "handler_ok H" and "handler_keeps_priority th H" and "job_keeps_priority th E" and "kernel_wf s0"
    and "demoted.holds th s0" and "progress H E s0 s"
  shows "kernel_wf s \<and> demoted.holds th s"
  using assms(6)
proof induction
  case begun
  show ?case using assms(4,5) ..
next
  have H: "demoted.respected th H"
    using assms(2) demoted_same unfolding handler_keeps_priority_def demoted.respected_def by blast
  case (served s r s')
  with serve_safe [OF assms(1), of s r] demoted.serve_holds [OF H, of s r s'] show ?case by auto
next
  case (stepped s l l' s')
  have H: "demoted.respected th H"
    using assms(2) demoted_same unfolding handler_keeps_priority_def demoted.respected_def by blast
  have E: "demoted.respected_by th E"
    using assms(3) demoted_same unfolding job_keeps_priority_def demoted.respected_by_def by blast
  from stepped have "kernel_wf s" "demoted.holds th s" by simp_all
  from demoted.step_holds [OF H assms(1) E this stepped.hyps(2)] show ?case by simp
next
  case (resumed s)
  then show ?case using resumed_wf demoted.holds_threads [of "timer_isr_resumed s" s] by (simp add: timer_isr_resumed_def)
qed

lemma yield_demotes:
  assumes "handler_keeps_priority th H" and "handler_ok H" and "kernel_wf s" and "current_thread s = th" and "over_budget s th"
    and "thread_yield H s = Some s'"
  shows "kernel_wf s' \<and> demoted.holds th s'"
proof -
  have H: "demoted.respected th H"
    using assms(1) demoted_same unfolding handler_keeps_priority_def demoted.respected_def by blast
  obtain ts where ts: "runq_wf s ts" using assms(3) by (rule kernel_wfE)
  obtain t where t: "threads s th = Some t"
    and o: "max_cost_ticks t < current_cost_ticks t + (global_thread_tick_counter s - tick_counter_last_cost s)"
    using assms(5) unfolding over_budget_def by blast
  have "demoted.holds th (yield_result s ts)"
    using t o assms(4) by (simp add: demoted.holds_def yield_result_def switched_def Let_def yield_heap_def refresh_on_def account_def)
  moreover have "ats_deliver H (yield_result s ts) = Some s'" using assms(6) by (simp add: thread_yield_exact [OF ts])
  ultimately have "demoted.holds th s'" using demoted.ats_deliver_holds [OF H] by blast
  moreover have "kernel_wf s'" using yielding.op_keeps [OF assms(2,3,6)] .
  ultimately show ?thesis by blast
qed

text \<open>C14: a thread that overruns its budget is contained for good: the yield that charges the ticks sets its
  priority to OVERRUN_PRIO, no request, tick or step of any body changes that (not the reset of the account at
  the next release either), and from then on no yield gives it the processor while another thread of a higher
  priority is ready.\<close>

theorem overrun_contained:
  assumes "handler_ok H" and "handler_keeps_priority th H" and "job_keeps_priority th E" and "kernel_wf s0"
    and "current_thread s0 = th" and "over_budget s0 th" and "thread_yield H s0 = Some s1" and "progress H E s1 s"
  shows "(\<forall>t. threads s th = Some t \<longrightarrow> priority t = SIMPLERTFRAMEWORK_OVERRUN_PRIO)
    \<and> (\<forall>ts a s'. runq_wf s ts \<longrightarrow> a \<in> set ts \<longrightarrow> a \<noteq> current_thread s \<longrightarrow> active (yield_heap s ts) a
        \<longrightarrow> SIMPLERTFRAMEWORK_OVERRUN_PRIO < prio (threads s) a \<longrightarrow> thread_yield H s = Some s'
        \<longrightarrow> current_thread s' \<noteq> th)"
proof -
  from yield_demotes [OF assms(2,1,4-7)] have "kernel_wf s1" "demoted.holds th s1" by simp_all
  from progress_demoted [OF assms(1-3) this assms(8)] have d: "demoted.holds th s" ..
  then have p: "prio (threads s) th \<le> SIMPLERTFRAMEWORK_OVERRUN_PRIO"
    by (cases "threads s th") (simp_all add: demoted.holds_def prio_def)
  have "current_thread s' \<noteq> th" if ts: "runq_wf s ts" and a: "a \<in> set ts" "a \<noteq> current_thread s" "active (yield_heap s ts) a"
    "SIMPLERTFRAMEWORK_OVERRUN_PRIO < prio (threads s) a" and s': "thread_yield H s = Some s'" for ts a s'
  proof -
    obtain s2 where "thread_yield H s = Some s2"
      and best: "\<forall>a \<in> insert (thread_main_inf s) (set ts).
        (active (yield_heap s ts) a \<or> a = thread_main_inf s) \<and> a \<noteq> current_thread s
        \<longrightarrow> prio (threads s) a \<le> prio (threads s) (current_thread s2)"
      using thread_yield_outcome [OF ts assms(1)] by blast
    have e: "s2 = s'" using s' \<open>thread_yield H s = Some s2\<close> by simp
    have le: "prio (threads s) a \<le> prio (threads s) (current_thread s')" using best a(1-3) unfolding e by blast
    show ?thesis
    proof
      assume "current_thread s' = th"
      with le have "prio (threads s) a \<le> prio (threads s) th" by (simp only:)
      from leD [OF order_trans [OF this p]] a(4) show False by (rule notE)
    qed
  qed
  then show ?thesis using d by (simp add: demoted.holds_def)
qed

text \<open>The thread 0x200 has used 98 of its 100 ticks and three more that are not yet charged.\<close>

definition demo_overrun :: kernel where
  "demo_overrun = demo\<lparr>current_thread := 0x200,
     threads := demo_threads(0x200 \<mapsto> blank_thread\<lparr>runq_next := 0x100, priority := 10, current_cost_ticks := 98\<rparr>)\<rparr>"

theorem overrun_contained_witness:
  "\<exists>s1 t. thread_yield no_handler demo_overrun = Some s1 \<and> threads s1 0x200 = Some t
     \<and> priority t = SIMPLERTFRAMEWORK_OVERRUN_PRIO"
proof -
  have wf: "runq_wf demo_overrun demo_list" by (simp add: runq_wf_def demo_overrun_def demo_defs)
  let ?s = "yield_result demo_overrun demo_list"
  have act: "ats_active t \<noteq> 1" if "threads ?s a = Some t" for a t
    using that by (auto simp: yield_result_def switched_def Let_def yield_heap_def refresh_on_def refresh_fields
        demo_overrun_def demo_defs split: if_splits)
  obtain tc where tc: "deref (current_thread ?s) ?s = Some tc"
    using runq_wf_deref [OF yield_result_wf [OF wf] runq_wf_current [OF yield_result_wf [OF wf]]] by blast
  have "ats_active tc \<noteq> 1" using act [of "current_thread ?s" tc] tc by (simp add: deref_Some_iff)
  with tc have "ats_deliver no_handler ?s = Some ?s" by (simp add: ats_deliver_def)
  then have y: "thread_yield no_handler demo_overrun = Some ?s" by (simp add: thread_yield_exact [OF wf])
  obtain t where t: "threads ?s 0x200 = Some t"
    using runq_wf_deref [OF yield_result_wf [OF wf], of "0x200"] by (auto simp: deref_Some_iff demo_list_def)
  have o: "over_budget demo_overrun 0x200" by (simp add: over_budget_def demo_overrun_def demo_defs)
  have h: "handler_keeps_priority 0x200 no_handler" "job_keeps_priority 0x200 (\<lambda>_. Some)"
    by (simp_all add: handler_keeps_priority_def job_keeps_priority_def same_priority_def no_handler_def)
  have c: "current_thread demo_overrun = 0x200" by (simp add: demo_overrun_def)
  from overrun_contained [OF no_handler_ok h kernel_wfI [OF wf] c o y progress.begun] t y show ?thesis by blast
qed

end
