(* ===== verification/RT_Sporadic.thy ===== *)
theory RT_Sporadic
  imports RT_Body RT_Rate
begin

text \<open>
  A sporadic thread in the whole system: between any requests of anybody, its own calls among them, ticks and
  signals, its body takes its steps when it has the processor. The number of its jobs is bounded by the
  activations that were accepted, and those by the time that passed.
\<close>

section \<open>What everybody leaves of the thread\<close>

text \<open>Pending activations \<open>q\<close>, the parameters of \<open>t0\<close>, and a last activation that lies between \<open>lo\<close> and the
  time \<open>g\<close>, which is at least two periods before the overflow of the counter.\<close>

definition window :: "thread \<Rightarrow> u32 \<Rightarrow> s32 \<Rightarrow> nat \<Rightarrow> thread \<Rightarrow> bool" where
  "window t0 g q lo t \<longleftrightarrow> unat g + 2 * unat (min_period_ticks t0) < 2 ^ 32 \<and> queue_pending t = q
     \<and> block_pattern t = block_pattern t0 \<and> min_period_ticks t = min_period_ticks t0 \<and> mit_policy t = mit_policy t0
     \<and> queue_length_max t = queue_length_max t0
     \<and> lo \<le> unat (queue_last_input t) \<and> unat (queue_last_input t) \<le> unat g"

text \<open>A thread that waits has its last activation moved forward, but not beyond now.\<close>

lemma window_support:
  assumes "window t0 g q lo t"
  shows "window t0 g q lo (signal_support g t)"
proof (cases "status t = SIMPLERTFRAMEWORK_BLOCKED \<and> queue_last_input t + 2 * min_period_ticks t < g")
  case True
  let ?l = "queue_last_input t" and ?p = "min_period_ticks t"
  have b: "unat ?l + 2 * unat ?p < 2 ^ 32" using assms by (simp add: window_def)
  then have "unat (?l + 2 * ?p) = unat ?l + 2 * unat ?p" and "unat (?l + ?p) = unat ?l + unat ?p"
    by (simp_all add: unat_word_ariths)
  with True assms show ?thesis by (simp add: signal_support_def window_def word_less_nat_alt)
next
  case False
  with assms show ?thesis by (simp add: signal_support_def)
qed

lemma window_refresh: "window t0 g q lo t \<Longrightarrow> window t0 g q lo (refresh g carry t)"
  unfolding refresh_def by (rule window_support) (simp add: window_def wake_check_def Let_def)

interpretation win: timed_property UNIV "\<lambda>now a t. now = g \<and> (a = th \<longrightarrow> window t0 g q lo t)" for g th t0 q lo
  by unfold_locales (simp_all add: window_refresh, simp_all add: window_def account_def set_sleep_def Let_def)

lemma win_clock:
  assumes "win.holds g th t0 q lo s" and "kernel_wf s"
  shows "global_thread_tick_counter s = g"
proof -
  obtain t where "deref (current_thread s) s = Some t" using kernel_wf_current [OF assms(2)] .
  with assms(1) show ?thesis by (auto simp: win.holds_def deref_Some_iff)
qed

lemma win_thread: "win.holds g th t0 q lo s \<Longrightarrow> threads s th = Some t \<Longrightarrow> window t0 g q lo t"
  by (simp add: win.holds_def)

lemma winI:
  "global_thread_tick_counter s = g \<Longrightarrow> (\<And>t. threads s th = Some t \<Longrightarrow> window t0 g q lo t) \<Longrightarrow> win.holds g th t0 q lo s"
  by (simp add: win.holds_def)

lemma win_respected:
  assumes "handler_spares th H"
  shows "win.respected g th t0 q lo H"
  unfolding win.respected_def
proof (intro allI impI)
  fix f e s s'
  assume H: "H f e s = Some s'" and h: "win.holds g th t0 q lo s"
  with assms have th: "threads s' th = threads s th" and c: "global_thread_tick_counter s' = global_thread_tick_counter s"
    and d: "map_option (\<lambda>t. (runq_next t, priority t)) (threads s' a) = map_option (\<lambda>t. (runq_next t, priority t)) (threads s a)" for a
    unfolding handler_spares_def by blast+
  have "global_thread_tick_counter s' = g" if "threads s' a = Some t" for a t
  proof -
    obtain u where "threads s a = Some u" using d [of a] \<open>threads s' a = Some t\<close> by fastforce
    with h c show ?thesis by (simp add: win.holds_def)
  qed
  with h th show "win.holds g th t0 q lo s'" by (auto simp: win.holds_def)
qed

section \<open>Signals to the thread\<close>

text \<open>Whether a signal at time \<open>now\<close> counts as an activation.\<close>

definition activates :: "u32 \<Rightarrow> thread \<Rightarrow> bool" where
  "activates now t \<longleftrightarrow> queue_pending (snd (signal_update now t)) \<noteq> queue_pending t"

lemma strict_mit_window: "window t0 g q lo t \<Longrightarrow> strict_mit t0 \<Longrightarrow> strict_mit t"
  by (simp add: window_def strict_mit_def policy_mit_def policy_ov_def)

lemma signal_window:
  assumes "window t0 g q lo t" and "strict_mit t0"
  shows "window t0 g (if activates g t then q + 1 else q) (if activates g t then unat g else lo) (snd (signal_update g t))"
    and "activates g t \<Longrightarrow> unat (min_period_ticks t0) + lo < unat g \<and> sint q \<le> sint (queue_length_max t0)"
proof -
  have s: "strict_mit t" by (rule strict_mit_window [OF assms])
  from strict_mit_cases [OF s, of g] assms(1)
  show "window t0 g (if activates g t then q + 1 else q) (if activates g t then unat g else lo) (snd (signal_update g t))"
    by (auto simp: activates_def window_def)
  assume a: "activates g t"
  with strict_mit_cases [OF s, of g] have l: "min_period_ticks t < g - queue_last_input t" by (auto simp: activates_def)
  have "queue_last_input t \<le> g" using assms(1) by (simp add: window_def word_le_nat_alt)
  then have "unat (g - queue_last_input t) = unat g - unat (queue_last_input t)" by (rule unat_sub)
  with l assms(1) have "unat (min_period_ticks t0) + lo < unat g" by (auto simp: window_def word_less_nat_alt)
  moreover have "sint q \<le> sint (queue_length_max t0)"
    using signal_update_pending [of g t] a s assms(1) by (auto simp: activates_def window_def strict_mit_def)
  ultimately show "unat (min_period_ticks t0) + lo < unat g \<and> sint q \<le> sint (queue_length_max t0)" ..
qed

lemma thread_signal_window:
  assumes "handler_ok H" and "handler_spares th H" and "kernel_wf s" and "win.holds g th t0 q lo s" and "strict_mit t0"
    and "deref th s = Some t" and "thread_signal H th s = Some (x, s')"
  shows "win.holds g th t0 (if activates g t then q + 1 else q) (if activates g t then unat g else lo) s'"
proof -
  let ?q = "if activates g t then q + 1 else q" and ?lo = "if activates g t then unat g else lo"
  have t: "threads s th = Some t" "th \<noteq> NULL" using assms(6) by (simp_all add: deref_Some_iff)
  have g: "global_thread_tick_counter s = g" by (rule win_clock [OF assms(4,3)])
  let ?s1 = "s\<lparr>threads := (threads s)(th \<mapsto> snd (signal_update g t))\<rparr>"
  have b: "thread_unblock H th ?s1 = Some s'"
    using assms(6,7) t g by (auto simp: thread_signal_def upd_thread_def bind_eq_Some_conv case_prod_beta)
  obtain ts where ts: "runq_wf s ts" using assms(3) by (rule kernel_wfE)
  have "runq_wf ?s1 ts"
    by (rule runq_wf_cong [OF _ _ _ _ ts]) (simp_all add: t runq_wf_current [OF ts])
  then have wf: "kernel_wf ?s1" by (rule kernel_wfI)
  have "win.holds g th t0 ?q ?lo ?s1"
    using assms(4) signal_window(1) [OF win_thread [OF assms(4) t(1)] assms(5)] g by (simp add: win.holds_def)
  with win.unblock_holds [OF win_respected [OF assms(2)] wf b] show ?thesis by blast
qed

section \<open>The steps of the body\<close>

text \<open>A job whose own calls of the library are requests of the run; what is left of it computes.\<close>

definition quiet_job :: "addr \<Rightarrow> job \<Rightarrow> bool" where
  "quiet_job th E \<longleftrightarrow> (\<forall>f s s'. E f s = Some s' \<longrightarrow> kernel_wf s \<longrightarrow> kernel_wf s' \<and> threads s' th = threads s th
     \<and> global_thread_tick_counter s' = global_thread_tick_counter s)"

text \<open>The stages in which an activation has been taken up, and those in which its job has been run.\<close>

definition taken :: "stage \<Rightarrow> bool" where
  "taken st \<longleftrightarrow> st \<in> {Release, Executed, Checked, Slept}"

definition in_flight :: "stage \<Rightarrow> nat" where
  "in_flight st = (if st \<in> {Executed, Checked, Slept} then 1 else 0)"

lemma win_job:
  assumes "quiet_job th E"
  shows "win.respected_by g th t0 q lo E"
  unfolding win.respected_by_def
proof (intro allI impI)
  fix f s s'
  assume e: "E f s = Some s'" and wf: "kernel_wf s" and h: "win.holds g th t0 q lo s"
  with assms have "kernel_wf s'" and th: "threads s' th = threads s th"
    and c: "global_thread_tick_counter s' = global_thread_tick_counter s"
    unfolding quiet_job_def by blast+
  moreover have "win.holds g th t0 q lo s'"
    by (rule winI) (use c th win_clock [OF h wf] win_thread [OF h] in simp_all)
  ultimately show "kernel_wf s' \<and> win.holds g th t0 q lo s'" by blast
qed

text \<open>Every step but the last keeps the window; only the last takes a pending activation away.\<close>

lemma step_keeps:
  assumes "handler_ok H" and "handler_spares th H" and "quiet_job th E" and "kernel_wf s" and "win.holds g th t0 q lo s"
    and "pattern_step H E l s = Some (l', s')" and "stage l \<noteq> Slept"
  shows "kernel_wf s' \<and> win.holds g th t0 q lo s'"
  by (rule win.step_holds [OF win_respected [OF assms(2)] assms(1) win_job [OF assms(3)] assms(4-6)]) (use assms(7) in simp)

lemma step_last:
  assumes "kernel_wf s" and "win.holds g th t0 q lo s" and "current_thread s = th"
    and "pattern_step H E l s = Some (l', s')" and "stage l = Slept"
  shows "stage l' = Cycle \<and> kernel_wf s' \<and> win.holds g th t0 (q - 1) lo s'"
proof -
  from assms(4,5) have l: "stage l' = Cycle"
    and u: "upd_thread (current_thread s) (\<lambda>t. t\<lparr>queue_pending := queue_pending t - 1\<rparr>) s = Some s'"
    by (auto simp: pattern_step_def bind_eq_Some_conv)
  from u obtain t where t: "threads s th = Some t"
    and s': "s' = s\<lparr>threads := (threads s)(th \<mapsto> t\<lparr>queue_pending := queue_pending t - 1\<rparr>)\<rparr>"
    unfolding assms(3) by (auto simp: upd_thread_Some_iff deref_Some_iff)
  have "win.holds g th t0 (q - 1) lo s'"
    by (rule winI) (use s' win_clock [OF assms(2,1)] win_thread [OF assms(2) t] in \<open>auto simp: window_def\<close>)
  with l kernel_wf_upd_thread [OF assms(1) u] show ?thesis by simp
qed

text \<open>How the stages follow each other: a job is run in the stage \<open>Release\<close> only, and an activation is taken up
  when one is pending.\<close>

lemma step_stage:
  assumes "kernel_wf s" and "win.holds g th t0 q lo s" and "current_thread s = th" and "strict_mit t0"
    and "pattern_step H E l s = Some (l', s')" and "stage l \<noteq> Slept"
  shows "in_flight (stage l') = in_flight (stage l) + (if stage l = Release then 1 else 0)
    \<and> (taken (stage l') \<longrightarrow> taken (stage l) \<or> 0 < sint q)"
proof -
  obtain t where t: "deref (current_thread s) s = Some t" using kernel_wf_current [OF assms(1)] .
  with assms(3) win_thread [OF assms(2)] have w: "window t0 g q lo t" by (simp add: deref_Some_iff)
  then have b: "block_pattern t = 1" "queue_pending t = q" using assms(4) by (simp_all add: window_def strict_mit_def)
  show ?thesis
  proof (cases "stage l")
    case Waiting
    with assms(5) t b show ?thesis
      by (auto simp: pattern_step_def await_activation_def bind_eq_Some_conv in_flight_def taken_def split: if_splits)
  qed (use assms(5,6) t b in \<open>auto simp: pattern_step_def enter_pattern_def release_job_def check_job_def
      sleep_to_next_def Let_def bind_eq_Some_conv in_flight_def taken_def split: if_splits\<close>)
qed

section \<open>Runs of the whole system\<close>

text \<open>
  A run from \<open>c0\<close> with its number of ticks, of activations of \<open>th\<close> and of jobs it has begun: ticks, valid requests
  of whoever has the processor, \<open>th\<close> in its job included, signals to \<open>th\<close>, the steps of its body while it has
  the processor, returns from interrupts.
\<close>

inductive activity :: "upcall \<Rightarrow> job \<Rightarrow> addr \<Rightarrow> pattern \<times> kernel \<Rightarrow> nat \<Rightarrow> nat \<Rightarrow> nat \<Rightarrow> pattern \<times> kernel \<Rightarrow> bool"
  for H E th c0 where
  begun: "activity H E th c0 0 0 0 c0"
| ticked: "activity H E th c0 n m j (l, s) \<Longrightarrow> timer_isr H s = Some s' \<Longrightarrow> activity H E th c0 (Suc n) m j (l, s')"
| worked: "activity H E th c0 n m j (l, s) \<Longrightarrow> valid r s \<Longrightarrow> r \<noteq> Tick \<Longrightarrow> r \<noteq> Signal th \<Longrightarrow> serve H r s = Some s'
    \<Longrightarrow> activity H E th c0 n m j (l, s')"
| signalled: "activity H E th c0 n m j (l, s) \<Longrightarrow> deref th s = Some t \<Longrightarrow> thread_signal H th s = Some (x, s')
    \<Longrightarrow> activity H E th c0 n (if activates (global_thread_tick_counter s) t then Suc m else m) j (l, s')"
| stepped: "activity H E th c0 n m j (l, s) \<Longrightarrow> current_thread s = th \<Longrightarrow> pattern_step H E l s = Some (l', s')
    \<Longrightarrow> activity H E th c0 n m (if stage l = Release then Suc j else j) (l', s')"
| resumed: "activity H E th c0 n m j (l, s) \<Longrightarrow> activity H E th c0 n m j (l, timer_isr_resumed s)"

text \<open>What every state of a run satisfies: jobs and pending activations add up to the activations, and the
  last activation leaves room for those before it.\<close>

definition balanced :: "thread \<Rightarrow> nat \<Rightarrow> addr \<Rightarrow> nat \<Rightarrow> nat \<Rightarrow> nat \<Rightarrow> pattern \<times> kernel \<Rightarrow> bool" where
  "balanced t0 g0 th n m j c \<longleftrightarrow> kernel_wf (snd c) \<and> (m - 1) * (unat (min_period_ticks t0) + 1) \<le> n \<and> (\<exists>g q lo. unat g = g0 + n \<and> win.holds g th t0 q lo (snd c)
     \<and> int j + sint q = int (m + in_flight (stage (fst c)))
     \<and> 0 \<le> sint q \<and> (taken (stage (fst c)) \<longrightarrow> 0 < sint q) \<and> sint q \<le> sint (queue_length_max t0) + 1
     \<and> (m = 0 \<or> g0 + (m - 1) * (unat (min_period_ticks t0) + 1) \<le> lo))"

lemma balancedI:
  assumes "kernel_wf s" and "unat g = g0 + n" and "win.holds g th t0 q lo s" and "int j + sint q = int (m + in_flight (stage l))"
    and "0 \<le> sint q" and "taken (stage l) \<Longrightarrow> 0 < sint q" and "sint q \<le> sint (queue_length_max t0) + 1"
    and "m \<noteq> 0 \<Longrightarrow> g0 + (m - 1) * (unat (min_period_ticks t0) + 1) \<le> lo"
    and "(m - 1) * (unat (min_period_ticks t0) + 1) \<le> n"
  shows "balanced t0 g0 th n m j (l, s)"
proof -
  have "taken (stage l) \<longrightarrow> 0 < sint q" and "m = 0 \<or> g0 + (m - 1) * (unat (min_period_ticks t0) + 1) \<le> lo"
    using assms(6,8) by blast+
  with assms(1-5,7,9) show ?thesis unfolding balanced_def fst_conv snd_conv by blast
qed

lemma balancedE:
  assumes "balanced t0 g0 th n m j (l, s)"
  obtains g q lo where "kernel_wf s" and "unat g = g0 + n" and "win.holds g th t0 q lo s"
    and "int j + sint q = int (m + in_flight (stage l))"
    and "0 \<le> sint q" and "taken (stage l) \<Longrightarrow> 0 < sint q" and "sint q \<le> sint (queue_length_max t0) + 1"
    and "m \<noteq> 0 \<Longrightarrow> g0 + (m - 1) * (unat (min_period_ticks t0) + 1) \<le> lo"
    and "(m - 1) * (unat (min_period_ticks t0) + 1) \<le> n"
  using assms unfolding balanced_def fst_conv snd_conv by blast

lemma balanced_step:
  assumes "handler_ok H" and "handler_spares th H" and "quiet_job th E" and "strict_mit t0"
    and "sint (queue_length_max t0) < 2 ^ 31 - 1"
    and "balanced t0 g0 th n m j (l, s)" and "current_thread s = th" and "pattern_step H E l s = Some (l', s')"
  shows "balanced t0 g0 th n m (if stage l = Release then Suc j else j) (l', s')"
proof -
  obtain g q lo where wf: "kernel_wf s" and g: "unat g = g0 + n" and w: "win.holds g th t0 q lo s"
    and sum: "int j + sint q = int (m + in_flight (stage l))" and q: "0 \<le> sint q" "taken (stage l) \<Longrightarrow> 0 < sint q"
      "sint q \<le> sint (queue_length_max t0) + 1"
    and lo: "m \<noteq> 0 \<Longrightarrow> g0 + (m - 1) * (unat (min_period_ticks t0) + 1) \<le> lo"
    and room: "(m - 1) * (unat (min_period_ticks t0) + 1) \<le> n"
    using balancedE [OF assms(6)] by blast
  show ?thesis
  proof (cases "stage l = Slept")
    case True
    note last = step_last [OF wf w assms(7,8) True]
    have "sint (q - 1) = sint q - 1" using q(2) True by (intro sint_dec) (simp add: taken_def)
    with last True sum q show ?thesis
      by (intro balancedI [where q = "q - 1", OF _ g _ _ _ _ _ lo room]) (simp_all add: in_flight_def taken_def)
  next
    case False
    note k = step_keeps [OF assms(1-3) wf w assms(8) False] and st = step_stage [OF wf w assms(7,4,8) False]
    show ?thesis
      by (rule balancedI [OF _ g _ _ q(1) _ q(3) lo room]) (use k st sum q(2) in \<open>auto split: if_splits\<close>)
  qed
qed

lemma balanced_signal:
  assumes "handler_ok H" and "handler_spares th H" and "strict_mit t0" and "sint (queue_length_max t0) < 2 ^ 31 - 1"
    and "balanced t0 g0 th n m j (l, s)" and "deref th s = Some t" and "thread_signal H th s = Some (x, s')"
  shows "balanced t0 g0 th n (if activates (global_thread_tick_counter s) t then Suc m else m) j (l, s')"
proof -
  obtain g q lo where wf: "kernel_wf s" and g: "unat g = g0 + n" and w: "win.holds g th t0 q lo s"
    and sum: "int j + sint q = int (m + in_flight (stage l))" and q: "0 \<le> sint q" "taken (stage l) \<Longrightarrow> 0 < sint q"
      "sint q \<le> sint (queue_length_max t0) + 1"
    and lo: "m \<noteq> 0 \<Longrightarrow> g0 + (m - 1) * (unat (min_period_ticks t0) + 1) \<le> lo"
    and room: "(m - 1) * (unat (min_period_ticks t0) + 1) \<le> n"
    using balancedE [OF assms(5)] by blast
  have c: "global_thread_tick_counter s = g" by (rule win_clock [OF w wf])
  have wf': "kernel_wf s'" using thread_signal_safe [OF assms(1) wf, of th t] assms(6,7) by auto
  note w' = thread_signal_window [OF assms(1,2) wf w assms(3,6,7)]
  show ?thesis
  proof (cases "activates g t")
    case True
    have "threads s th = Some t" using assms(6) by (simp add: deref_Some_iff)
    from signal_window(2) [OF win_thread [OF w this] assms(3) True]
    have p: "unat (min_period_ticks t0) + lo < unat g" and qm: "sint q \<le> sint (queue_length_max t0)" by simp_all
    then have "sint (q + 1) = sint q + 1" using assms(4) by (intro sint_inc) simp
    moreover have "g0 + m * (unat (min_period_ticks t0) + 1) \<le> unat g"
    proof (cases "m = 0")
      case False
      then have "m * (unat (min_period_ticks t0) + 1) = (m - 1) * (unat (min_period_ticks t0) + 1) + (unat (min_period_ticks t0) + 1)"
        by (cases m) simp_all
      with lo [OF False] p show ?thesis by linarith
    qed (use g in simp)
    ultimately show ?thesis using True c wf' w' sum q qm g
      by (intro balancedI [where g = g and q = "q + 1" and lo = "unat g", OF _ g]) simp_all
  next
    case False
    with c wf' w' sum q lo room show ?thesis
      by (intro balancedI [where g = g and q = q and lo = lo, OF _ g]) simp_all
  qed
qed

lemma tick_window:
  assumes "handler_spares th H" and "kernel_wf s" and "win.holds g th t0 q lo s"
    and "unat g + 1 + 2 * unat (min_period_ticks t0) < 2 ^ 32" and "timer_isr H s = Some s'"
  shows "win.holds (g + 1) th t0 q lo s'"
proof -
  have "unat (g + 1) = unat g + 1" using assms(4) by (simp add: unat_word_ariths)
  then have w: "window t0 (g + 1) q lo t" if "threads s th = Some t" for t
    using win_thread [OF assms(3) that] assms(4) by (auto simp: window_def)
  have c: "global_thread_tick_counter s = g" by (rule win_clock [OF assms(3,2)])
  show ?thesis
  proof (cases "yield_count s = 0")
    case True
    have wf: "kernel_wf (isr_state s)"
      by (rule kernel_wf_fields [THEN iffD2, OF _ _ _ _ assms(2)]) (simp_all add: isr_state_def Let_def)
    have h: "win.holds (g + 1) th t0 q lo (isr_state s)" by (rule winI) (use w c in \<open>simp_all add: isr_state_fields\<close>)
    from True assms(5) have "thread_yield H (isr_state s) = Some s'" by (simp add: timer_isr_eq)
    from win.yield_holds [OF win_respected [OF assms(1)] wf this h] show ?thesis .
  next
    case False
    with assms(5) have "threads s' = threads s" "global_thread_tick_counter s' = g + 1" by (auto simp: timer_isr_eq c)
    with w show ?thesis by (intro winI) simp_all
  qed
qed

lemma serve_window:
  assumes "handler_spares th H" and "kernel_wf s" and "win.holds g th t0 q lo s" and "r \<noteq> Tick" and "r \<noteq> Signal th"
    and "serve H r s = Some s'"
  shows "win.holds g th t0 q lo s'"
proof (cases "\<exists>a. r = Signal a")
  case True
  then obtain a x where "r = Signal a" and a: "thread_signal H a s = Some (x, s')" using assms(6) by auto
  with assms(5) have "a \<noteq> th" by simp
  then show ?thesis using win.signal_holds [OF win_respected [OF assms(1)] assms(2) a assms(3)] by simp
next
  case False
  with win.request_holds [OF win_respected [OF assms(1)] assms(2,6,3,4)] show ?thesis by blast
qed

text \<open>What leaves the window alone keeps the balance.\<close>

lemma balanced_frame:
  assumes "balanced t0 g0 th n m j (l, s)" and "n \<le> n'"
    and "\<And>g q lo. kernel_wf s \<Longrightarrow> unat g = g0 + n \<Longrightarrow> win.holds g th t0 q lo s
      \<Longrightarrow> kernel_wf s' \<and> (\<exists>g'. unat g' = g0 + n' \<and> win.holds g' th t0 q lo s')"
  shows "balanced t0 g0 th n' m j (l, s')"
proof -
  obtain g q lo where b: "kernel_wf s" "unat g = g0 + n" "win.holds g th t0 q lo s" "int j + sint q = int (m + in_flight (stage l))"
    "0 \<le> sint q" "taken (stage l) \<Longrightarrow> 0 < sint q" "sint q \<le> sint (queue_length_max t0) + 1"
    "m \<noteq> 0 \<Longrightarrow> g0 + (m - 1) * (unat (min_period_ticks t0) + 1) \<le> lo" "(m - 1) * (unat (min_period_ticks t0) + 1) \<le> n"
    using balancedE [OF assms(1)] by blast
  obtain g' where "kernel_wf s'" "unat g' = g0 + n'" "win.holds g' th t0 q lo s'" using assms(3) [OF b(1-3)] by blast
  from balancedI [OF this b(4-8) order_trans [OF b(9) assms(2)]] show ?thesis .
qed

lemma activity_balanced:
  assumes "handler_ok H" and "handler_spares th H" and "quiet_job th E" and "strict_mit t0"
    and "sint (queue_length_max t0) < 2 ^ 31 - 1" and "balanced t0 g0 th 0 0 0 c0" and "activity H E th c0 n m j c"
  shows "g0 + n + 2 * unat (min_period_ticks t0) < 2 ^ 32 \<Longrightarrow> balanced t0 g0 th n m j c"
  using assms(7)
proof induction
  case begun
  show ?case by (rule assms(6))
next
  case (ticked n m j l s s')
  from ticked.prems have "balanced t0 g0 th n m j (l, s)" by (intro ticked.IH) simp
  then show ?case
  proof (rule balanced_frame [where n' = "Suc n"])
    show "n \<le> Suc n" by simp
  next
    fix g q lo assume s: "kernel_wf s" "unat g = g0 + n" "win.holds g th t0 q lo s"
    have u: "unat g + 1 + 2 * unat (min_period_ticks t0) < 2 ^ 32" using ticked.prems s(2) by simp
    then have "unat (g + 1) = g0 + Suc n" using s(2) by (simp add: unat_word_ariths)
    with tick_window [OF assms(2) s(1,3) u ticked.hyps(2)] timer_isr_safe [OF assms(1) s(1)] ticked.hyps(2)
    show "kernel_wf s' \<and> (\<exists>g'. unat g' = g0 + Suc n \<and> win.holds g' th t0 q lo s')" by auto
  qed
next
  case (worked n m j l s r s')
  from worked.IH [OF worked.prems] show ?case
    by (rule balanced_frame [OF _ order_refl])
      (use serve_safe [OF assms(1) _ worked.hyps(2)] serve_window [OF assms(2) _ _ worked.hyps(3-5)] worked.hyps(5) in fastforce)
next
  case (signalled n m j l s t x s')
  from balanced_signal [OF assms(1,2,4,5) signalled.IH [OF signalled.prems] signalled.hyps(2,3)] show ?case .
next
  case (stepped n m j l s l' s')
  from balanced_step [OF assms(1-5) stepped.IH [OF stepped.prems] stepped.hyps(2,3)] show ?case .
next
  case (resumed n m j l s)
  have "win.holds g th t0 q lo (timer_isr_resumed s)" if "win.holds g th t0 q lo s" for g q lo
    using that win.holds_threads [of "timer_isr_resumed s" s] by (simp add: timer_isr_resumed_def)
  with resumed.IH [OF resumed.prems] show ?case using resumed_wf by (blast intro: balanced_frame [OF _ order_refl])
qed

section \<open>Properties\<close>


text \<open>A strictly sporadic thread of ten ticks is signalled and the timer ticks a thousand times.\<close>

definition demo_strict :: kernel where
  "demo_strict = demo\<lparr>global_thread_tick_counter := 50,
     threads := demo_threads(0x200 \<mapsto> demo_sporadic\<lparr>runq_next := 0x100, priority := 10\<rparr>)\<rparr>"

lemma activity_ticks:
  assumes "handler_ok H"
  shows "activity H E th c0 n m j (l, s) \<Longrightarrow> kernel_wf s \<Longrightarrow> \<exists>s'. activity H E th c0 (n + k) m j (l, s')"
proof (induction k arbitrary: n s)
  case (Suc k)
  obtain s1 where "timer_isr H s = Some s1" "kernel_wf s1" using timer_isr_safe [OF assms Suc.prems(2)] by blast
  with Suc.IH [OF activity.ticked [OF Suc.prems(1)]] show ?case by simp
qed auto


text \<open>C30: near the overflow of the counter the separation is lost: when the end of the double period after the
  last activation overflows, the walk of a yield moves the last activation of the waiting thread to a time
  that is still to come, and a signal that comes too early is accepted.\<close>

theorem early_signal_at_overflow:
  assumes "strict_mit t" and "status t = SIMPLERTFRAMEWORK_BLOCKED" and "sint (queue_pending t) \<le> sint (queue_length_max t)"
    and "queue_last_input t \<le> now" and "now - queue_last_input t < min_period_ticks t" and "min_period_ticks t < 2 ^ 31"
    and "2 ^ 32 \<le> unat (queue_last_input t) + 2 * unat (min_period_ticks t)"
  shows "\<not> activates now t \<and> activates now (signal_support now t)"
proof
  let ?l = "queue_last_input t" and ?p = "min_period_ticks t"
  have p: "unat ?p < 2 ^ 31" using assms(6) by (simp add: word_less_nat_alt)
  show "\<not> activates now t"
    using strict_mit_cases [OF assms(1), of now] assms(5) by (auto simp: activates_def)
  have "unat (?l + 2 * ?p) = unat ?l + 2 * unat ?p - 2 ^ 32"
    using assms(7) p unat_u32 [of ?l] by (simp add: unat_word_ariths mod_nat_eqI)
  then have "?l + 2 * ?p < now"
    using assms(4) p unat_u32 [of ?l] assms(7) by (simp add: word_less_nat_alt word_le_nat_alt)
  then have w: "signal_support now t = t\<lparr>queue_last_input := ?l + ?p\<rparr>" using assms(2) by (simp add: signal_support_def)
  have "unat (now - (?l + ?p)) = 2 ^ 32 - (unat ?p - unat (now - ?l))"
    using remaining_late [of "now - ?l" ?p 0] assms(5) by (simp add: algebra_simps)
  then have "?p < now - (?l + ?p)" using p by (simp add: word_less_nat_alt)
  then show "activates now (signal_support now t)"
    using assms(1,3) unfolding w by (simp add: activates_def signal_update_def strict_mit_def)
qed

theorem early_signal_at_overflow_witness:
  "activates 0xFFFFFFFF (signal_support 0xFFFFFFFF (demo_sporadic\<lparr>status := SIMPLERTFRAMEWORK_BLOCKED, queue_last_input := 0xFFFFFFFB\<rparr>))"
proof -
  let ?t = "demo_sporadic\<lparr>status := SIMPLERTFRAMEWORK_BLOCKED, queue_last_input := 0xFFFFFFFB\<rparr>"
  have "strict_mit ?t"
    by (simp add: strict_mit_def policy_mit_def policy_ov_def demo_sporadic_def blank_thread_def rt_consts)
  from early_signal_at_overflow [OF this, of "0xFFFFFFFF"] show ?thesis
    by (simp add: demo_sporadic_def blank_thread_def rt_consts word_le_nat_alt)
qed

end
