(* ===== verification/RT_Frame.thy ===== *)
theory RT_Frame
  imports RT_Requests
begin

text \<open>
  What the requests of threads leave as it is: the links of the run queue, the stacks, the blocks in use, the
  queues and the names of the semaphores. The rules in \<open>frame\<close> follow this through an operation.
\<close>

section \<open>The shape of the kernel\<close>

definition shape :: "kernel \<Rightarrow> addr \<times> addr \<times> addr set \<times> (addr \<rightharpoonup> queue) \<times> addr set \<times> (addr \<rightharpoonup> addr \<times> addr)" where
  "shape s = (thread_list s, thread_main_inf s, blocks s, queues s, dom (sems s),
     \<lambda>a. map_option (\<lambda>t. (runq_next t, stack t)) (threads s a))"

definition handler_frugal :: "upcall \<Rightarrow> bool" where
  "handler_frugal H \<longleftrightarrow> (\<forall>f e s s'. H f e s = Some s' \<longrightarrow> shape s' = shape s)"

definition leads :: "kernel \<Rightarrow> kernel option \<Rightarrow> bool" where
  "leads s m \<longleftrightarrow> (\<forall>s'. m = Some s' \<longrightarrow> shape s' = shape s)"

named_theorems frame \<open>rules that follow the shape of the kernel through an operation\<close>

lemma shape_fields [simp]:
  "shape (s\<lparr>global_thread_tick_counter := w\<rparr>) = shape s" "shape (s\<lparr>tick_counter_last_cost := w\<rparr>) = shape s"
  "shape (s\<lparr>tick_counter_previous := w\<rparr>) = shape s" "shape (s\<lparr>carry_tick_counter := b\<rparr>) = shape s"
  "shape (s\<lparr>yield_count := w\<rparr>) = shape s" "shape (s\<lparr>current_thread := a\<rparr>) = shape s"
  "shape (s\<lparr>next_thread := a\<rparr>) = shape s" "shape (s\<lparr>pxCurrentTCB_aux0 := b\<rparr>) = shape s"
  "shape (s\<lparr>pxCurrentTCB_aux1 := b\<rparr>) = shape s" "shape (s\<lparr>hw_sp := a\<rparr>) = shape s"
  by (simp_all add: shape_def)

lemma shape_upd:
  assumes "upd_thread a f s = Some s'" and "\<And>t. runq_next (f t) = runq_next t" and "\<And>t. stack (f t) = stack t"
  shows "shape s' = shape s"
  using assms by (auto simp: upd_thread_Some_iff deref_Some_iff shape_def fun_eq_iff)

lemma leads_Some [frame]: "shape s1 = shape s \<Longrightarrow> leads s (Some s1)"
  by (simp add: leads_def)

lemma leads_upd [frame]:
  assumes "shape s1 = shape s" and "\<And>t. runq_next (f t) = runq_next t" and "\<And>t. stack (f t) = stack t"
  shows "leads s (upd_thread a f s1)"
  unfolding leads_def by (metis assms shape_upd)

lemma leads_bind [frame]: "leads s m \<Longrightarrow> (\<And>s1. shape s1 = shape s \<Longrightarrow> leads s (k s1)) \<Longrightarrow> leads s (m \<bind> k)"
  unfolding leads_def bind_eq_Some_conv by blast

lemma leads_deref [frame]: "(\<And>t. leads s (k t)) \<Longrightarrow> leads s (deref a s1 \<bind> k)"
  unfolding leads_def bind_eq_Some_conv by blast

lemma leads_if [frame]: "leads s m \<Longrightarrow> leads s m' \<Longrightarrow> leads s (if c then m else m')"
  by simp

lemma leads_pair:
  "(\<And>a s1. m = Some (a, s1) \<Longrightarrow> leads s (k a s1)) \<Longrightarrow> leads s (m \<bind> (\<lambda>(a, s). k a s))"
  unfolding leads_def bind_eq_Some_conv by fast

lemma leads_trans: "leads s1 m \<Longrightarrow> shape s1 = shape s \<Longrightarrow> leads s m"
  unfolding leads_def by simp

lemma refresh_stack [simp]: "stack (refresh n c t) = stack t"
  by (simp add: refresh_def wake_check_def signal_support_def Let_def)

lemma change_high_leads: "leads s (change_high s)"
  unfolding change_high_def Let_def by (intro frame) simp_all

lemma do_switch_leads [frame]: "shape s1 = shape s \<Longrightarrow> leads s (do_switch s1)"
  unfolding do_switch_def Let_def by (intro frame leads_trans [OF change_high_leads]) simp_all

lemma ats_deliver_leads [frame]:
  assumes "handler_frugal H" and "shape s1 = shape s"
  shows "leads s (ats_deliver H s1)"
proof -
  have "shape s' = shape s1" if "ats_deliver H s1 = Some s'" for s'
  proof (rule ats_deliver_frame [where R = "\<lambda>s s'. shape s' = shape s", OF _ _ _ _ that])
    show "shape u = shape s" if "upd_thread (current_thread s) (\<lambda>t. t\<lparr>ats_pending := ats_pending t - 1\<rparr>) s = Some u" for s u
      using that by (rule shape_upd) simp_all
    show "shape u = shape s" if "H f e s = Some u" for f e s u
      using assms(1) that unfolding handler_frugal_def by blast
  qed simp_all
  with assms(2) show ?thesis by (simp add: leads_def)
qed

lemma thread_start_leads [frame]:
  "handler_frugal H \<Longrightarrow> shape s1 = shape s \<Longrightarrow> leads s (thread_start H th s1)"
  unfolding thread_start_def by (intro frame) simp_all

lemma yield_loop_shape:
  assumes "yield_loop th c s = Some r"
  shows "shape (snd r) = shape s"
proof (rule yield_loop.raw_induct [where P = "\<lambda>th c s r. shape (snd r) = shape s", OF _ assms])
  fix loop :: "addr \<Rightarrow> addr \<Rightarrow> kernel \<Rightarrow> (addr \<times> kernel) option" and th c s r
  assume IH: "\<And>th c s r. loop th c s = Some r \<Longrightarrow> shape (snd r) = shape s"
    and body: "do {
       t \<leftarrow> deref th s;
       let th = (if runq_next t = NULL then thread_list s else runq_next t);
       let s = s\<lparr>next_thread := th\<rparr>;
       s \<leftarrow> upd_thread th (refresh (global_thread_tick_counter s) (carry_tick_counter s)) s;
       t \<leftarrow> deref th s;
       th_candidate \<leftarrow>
         (if status t = SIMPLERTFRAMEWORK_ACTIVE
          then do {
            k \<leftarrow> deref c s;
            Some (if priority k \<le> priority t \<and> next_thread s \<noteq> current_thread s then th else c) }
          else Some c);
       (if next_thread s \<noteq> current_thread s then loop th th_candidate s
        else Some (th_candidate, s)) } = Some r"
  obtain n i j s1 c1 where u: "upd_thread n (refresh i j) (s\<lparr>next_thread := n\<rparr>) = Some s1"
    and r: "(if next_thread s1 \<noteq> current_thread s1 then loop n c1 s1 else Some (c1, s1)) = Some r"
    using body unfolding bind_eq_Some_conv Let_def by blast
  have "shape s1 = shape (s\<lparr>next_thread := n\<rparr>)" by (rule shape_upd [OF u]) simp_all
  moreover have "shape (snd r) = shape s1"
    using r IH [of n c1 s1 r] by (cases "next_thread s1 = current_thread s1") auto
  ultimately show "shape (snd r) = shape s" by simp
qed

lemma charge_leads [frame]: "shape s1 = shape s \<Longrightarrow> leads s (charge_current s1)"
  unfolding charge_current_def Let_def by (intro frame) simp_all

lemma overrun_leads [frame]: "shape s1 = shape s \<Longrightarrow> leads s (overrun_check s1)"
  unfolding overrun_check_def by (intro frame) simp_all

lemma yield_leads [frame]:
  assumes "handler_frugal H" and "shape s1 = shape s"
  shows "leads s (thread_yield H s1)"
  unfolding thread_yield_def Let_def
proof (intro frame leads_pair)
  show "shape s2 = shape s" if "yield_loop (current_thread s1) (thread_main_inf s1) s1 = Some (c, s2)" for c s2
    using yield_loop_shape [OF that] assms(2) by simp
qed (use assms in simp_all)

lemma isr_leads [frame]: "handler_frugal H \<Longrightarrow> shape s1 = shape s \<Longrightarrow> leads s (timer_isr H s1)"
  unfolding timer_isr_def Let_def by (intro frame) simp_all

lemma sleep_leads [frame]: "handler_frugal H \<Longrightarrow> shape s1 = shape s \<Longrightarrow> leads s (tick_sleep H n s1)"
  unfolding tick_sleep_def by (intro frame) (simp_all add: set_sleep_def Let_def)

lemma usleep_leads [frame]: "handler_frugal H \<Longrightarrow> shape s1 = shape s \<Longrightarrow> leads s (thread_usleep H n s1)"
  unfolding thread_usleep_def by (intro frame) simp_all

lemma block_leads [frame]: "handler_frugal H \<Longrightarrow> shape s1 = shape s \<Longrightarrow> leads s (thread_block H s1)"
  unfolding thread_block_def by (intro frame) simp_all

lemma unblock_leads [frame]: "handler_frugal H \<Longrightarrow> shape s1 = shape s \<Longrightarrow> leads s (thread_unblock H th s1)"
  unfolding thread_unblock_def by (intro frame) simp_all

lemma ats_enable_leads [frame]: "handler_frugal H \<Longrightarrow> shape s1 = shape s \<Longrightarrow> leads s (thread_ATS_enable H s1)"
  unfolding thread_ATS_enable_def by (intro frame) simp_all

lemma ats_disable_leads [frame]: "shape s1 = shape s \<Longrightarrow> leads s (thread_ATS_disable s1)"
  unfolding thread_ATS_disable_def by (intro frame) simp_all

lemma signal_update_stack: "stack (snd (signal_update now t)) = stack t"
  by (simp add: signal_update_def)

lemma snd_bind: "map_option snd (m \<bind> (\<lambda>s. Some (f s, s))) = m"
  by (cases m) simp_all

lemma signal_leads: "handler_frugal H \<Longrightarrow> leads s (map_option snd (thread_signal H th s))"
proof (cases "deref th s")
  case None
  then show ?thesis by (simp add: thread_signal_def leads_def)
next
  case (Some t)
  let ?u = "snd (signal_update (global_thread_tick_counter s) t)"
  let ?s = "s\<lparr>threads := (threads s)(th \<mapsto> ?u)\<rparr>"
  assume H: "handler_frugal H"
  have th: "th \<noteq> NULL" "threads s th = Some t" using Some by (simp_all add: deref_Some_iff)
  have "shape ?s = shape s"
    using th by (simp add: shape_def fun_eq_iff signal_update_stack)
  then have "leads s (thread_unblock H th ?s)" by (intro frame H)
  moreover have "map_option snd (thread_signal H th s) = thread_unblock H th ?s"
    using th Some by (simp add: thread_signal_def upd_thread_def case_prod_beta Let_def snd_bind)
  ultimately show ?thesis by simp
qed

lemma ats_signal_leads: "handler_frugal H \<Longrightarrow> leads s (map_option snd (thread_ATS_signal H th s))"
proof -
  assume H: "handler_frugal H"
  have "map_option snd (thread_ATS_signal H th s) = do {
      s \<leftarrow> upd_thread th (\<lambda>t. t\<lparr>ats_pending := ats_pending t + 1\<rparr>) s;
      thread_yield H s }"
    by (simp add: thread_ATS_signal_def map_option_bind comp_def snd_bind)
  then show ?thesis using H by (simp only:) (intro frame, simp_all)
qed

lemma shape_sems: "sems s sem = Some v \<Longrightarrow> shape (s\<lparr>sems := (sems s)(sem \<mapsto> w)\<rparr>) = shape s"
  by (auto simp: shape_def)

lemma P_leads: "handler_frugal H \<Longrightarrow> leads s (thread_semaphore_P H sem s)"
proof (cases "sems s sem")
  case None
  then show ?thesis by (simp add: thread_semaphore_P_def leads_def)
next
  case (Some v)
  assume "handler_frugal H"
  then show ?thesis
    unfolding thread_semaphore_P_def Some bind.bind_lunit by (intro frame shape_sems [OF Some]) simp_all
qed

lemma V_leads:
  assumes "handler_frugal H"
  shows "leads s (thread_semaphore_V H sem s)"
proof -
  have v: "leads s (do { v \<leftarrow> sems s sem; Some (s\<lparr>sems := (sems s)(sem \<mapsto> v + 1)\<rparr>) })"
    by (cases "sems s sem") (simp_all add: leads_def shape_sems)
  have "leads s (if c \<noteq> NULL then do {
          s \<leftarrow> upd_thread c (\<lambda>t. t\<lparr>status := SIMPLERTFRAMEWORK_ACTIVE, blocked_semaphore := NULL\<rparr>) s;
          thread_yield H s }
        else do { v \<leftarrow> sems s sem; Some (s\<lparr>sems := (sems s)(sem \<mapsto> v + 1)\<rparr>) })" for c
    by (rule leads_if [OF _ v]) (intro frame assms, simp_all)
  then show ?thesis
    unfolding thread_semaphore_V_def
    by (cases "sem_scan sem (thread_list s) NULL s") (simp_all add: leads_def)
qed

lemma cost_leads: "leads s (map_option snd (get_current_cost_ticks s))"
proof -
  have "map_option snd (get_current_cost_ticks s) = do {
      s \<leftarrow> charge_current s; t \<leftarrow> deref (current_thread s) s; Some s }"
    by (simp add: get_current_cost_ticks_def map_option_bind comp_def)
  then show ?thesis by (simp only:) (intro frame, simp_all)
qed

lemma serve_leads: "handler_frugal H \<Longrightarrow> leads s (serve H r s)"
proof (cases r)
  case (Signal th)
  assume "handler_frugal H"
  then show ?thesis unfolding Signal serve.simps by (rule signal_leads)
next
  case (ATS_signal th)
  assume "handler_frugal H"
  then show ?thesis unfolding ATS_signal serve.simps by (rule ats_signal_leads)
next
  case (Sem_P sem)
  assume "handler_frugal H"
  then show ?thesis unfolding Sem_P serve.simps by (rule P_leads)
next
  case (Sem_V sem)
  assume "handler_frugal H"
  then show ?thesis unfolding Sem_V serve.simps by (rule V_leads)
next
  case Charge
  show ?thesis unfolding Charge serve.simps by (rule cost_leads)
qed (simp_all only: serve.simps, (intro frame; simp)+)

end
