(* ===== verification/RT_Library.thy ===== *)
theory RT_Library
  imports RT_Frame RT_Create RT_Queue
begin

text \<open>
  The whole interface of the library as a client sees it: what it was given and has not given back (a
  ledger), which calls the ledger allows, and what the calls leave of the ledger. A client that keeps to
  its ledger never runs into undefined behaviour, and the blocks in use are those of the ledger.
\<close>

section \<open>The ledger of a client\<close>

text \<open>What a client can hold: the structure of a thread, the stack the library gave a thread, a semaphore, a
  queue, a block of memory; and for a queue the number of elements that may still be read from it.\<close>

datatype piece = Struct addr | Stack addr | Sem addr | Queue addr | Raw addr

record ledger =
  held :: "piece set"
  reads_left :: "addr \<Rightarrow> nat"

text \<open>Where a piece lies.\<close>

fun place :: "kernel \<Rightarrow> piece \<Rightarrow> addr" where
  "place s (Struct a) = a"
| "place s (Stack a) = (case threads s a of None \<Rightarrow> NULL | Some t \<Rightarrow> stack t)"
| "place s (Sem a) = a"
| "place s (Queue a) = a"
| "place s (Raw a) = a"

text \<open>The ledger and the heap agree: every piece has a block of its own, and there are no other blocks.\<close>

definition stock :: "ledger \<Rightarrow> kernel \<Rightarrow> bool" where
  "stock L s \<longleftrightarrow> bij_betw (place s) (held L) (blocks s) \<and> NULL \<notin> blocks s
     \<and> (\<forall>a. Stack a \<in> held L \<longrightarrow> Struct a \<in> held L)
     \<and> (\<forall>a. Sem a \<in> held L \<longrightarrow> sems s a \<noteq> None)
     \<and> (\<forall>a. Queue a \<in> held L \<longrightarrow> (\<exists>q. queues s a = Some q \<and> queue_ok q \<and> reads_left L a \<le> queue_budget q))"

definition lib_wf :: "ledger \<Rightarrow> kernel \<Rightarrow> bool" where
  "lib_wf L s \<longleftrightarrow> stock L s \<and> (\<exists>ts. runq_wf s ts \<and> set ts = {a. Struct a \<in> held L})"

section \<open>Calls\<close>

datatype call = Request request
  | Create addr addr u16 u8 addr
  | Create_periodic addr addr addr u16 u8 u32 u32 u32 u32 addr
  | Create_sporadic addr addr addr u16 u8 u32 u32 u32 u32 u8 u32 addr
  | Create_aperiodic addr addr addr u16 u8 u32 u32 u32 u8 u32 addr
  | Remove addr
  | Sem_create s16 | Sem_free addr
  | Queue_create u16 | Queue_delete addr | Queue_get addr | Queue_set addr addr
  | Malloc | Free addr

definition book :: "piece set \<Rightarrow> ledger \<Rightarrow> ledger" where
  "book E L = L\<lparr>held := held L \<union> E\<rparr>"

definition cross_off :: "piece set \<Rightarrow> ledger \<Rightarrow> ledger" where
  "cross_off D L = L\<lparr>held := held L - D\<rparr>"

text \<open>What a successful creation with the stack argument \<open>stk\<close> puts into the ledger.\<close>

definition book_thread :: "addr \<Rightarrow> addr \<Rightarrow> ledger \<Rightarrow> ledger" where
  "book_thread stk th L =
     (if th = NULL then L else if stk = NULL then book {Struct th, Stack th} L else book {Struct th} L)"

fun perform :: "upcall \<Rightarrow> image \<Rightarrow> call \<Rightarrow> ledger \<times> kernel \<Rightarrow> (ledger \<times> kernel) option" where
  "perform H img (Request r) (L, s) = do { s \<leftarrow> serve H r s; Some (L, s) }"
| "perform H img (Create entry stk z pri arg) (L, s) = do {
     (th, s) \<leftarrow> thread_create H img entry stk z pri arg s;
     Some (book_thread stk th L, s) }"
| "perform H img (Create_periodic entry params stk z pri offs period deadline cost handler) (L, s) = do {
     (th, s) \<leftarrow> periodic_thread_create H img entry params stk z pri offs period deadline cost handler s;
     Some (book_thread stk th L, s) }"
| "perform H img (Create_sporadic entry params stk z pri offs mit deadline cost policy qmax handler) (L, s) = do {
     (th, s) \<leftarrow> sporadic_thread_create H img entry params stk z pri offs mit deadline cost policy qmax handler s;
     Some (book_thread stk th L, s) }"
| "perform H img (Create_aperiodic entry params stk z pri offs deadline cost policy qmax handler) (L, s) = do {
     (th, s) \<leftarrow> aperiodic_thread_create H img entry params stk z pri offs deadline cost policy qmax handler s;
     Some (book_thread stk th L, s) }"
| "perform H img (Remove th) (L, s) = do {
     (r, s) \<leftarrow> thread_remove th s;
     Some (if r = 0 then cross_off {Struct th, Stack th} L else L, s) }"
| "perform H img (Sem_create v) (L, s) = do {
     (sem, s) \<leftarrow> thread_semaphore_create v s;
     Some (book {Sem sem} L, s) }"
| "perform H img (Sem_free sem) (L, s) = do {
     s \<leftarrow> thread_semaphore_free sem s;
     Some (cross_off {Sem sem} L, s) }"
| "perform H img (Queue_create n) (L, s) = do {
     (q, s) \<leftarrow> thread_queue_create n s;
     Some ((book {Queue q} L)\<lparr>reads_left := (reads_left L)(q := unat n)\<rparr>, s) }"
| "perform H img (Queue_delete q) (L, s) = do {
     s \<leftarrow> thread_queue_delete q s;
     Some (cross_off {Queue q} L, s) }"
| "perform H img (Queue_get q) (L, s) = do {
     (_, s) \<leftarrow> thread_queue_nb_get_element q s;
     Some (L\<lparr>reads_left := (reads_left L)(q := reads_left L q - 1)\<rparr>, s) }"
| "perform H img (Queue_set q e) (L, s) = do {
     (_, s) \<leftarrow> thread_queue_nb_set_element q e s;
     Some (L, s) }"
| "perform H img Malloc (L, s) = (case thread_malloc s of
     (None, s) \<Rightarrow> Some (L, s)
   | (Some c, s) \<Rightarrow> Some (book {Raw (ptr c)} L, s))"
| "perform H img (Free p) (L, s) = do {
     s \<leftarrow> thread_free p s;
     Some (cross_off {Raw p} L, s) }"

text \<open>Is there memory for one block, for the structure and the stack of a thread?\<close>

definition memory :: "kernel \<Rightarrow> bool" where
  "memory s \<longleftrightarrow> fst (malloc s) \<noteq> None"

definition memory_for_thread :: "addr \<Rightarrow> kernel \<Rightarrow> bool" where
  "memory_for_thread stk s \<longleftrightarrow> memory s \<and> (stk = NULL \<longrightarrow> memory (snd (malloc s)))"

text \<open>
  The calls a client may make. Names must be in the ledger. A thread may be removed when it does not run and
  its stack came from the library. Semaphores, queues and aperiodic threads may only be created when
  there is memory, since the code does not check the answer of \<open>malloc\<close>; a queue must fit into the 16
  bits of \<open>size_t\<close>, and from one of \<open>n\<close> elements at most \<open>n\<close> reads may be made.
\<close>

fun allowed :: "ledger \<Rightarrow> kernel \<Rightarrow> call \<Rightarrow> bool" where
  "allowed L s (Request (Unblock th)) = (Struct th \<in> held L)"
| "allowed L s (Request (Signal th)) = (th = NULL \<or> Struct th \<in> held L)"
| "allowed L s (Request (ATS_signal th)) = (Struct th \<in> held L)"
| "allowed L s (Request (Sem_P sem)) = (sem = NULL \<or> Sem sem \<in> held L)"
| "allowed L s (Request (Sem_V sem)) = (sem = NULL \<or> Sem sem \<in> held L)"
| "allowed L s (Create_aperiodic entry params stk z pri offs deadline cost policy qmax handler) = memory_for_thread stk s"
| "allowed L s (Remove th) = (th \<noteq> current_thread s \<and> (Struct th \<in> held L \<longrightarrow> Stack th \<in> held L))"
| "allowed L s (Sem_create v) = memory s"
| "allowed L s (Sem_free sem) = (sem = NULL \<or> Sem sem \<in> held L)"
| "allowed L s (Queue_create n) = (memory s \<and> 2 * unat n + 16 < 2 ^ 16)"
| "allowed L s (Queue_delete q) = (q = NULL \<or> Queue q \<in> held L)"
| "allowed L s (Queue_get q) = (Queue q \<in> held L \<and> 0 < reads_left L q)"
| "allowed L s (Queue_set q e) = (Queue q \<in> held L)"
| "allowed L s (Free p) = (p = NULL \<or> Raw p \<in> held L)"
| "allowed L s _ = True"

section \<open>The ledger follows the heap\<close>

lemma stock_NULL: "stock L s \<Longrightarrow> x \<in> held L \<Longrightarrow> place s x \<noteq> NULL \<and> place s x \<in> blocks s"
  unfolding stock_def bij_betw_def by (metis imageI)

lemma stock_inj: "stock L s \<Longrightarrow> x \<in> held L \<Longrightarrow> y \<in> held L \<Longrightarrow> place s x = place s y \<Longrightarrow> x = y"
  unfolding stock_def bij_betw_def by (meson inj_onD)

text \<open>Two kernels that agree on the pieces at the addresses in \<open>A\<close>.\<close>

definition agree :: "addr set \<Rightarrow> kernel \<Rightarrow> kernel \<Rightarrow> bool" where
  "agree A s s' \<longleftrightarrow> (\<forall>a\<in>A. map_option stack (threads s' a) = map_option stack (threads s a)
     \<and> (sems s' a = None) = (sems s a = None) \<and> queues s' a = queues s a)"

lemma place_agree:
  assumes "agree A s s'" and "stock L s" and "x \<in> held L" and "\<And>a. x = Stack a \<Longrightarrow> a \<in> A"
  shows "place s' x = place s x"
proof (cases x)
  case (Stack a)
  with assms(1,4) have "map_option stack (threads s' a) = map_option stack (threads s a)" by (simp add: agree_def)
  with Stack show ?thesis by (cases "threads s a"; cases "threads s' a") simp_all
qed simp_all

text \<open>Pieces are given back.\<close>

lemma stock_minus:
  assumes "stock L s" and "D \<subseteq> held L" and "blocks s' = blocks s - place s ` D"
    and "agree (blocks s - place s ` D) s s'"
    and "\<And>a. Struct a \<in> D \<Longrightarrow> Stack a \<in> held L \<Longrightarrow> Stack a \<in> D"
  shows "stock (cross_off D L) s'"
proof -
  have kept: "place s x \<in> blocks s - place s ` D" if "x \<in> held L - D" for x
    using that stock_NULL [OF assms(1)] stock_inj [OF assms(1)] assms(2) by blast
  have st: "a \<in> blocks s - place s ` D" if "Stack a \<in> held L - D" for a
  proof -
    have "Struct a \<in> held L - D" using that assms(1,5) by (auto simp: stock_def)
    from kept [OF this] show ?thesis by simp
  qed
  have eq: "place s' x = place s x" if "x \<in> held L - D" for x
    using that st by (intro place_agree [OF assms(4,1)]) auto
  have "bij_betw (place s) (held L - D) (blocks s - place s ` D)"
    using assms(1,2) inj_on_image_set_diff [of "place s" "held L" "held L" D]
    by (simp add: stock_def bij_betw_def inj_on_diff)
  then have "bij_betw (place s') (held L - D) (blocks s')"
    using bij_betw_cong [of "held L - D" "place s'" "place s"] eq assms(3) by simp
  moreover have "sems s' a \<noteq> None" if "Sem a \<in> held L - D" for a
    using kept [OF that] that assms(1,4) by (auto simp: stock_def agree_def)
  moreover have "queues s' a = queues s a" if "Queue a \<in> held L - D" for a
    using kept [OF that] assms(4) by (simp add: agree_def)
  ultimately show ?thesis using assms(1,3,5) by (auto simp: stock_def cross_off_def)
qed

text \<open>Pieces are added, in fresh blocks.\<close>

lemma stock_plus:
  assumes "stock L s" and "blocks s' = blocks s \<union> B" and "B \<inter> blocks s = {}" and "NULL \<notin> B"
    and "agree (blocks s) s s'" and "bij_betw (place s') E B"
    and "\<And>a. Stack a \<in> E \<Longrightarrow> Struct a \<in> held L \<union> E" and "\<And>a. Sem a \<in> E \<Longrightarrow> sems s' a \<noteq> None"
    and "\<And>a. Queue a \<in> E \<Longrightarrow> \<exists>q. queues s' a = Some q \<and> queue_ok q \<and> r a \<le> queue_budget q"
    and "\<And>a. Queue a \<in> held L \<Longrightarrow> r a = reads_left L a"
  shows "stock ((book E L)\<lparr>reads_left := r\<rparr>) s'"
proof -
  have st: "a \<in> blocks s" if "Stack a \<in> held L" for a
    using that assms(1) stock_NULL [OF assms(1), of "Struct a"] by (simp add: stock_def)
  have eq: "place s' x = place s x" if "x \<in> held L" for x
    using that st by (intro place_agree [OF assms(5,1)]) auto
  have "bij_betw (place s') (held L) (blocks s)"
    using assms(1) bij_betw_cong [of "held L" "place s'" "place s"] eq by (simp add: stock_def)
  with assms(3,6) have "bij_betw (place s') (held L \<union> E) (blocks s \<union> B)"
    by (intro bij_betw_combine) auto
  moreover have "sems s' a \<noteq> None" if "Sem a \<in> held L" for a
    using that stock_NULL [OF assms(1) that] assms(1,5) by (auto simp: stock_def agree_def)
  moreover have "queues s' a = queues s a" if "Queue a \<in> held L" for a
    using stock_NULL [OF assms(1) that] assms(5) by (simp add: agree_def)
  ultimately show ?thesis using assms(1,2,4,7-10) by (auto simp: stock_def book_def)
qed

lemma stock_plus_one:
  assumes "stock L s" and "blocks s' = insert (place s' x) (blocks s)" and "place s' x \<notin> blocks s"
    and "place s' x \<noteq> NULL" and "agree (blocks s) s s'" and "\<And>a. x \<noteq> Stack a"
    and "\<And>a. x = Sem a \<Longrightarrow> sems s' a \<noteq> None" and "\<And>a. x \<noteq> Queue a"
  shows "stock (book {x} L) s'"
proof -
  have "stock ((book {x} L)\<lparr>reads_left := reads_left L\<rparr>) s'"
  proof (rule stock_plus [OF assms(1), where B = "{place s' x}"])
    show "Struct a \<in> held L \<union> {x}" if "Stack a \<in> {x}" for a using that assms(6) [of a] by simp
    show "\<exists>q. queues s' a = Some q \<and> queue_ok q \<and> reads_left L a \<le> queue_budget q" if "Queue a \<in> {x}" for a
      using that assms(8) [of a] by simp
    show "sems s' a \<noteq> None" if "Sem a \<in> {x}" for a using that assms(7) [of a] by simp
  qed (use assms(2-5) in \<open>simp_all add: bij_betw_def\<close>)
  then show ?thesis by (simp add: book_def)
qed

lemma agree_refl: "threads s' = threads s \<Longrightarrow> sems s' = sems s \<Longrightarrow> queues s' = queues s \<Longrightarrow> agree A s s'"
  by (simp add: agree_def)

text \<open>Operations that leave the shape of the kernel.\<close>

lemma shape_thread:
  assumes "shape s' = shape s"
  shows "map_option runq_next (threads s' a) = map_option runq_next (threads s a)"
    and "map_option stack (threads s' a) = map_option stack (threads s a)"
proof -
  have "map_option (\<lambda>t. (runq_next t, stack t)) (threads s' a) = map_option (\<lambda>t. (runq_next t, stack t)) (threads s a)"
    using assms by (simp add: shape_def fun_eq_iff)
  then show "map_option runq_next (threads s' a) = map_option runq_next (threads s a)"
    and "map_option stack (threads s' a) = map_option stack (threads s a)"
    by (cases "threads s a"; cases "threads s' a"; simp)+
qed

lemma stock_shape:
  assumes "stock L s" and "shape s' = shape s"
  shows "stock L s'"
proof -
  have "dom (sems s') = dom (sems s)" using assms(2) by (simp add: shape_def)
  then have d: "(sems s' a = None) = (sems s a = None)" for a by (metis domIff)
  have "queues s' = queues s" "blocks s' = blocks s" using assms(2) by (simp_all add: shape_def)
  then have "stock (cross_off {} L) s'"
    using d by (intro stock_minus [OF assms(1)]) (simp_all add: agree_def shape_thread(2) [OF assms(2)])
  then show ?thesis by (simp add: cross_off_def)
qed

lemma lib_wf_shape:
  assumes "lib_wf L s" and "shape s' = shape s" and "kernel_wf s'"
  shows "lib_wf L s'"
proof -
  obtain ts where ts: "runq_wf s ts" "set ts = {a. Struct a \<in> held L}" using assms(1) by (auto simp: lib_wf_def)
  obtain us where us: "runq_wf s' us" using assms(3) by (rule kernel_wfE)
  have "runq (threads s') (thread_list s') ts = runq (threads s) (thread_list s') ts"
    by (rule runq_cong) (rule shape_thread(1) [OF assms(2)])
  moreover have "thread_list s' = thread_list s" using assms(2) by (simp add: shape_def)
  ultimately have "runq (threads s') (thread_list s') ts" using ts(1) by (simp add: runq_wf_def)
  with us have "us = ts" by (auto simp: runq_wf_def intro: runq_unique)
  with us ts(2) stock_shape [OF _ assms(2)] assms(1) show ?thesis by (auto simp: lib_wf_def)
qed

section \<open>Every allowed call succeeds and keeps the ledger right\<close>

lemma lib_live:
  assumes "lib_wf L s" and "Struct a \<in> held L"
  shows "deref a s \<noteq> None"
proof -
  obtain ts where "runq_wf s ts" "a \<in> set ts" using assms by (auto simp: lib_wf_def)
  from runq_wf_deref [OF this] show ?thesis by auto
qed

lemma lib_kernel: "lib_wf L s \<Longrightarrow> kernel_wf s"
  by (auto simp: lib_wf_def intro: kernel_wfI)

lemma lib_list: "lib_wf L s \<Longrightarrow> thread_list s \<noteq> NULL"
  by (auto simp: lib_wf_def dest: runq_wf_list_nonnull)

lemma request_lib:
  assumes "handler_ok H" and "handler_frugal H" and "lib_wf L s" and "allowed L s (Request r)"
  shows "\<exists>s'. serve H r s = Some s' \<and> lib_wf L s'"
proof -
  have "valid r s"
    using assms(4) lib_live [OF assms(3)] assms(3) by (cases r) (auto simp: lib_wf_def stock_def)
  from serve_safe [OF assms(1) lib_kernel [OF assms(3)] this]
  obtain s' where s': "serve H r s = Some s'" "kernel_wf s'" by blast
  with serve_leads [OF assms(2), of s r] have "shape s' = shape s" by (simp add: leads_def)
  with s' lib_wf_shape [OF assms(3)] show ?thesis by blast
qed

text \<open>Updates of a thread that touch neither its link nor its stack.\<close>

lemma upd_lib:
  assumes "lib_wf L s" and "Struct a \<in> held L" and "\<And>t. runq_next (f t) = runq_next t" and "\<And>t. stack (f t) = stack t"
  shows "\<exists>s'. upd_thread a f s = Some s' \<and> lib_wf L s'"
proof -
  obtain s' where s': "upd_thread a f s = Some s'"
    using lib_live [OF assms(1,2)] by (auto simp: upd_thread_def)
  with lib_wf_shape [OF assms(1) shape_upd [OF s' assms(3,4)] kernel_wf_upd_thread [OF lib_kernel [OF assms(1)] s' assms(3)]]
  show ?thesis by blast
qed

lemma malloc_None_shape: "malloc s = (None, s') \<Longrightarrow> shape s' = shape s \<and> current_thread s' = current_thread s"
  by (cases "answers s") (auto simp: malloc_def shape_def split: if_splits)

lemma kernel_wf_shape:
  assumes "kernel_wf s" and "shape s' = shape s" and "current_thread s' = current_thread s"
  shows "kernel_wf s'"
proof -
  obtain ts where ts: "runq_wf s ts" using assms(1) by (rule kernel_wfE)
  have "runq_wf s' ts"
    by (rule runq_wf_cong [OF _ _ _ shape_thread(1) [OF assms(2)] ts])
      (use assms(2,3) runq_wf_current [OF ts] in \<open>simp_all add: shape_def\<close>)
  then show ?thesis by (rule kernel_wfI)
qed

lemma lib_malloc_None: "lib_wf L s \<Longrightarrow> malloc s = (None, s') \<Longrightarrow> lib_wf L s'"
  using lib_wf_shape malloc_None_shape kernel_wf_shape lib_kernel by blast

text \<open>A thread with a stack of its own, or with the one it was given.\<close>

lemma created_lib:
  assumes "lib_wf L s" and "malloc s = (Some c, s1)" and "stack_source stk s1 stk' s2"
  shows "\<exists>s'. thread_create H img entry stk z pri arg s = Some (ptr c, s') \<and> lib_wf (book_thread stk (ptr c) L) s'"
proof -
  obtain ts where ts: "runq_wf s ts" "set ts = {a. Struct a \<in> held L}" and st: "stock L s"
    using assms(1) by (auto simp: lib_wf_def)
  have sub: "set ts \<subseteq> blocks s" using stock_NULL [OF st, of "Struct _"] ts(2) by auto
  note e = thread_create_exact [OF assms(2,3) lib_list [OF assms(1)], of H img entry z pri arg]
  obtain s' where s': "thread_create H img entry stk z pri arg s = Some (ptr c, s')"
    and t: "threads s' = (threads s)(ptr c \<mapsto> (fresh_thread (as_thread c) stk' z pri arg)\<lparr>runq_next := thread_list s\<rparr>)"
    and f: "blocks s' = blocks s2" "sems s' = sems s" "queues s' = queues s"
    using e malloc_keeps [OF assms(2)] stack_source_keeps [OF assms(3)] by simp
  have c: "ptr c \<noteq> NULL" "ptr c \<notin> blocks s" using assms(2) by (auto simp: malloc_Some_iff)
  have wf: "runq_wf s' (ptr c # ts)" by (rule thread_create_wf(3) [OF ts(1) sub assms(2,3) s'])
  have ag: "agree (blocks s) s s'" using c by (auto simp: agree_def t f)
  have "stock (book_thread stk (ptr c) L) s'"
  proof (cases "stk = NULL")
    case True
    with assms(3) obtain d where d: "malloc s1 = (Some d, s2)" "stk' = ptr d" by (auto simp: stack_source_def)
    have b: "blocks s2 = blocks s \<union> {ptr c, ptr d}" "ptr d \<noteq> ptr c" "ptr d \<notin> blocks s" "ptr d \<noteq> NULL"
      using assms(2) d(1) by (auto simp: malloc_Some_iff)
    have "stock ((book {Struct (ptr c), Stack (ptr c)} L)\<lparr>reads_left := reads_left L\<rparr>) s'"
      by (rule stock_plus [OF st, where B = "{ptr c, ptr d}"])
        (use b c ag f t d(2) in \<open>auto simp: bij_betw_def fresh_thread_def\<close>)
    with True c show ?thesis by (simp add: book_thread_def book_def)
  next
    case False
    with assms(2,3) have "blocks s2 = insert (ptr c) (blocks s)" by (auto simp: stack_source_def malloc_Some_iff)
    then have "stock (book {Struct (ptr c)} L) s'" using c ag f(1) by (intro stock_plus_one [OF st]) simp_all
    with False c show ?thesis by (simp add: book_thread_def)
  qed
  moreover have "set (ptr c # ts) = {a. Struct a \<in> held (book_thread stk (ptr c) L)}"
    using ts(2) c by (auto simp: book_thread_def book_def)
  ultimately show ?thesis using s' wf unfolding lib_wf_def by blast
qed

lemma no_stack_lib:
  assumes "lib_wf L s" and "malloc s = (Some c, s1)" and "malloc s1 = (None, s2)"
  shows "\<exists>s'. thread_create H img entry NULL z pri arg s = Some (NULL, s') \<and> lib_wf L s'"
proof -
  obtain ts where ts: "runq_wf s ts" "set ts = {a. Struct a \<in> held L}" and st: "stock L s"
    using assms(1) by (auto simp: lib_wf_def)
  have c: "ptr c \<noteq> NULL" "ptr c \<notin> blocks s" and s1: "blocks s1 = insert (ptr c) (blocks s)" "threads s1 = threads s"
    using assms(2) by (auto simp: malloc_Some_iff)
  have b: "blocks s2 = blocks s1" using assms(3) by (cases "answers s1") (auto simp: malloc_def split: if_splits)
  have m: "malloc (s1\<lparr>threads := h\<rparr>) = (None, s2\<lparr>threads := h\<rparr>)" for h
    by (rule malloc_with_threads [OF assms(3)])
  let ?s = "s2\<lparr>blocks := blocks s2 - {ptr c}, threads := (threads s)(ptr c := None),
    sems := (sems s)(ptr c := None), queues := (queues s)(ptr c := None)\<rparr>"
  have k: "thread_list s2 = thread_list s" "thread_main_inf s2 = thread_main_inf s" "current_thread s2 = current_thread s"
    "sems s2 = sems s" "queues s2 = queues s"
    using malloc_keeps [OF assms(2)] malloc_keeps [OF assms(3)] by simp_all
  have e: "thread_create H img entry NULL z pri arg s = Some (NULL, ?s)"
    using c b s1 by (simp add: thread_create_def assms(2) give_stack_def m upd_thread_def deref_def thread_free_def Let_def k)
  have ag: "agree (blocks s) s ?s" using c by (auto simp: agree_def)
  have "stock (cross_off {} L) ?s" by (rule stock_minus [OF st]) (use ag b s1 c in simp_all)
  then have "stock L ?s" by (simp add: cross_off_def)
  moreover have "runq_wf ?s ts"
  proof (rule runq_wf_cong [OF _ _ _ _ ts(1)])
    show "map_option runq_next (threads ?s a) = map_option runq_next (threads s a)" if "a \<in> set ts" for a
      using that ts(2) c stock_NULL [OF st, of "Struct a"] by auto
  qed (simp_all add: k runq_wf_current [OF ts(1)])
  ultimately show ?thesis using e ts(2) unfolding lib_wf_def by blast
qed

lemma create_lib:
  assumes "lib_wf L s"
  shows "\<exists>th s'. thread_create H img entry stk z pri arg s = Some (th, s') \<and> lib_wf (book_thread stk th L) s'
    \<and> (memory_for_thread stk s \<longrightarrow> th \<noteq> NULL)"
proof (cases "malloc s")
  case (Pair m s1)
  show ?thesis
  proof (cases m)
    case None
    with Pair have "thread_create H img entry stk z pri arg s = Some (NULL, s1)" by (simp add: thread_create_def)
    with lib_malloc_None [OF assms] Pair None show ?thesis
      by (simp add: book_thread_def memory_for_thread_def memory_def)
  next
    case (Some c)
    with Pair have m: "malloc s = (Some c, s1)" by simp
    then have c: "ptr c \<noteq> NULL" by (auto simp: malloc_Some_iff)
    consider d s2 where "stk = NULL" "malloc s1 = (Some d, s2)" | s2 where "stk = NULL" "malloc s1 = (None, s2)"
      | "stk \<noteq> NULL" by (metis option.exhaust surj_pair)
    then show ?thesis
    proof cases
      case 1
      then have "stack_source stk s1 (ptr d) s2" by (simp add: stack_source_def)
      from created_lib [OF assms m this] c show ?thesis by blast
    next
      case 2
      with no_stack_lib [OF assms m 2(2), of H img entry z pri arg] m show ?thesis
        by (auto simp: book_thread_def memory_for_thread_def memory_def)
    next
      case 3
      then have "stack_source stk s1 stk s1" by (simp add: stack_source_def)
      from created_lib [OF assms m this] c show ?thesis by blast
    qed
  qed
qed

lemma booked: "th \<noteq> NULL \<Longrightarrow> Struct th \<in> held (book_thread stk th L)"
  by (simp add: book_thread_def book_def)

lemma create_periodic_lib:
  assumes "lib_wf L s"
  shows "\<exists>th s'. periodic_thread_create H img entry params stk z pri offs period deadline cost handler s = Some (th, s')
    \<and> lib_wf (book_thread stk th L) s' \<and> (memory_for_thread stk s \<longrightarrow> th \<noteq> NULL)"
proof -
  obtain th s1 where 1: "thread_create H img (periodic_pattern_at img) stk z pri NULL s = Some (th, s1)"
    and L: "lib_wf (book_thread stk th L) s1" and m: "memory_for_thread stk s \<longrightarrow> th \<noteq> NULL"
    using create_lib [OF assms] by blast
  show ?thesis
  proof (cases "th = NULL")
    case True
    with 1 L m show ?thesis by (auto simp: periodic_thread_create_def)
  next
    case False
    let ?f = "\<lambda>t :: thread. t\<lparr>executor := entry, params_and_data := params,
               error_handler := handler, offset_ticks := offs div us_per_tick,
               min_period_ticks := period div us_per_tick,
               max_cost_ticks := cost div us_per_tick,
               max_deadline_ticks := deadline div us_per_tick, block_pattern := 0x00,
               ats_active := 0, ats_pending := 0, ats_max := 0, blocked_semaphore := NULL\<rparr>"
    obtain s2 where "upd_thread th ?f s1 = Some s2" "lib_wf (book_thread stk th L) s2"
      using upd_lib [OF L booked [OF False], of ?f] by auto
    with 1 m False show ?thesis by (simp add: periodic_thread_create_def)
  qed
qed

lemma create_sporadic_lib:
  assumes "lib_wf L s"
  shows "\<exists>th s'. sporadic_thread_create H img entry params stk z pri offs mit deadline cost policy qmax handler s = Some (th, s')
    \<and> lib_wf (book_thread stk th L) s' \<and> (memory_for_thread stk s \<longrightarrow> th \<noteq> NULL)"
proof -
  obtain th s1 where 1: "periodic_thread_create H img entry params stk z pri offs mit deadline cost handler s = Some (th, s1)"
    and L: "lib_wf (book_thread stk th L) s1" and m: "memory_for_thread stk s \<longrightarrow> th \<noteq> NULL"
    using create_periodic_lib [OF assms] by blast
  show ?thesis
  proof (cases "th = NULL")
    case True
    with 1 L m show ?thesis by (auto simp: sporadic_thread_create_def)
  next
    case False
    let ?f = "\<lambda>t :: thread. t\<lparr>block_pattern := 0x01, mit_policy := policy,
               queue_length_max := qmax, queue_pending := 0, queue_last_input := 0\<rparr>"
    obtain s2 where "upd_thread th ?f s1 = Some s2" "lib_wf (book_thread stk th L) s2"
      using upd_lib [OF L booked [OF False], of ?f] by auto
    with 1 m False show ?thesis by (simp add: sporadic_thread_create_def)
  qed
qed

lemma create_aperiodic_lib:
  assumes "lib_wf L s" and "memory_for_thread stk s"
  shows "\<exists>th s'. aperiodic_thread_create H img entry params stk z pri offs deadline cost policy qmax handler s = Some (th, s')
    \<and> lib_wf (book_thread stk th L) s'"
proof -
  obtain th s1 where 1: "sporadic_thread_create H img entry params stk z pri offs 0 deadline cost policy qmax handler s = Some (th, s1)"
    and L: "lib_wf (book_thread stk th L) s1" and th: "th \<noteq> NULL"
    using create_sporadic_lib [OF assms(1)] assms(2) by blast
  obtain s2 where "upd_thread th (\<lambda>t. t\<lparr>block_pattern := 0x02\<rparr>) s1 = Some s2" "lib_wf (book_thread stk th L) s2"
    using upd_lib [OF L booked [OF th], of "\<lambda>t. t\<lparr>block_pattern := 0x02\<rparr>"] by auto
  with 1 show ?thesis by (simp add: aperiodic_thread_create_def)
qed

text \<open>Removal.\<close>

lemma remove_lib:
  assumes "lib_wf L s" and "allowed L s (Remove th)"
  shows "\<exists>r s'. thread_remove th s = Some (r, s') \<and> lib_wf (if r = 0 then cross_off {Struct th, Stack th} L else L) s'"
proof -
  obtain ts where ts: "runq_wf s ts" "set ts = {a. Struct a \<in> held L}" and st: "stock L s"
    using assms(1) by (auto simp: lib_wf_def)
  show ?thesis
  proof (cases "th \<in> set ts \<and> th \<noteq> thread_main_inf s")
    case False
    then have "thread_remove th s = Some (- 1, s)" using thread_remove_absent_eq [OF ts(1)] by blast
    with assms(1) show ?thesis by auto
  next
    case True
    then obtain xs ys where xy: "ts = xs @ th # ys" by (meson split_list)
    have ys: "ys \<noteq> []" using True ts(1) xy by (auto simp: runq_wf_def)
    obtain t where t: "threads s th = Some t" using runq_wf_deref [OF ts(1)] True by blast
    have h: "Struct th \<in> held L" "Stack th \<in> held L" using True ts(2) assms(2) by auto
    have sb: "stack t \<in> blocks s" "stack t \<noteq> NULL" and tb: "th \<in> blocks s"
      using stock_NULL [OF st h(2)] stock_NULL [OF st h(1)] t by simp_all
    have out: "stack t \<noteq> a" if "a \<in> set ts" for a
      using stock_inj [OF st h(2), of "Struct a"] that ts(2) t by auto
    have r: "thread_remove th s = Some (0, removed xs th t s)"
      by (rule thread_remove_exact [OF ts(1) [unfolded xy] ys t sb(1) tb]) (use out [of th] True sb(2) in auto)
    have wf: "runq_wf (removed xs th t s) (xs @ ys)"
      by (rule removed_wf [OF ts(1) [unfolded xy] ys t]) (use out xy assms(2) in auto)
    have "map_option stack (threads (unlinked xs (runq_next t) s) a) = map_option stack (threads s a)" for a
    proof (cases "xs = []")
      case False
      then have "last xs \<in> set ts" using xy by simp
      from runq_wf_deref [OF ts(1) this] False show ?thesis by (auto simp: unlinked_def)
    qed (simp add: unlinked_def)
    then have ag: "agree (blocks s - {th, stack t}) s (removed xs th t s)"
      by (auto simp: agree_def removed_def Let_def unlinked_def)
    have "stock (cross_off {Struct th, Stack th} L) (removed xs th t s)"
      by (rule stock_minus [OF st]) (use h ag t in \<open>auto simp: removed_def Let_def\<close>)
    moreover have "set (xs @ ys) = {a. Struct a \<in> held (cross_off {Struct th, Stack th} L)}"
      using ts xy by (auto simp: cross_off_def runq_wf_def)
    ultimately have "lib_wf (cross_off {Struct th, Stack th} L) (removed xs th t s)"
      using wf unfolding lib_wf_def by blast
    with r show ?thesis by auto
  qed
qed

text \<open>Blocks of memory, semaphores and queues.\<close>

lemma runq_same:
  assumes "runq_wf s ts" and "threads s' = threads s" and "thread_list s' = thread_list s"
    and "thread_main_inf s' = thread_main_inf s" and "current_thread s' = current_thread s"
  shows "runq_wf s' ts"
  using assms by (simp add: runq_wf_def)

lemma lib_plus_one:
  assumes "lib_wf L s" and "malloc s = (Some c, s1)" and "place s' x = ptr c" and "blocks s' = blocks s1"
    and "threads s' = threads s1" and "thread_list s' = thread_list s1" and "thread_main_inf s' = thread_main_inf s1"
    and "current_thread s' = current_thread s1"
    and "\<And>a. a \<noteq> ptr c \<Longrightarrow> sems s' a = sems s1 a \<and> queues s' a = queues s1 a"
    and "x = Raw (ptr c) \<or> x = Sem (ptr c) \<and> sems s' (ptr c) \<noteq> None"
  shows "lib_wf (book {x} L) s'"
proof -
  have c: "ptr c \<noteq> NULL" "ptr c \<notin> blocks s" "blocks s1 = insert (ptr c) (blocks s)"
    using assms(2) by (auto simp: malloc_Some_iff)
  note k = malloc_keeps [OF assms(2)]
  obtain ts where ts: "runq_wf s ts" "set ts = {a. Struct a \<in> held L}" and st: "stock L s"
    using assms(1) by (auto simp: lib_wf_def)
  have "sems s' a = sems s a \<and> queues s' a = queues s a" if "a \<in> blocks s" for a
    using assms(9) [of a] that c(2) k by auto
  then have "agree (blocks s) s s'" using k assms(5) by (simp add: agree_def)
  then have "stock (book {x} L) s'"
    using c assms(3,4,10) by (intro stock_plus_one [OF st]) auto
  moreover have "runq_wf s' ts" by (rule runq_same [OF ts(1)]) (use assms(5-8) k in simp_all)
  moreover have "Struct a \<in> held (book {x} L) \<longleftrightarrow> Struct a \<in> held L" for a using assms(10) by (auto simp: book_def)
  ultimately show ?thesis using ts(2) unfolding lib_wf_def by auto
qed

lemma malloc_lib:
  assumes "lib_wf L s"
  shows "\<exists>L' s'. perform H img Malloc (L, s) = Some (L', s') \<and> lib_wf L' s'"
proof (cases "malloc s")
  case (Pair m s1)
  show ?thesis
  proof (cases m)
    case None
    with lib_malloc_None [OF assms] Pair show ?thesis by (simp add: thread_malloc_def)
  next
    case (Some c)
    with Pair have m: "malloc s = (Some c, s1)" by simp
    have "lib_wf (book {Raw (ptr c)} L) s1" by (rule lib_plus_one [OF assms m]) simp_all
    with m show ?thesis by (simp add: thread_malloc_def)
  qed
qed

lemma sem_create_lib:
  assumes "lib_wf L s" and "memory s"
  shows "\<exists>L' s'. perform H img (Sem_create v) (L, s) = Some (L', s') \<and> lib_wf L' s'"
proof -
  obtain c s1 where m: "malloc s = (Some c, s1)" using assms(2) by (cases "malloc s") (auto simp: memory_def)
  have "lib_wf (book {Sem (ptr c)} L) (s1\<lparr>sems := (sems s1)(ptr c \<mapsto> v)\<rparr>)"
    by (rule lib_plus_one [OF assms(1) m]) simp_all
  with m show ?thesis by (simp add: thread_semaphore_create_def thread_malloc_def)
qed

lemma lib_minus_one:
  assumes "lib_wf L s" and "x \<in> held L" and "place s x = p" and "blocks s' = blocks s - {p}"
    and "thread_list s' = thread_list s" and "thread_main_inf s' = thread_main_inf s"
    and "current_thread s' = current_thread s"
    and "\<And>a. a \<noteq> p \<Longrightarrow> map_option runq_next (threads s' a) = map_option runq_next (threads s a)"
    and "\<And>a. a \<noteq> p \<Longrightarrow> map_option stack (threads s' a) = map_option stack (threads s a)"
    and "\<And>a. a \<noteq> p \<Longrightarrow> sems s' a = sems s a \<and> queues s' a = queues s a" and "\<And>a. x \<noteq> Struct a"
  shows "lib_wf (cross_off {x} L) s'"
proof -
  obtain ts where ts: "runq_wf s ts" "set ts = {a. Struct a \<in> held L}" and st: "stock L s"
    using assms(1) by (auto simp: lib_wf_def)
  have out: "a \<noteq> p" if "a \<in> set ts" for a
    using stock_inj [OF st, of "Struct a" x] that ts(2) assms(2,3) assms(11) [of a] by auto
  have "agree (blocks s - {p}) s s'" using assms(9,10) by (simp add: agree_def)
  then have "stock (cross_off {x} L) s'"
    by (intro stock_minus [OF st]) (use assms(2,3,4) assms(11) in auto)
  moreover have "runq_wf s' ts"
    by (rule runq_wf_cong [OF assms(5,6) _ _ ts(1)]) (use assms(7,8) out runq_wf_current [OF ts(1)] in auto)
  moreover have "{a. Struct a \<in> held (cross_off {x} L)} = {a. Struct a \<in> held L}"
    using assms(11) by (auto simp: cross_off_def)
  ultimately show ?thesis using ts(2) unfolding lib_wf_def by auto
qed

lemma cross_off_NULL:
  assumes "lib_wf L s" and "place s x = NULL"
  shows "cross_off {x} L = L"
  using assms stock_NULL [of L s x] by (cases "x \<in> held L") (auto simp: lib_wf_def cross_off_def)

text \<open>\<open>thread_free\<close> of anything but the structure of a thread.\<close>

lemma free_lib:
  assumes "lib_wf L s" and "p = NULL \<or> x \<in> held L" and "place s x = p" and "\<And>a. x \<noteq> Struct a"
  shows "\<exists>s'. thread_free p s = Some s' \<and> lib_wf (cross_off {x} L) s'"
proof (cases "p = NULL")
  case True
  with cross_off_NULL [OF assms(1)] assms(1,3) show ?thesis by (simp add: thread_free_def)
next
  case False
  let ?s = "s\<lparr>blocks := blocks s - {p}, threads := (threads s)(p := None),
                    sems := (sems s)(p := None), queues := (queues s)(p := None)\<rparr>"
  have x: "x \<in> held L" using False assms(2) by simp
  then have "p \<in> blocks s" using stock_NULL [of L s x] assms(1,3) by (simp add: lib_wf_def)
  with False have "thread_free p s = Some ?s" by (simp add: thread_free_def)
  moreover have "lib_wf (cross_off {x} L) ?s"
    by (rule lib_minus_one [OF assms(1) x assms(3)]) (use assms(4) in simp_all)
  ultimately show ?thesis by blast
qed

lemma release_stack [simp]: "stack (release sem t) = stack t"
  by (simp add: release_def)

lemma sem_free_lib:
  assumes "lib_wf L s" and "sem = NULL \<or> Sem sem \<in> held L"
  shows "\<exists>L' s'. perform H img (Sem_free sem) (L, s) = Some (L', s') \<and> lib_wf L' s'"
proof (cases "sem = NULL")
  case True
  with cross_off_NULL [OF assms(1), of "Sem sem"] assms(1) show ?thesis by (simp add: thread_semaphore_free_def)
next
  case False
  then have x: "Sem sem \<in> held L" using assms(2) by simp
  obtain ts where ts: "runq_wf s ts" "set ts = {a. Struct a \<in> held L}" and st: "stock L s"
    using assms(1) by (auto simp: lib_wf_def)
  have "sem \<in> blocks s" using stock_NULL [OF st x] by simp
  from sem_free_eq [OF ts(1) False this] have "thread_semaphore_free sem s = Some (freed sem ts s)" .
  moreover have "lib_wf (cross_off {Sem sem} L) (freed sem ts s)"
    by (rule lib_minus_one [OF assms(1) x, where p = sem])
      (simp_all add: freed_def option.map_comp comp_def)
  ultimately show ?thesis by simp
qed

lemma queue_get_step:
  assumes "queue_ok q" and "0 < queue_budget q"
  shows "\<exists>r q'. queue_get q = Some (r, q') \<and> queue_ok q' \<and> queue_budget q \<le> queue_budget q' + 1"
proof (cases "queue_content q")
  case Nil
  then have "stored q = 0" by (simp add: queue_content_Nil)
  with assms show ?thesis by (simp add: queue_get_empty)
next
  case (Cons x xs)
  with rtq.get_some [OF assms(1) Cons assms(2)] show ?thesis by (auto simp: fifo_get_def)
qed

lemma queue_set_step:
  assumes "queue_ok q"
  shows "\<exists>r q'. queue_set q e = Some (r, q') \<and> queue_ok q' \<and> queue_budget q' = queue_budget q"
proof (cases "length (queue_content q) = queue_capacity q")
  case True
  with rtq.put_full [OF assms True, of e] assms show ?thesis by (auto simp: fifo_put_def)
next
  case False
  with rtq.content_bound [OF assms] have "length (queue_content q) < queue_capacity q" by simp
  from rtq.put_room [OF assms this, of e] show ?thesis by (auto simp: fifo_put_def)
qed

lemma place_queues [simp]: "place (s\<lparr>queues := f\<rparr>) = place s"
proof
  show "place (s\<lparr>queues := f\<rparr>) x = place s x" for x by (cases x) simp_all
qed

lemma lib_queue:
  assumes "lib_wf L s" and "Queue p \<in> held L" and "queue_ok q" and "n \<le> queue_budget q"
  shows "lib_wf (L\<lparr>reads_left := (reads_left L)(p := n)\<rparr>) (s\<lparr>queues := (queues s)(p \<mapsto> q)\<rparr>)"
  using assms by (simp add: lib_wf_def stock_def runq_wf_def)

lemma queue_access:
  assumes "lib_wf L s" and "Queue p \<in> held L"
  shows "\<exists>q. queue_at p s = Some q \<and> queue_ok q \<and> reads_left L p \<le> queue_budget q"
  using assms stock_NULL [of L s "Queue p"] by (auto simp: lib_wf_def stock_def queue_at_def)

lemma queue_get_lib:
  assumes "lib_wf L s" and "Queue p \<in> held L" and "0 < reads_left L p"
  shows "\<exists>L' s'. perform H img (Queue_get p) (L, s) = Some (L', s') \<and> lib_wf L' s'"
proof -
  obtain q where q: "queue_at p s = Some q" "queue_ok q" "reads_left L p \<le> queue_budget q"
    using queue_access [OF assms(1,2)] by blast
  obtain r q' where g: "queue_get q = Some (r, q')" "queue_ok q'" "queue_budget q \<le> queue_budget q' + 1"
    using queue_get_step [OF q(2)] q(3) assms(3) by auto
  have "lib_wf (L\<lparr>reads_left := (reads_left L)(p := reads_left L p - 1)\<rparr>) (s\<lparr>queues := (queues s)(p \<mapsto> q')\<rparr>)"
    by (rule lib_queue [OF assms(1,2) g(2)]) (use q(3) g(3) in simp)
  with q(1) g(1) show ?thesis by (simp add: thread_queue_nb_get_element_def)
qed

lemma queue_set_lib:
  assumes "lib_wf L s" and "Queue p \<in> held L"
  shows "\<exists>L' s'. perform H img (Queue_set p e) (L, s) = Some (L', s') \<and> lib_wf L' s'"
proof -
  obtain q where q: "queue_at p s = Some q" "queue_ok q" "reads_left L p \<le> queue_budget q"
    using queue_access [OF assms] by blast
  obtain r q' where g: "queue_set q e = Some (r, q')" "queue_ok q'" "queue_budget q' = queue_budget q"
    using queue_set_step [OF q(2)] by blast
  have "lib_wf (L\<lparr>reads_left := (reads_left L)(p := reads_left L p)\<rparr>) (s\<lparr>queues := (queues s)(p \<mapsto> q')\<rparr>)"
    by (rule lib_queue [OF assms g(2)]) (use q(3) g(3) in simp)
  with q(1) g(1) show ?thesis by (simp add: thread_queue_nb_set_element_def)
qed

lemma queue_create_lib:
  assumes "lib_wf L s" and "memory s" and "2 * unat n + 16 < 2 ^ 16"
  shows "\<exists>L' s'. perform H img (Queue_create n) (L, s) = Some (L', s') \<and> lib_wf L' s'"
proof -
  obtain c s1 where m: "malloc s = (Some c, s1)" using assms(2) by (cases "malloc s") (auto simp: memory_def)
  have c: "ptr c \<noteq> NULL" "ptr c \<notin> blocks s" "blocks s1 = insert (ptr c) (blocks s)"
    using m by (auto simp: malloc_Some_iff)
  note k = malloc_keeps [OF m]
  obtain ts where ts: "runq_wf s ts" "set ts = {a. Struct a \<in> held L}" and st: "stock L s"
    using assms(1) by (auto simp: lib_wf_def)
  have "thread_malloc s = (Some c, s1)" using m by (simp add: thread_malloc_def)
  from queue_create_ok [OF this, of n] assms(3)
  obtain q where q: "thread_queue_create n s = Some (ptr c, s1\<lparr>queues := (queues s1)(ptr c \<mapsto> q)\<rparr>)"
    "queue_ok q" "queue_budget q = unat n" by auto
  let ?s = "s1\<lparr>queues := (queues s1)(ptr c \<mapsto> q)\<rparr>"
  have "Queue (ptr c) \<notin> held L" using stock_NULL [OF st, of "Queue (ptr c)"] c(2) by auto
  then have "stock ((book {Queue (ptr c)} L)\<lparr>reads_left := (reads_left L)(ptr c := unat n)\<rparr>) ?s"
    by (intro stock_plus [OF st, where B = "{ptr c}"])
      (use c k q(2,3) in \<open>auto simp: agree_def bij_betw_def\<close>)
  moreover have "runq_wf ?s ts" by (rule runq_same [OF ts(1)]) (use k in simp_all)
  ultimately have "lib_wf ((book {Queue (ptr c)} L)\<lparr>reads_left := (reads_left L)(ptr c := unat n)\<rparr>) ?s"
    using ts(2) by (auto simp: lib_wf_def book_def)
  with q(1) show ?thesis by simp
qed

text \<open>All calls.\<close>

lemma perform_safe:
  assumes "handler_ok H" and "handler_frugal H" and "lib_wf L s" and "allowed L s c"
  shows "\<exists>L' s'. perform H img c (L, s) = Some (L', s') \<and> lib_wf L' s'"
proof (cases c)
  case (Request r)
  with request_lib [OF assms(1-3)] assms(4) show ?thesis by fastforce
next
  case (Create entry stk z pri arg)
  with create_lib [OF assms(3), of H img entry stk z pri arg] show ?thesis by auto
next
  case (Create_periodic entry params stk z pri offs period deadline cost handler)
  with create_periodic_lib [OF assms(3), of H img entry params stk z pri offs period deadline cost handler]
  show ?thesis by auto
next
  case (Create_sporadic entry params stk z pri offs mit deadline cost policy qmax handler)
  with create_sporadic_lib [OF assms(3), of H img entry params stk z pri offs mit deadline cost policy qmax handler]
  show ?thesis by auto
next
  case (Create_aperiodic entry params stk z pri offs deadline cost policy qmax handler)
  with create_aperiodic_lib [OF assms(3), of stk H img entry params z pri offs deadline cost policy qmax handler] assms(4)
  show ?thesis by auto
next
  case (Remove th)
  with remove_lib [OF assms(3)] assms(4) show ?thesis by fastforce
next
  case (Sem_create v)
  with sem_create_lib [OF assms(3)] assms(4) show ?thesis by (simp del: perform.simps)
next
  case (Sem_free sem)
  with sem_free_lib [OF assms(3)] assms(4) show ?thesis by (simp del: perform.simps)
next
  case (Queue_create n)
  with queue_create_lib [OF assms(3)] assms(4) show ?thesis by (simp del: perform.simps)
next
  case (Queue_delete q)
  with free_lib [OF assms(3), of q "Queue q"] assms(4) show ?thesis by (auto simp: thread_queue_delete_def)
next
  case (Queue_get q)
  with queue_get_lib [OF assms(3)] assms(4) show ?thesis by (simp del: perform.simps)
next
  case (Queue_set q e)
  with queue_set_lib [OF assms(3)] assms(4) show ?thesis by (simp del: perform.simps)
next
  case Malloc
  with malloc_lib [OF assms(3)] show ?thesis by (simp del: perform.simps)
next
  case (Free p)
  with free_lib [OF assms(3), of p "Raw p"] assms(4) show ?thesis by auto
qed

section \<open>Everything a client can do\<close>

inductive uses :: "upcall \<Rightarrow> image \<Rightarrow> ledger \<times> kernel \<Rightarrow> ledger \<times> kernel \<Rightarrow> bool" for H img x0 where
  start: "uses H img x0 x0"
| called: "uses H img x0 (L, s) \<Longrightarrow> allowed L s c \<Longrightarrow> perform H img c (L, s) = Some x \<Longrightarrow> uses H img x0 x"
| resumed: "uses H img x0 (L, s) \<Longrightarrow> uses H img x0 (L, timer_isr_resumed s)"

lemma resumed_lib: "lib_wf L s \<Longrightarrow> lib_wf L (timer_isr_resumed s)"
  by (rule lib_wf_shape [OF _ _ resumed_wf [OF lib_kernel]]) (simp_all add: timer_isr_resumed_def)

lemma uses_lib:
  assumes "handler_ok H" and "handler_frugal H" and "lib_wf L0 s0" and "uses H img (L0, s0) x"
  shows "lib_wf (fst x) (snd x)"
  using assms(4)
proof induction
  case (called L s c x)
  with perform_safe [OF assms(1,2), of L s c img] show ?case by auto
qed (use assms(3) resumed_lib in auto)

text \<open>The first thread brings the main thread with it; from there on the ledger is right.\<close>

lemma library_starts:
  assumes "thread_list s = NULL" and "blocks s = {}" and "malloc s = (Some c, s1)" and "stack_source stk s1 stk' s2"
    and "malloc s2 = (Some m, s3)"
  shows "\<exists>s'. thread_create H img entry stk z pri arg s = Some (ptr c, s')
    \<and> lib_wf (book_thread stk (ptr c) \<lparr>held = {Struct (ptr m)}, reads_left = \<lambda>_. 0\<rparr>) s'"
proof -
  obtain s' where e: "thread_create H img entry stk z pri arg s = Some (ptr c, s')" "runq_wf s' [ptr c, ptr m]"
    "blocks s' = blocks s3"
    and t: "threads s' (ptr c) = Some ((fresh_thread (as_thread c) stk' z pri arg)\<lparr>runq_next := ptr m\<rparr>)"
    using thread_create_first [OF assms(3,4,1,5), of H img entry z pri arg] by blast
  let ?L = "\<lparr>held = {Struct (ptr m)}, reads_left = \<lambda>_. 0\<rparr>"
  have cm: "ptr c \<noteq> NULL" "ptr m \<noteq> NULL" "blocks s3 = insert (ptr m) (blocks s2)" "ptr m \<notin> blocks s2"
    "blocks s1 = {ptr c}"
    using assms(2,3,5) by (auto simp: malloc_Some_iff)
  have "stock (book_thread stk (ptr c) ?L) s'"
  proof (cases "stk = NULL")
    case True
    with assms(4) obtain d where ms: "malloc s1 = (Some d, s2)" and sd: "stk' = ptr d" by (auto simp: stack_source_def)
    from ms have "ptr d \<noteq> NULL \<and> ptr d \<notin> blocks s1 \<and> blocks s2 = insert (ptr d) (blocks s1)"
      by (auto simp: malloc_Some_iff)
    with sd cm(5) have d: "ptr d \<noteq> NULL" "ptr d \<noteq> ptr c" "blocks s2 = {ptr c, ptr d}" "stk' = ptr d" by auto
    then have b: "blocks s' = {ptr m, ptr c, ptr d}" "ptr m \<noteq> ptr c" "ptr m \<noteq> ptr d" using cm e(3) by auto
    have h: "held (book_thread stk (ptr c) ?L) = {Struct (ptr m), Struct (ptr c), Stack (ptr c)}"
      using True cm(1) by (auto simp: book_thread_def book_def)
    have p: "place s' (Stack (ptr c)) = ptr d" using t d(4) by (simp add: fresh_thread_def)
    have "inj_on (place s') {Struct (ptr m), Struct (ptr c), Stack (ptr c)}"
      unfolding inj_on_def using b(2,3) d(2) by (simp add: p del: place.simps(2))
    moreover have "place s' ` {Struct (ptr m), Struct (ptr c), Stack (ptr c)} = blocks s'"
      by (simp add: p b(1) del: place.simps(2))
    ultimately have "bij_betw (place s') (held (book_thread stk (ptr c) ?L)) (blocks s')"
      unfolding h bij_betw_def by blast
    moreover have "NULL \<notin> blocks s'" using b(1) cm d(1) by simp
    ultimately show ?thesis unfolding stock_def h by simp
  next
    case False
    with assms(4) have "s2 = s1" by (simp add: stack_source_def)
    with False cm e(3) show ?thesis by (auto simp: stock_def book_thread_def book_def bij_betw_def)
  qed
  moreover have "set [ptr c, ptr m] = {a. Struct a \<in> held (book_thread stk (ptr c) ?L)}"
    using cm(1) by (auto simp: book_thread_def book_def)
  ultimately show ?thesis using e(1,2) unfolding lib_wf_def by blast
qed

section \<open>Properties\<close>


text \<open>A kernel with two threads, of which 0x200 has a stack of the library, and a semaphore.\<close>

definition demo_ledger :: ledger where
  "demo_ledger = \<lparr>held = {Struct 0x100, Struct 0x200, Stack 0x200, Struct 0x300, Sem 0x400}, reads_left = \<lambda>_. 0\<rparr>"

lemma demo_owned_lib: "lib_wf demo_ledger demo_owned"
proof -
  have "stock demo_ledger demo_owned"
    by (auto simp: stock_def demo_ledger_def demo_owned_def demo_defs bij_betw_def)
  moreover have "set ([0x300] @ 0x200 # [0x100]) = {a. Struct a \<in> held demo_ledger}"
    by (auto simp: demo_ledger_def)
  ultimately show ?thesis using demo_owned_wf unfolding lib_wf_def by blast
qed

lemma no_handler_frugal: "handler_frugal no_handler"
  by (simp add: handler_frugal_def no_handler_def)

lemma demo_owned_removed:
  "\<exists>s. uses no_handler demo_image (demo_ledger, demo_owned) (cross_off {Struct 0x200, Stack 0x200} demo_ledger, s)"
proof -
  let ?t = "blank_thread\<lparr>runq_next := 0x100, priority := 10, sp := 0x1000, stack := 0xF00\<rparr>"
  have t: "threads demo_owned 0x200 = Some ?t" by (simp add: demo_owned_def)
  have "thread_remove 0x200 demo_owned = Some (0, removed [0x300] 0x200 ?t demo_owned)"
    by (rule thread_remove_exact [OF demo_owned_wf _ t]) (simp_all add: demo_owned_def)
  then have "perform no_handler demo_image (Remove 0x200) (demo_ledger, demo_owned)
    = Some (cross_off {Struct 0x200, Stack 0x200} demo_ledger, removed [0x300] 0x200 ?t demo_owned)" by simp
  moreover have "allowed demo_ledger demo_owned (Remove 0x200)"
    by (simp add: demo_ledger_def demo_owned_def demo_def)
  ultimately show ?thesis by (blast intro: uses.called [OF uses.start])
qed


text \<open>C3: the library leaks no memory: after any use the blocks \<open>malloc\<close> handed out and nobody freed are exactly
  those of the ledger, one for each piece; when a client has given back everything, creations that failed half way
  included, only the structure of the main thread is left.\<close>

theorem library_leaks_nothing:
  assumes "handler_ok H" and "handler_frugal H" and "lib_wf L0 s0" and "uses H img (L0, s0) (L, s)"
  shows "blocks s = place s ` held L \<and> card (blocks s) = card (held L)
    \<and> (held L = {Struct (thread_main_inf s)} \<longrightarrow> blocks s = {thread_main_inf s})"
proof -
  have "bij_betw (place s) (held L) (blocks s)"
    using uses_lib [OF assms] by (simp add: lib_wf_def stock_def)
  with bij_betw_same_card [OF this] show ?thesis by (auto simp: bij_betw_def)
qed

theorem library_leaks_nothing_witness:
  "\<exists>s. uses no_handler demo_image (demo_ledger, demo_owned) (cross_off {Struct 0x200, Stack 0x200} demo_ledger, s)
     \<and> blocks s = {0x100, 0x300, 0x400}"
proof -
  obtain s where u: "uses no_handler demo_image (demo_ledger, demo_owned) (cross_off {Struct 0x200, Stack 0x200} demo_ledger, s)"
    using demo_owned_removed by blast
  have "held (cross_off {Struct 0x200, Stack 0x200} demo_ledger) = {Struct 0x100, Struct 0x300, Sem 0x400}"
    by (auto simp: cross_off_def demo_ledger_def)
  with library_leaks_nothing [OF no_handler_ok no_handler_frugal demo_owned_lib u] u show ?thesis by auto
qed

end
