(* ===== verification/V2_Create.thy ===== *)
theory V2_Create
  imports V2_Refines
begin

text \<open>
  Creation of threads in version 2.0 and its run queue, which is linked in both directions. That the
  scheduler keeps the queue in order is carried over from the library along the relation \<open>sim\<close>.
\<close>

section \<open>Creation\<close>

definition malloc2 :: "kernel2 \<Rightarrow> chunk2 option \<times> kernel2" where
  "malloc2 s = (case answers2 s of
     [] \<Rightarrow> (None, s)
   | c # cs \<Rightarrow>
       (if ptr2 c = NULL \<or> ptr2 c \<in> blocks2 s then (None, s\<lparr>answers2 := cs\<rparr>)
        else (Some c, s\<lparr>answers2 := cs, blocks2 := insert (ptr2 c) (blocks2 s)\<rparr>)))"

definition free2 :: "addr \<Rightarrow> kernel2 \<Rightarrow> kernel2 option" where
  "free2 p s =
     (if p = NULL then Some s
      else if p \<in> blocks2 s then Some (s\<lparr>blocks2 := blocks2 s - {p}, threads2 := (threads2 s)(p := None)\<rparr>)
      else None)"

definition memset2 :: "addr \<Rightarrow> u8 \<Rightarrow> u16 \<Rightarrow> kernel2 \<Rightarrow> kernel2" where
  "memset2 p b n s = s\<lparr>mem2 := (\<lambda>a. if a - p < n then b else mem2 s a)\<rparr>"

text \<open>The statement \<open>*th->sp-- = b\<close>, and its loop over zeros.\<close>

definition push_byte2 :: "addr \<Rightarrow> u8 \<Rightarrow> kernel2 \<Rightarrow> kernel2 option" where
  "push_byte2 th b s = do {
     t \<leftarrow> deref2 th s;
     upd_thread2 th (\<lambda>t. t\<lparr>sp2 := sp2 t - 1\<rparr>) (s\<lparr>mem2 := (mem2 s)(sp2 t := b)\<rparr>) }"

fun push_zeros2 :: "nat \<Rightarrow> addr \<Rightarrow> kernel2 \<Rightarrow> kernel2 option" where
  "push_zeros2 0 th s = Some s"
| "push_zeros2 (Suc n) th s = do { s \<leftarrow> push_byte2 th 0x00 s; push_zeros2 n th s }"

definition init_stack2 :: "addr \<Rightarrow> addr \<Rightarrow> kernel2 \<Rightarrow> kernel2 option" where
  "init_stack2 entry th s = do {
     t \<leftarrow> deref2 th s;
     let s = memset2 (stack2 t) 0x99 (stack_size2 t) s;
     s \<leftarrow> upd_thread2 th (\<lambda>t. t\<lparr>sp2 := stack2 t + stack_size2 t - 1\<rparr>) s;
     s \<leftarrow> push_byte2 th (ucast (entry AND 0xff)) s;
     s \<leftarrow> push_byte2 th (ucast (drop_bit 8 entry AND 0xff)) s;
     push_zeros2 33 th s }"

text \<open>The caller's stack or a block of its own; False stands for the early return of NULL.\<close>

definition give_stack2 :: "addr \<Rightarrow> addr \<Rightarrow> u16 \<Rightarrow> kernel2 \<Rightarrow> (bool \<times> kernel2) option" where
  "give_stack2 th stk stk_size s =
     (if stk \<noteq> NULL
      then do {
        s \<leftarrow> upd_thread2 th (\<lambda>t. t\<lparr>stack2 := stk, stack_size2 := stk_size\<rparr>) s;
        Some (True, s) }
      else (case malloc2 s of
          (None, s) \<Rightarrow> do {
            s \<leftarrow> upd_thread2 th (\<lambda>t. t\<lparr>stack2 := NULL\<rparr>) s;
            s \<leftarrow> free2 th s;
            Some (False, s) }
        | (Some c, s) \<Rightarrow> do {
            s \<leftarrow> upd_thread2 th (\<lambda>t. t\<lparr>stack2 := ptr2 c, stack_size2 := stk_size\<rparr>) s;
            Some (True, s) }))"

definition create_main2 :: "addr \<Rightarrow> kernel2 \<Rightarrow> kernel2 option" where
  "create_main2 th s =
     (let (c, s) = malloc2 s;
          thmain = (case c of None \<Rightarrow> NULL | Some c \<Rightarrow> ptr2 c);
          s = (case c of None \<Rightarrow> s | Some c \<Rightarrow> s\<lparr>threads2 := (threads2 s)(ptr2 c \<mapsto> as_thread2 c)\<rparr>)
      in do {
        s \<leftarrow> upd_thread2 thmain (\<lambda>t. t\<lparr>priority2 := RTARDUINO_NORM_PRIO2, parm2 := NULL,
               max_cost_ticks2 := of_int ((0 - 2) div 2)\<rparr>) (s\<lparr>thread_main_inf2 := thmain\<rparr>);
        s \<leftarrow> upd_thread2 th (\<lambda>t. t\<lparr>flags2 := RTARDUINO_ACTIVE2\<rparr>) s;
        s \<leftarrow> upd_thread2 thmain (\<lambda>t. t\<lparr>runq_next2 := NULL, runq_prev2 := NULL\<rparr>)
               (s\<lparr>thread_list2 := thmain\<rparr>);
        thread_start2 thmain (s\<lparr>current_thread2 := thmain\<rparr>) })"

definition link_front2 :: "addr \<Rightarrow> kernel2 \<Rightarrow> kernel2 option" where
  "link_front2 th s = do {
     s \<leftarrow> upd_thread2 th (\<lambda>t. t\<lparr>runq_next2 := thread_list2 s\<rparr>) s;
     s \<leftarrow> upd_thread2 (thread_list2 s) (\<lambda>t. t\<lparr>runq_prev2 := th\<rparr>) s;
     Some (s\<lparr>thread_list2 := th\<rparr>) }"

definition thread_create2 :: "addr \<Rightarrow> addr \<Rightarrow> u16 \<Rightarrow> u8 \<Rightarrow> addr \<Rightarrow> kernel2 \<Rightarrow> (addr \<times> kernel2) option" where
  "thread_create2 entry stk stk_size pri arg s =
     (case malloc2 s of
        (None, s) \<Rightarrow> Some (NULL, s)
      | (Some c, s) \<Rightarrow> do {
          let th = ptr2 c;
          let s = s\<lparr>threads2 := (threads2 s)(th \<mapsto> (as_thread2 c)
                \<lparr>priority2 := pri, parm2 := arg, flags2 := RTARDUINO_ACTIVE2\<rparr>)\<rparr>;
          (ok, s) \<leftarrow> give_stack2 th stk stk_size s;
          (if \<not> ok then Some (NULL, s)
           else do {
             s \<leftarrow> init_stack2 entry th s;
             s \<leftarrow> (if thread_list2 s = NULL then create_main2 th s else Some s);
             s \<leftarrow> link_front2 th s;
             Some (th, s) }) })"

text \<open>\<open>pat\<close> is the address of \<open>periodic_pattern\<close>.\<close>

definition periodic_thread_create2 ::
  "addr \<Rightarrow> addr \<Rightarrow> addr \<Rightarrow> u16 \<Rightarrow> u8 \<Rightarrow> u32 \<Rightarrow> u32 \<Rightarrow> u32 \<Rightarrow> u32 \<Rightarrow> addr \<Rightarrow> kernel2 \<Rightarrow> (addr \<times> kernel2) option" where
  "periodic_thread_create2 pat entry stk stk_size pri offset_us period_us max_deadline_us max_cost_us handler s = do {
     (base_th, s) \<leftarrow> thread_create2 pat stk stk_size pri NULL s;
     (if base_th = NULL then Some (NULL, s)
      else do {
        s \<leftarrow> upd_thread2 base_th (\<lambda>t. t\<lparr>executor2 := entry, error_handler2 := handler,
               offset_ticks2 := offset_us div us_per_tick2, min_period_ticks2 := period_us div us_per_tick2,
               max_cost_ticks2 := max_cost_us div us_per_tick2,
               max_deadline_ticks2 := max_deadline_us div us_per_tick2, block_pattern2 := 0x00\<rparr>) s;
        Some (base_th, s) }) }"

definition sporadic_thread_create2 ::
  "addr \<Rightarrow> addr \<Rightarrow> addr \<Rightarrow> u16 \<Rightarrow> u8 \<Rightarrow> u32 \<Rightarrow> u32 \<Rightarrow> u32 \<Rightarrow> u32 \<Rightarrow> addr \<Rightarrow> kernel2 \<Rightarrow> (addr \<times> kernel2) option" where
  "sporadic_thread_create2 pat entry stk stk_size pri offset_us mit_period_us max_deadline_us max_cost_us handler s = do {
     (spthread, s) \<leftarrow> periodic_thread_create2 pat entry stk stk_size pri offset_us mit_period_us max_deadline_us
        max_cost_us handler s;
     (if spthread = NULL then Some (NULL, s)
      else do {
        s \<leftarrow> upd_thread2 spthread (\<lambda>t. t\<lparr>block_pattern2 := 0x01\<rparr>) s;
        Some (spthread, s) }) }"

definition aperiodic_thread_create2 ::
  "addr \<Rightarrow> addr \<Rightarrow> addr \<Rightarrow> u16 \<Rightarrow> u8 \<Rightarrow> u32 \<Rightarrow> u32 \<Rightarrow> u32 \<Rightarrow> addr \<Rightarrow> kernel2 \<Rightarrow> (addr \<times> kernel2) option" where
  "aperiodic_thread_create2 pat entry stk stk_size pri offset_us max_deadline_us max_cost_us handler s =
     sporadic_thread_create2 pat entry stk stk_size pri offset_us 0 max_deadline_us max_cost_us handler s"

section \<open>The doubly linked run queue\<close>

fun runq2 :: "(addr \<rightharpoonup> thread2) \<Rightarrow> addr \<Rightarrow> addr list \<Rightarrow> bool" where
  "runq2 h p [] \<longleftrightarrow> p = NULL"
| "runq2 h p (a # as) \<longleftrightarrow>
     p = a \<and> a \<noteq> NULL \<and> (case h a of None \<Rightarrow> False | Some t \<Rightarrow> runq2 h (runq_next2 t) as)"

text \<open>Each thread but the first points back to the one before it.\<close>

fun backlinks :: "(addr \<rightharpoonup> thread2) \<Rightarrow> addr list \<Rightarrow> bool" where
  "backlinks h (a # b # as) \<longleftrightarrow>
     (case h b of None \<Rightarrow> False | Some t \<Rightarrow> runq_prev2 t = a) \<and> backlinks h (b # as)"
| "backlinks h _ \<longleftrightarrow> True"

definition kernel_wf2 :: "kernel2 \<Rightarrow> addr list \<Rightarrow> bool" where
  "kernel_wf2 s ts \<longleftrightarrow> runq2 (threads2 s) (thread_list2 s) ts \<and> backlinks (threads2 s) ts \<and> distinct ts \<and> ts \<noteq> []
     \<and> last ts = thread_main_inf2 s \<and> current_thread2 s \<in> set ts"

text \<open>The links of a thread; the queue reads nothing else of the heap.\<close>

definition links2 :: "(addr \<rightharpoonup> thread2) \<Rightarrow> addr \<Rightarrow> (addr \<times> addr) option" where
  "links2 h a = map_option (\<lambda>t. (runq_prev2 t, runq_next2 t)) (h a)"

lemma links2_Some:
  "links2 h' a = links2 h a \<Longrightarrow> h a = Some t \<Longrightarrow>
    \<exists>u. h' a = Some u \<and> runq_prev2 u = runq_prev2 t \<and> runq_next2 u = runq_next2 t"
  by (cases "h' a") (auto simp: links2_def)

lemma runq2_live: "runq2 h p ts \<Longrightarrow> a \<in> set ts \<Longrightarrow> a \<noteq> NULL \<and> (\<exists>t. h a = Some t)"
  by (induction ts arbitrary: p) (auto split: option.splits)

lemma runq2_cong:
  "\<forall>a \<in> set ts. links2 h' a = links2 h a \<Longrightarrow> runq2 h p ts \<Longrightarrow> runq2 h' p ts"
proof (induction ts arbitrary: p)
  case (Cons a as)
  from Cons.prems(2) obtain t where t: "h a = Some t" and p: "p = a" "a \<noteq> NULL"
    and r: "runq2 h (runq_next2 t) as" by (cases "h a") auto
  have "links2 h' a = links2 h a" using Cons.prems(1) by simp
  then obtain u where "h' a = Some u" and "runq_next2 u = runq_next2 t"
    using links2_Some [of h' a h t] t by blast
  with Cons.IH [OF _ r] Cons.prems(1) p show ?case by simp
qed simp

lemma backlinks_cong:
  "\<forall>a \<in> set ts. links2 h' a = links2 h a \<Longrightarrow> backlinks h ts \<Longrightarrow> backlinks h' ts"
proof (induction ts rule: induct_list012)
  case (3 a b as)
  from 3(4) obtain t where t: "h b = Some t" and p: "runq_prev2 t = a" by (cases "h b") auto
  have "links2 h' b = links2 h b" using 3(3) by simp
  then obtain u where "h' b = Some u" and "runq_prev2 u = runq_prev2 t"
    using links2_Some [of h' b h t] t by blast
  with 3 p show ?case by simp
qed simp_all

lemma kernel_wf2_cong:
  assumes "kernel_wf2 s ts" and "\<forall>a \<in> set ts. links2 (threads2 s') a = links2 (threads2 s) a"
    and "thread_list2 s' = thread_list2 s" and "thread_main_inf2 s' = thread_main_inf2 s"
    and "current_thread2 s' \<in> set ts"
  shows "kernel_wf2 s' ts"
  using assms runq2_cong [OF assms(2)] backlinks_cong [OF assms(2)] by (simp add: kernel_wf2_def)

section \<open>What the scheduler leaves alone\<close>

definition same_links :: "kernel2 \<Rightarrow> kernel2 \<Rightarrow> bool" where
  "same_links s s' \<longleftrightarrow> (\<forall>a. links2 (threads2 s') a = links2 (threads2 s) a)
     \<and> thread_list2 s' = thread_list2 s \<and> thread_main_inf2 s' = thread_main_inf2 s"

lemma same_links_refl [simp]: "same_links s s"
  by (simp add: same_links_def)

lemma same_links_trans: "same_links s s1 \<Longrightarrow> same_links s1 s2 \<Longrightarrow> same_links s s2"
  by (simp add: same_links_def)

lemma same_links_fields:
  "threads2 s' = threads2 s \<Longrightarrow> thread_list2 s' = thread_list2 s \<Longrightarrow> thread_main_inf2 s' = thread_main_inf2 s
   \<Longrightarrow> same_links s s'"
  by (simp add: same_links_def)

text \<open>An update of a thread that writes neither of its links.\<close>

definition link_free :: "(thread2 \<Rightarrow> thread2) \<Rightarrow> bool" where
  "link_free f \<longleftrightarrow> (\<forall>t. runq_prev2 (f t) = runq_prev2 t \<and> runq_next2 (f t) = runq_next2 t)"

lemma same_links_upd:
  assumes "upd_thread2 a f s = Some s'" and "link_free f"
  shows "same_links s s'"
proof -
  from assms(1) obtain t where t: "threads2 s a = Some t" and s': "s' = s\<lparr>threads2 := (threads2 s)(a \<mapsto> f t)\<rparr>"
    by (auto simp: upd_thread2_def deref2_def split: if_splits bind_splits)
  then show ?thesis using assms(2) by (simp add: same_links_def links2_def link_free_def)
qed

lemma link_free_updates [simp]:
  "link_free (wake_check2 n c)" "link_free (set_sleep2 n now)" "link_free (flags2_update f)" "link_free (sp2_update g)"
  "link_free (\<lambda>t. t\<lparr>current_cost_ticks2 := current_cost_ticks2 t + d\<rparr>)"
  "link_free (\<lambda>t. if max_cost_ticks2 t < current_cost_ticks2 t then t\<lparr>priority2 := RTARDUINO_OVERRUN_PRIO2\<rparr> else t)"
  by (simp_all add: link_free_def wake_check2_def set_sleep2_def Let_def)

lemma yield_loop2_links:
  assumes "yield_loop2 th cand s = Some r"
  shows "same_links s (snd r)"
proof (rule yield_loop2.raw_induct [where P = "\<lambda>th cand s r. same_links s (snd r)", OF _ assms])
  fix loop th cand s r
  assume IH: "\<And>th cand s r. loop th cand s = Some r \<Longrightarrow> same_links s (snd r)"
    and step: "do {
     t \<leftarrow> deref2 th s;
     let th = (if runq_next2 t = NULL then thread_list2 s else runq_next2 t);
     let s = s\<lparr>next_thread2 := th\<rparr>;
     s \<leftarrow> upd_thread2 th (wake_check2 (tick_counter_us2 s) (carry_tick_counter2 s)) s;
     t \<leftarrow> deref2 th s;
     th_candidate \<leftarrow>
       (if flags2 t = RTARDUINO_ACTIVE2
        then do {
          c \<leftarrow> deref2 cand s;
          Some (if priority2 c \<le> priority2 t \<and> next_thread2 s \<noteq> current_thread2 s
                then th else cand) }
        else Some cand);
     (if next_thread2 s \<noteq> current_thread2 s then loop th th_candidate s
      else Some (th_candidate, s)) } = Some r"
  from step obtain t where t: "deref2 th s = Some t" by (cases "deref2 th s") auto
  define n where "n = (if runq_next2 t = NULL then thread_list2 s else runq_next2 t)"
  define s0 where "s0 = s\<lparr>next_thread2 := n\<rparr>"
  from step t obtain s1 u r' where s1: "upd_thread2 n (wake_check2 (tick_counter_us2 s0) (carry_tick_counter2 s0)) s0 = Some s1"
    and "deref2 n s1 = Some u"
    and rest: "(if next_thread2 s1 \<noteq> current_thread2 s1 then loop n r' s1 else Some (r', s1)) = Some r"
    by (simp only: Let_def n_def [symmetric] s0_def [symmetric] bind.bind_lunit)
      (fastforce simp only: bind_eq_Some_conv)
  have "same_links s s0" by (rule same_links_fields) (simp_all add: s0_def)
  moreover have "same_links s0 s1" by (rule same_links_upd [OF s1]) simp
  moreover have "same_links s1 (snd r)" using rest IH by (cases "next_thread2 s1 = current_thread2 s1") auto
  ultimately show "same_links s (snd r)" using same_links_trans by blast
qed

lemma change_high2_links:
  assumes "change_high2 s = Some s'"
  shows "same_links s s'"
proof -
  define a :: addr where "a = push_bit 8 (ucast (pxCurrentTCB_aux2_1 s)) OR ucast (pxCurrentTCB_aux2_0 s)"
  from assms obtain s1 where s1: "upd_thread2 (current_thread2 s) (\<lambda>t. t\<lparr>sp2 := a\<rparr>) s = Some s1"
    and rest: "(if current_thread2 s1 \<noteq> next_thread2 s1
           then do {
             n \<leftarrow> deref2 (next_thread2 s1) s1;
             Some (s1\<lparr>pxCurrentTCB_aux2_0 := ucast (sp2 n AND 0xff),
                     pxCurrentTCB_aux2_1 := ucast (drop_bit 8 (sp2 n) AND 0xff)\<rparr>) }
           else Some s1) \<bind> (\<lambda>s. Some (s\<lparr>current_thread2 := next_thread2 s\<rparr>)) = Some s'"
    unfolding change_high2_def Let_def a_def bind_eq_Some_conv by blast
  have "same_links s1 s'"
    by (rule same_links_fields; use rest in \<open>cases "deref2 (next_thread2 s1) s1"\<close>) (auto split: if_splits)
  moreover have "same_links s s1" by (rule same_links_upd [OF s1]) simp
  ultimately show ?thesis using same_links_trans by blast
qed

lemma thread_start2_links:
  assumes "thread_start2 n s = Some s'"
  shows "same_links s s'"
proof -
  define l where "l = hw_sp2 s - switch_frame2"
  define s1 where "s1 = s\<lparr>next_thread2 := n, pxCurrentTCB_aux2_0 := ucast l, pxCurrentTCB_aux2_1 := ucast (drop_bit 8 l)\<rparr>"
  from assms obtain s2 y where s2: "change_high2 s1 = Some s2" and s': "s' = s2\<lparr>hw_sp2 := y\<rparr>"
    by (auto simp: thread_start2_def do_switch2_def Let_def l_def s1_def bind_eq_Some_conv)
  have "same_links s s1" by (rule same_links_fields) (simp_all add: s1_def)
  moreover have "same_links s1 s2" using change_high2_links [OF s2] .
  moreover have "same_links s2 s'" by (rule same_links_fields) (simp_all add: s')
  ultimately show ?thesis using same_links_trans by blast
qed

lemma thread_yield2_links:
  assumes "thread_yield2 s = Some s'"
  shows "same_links s s'"
proof (cases "thread_list2 s = NULL")
  case True
  with assms show ?thesis by (simp add: thread_yield2_def)
next
  case False
  with assms obtain n s1 s3 s4 where s1: "yield_loop2 (current_thread2 s) (thread_main_inf2 s) s = Some (n, s1)"
    and s3: "charge2 s1 = Some s3" and s4: "overrun_check2 s3 = Some s4"
    and s': "thread_start2 n (s4\<lparr>next_thread2 := n\<rparr>) = Some s'"
    by (auto simp: thread_yield2_def bind_eq_Some_conv)
  define d where "d = tick_counter_us2 s1 - tick_counter_last_cost_us2 s1"
  from s3 obtain s2 where s2: "upd_thread2 (current_thread2 s1) (\<lambda>t. t\<lparr>current_cost_ticks2 := current_cost_ticks2 t + d\<rparr>) s1 = Some s2"
    and s3: "s3 = s2\<lparr>tick_counter_last_cost_us2 := tick_counter_last_cost_us2 s2 + d\<rparr>"
    by (auto simp: charge2_def Let_def d_def bind_eq_Some_conv)
  have "same_links s s1" using yield_loop2_links [OF s1] by simp
  moreover have "same_links s1 s2" by (rule same_links_upd [OF s2]) simp
  moreover have "same_links s2 s3" by (rule same_links_fields) (simp_all add: s3)
  moreover have "same_links s3 s4" by (rule same_links_upd [OF s4 [unfolded overrun_check2_def]]) simp
  moreover have "same_links s4 (s4\<lparr>next_thread2 := n\<rparr>)" by (rule same_links_fields) simp_all
  moreover have "same_links (s4\<lparr>next_thread2 := n\<rparr>) s'" using thread_start2_links [OF s'] .
  ultimately show ?thesis using same_links_trans by meson
qed

lemma bind_links:
  assumes "Option.bind (upd_thread2 a f s) g = Some s'" and "link_free f"
    and "\<And>s1. g s1 = Some s' \<Longrightarrow> same_links s1 s'"
  shows "same_links s s'"
proof -
  from assms(1) obtain s1 where s1: "upd_thread2 a f s = Some s1" and g: "g s1 = Some s'"
    by (cases "upd_thread2 a f s") simp_all
  show ?thesis by (rule same_links_trans [OF same_links_upd [OF s1 assms(2)] assms(3) [OF g]])
qed

lemma tick_sleep2_links:
  assumes "tick_sleep2 n s = Some s'"
  shows "same_links s s'"
  by (rule bind_links [OF assms [unfolded tick_sleep2_def]]) (simp_all add: thread_yield2_links)

lemma serve2_links:
  assumes "serve2 r s = Some s'"
  shows "same_links s s'"
proof (cases r)
  case Tick2
  with assms show ?thesis
    by (auto simp: timer_isr2_def Let_def split: if_splits dest!: thread_yield2_links
        intro: same_links_fields elim!: same_links_trans [rotated])
next
  case (Usleep2 n)
  with assms have "Option.bind (upd_thread2 (current_thread2 s) (\<lambda>t. t\<lparr>flags2 := RTARDUINO_SLEPT2\<rparr>) s)
      (tick_sleep2 (n div us_per_tick2)) = Some s'" by (simp add: thread_usleep2_def)
  then show ?thesis by (rule bind_links) (simp_all add: tick_sleep2_links)
next
  case Block2
  with assms obtain t where t: "deref2 (current_thread2 s) s = Some t"
    by (cases "deref2 (current_thread2 s) s") (simp_all add: thread_block2_def)
  show ?thesis
  proof (cases "flags2 t = RTARDUINO_ACTIVE2")
    case True
    with assms Block2 t have "Option.bind (upd_thread2 (current_thread2 s) (\<lambda>t. t\<lparr>flags2 := RTARDUINO_BLOCKED2\<rparr>) s)
      thread_yield2 = Some s'" by (simp add: thread_block2_def)
    then show ?thesis by (rule bind_links) (simp_all add: thread_yield2_links)
  qed (use assms Block2 t in \<open>simp add: thread_block2_def\<close>)
next
  case (Unblock2 th)
  with assms obtain t where t: "deref2 th s = Some t"
    by (cases "deref2 th s") (simp_all add: thread_unblock2_def)
  show ?thesis
  proof (cases "flags2 t = RTARDUINO_BLOCKED2")
    case True
    with assms Unblock2 t have "Option.bind (upd_thread2 th (\<lambda>t. t\<lparr>flags2 := RTARDUINO_ACTIVE2\<rparr>) s)
      thread_yield2 = Some s'" by (simp add: thread_unblock2_def)
    then show ?thesis by (rule bind_links) (simp_all add: thread_yield2_links)
  qed (use assms Unblock2 t in \<open>simp add: thread_unblock2_def\<close>)
qed (use assms thread_yield2_links tick_sleep2_links in auto)

section \<open>Safety, carried over from the library\<close>

definition library_thread :: "thread2 \<Rightarrow> thread" where
  "library_thread t = \<lparr>runq_next = runq_next2 t, sp = sp2 t, stack = stack2 t, priority = priority2 t,
     block_pattern = block_pattern2 t, ats_active = 0, ats_pending = 0, ats_max = 0, status = flags2 t,
     stack_size = stack_size2 t, ticks_to_wait = ticks_to_wait2 t, carry_ticks_to_wait = carry_ticks_to_wait2 t,
     min_period_ticks = min_period_ticks2 t, max_deadline_ticks = max_deadline_ticks2 t,
     max_cost_ticks = max_cost_ticks2 t, current_cost_ticks = current_cost_ticks2 t,
     offset_ticks = offset_ticks2 t, mit_policy = 0, queue_length_max = 0, queue_pending = 0,
     queue_last_input = 0, blocked_semaphore = 0, executor = executor2 t, params_and_data = 0,
     error_handler = error_handler2 t, parm = parm2 t, aux1 = 0, aux2 = 0\<rparr>"

definition library_kernel :: "kernel2 \<Rightarrow> kernel" where
  "library_kernel s = \<lparr>global_thread_tick_counter = tick_counter_us2 s,
     tick_counter_last_cost = tick_counter_last_cost_us2 s, tick_counter_previous = tick_counter_previous_us2 s,
     carry_tick_counter = carry_tick_counter2 s, yield_count = yield2 s, thread_list = thread_list2 s,
     current_thread = current_thread2 s, thread_main_inf = thread_main_inf2 s, next_thread = next_thread2 s,
     pxCurrentTCB_aux0 = 0, pxCurrentTCB_aux1 = 0, hw_sp = hw_sp2 s,
     threads = (\<lambda>a. map_option library_thread (threads2 s a)), sems = Map.empty, queues = Map.empty,
     mem = mem2 s, blocks = blocks2 s, answers = []\<rparr>"

lemma sim_library_kernel: "sim s (library_kernel s)"
proof -
  have "rel_option sim_thread (threads2 s a) (threads (library_kernel s) a)" for a
    by (cases "threads2 s a") (simp_all add: library_kernel_def library_thread_def sim_thread_def)
  then show ?thesis by (simp add: sim_def library_kernel_def)
qed

lemma sim_runq: "sim s2 s \<Longrightarrow> runq (threads s) p ts = runq2 (threads2 s2) p ts"
proof (induction ts arbitrary: p)
  case (Cons a as)
  from sim_threads [OF Cons.prems, of a] Cons show ?case
    by (cases "threads s a"; cases "threads2 s2 a") (simp_all add: sim_thread_def)
qed simp

lemma kernel_wf2_library:
  assumes "kernel_wf2 s ts" and "sim s l"
  shows "runq_wf l ts"
  using assms by (simp add: kernel_wf2_def runq_wf_def sim_runq [OF assms(2)] sim_fields [OF assms(2), symmetric])

lemma serve_library_safe:
  assumes "kernel_wf l" and "\<And>th. r = Unblock2 th \<Longrightarrow> deref th l \<noteq> None"
  shows "\<exists>l'. serve_library no_handler r l = Some l' \<and> kernel_wf l'"
proof (cases r)
  case (Unblock2 th)
  with assms(2) obtain t where "deref th l = Some t" by auto
  with thread_unblock_safe [OF no_handler_ok assms(1)] Unblock2 show ?thesis by simp
qed (use yielding.op_safe ticking.op_safe sleeping.op_safe usleeping.op_safe blocking.op_safe no_handler_ok assms(1)
    in simp_all)

lemma serve2_safe:
  assumes wf: "kernel_wf2 s ts" and th: "\<And>th. r = Unblock2 th \<Longrightarrow> th \<in> set ts"
  shows "\<exists>s'. serve2 r s = Some s' \<and> kernel_wf2 s' ts"
proof -
  define l where "l = library_kernel s"
  have sim: "sim s l" unfolding l_def by (rule sim_library_kernel)
  have l: "runq_wf l ts" by (rule kernel_wf2_library [OF wf sim])
  have "deref x l \<noteq> None" if "r = Unblock2 x" for x
    using runq_wf_deref [OF l th [OF that]] by auto
  from serve_library_safe [OF kernel_wfI [OF l] this] obtain l' where l': "serve_library no_handler r l = Some l'"
    and wf': "kernel_wf l'" by blast
  obtain s' where s': "serve2 r s = Some s'" and sim': "sim s' l'"
    by (rule simulation.sim_obtain [OF serve_simulated sim l'])
  have links: "same_links s s'" using serve2_links [OF s'] .
  then have q: "runq2 (threads2 s') (thread_list2 s') ts"
    using wf runq2_cong [of ts "threads2 s'" "threads2 s" "thread_list2 s"] by (simp add: same_links_def kernel_wf2_def)
  obtain us where us: "runq_wf l' us" using wf' by (rule kernel_wfE)
  have "runq (threads l') (thread_list l') ts" using q sim_runq [OF sim'] sim_fields [OF sim'] by simp
  then have "us = ts" using us runq_unique unfolding runq_wf_def by blast
  then have "current_thread2 s' \<in> set ts" using us sim_fields [OF sim'] by (simp add: runq_wf_def)
  with links s' kernel_wf2_cong [OF wf] show ?thesis by (simp add: same_links_def)
qed

section \<open>Properties\<close>

text \<open>C17: version 2.0 is safe and keeps its doubly linked run queue: from a kernel in order, any sequence
  of yields, timer ticks, sleeps, blocks and unblocks of threads of the queue is served without
  undefined behaviour or an endless walk, and afterwards the same threads are linked, forwards and
  backwards, in the same order, and one of them runs.\<close>

theorem kernel2_never_fails:
  assumes "kernel_wf2 s ts" and "\<And>th. Unblock2 th \<in> set rs \<Longrightarrow> th \<in> set ts"
  shows "\<exists>s'. serve_all2 rs s = Some s' \<and> kernel_wf2 s' ts"
  using assms
proof (induction rs arbitrary: s)
  case (Cons r rs)
  have "th \<in> set ts" if "r = Unblock2 th" for th using Cons.prems(2) [of th] that by simp
  from serve2_safe [OF Cons.prems(1) this] obtain s1 where "serve2 r s = Some s1" and wf: "kernel_wf2 s1 ts" by blast
  moreover have "\<exists>s'. serve_all2 rs s1 = Some s' \<and> kernel_wf2 s' ts"
    by (rule Cons.IH [OF wf]) (use Cons.prems(2) in simp)
  ultimately show ?case by simp
qed simp

definition demo_thread2 :: thread2 where
  "demo_thread2 = thread_of blank_thread"

definition demo2 :: kernel2 where
  "demo2 = (kernel_of demo)\<lparr>threads2 := [0x300 \<mapsto> demo_thread2\<lparr>runq_next2 := 0x200, priority2 := 10\<rparr>,
     0x200 \<mapsto> demo_thread2\<lparr>runq_next2 := 0x100, runq_prev2 := 0x300, priority2 := 5\<rparr>,
     0x100 \<mapsto> demo_thread2\<lparr>runq_prev2 := 0x200\<rparr>]\<rparr>"

lemma demo2_wf: "kernel_wf2 demo2 [0x300, 0x200, 0x100]"
  by (simp add: kernel_wf2_def demo2_def kernel_of_def demo_def demo_thread2_def thread_of_def blank_thread_def)

theorem kernel2_never_fails_witness:
  "\<exists>s'. serve_all2 [Tick2, Block2, Tick2, Unblock2 0x100, Sleep2 3] demo2 = Some s'
     \<and> kernel_wf2 s' [0x300, 0x200, 0x100]"
  by (rule kernel2_never_fails [OF demo2_wf]) auto

end
