(* ===== verification/V2_Switch.thy ===== *)
theory V2_Switch
  imports V2_Create RT_Switch
begin

text \<open>
  The context switch of version 2.0, instruction by instruction, on the processor model of the
  library's switch. \<open>do_switch\<close> is an ordinary C function here, so its last instruction is the \<open>RET\<close>
  of the compiler, and it saves 33 bytes. The operand \<open>0\<close> of \<open>out 0x3d, 0\<close> is register 0.
\<close>

definition switch_out_code2 :: "addr \<Rightarrow> instr list" where
  "switch_out_code2 px = map PUSH [0..<32] @
     [IN 0 0x3f, PUSH 0, LDS 26 px, LDS 27 (px + 1), IN 0 0x3d, ST_X_inc 0, IN 0 0x3e, ST_X_inc 0]"

definition switch_in_code2 :: "addr \<Rightarrow> instr list" where
  "switch_in_code2 px =
     [LDS 26 px, LDS 27 (px + 1), LD_X_inc 0, OUT 0x3d 0, LD_X_inc 0, OUT 0x3e 0,
      POP 0, OUT 0x3f 0] @ map POP (rev [0..<32]) @ [RET]"

definition do_switch_code2 :: "addr \<Rightarrow> instr list" where
  "do_switch_code2 px = switch_out_code2 px @ CALL_change_high # switch_in_code2 px"

section \<open>Saving\<close>

definition saved_bytes2 :: "cpu \<Rightarrow> u8 list" where
  "saved_bytes2 c = map (regs c) [0..<32] @ [sreg c]"

text \<open>The saved bytes and the return address above them.\<close>

definition saved_area2 :: "cpu \<Rightarrow> addr set" where
  "saved_area2 c = set (map (\<lambda>k. cpu_sp c + 2 - of_nat k) [0..<35])"

lemma saved_bytes2_length [simp]: "length (saved_bytes2 c) = 33"
  by (simp add: saved_bytes2_def)

lemma saved_area2I:
  assumes "k < 35"
  shows "cpu_sp c + 2 - of_nat k \<in> saved_area2 c"
  unfolding saved_area2_def set_map using assms by (intro imageI) (simp del: upt_rec_numeral)

lemma not_saved2:
  assumes "x \<notin> saved_area2 c"
  shows "write_down m (cpu_sp c) (saved_bytes2 c) x = m x"
proof (rule write_down_other)
  fix k assume "k < length (saved_bytes2 c)"
  then have "cpu_sp c + 2 - of_nat (k + 2) \<in> saved_area2 c" by (intro saved_area2I) simp
  moreover have "cpu_sp c + 2 - of_nat (k + 2) = cpu_sp c - of_nat k" by simp
  ultimately show "x \<noteq> cpu_sp c - of_nat k" using assms by metis
qed

lemma switch_out_exact2:
  assumes "a = aux_at px c" and "{px, px + 1} \<inter> saved_area2 c = {}" and "d = run C (switch_out_code2 px) c"
  shows "cpu_sp d = cpu_sp c - 33"
    and "ram d = (write_down (ram c) (cpu_sp c) (saved_bytes2 c))
      (a := ucast (cpu_sp c - 33), a + 1 := ucast (drop_bit 8 (cpu_sp c - 33)))"
proof -
  let ?c1 = "run C (map PUSH [0..<32]) c"
  let ?c2 = "run C [IN 0 0x3f, PUSH 0] ?c1"
  have d: "d = run C [LDS 26 px, LDS 27 (px + 1), IN 0 0x3d, ST_X_inc 0, IN 0 0x3e, ST_X_inc 0] ?c2"
    unfolding assms(3) switch_out_code2_def
    by (subst run_append [symmetric], subst run_append [symmetric]) (simp add: run_Cons run_append)
  have tail: "run C [IN 0 0x3f, PUSH 0] x = x\<lparr>regs := (regs x)(0 := sreg x), ram := write_down (ram x) (cpu_sp x) [sreg x],
       cpu_sp := cpu_sp x - 1\<rparr>" for x
    by (simp add: run_Cons run_Nil io_read_def)
  have r: "ram ?c2 = write_down (ram c) (cpu_sp c) (saved_bytes2 c)"
    by (simp add: tail run_pushes saved_bytes2_def write_down_append del: write_down.simps upt_rec_numeral)
  have p: "cpu_sp ?c2 = cpu_sp c - 33"
    by (simp add: tail run_pushes del: upt_rec_numeral)
  have a: "a = word16 (ram ?c2 (px + 1)) (ram ?c2 px)"
    unfolding r assms(1) aux_at_def using assms(2) by (simp add: not_saved2)
  from store_sp [OF a d] show "cpu_sp d = cpu_sp c - 33"
    and "ram d = (write_down (ram c) (cpu_sp c) (saved_bytes2 c))
      (a := ucast (cpu_sp c - 33), a + 1 := ucast (drop_bit 8 (cpu_sp c - 33)))"
    unfolding r p by simp_all
qed

section \<open>Restoring\<close>

lemma switch_in_exact2:
  assumes "a = aux_at px e" and "p = word16 (ram e (a + 1)) (ram e a)" and "f = run C (switch_in_code2 px) e"
  shows "cpu_sp f = p + 35" and "pc f = word16 (ram e (p + 34)) (ram e (p + 35))"
    and "sreg f = ram e (p + 1)" and "n < 32 \<Longrightarrow> regs f n = ram e (p + 33 - of_nat n)"
proof -
  define e1 where "e1 = run C [LDS 26 px, LDS 27 (px + 1), LD_X_inc 0, OUT 0x3d 0, LD_X_inc 0, OUT 0x3e 0] e"
  let ?e2 = "run C [POP 0, OUT 0x3f 0] e1"
  let ?e3 = "run C (map POP (rev [0..<32])) ?e2"
  have f: "f = exec C RET ?e3"
    unfolding assms(3) switch_in_code2_def e1_def
    by (simp add: run_Cons run_append run_Nil del: upt_rec_numeral)
  note l = load_sp [OF assms(1,2) e1_def]
  have e2: "cpu_sp ?e2 = p + 1" "ram ?e2 = ram e" "sreg ?e2 = ram e (p + 1)"
    by (simp_all add: run_Cons run_Nil io_write_def l)
  have e3: "cpu_sp ?e3 = p + 33" "ram ?e3 = ram e" "sreg ?e3 = ram e (p + 1)"
    by (simp_all add: run_pops_keeps e2 del: upt_rec_numeral)
  show "cpu_sp f = p + 35" and "pc f = word16 (ram e (p + 34)) (ram e (p + 35))"
    and "sreg f = ram e (p + 1)"
    unfolding f by (simp_all add: e3 algebra_simps)
  show "regs f n = ram e (p + 33 - of_nat n)" if "n < 32"
  proof -
    have nth: "rev [0..<32] ! (31 - n) = n" using that by (simp add: rev_nth del: upt_rec_numeral)
    have "regs ?e3 (rev [0..<32] ! (31 - n)) = ram ?e2 (cpu_sp ?e2 + 1 + of_nat (31 - n))"
      by (rule run_pops) (simp_all del: upt_rec_numeral)
    moreover have "cpu_sp ?e2 + 1 + of_nat (31 - n) = p + 33 - of_nat n"
      using that by (simp add: e2 of_nat_diff)
    ultimately have "regs ?e3 n = ram e (p + 33 - of_nat n)" unfolding nth e2(2) by (simp only:)
    moreover have "regs f n = regs ?e3 n" unfolding f by simp
    ultimately show ?thesis by (simp only:)
  qed
qed

lemma saved_byte2:
  assumes "{px, px + 1, aux_at px c, aux_at px c + 1} \<inter> saved_area2 c = {}" and "k < 33"
  shows "ram (run C (switch_out_code2 px) c) (cpu_sp c - of_nat k) = saved_bytes2 c ! k"
proof -
  have "cpu_sp c + 2 - of_nat (k + 2) \<in> saved_area2 c" using assms(2) by (intro saved_area2I) simp
  moreover have "cpu_sp c + 2 - of_nat (k + 2) = cpu_sp c - of_nat k" by simp
  ultimately have "cpu_sp c - of_nat k \<notin> {aux_at px c, aux_at px c + 1}" using assms(1) by auto
  then show ?thesis
    using assms write_down_nth [of k "saved_bytes2 c"] switch_out_exact2(2) [OF refl _ refl, of px c C] by simp
qed

lemma return_byte2:
  assumes "{px, px + 1, aux_at px c, aux_at px c + 1} \<inter> saved_area2 c = {}" and "j = 1 \<or> j = 2"
  shows "ram (run C (switch_out_code2 px) c) (cpu_sp c + of_nat j) = ram c (cpu_sp c + of_nat j)"
proof -
  have "cpu_sp c + 2 - of_nat (2 - j) \<in> saved_area2 c" by (intro saved_area2I) simp
  moreover have "cpu_sp c + 2 - of_nat (2 - j) = cpu_sp c + of_nat j" using assms(2) by auto
  ultimately have "cpu_sp c + of_nat j \<notin> {aux_at px c, aux_at px c + 1}" using assms(1) by auto
  then have "ram (run C (switch_out_code2 px) c) (cpu_sp c + of_nat j)
      = write_down (ram c) (cpu_sp c) (saved_bytes2 c) (cpu_sp c + of_nat j)"
    using assms(1) switch_out_exact2(2) [OF refl _ refl, of px c C] by simp
  also have "\<dots> = ram c (cpu_sp c + of_nat j)"
  proof (rule write_down_other)
    fix k assume k: "k < length (saved_bytes2 c)"
    show "cpu_sp c + of_nat j \<noteq> cpu_sp c - of_nat k"
    proof
      assume "cpu_sp c + of_nat j = cpu_sp c - of_nat k"
      then have "(of_nat (j + k) :: u16) = of_nat 0" by (simp add: algebra_simps)
      with assms(2) k show False by (subst (asm) of_nat_eq_u16) auto
    qed
  qed
  finally show ?thesis .
qed

section \<open>A new stack\<close>

lemma push_byte2_exact:
  assumes "th \<noteq> NULL" and "threads2 s th = Some t"
  shows "push_byte2 th b s = Some (s\<lparr>mem2 := (mem2 s)(sp2 t := b), threads2 := (threads2 s)(th \<mapsto> t\<lparr>sp2 := sp2 t - 1\<rparr>)\<rparr>)"
  using assms by (simp add: push_byte2_def deref2_def upd_thread2_def)

lemma push_zeros2_exact:
  assumes "th \<noteq> NULL"
  shows "threads2 s th = Some t \<Longrightarrow> push_zeros2 n th s = Some (s\<lparr>mem2 := write_down (mem2 s) (sp2 t) (replicate n 0),
     threads2 := (threads2 s)(th \<mapsto> t\<lparr>sp2 := sp2 t - of_nat n\<rparr>)\<rparr>)"
proof (induction n arbitrary: s t)
  case 0
  then have "(threads2 s)(th \<mapsto> t) = threads2 s" by (simp add: fun_upd_idem)
  then show ?case by simp
next
  case (Suc n)
  let ?t = "t\<lparr>sp2 := sp2 t - 1\<rparr>"
  let ?s = "s\<lparr>mem2 := (mem2 s)(sp2 t := 0), threads2 := (threads2 s)(th \<mapsto> ?t)\<rparr>"
  have "push_zeros2 (Suc n) th s = push_zeros2 n th ?s" using push_byte2_exact [OF assms Suc.prems] by simp
  also have "\<dots> = Some (?s\<lparr>mem2 := write_down (mem2 ?s) (sp2 ?t) (replicate n 0),
     threads2 := (threads2 ?s)(th \<mapsto> ?t\<lparr>sp2 := sp2 ?t - of_nat n\<rparr>)\<rparr>)" by (rule Suc.IH) simp
  also have "sp2 ?t - of_nat n = sp2 t - of_nat (Suc n)" by (simp add: algebra_simps)
  finally show ?case by (simp del: fun_upd_apply push_zeros2.simps)
qed

text \<open>The bytes below the top of a new stack: the entry point, 33 zeros.\<close>

definition fresh_bytes2 :: "addr \<Rightarrow> u8 list" where
  "fresh_bytes2 entry = [ucast (entry AND 0xff), ucast (drop_bit 8 entry AND 0xff)] @ replicate 33 0"

lemma init_stack2_exact:
  assumes "th \<noteq> NULL" and "threads2 s th = Some t" and "high = stack2 t + stack_size2 t - 1"
  shows "init_stack2 entry th s = Some (s\<lparr>mem2 := write_down
        (\<lambda>a. if a - stack2 t < stack_size2 t then 0x99 else mem2 s a) high (fresh_bytes2 entry),
     threads2 := (threads2 s)(th \<mapsto> t\<lparr>sp2 := high - 35\<rparr>)\<rparr>)"
proof -
  define m where "m = (\<lambda>a. if a - stack2 t < stack_size2 t then 0x99 else mem2 s a)"
  have z: "push_zeros2 33 th x = Some (x\<lparr>mem2 := write_down (mem2 x) (sp2 u) (replicate 33 0),
     threads2 := (threads2 x)(th \<mapsto> u\<lparr>sp2 := sp2 u - 33\<rparr>)\<rparr>)" if "threads2 x th = Some u" for x u
    using push_zeros2_exact [OF assms(1) that, of 33] by simp
  show ?thesis
    using assms(1,2) unfolding assms(3) m_def [symmetric]
    by (simp add: init_stack2_def memset2_def m_def [symmetric] upd_thread2_def deref2_def push_byte2_exact z
        fresh_bytes2_def fun_upd_same diff_diff_eq del: push_zeros2.simps fun_upd_apply)
qed

section \<open>What thread_create leaves\<close>

lemma malloc2_Some_iff:
  "malloc2 s = (Some c, s') \<longleftrightarrow> (\<exists>cs. answers2 s = c # cs \<and> ptr2 c \<noteq> NULL \<and> ptr2 c \<notin> blocks2 s
     \<and> s' = s\<lparr>answers2 := cs, blocks2 := insert (ptr2 c) (blocks2 s)\<rparr>)"
  by (cases "answers2 s") (auto simp: malloc2_def)

lemma malloc2_with_threads: "malloc2 s = (c, s') \<Longrightarrow> malloc2 (s\<lparr>threads2 := h\<rparr>) = (c, s'\<lparr>threads2 := h\<rparr>)"
  by (cases "answers2 s") (auto simp: malloc2_def split: if_splits)

definition stack_source2 :: "addr \<Rightarrow> kernel2 \<Rightarrow> addr \<Rightarrow> kernel2 \<Rightarrow> bool" where
  "stack_source2 stk s stk' s' \<longleftrightarrow> stk \<noteq> NULL \<and> stk' = stk \<and> s' = s
     \<or> stk = NULL \<and> (\<exists>d. malloc2 s = (Some d, s') \<and> stk' = ptr2 d)"

lemma stack_source2_keeps:
  assumes "malloc2 s = (Some c, s1)" and "stack_source2 stk s1 stk' s2"
  shows "threads2 s2 = threads2 s \<and> mem2 s2 = mem2 s \<and> thread_list2 s2 = thread_list2 s
    \<and> thread_main_inf2 s2 = thread_main_inf2 s \<and> current_thread2 s2 = current_thread2 s
    \<and> insert (ptr2 c) (blocks2 s) \<subseteq> blocks2 s2"
  using assms by (auto simp: stack_source2_def malloc2_Some_iff)

definition fresh_thread2 :: "thread2 \<Rightarrow> addr \<Rightarrow> u16 \<Rightarrow> u8 \<Rightarrow> addr \<Rightarrow> thread2" where
  "fresh_thread2 junk stk stk_size pri arg =
     junk\<lparr>priority2 := pri, parm2 := arg, flags2 := RTARDUINO_ACTIVE2, stack2 := stk, stack_size2 := stk_size,
       sp2 := stk + stk_size - 36\<rparr>"

definition fresh_memory2 :: "addr \<Rightarrow> addr \<Rightarrow> u16 \<Rightarrow> (addr \<Rightarrow> u8) \<Rightarrow> addr \<Rightarrow> u8" where
  "fresh_memory2 entry stk stk_size m =
     write_down (\<lambda>a. if a - stk < stk_size then 0x99 else m a) (stk + stk_size - 1) (fresh_bytes2 entry)"

lemma give_stack2_exact:
  assumes "stack_source2 stk s stk' s'" and "th \<noteq> NULL"
  shows "give_stack2 th stk stk_size (s\<lparr>threads2 := (threads2 s)(th \<mapsto> t)\<rparr>)
    = Some (True, s'\<lparr>threads2 := (threads2 s)(th \<mapsto> t\<lparr>stack2 := stk', stack_size2 := stk_size\<rparr>)\<rparr>)"
proof (cases "stk = NULL")
  case True
  with assms(1) obtain d where d: "malloc2 s = (Some d, s')" and stk': "stk' = ptr2 d" by (auto simp: stack_source2_def)
  show ?thesis
    using assms(2) True by (simp add: give_stack2_def malloc2_with_threads [OF d] upd_thread2_def deref2_def stk')
next
  case False
  with assms show ?thesis by (auto simp: stack_source2_def give_stack2_def upd_thread2_def deref2_def)
qed

lemma thread_create2_exact:
  assumes "malloc2 s = (Some c, s1)" and "stack_source2 stk s1 stk' s2" and "thread_list2 s \<noteq> NULL"
    and "threads2 s (thread_list2 s) = Some u" and "ptr2 c \<noteq> thread_list2 s"
  shows "thread_create2 entry stk stk_size pri arg s = Some (ptr2 c, s2\<lparr>mem2 := fresh_memory2 entry stk' stk_size (mem2 s),
    threads2 := (threads2 s)(ptr2 c \<mapsto> (fresh_thread2 (as_thread2 c) stk' stk_size pri arg)\<lparr>runq_next2 := thread_list2 s\<rparr>,
       thread_list2 s \<mapsto> u\<lparr>runq_prev2 := ptr2 c\<rparr>), thread_list2 := ptr2 c\<rparr>)"
proof -
  have th: "ptr2 c \<noteq> NULL" using assms(1) by (auto simp: malloc2_Some_iff)
  have k: "threads2 s1 = threads2 s" "threads2 s2 = threads2 s" "mem2 s2 = mem2 s" "thread_list2 s2 = thread_list2 s"
    using assms(1) stack_source2_keeps [OF assms(1,2)] by (auto simp: malloc2_Some_iff)
  define t where "t = (as_thread2 c)\<lparr>priority2 := pri, parm2 := arg, flags2 := RTARDUINO_ACTIVE2\<rparr>"
  define t1 where "t1 = t\<lparr>stack2 := stk', stack_size2 := stk_size\<rparr>"
  define x where "x = s2\<lparr>threads2 := (threads2 s)(ptr2 c \<mapsto> t1)\<rparr>"
  have g: "give_stack2 (ptr2 c) stk stk_size (s1\<lparr>threads2 := (threads2 s)(ptr2 c \<mapsto> t)\<rparr>) = Some (True, x)"
    using give_stack2_exact [OF assms(2) th, of stk_size t] by (simp add: x_def t1_def k del: fun_upd_apply)
  define y where "y = s2\<lparr>mem2 := fresh_memory2 entry stk' stk_size (mem2 s),
    threads2 := (threads2 s)(ptr2 c \<mapsto> fresh_thread2 (as_thread2 c) stk' stk_size pri arg)\<rparr>"
  have "init_stack2 entry (ptr2 c) x = Some (x\<lparr>mem2 := write_down
        (\<lambda>a. if a - stack2 t1 < stack_size2 t1 then 0x99 else mem2 x a) (stk' + stk_size - 1) (fresh_bytes2 entry),
     threads2 := (threads2 x)(ptr2 c \<mapsto> t1\<lparr>sp2 := (stk' + stk_size - 1) - 35\<rparr>)\<rparr>)"
    by (rule init_stack2_exact [OF th]) (simp_all add: x_def t1_def)
  also have "mem2 x = mem2 s" by (simp add: x_def k)
  also have "Some (x\<lparr>mem2 := write_down
        (\<lambda>a. if a - stack2 t1 < stack_size2 t1 then 0x99 else mem2 s a) (stk' + stk_size - 1) (fresh_bytes2 entry),
     threads2 := (threads2 x)(ptr2 c \<mapsto> t1\<lparr>sp2 := (stk' + stk_size - 1) - 35\<rparr>)\<rparr>) = Some y"
    by (simp add: x_def y_def t1_def t_def fresh_memory2_def fresh_thread2_def k)
  finally have i: "init_stack2 entry (ptr2 c) x = Some y" .
  have l: "thread_list2 y = thread_list2 s" by (simp add: y_def k)
  define w where "w = y\<lparr>threads2 := (threads2 s)(ptr2 c \<mapsto> (fresh_thread2 (as_thread2 c) stk' stk_size pri arg)
      \<lparr>runq_next2 := thread_list2 s\<rparr>)\<rparr>"
  have 1: "upd_thread2 (ptr2 c) (\<lambda>t. t\<lparr>runq_next2 := thread_list2 y\<rparr>) y = Some w"
    using th l by (simp add: upd_thread2_def deref2_def w_def) (simp add: y_def)
  have wl: "thread_list2 w = thread_list2 s" by (simp add: w_def l)
  have 2: "upd_thread2 (thread_list2 w) (\<lambda>t. t\<lparr>runq_prev2 := ptr2 c\<rparr>) w
      = Some (w\<lparr>threads2 := (threads2 w)(thread_list2 s \<mapsto> u\<lparr>runq_prev2 := ptr2 c\<rparr>)\<rparr>)"
    using assms(3-5) by (simp add: upd_thread2_def deref2_def wl) (simp add: w_def)
  show ?thesis
    unfolding thread_create2_def assms(1) prod.case option.case Let_def k(1) t_def [symmetric]
    using assms(3)
    by (simp only: g i l wl link_front2_def 1 [unfolded l] 2 [unfolded wl] bind.bind_lunit prod.case not_True_eq_False if_False)
      (simp add: w_def y_def)
qed

section \<open>Properties\<close>

text \<open>In version 2.0 \<open>thread_create\<close> puts the new thread, ready to run, in front of the run queue and
  keeps the queue linked in both directions; no other thread changes but for the back link of the old
  front.\<close>

theorem thread_create2_links:
  assumes "kernel_wf2 s ts" and "set ts \<subseteq> blocks2 s" and "malloc2 s = (Some c, s1)" and "stack_source2 stk s1 stk' s2"
  shows "\<exists>s' t. thread_create2 entry stk stk_size pri arg s = Some (ptr2 c, s') \<and> kernel_wf2 s' (ptr2 c # ts)
    \<and> set (ptr2 c # ts) \<subseteq> blocks2 s' \<and> current_thread2 s' = current_thread2 s
    \<and> threads2 s' (ptr2 c) = Some t \<and> flags2 t = RTARDUINO_ACTIVE2 \<and> priority2 t = pri
    \<and> (\<forall>a. a \<noteq> ptr2 c \<and> a \<noteq> hd ts \<longrightarrow> threads2 s' a = threads2 s a)"
proof -
  obtain b bs where ts: "ts = b # bs" using assms(1) by (cases ts) (auto simp: kernel_wf2_def)
  from assms(1) ts obtain u where l: "thread_list2 s = b" "b \<noteq> NULL" and u: "threads2 s b = Some u"
    and q: "runq2 (threads2 s) (runq_next2 u) bs" and bl: "backlinks (threads2 s) (b # bs)" and d: "distinct (b # bs)"
    by (auto simp: kernel_wf2_def split: option.splits)
  have new: "ptr2 c \<notin> set ts" and nn: "ptr2 c \<noteq> NULL" using assms(2,3) by (auto simp: malloc2_Some_iff)
  let ?f = "(fresh_thread2 (as_thread2 c) stk' stk_size pri arg)\<lparr>runq_next2 := b\<rparr>"
  let ?h = "(threads2 s)(ptr2 c \<mapsto> ?f, b \<mapsto> u\<lparr>runq_prev2 := ptr2 c\<rparr>)"
  let ?s = "s2\<lparr>mem2 := fresh_memory2 entry stk' stk_size (mem2 s), threads2 := ?h, thread_list2 := ptr2 c\<rparr>"
  have "thread_create2 entry stk stk_size pri arg s = Some (ptr2 c, ?s)"
    using thread_create2_exact [OF assms(3,4), of u entry stk_size pri arg] l u new ts by auto
  moreover have q': "runq2 ?h (runq_next2 u) bs"
    by (rule runq2_cong [OF _ q]) (use new d ts in \<open>auto simp: links2_def\<close>)
  have "backlinks ?h (b # bs)"
  proof (cases bs)
    case (Cons b' as)
    have "backlinks ?h bs" by (rule backlinks_cong [of _ _ "threads2 s"]) (use new d ts bl Cons in \<open>auto simp: links2_def\<close>)
    moreover have "?h b' = threads2 s b'" using new d ts Cons by auto
    ultimately show ?thesis using bl unfolding Cons by (simp del: fun_upd_apply)
  qed simp
  then have "kernel_wf2 ?s (ptr2 c # ts)"
    using q' assms(1) new nn l(2) stack_source2_keeps [OF assms(3,4)] unfolding kernel_wf2_def ts by auto
  moreover have "set (ptr2 c # ts) \<subseteq> blocks2 ?s" "current_thread2 ?s = current_thread2 s"
    using stack_source2_keeps [OF assms(3,4)] assms(2) by auto
  moreover have "threads2 ?s (ptr2 c) = Some ?f" using new ts by auto
  moreover have "threads2 ?s a = threads2 s a" if "a \<noteq> ptr2 c" "a \<noteq> hd ts" for a using that ts by simp
  moreover have "flags2 ?f = RTARDUINO_ACTIVE2 \<and> priority2 ?f = pri" by (simp add: fresh_thread2_def)
  ultimately show ?thesis by blast
qed

definition demo_rich2 :: kernel2 where
  "demo_rich2 = demo2\<lparr>answers2 := [\<lparr>ptr2 = 0x500, as_thread2 = demo_thread2\<rparr>]\<rparr>"

lemma demo_rich2_wf: "kernel_wf2 demo_rich2 [0x300, 0x200, 0x100]" "set [0x300, 0x200, 0x100] \<subseteq> blocks2 demo_rich2"
  using demo2_wf by (simp_all add: kernel_wf2_def demo_rich2_def demo2_def kernel_of_def demo_def)

lemma demo_rich2_malloc:
  "malloc2 demo_rich2 = (Some \<lparr>ptr2 = 0x500, as_thread2 = demo_thread2\<rparr>,
     demo_rich2\<lparr>answers2 := [], blocks2 := insert 0x500 (blocks2 demo_rich2)\<rparr>)"
  by (simp add: malloc2_def demo_rich2_def demo2_def kernel_of_def demo_def)

theorem thread_create2_links_witness:
  "\<exists>s'. thread_create2 0x1234 0x600 200 7 0 demo_rich2 = Some (0x500, s') \<and> kernel_wf2 s' [0x500, 0x300, 0x200, 0x100]"
  using thread_create2_links [OF demo_rich2_wf demo_rich2_malloc, of "0x600" "0x600" _ "0x1234" 200 7 0]
  by (auto simp: stack_source2_def)

text \<open>C25: in version 2.0 a new thread does start at its entry point: when the processor is switched to it,
  with its stack as \<open>thread_create\<close> left it, it continues at \<open>entry\<close> with all registers and the status
  register 0, hence with interrupts disabled, and with the stack pointer at the top byte of its stack.\<close>

theorem fresh_thread2_starts:
  assumes "malloc2 s = (Some c, s1)" and "stack_source2 stk s1 stk' s2" and "thread_list2 s \<noteq> NULL"
    and "threads2 s (thread_list2 s) = Some u" and "ptr2 c \<noteq> thread_list2 s"
    and "thread_create2 entry stk stk_size pri arg s = Some (th, s')" and "threads2 s' th = Some t"
    and "\<And>k. 0 < k \<Longrightarrow> k \<le> 35 \<Longrightarrow> ram e (sp2 t + of_nat k) = mem2 s' (sp2 t + of_nat k)"
    and "word16 (ram e (aux_at px e + 1)) (ram e (aux_at px e)) = sp2 t"
  shows "let f = run C (switch_in_code2 px) e in
    pc f = entry \<and> (\<forall>n < 32. regs f n = 0) \<and> sreg f = 0 \<and> cpu_sp f = stk' + stk_size - 1"
proof -
  note x = thread_create2_exact [OF assms(1-5), of entry stk_size pri arg]
  let ?top = "stk' + stk_size - 1"
  have sp: "sp2 t = ?top - 35" and m: "mem2 s' = fresh_memory2 entry stk' stk_size (mem2 s)"
    using x assms(5-7) by (auto simp: fresh_thread2_def)
  have b: "ram e (?top - of_nat k) = fresh_bytes2 entry ! k" if "k < 35" for k
  proof -
    have "ram e (sp2 t + of_nat (35 - k)) = mem2 s' (sp2 t + of_nat (35 - k))"
      by (rule assms(8)) (use that in auto)
    moreover have "sp2 t + of_nat (35 - k) = ?top - of_nat k" using that by (simp add: sp of_nat_diff)
    moreover have "mem2 s' (?top - of_nat k) = fresh_bytes2 entry ! k"
      unfolding m fresh_memory2_def by (rule write_down_nth) (use that in \<open>simp_all add: fresh_bytes2_def\<close>)
    ultimately show ?thesis by (simp only:)
  qed
  define f where "f = run C (switch_in_code2 px) e"
  note i = switch_in_exact2 [OF refl assms(9) [symmetric] f_def, unfolded sp]
  have z: "fresh_bytes2 entry ! (Suc (Suc k)) = 0" if "k < 33" for k
    unfolding fresh_bytes2_def using that by (simp del: replicate_Suc)
  have "pc f = word16 (ram e (?top - of_nat 1)) (ram e (?top - of_nat 0))"
    using i(2) by (simp add: algebra_simps)
  also have "\<dots> = entry"
    unfolding b [of 1, simplified] b [of 0, simplified]
    using b [of 1] b [of 0] by (simp add: fresh_bytes2_def word16_def bytes_of_u16_masked)
  finally have "pc f = entry" .
  moreover have "sreg f = 0" using i(3) b [of 34] z [of 32] by (simp add: algebra_simps)
  moreover have "regs f n = 0" if "n < 32" for n
  proof -
    have "regs f n = ram e (?top - of_nat (n + 2))" using i(4) [OF that] by (simp add: algebra_simps)
    with b [of "n + 2"] z [of n] that show ?thesis by simp
  qed
  moreover have "cpu_sp f = ?top" using i(1) by simp
  ultimately show ?thesis by (simp add: f_def Let_def)
qed

text \<open>The memory when the processor is switched to the thread made for 0x1234 on the stack at 0x600; the
  pointer \<open>pxCurrentTCB\<close> lies at 0x10, what it points to at 0x20.\<close>

definition demo_fresh_memory :: "addr \<Rightarrow> u8" where
  "demo_fresh_memory = fresh_memory2 0x1234 0x600 200 (mem2 demo_rich2)"

definition demo_fresh_cpu :: cpu where
  "demo_fresh_cpu = demo_cpu\<lparr>ram := demo_fresh_memory(0x10 := 0x20, 0x11 := 0, 0x20 := 0xA4, 0x21 := 0x06)\<rparr>"

lemma demo_fresh_stack:
  assumes "0 < k" and "k \<le> 35"
  shows "ram demo_fresh_cpu (0x6A4 + of_nat k) = demo_fresh_memory (0x6A4 + of_nat k)"
proof -
  have u: "unat (0x6A4 + of_nat k :: addr) = 0x6A4 + k" using assms by (simp add: unat_word_ariths unat_of_nat)
  have "0x6A4 + of_nat k \<noteq> (x :: addr)" if "unat x < 0x600" for x using u that by auto
  from this [of "0x10"] this [of "0x11"] this [of "0x20"] this [of "0x21"] show ?thesis
    by (simp add: demo_fresh_cpu_def)
qed

theorem fresh_thread2_starts_witness:
  "pc (run id (switch_in_code2 0x10) demo_fresh_cpu) = 0x1234"
proof -
  let ?c = "\<lparr>ptr2 = 0x500, as_thread2 = demo_thread2\<rparr>"
  let ?s1 = "demo_rich2\<lparr>answers2 := [], blocks2 := insert 0x500 (blocks2 demo_rich2)\<rparr>"
  have st: "stack_source2 0x600 ?s1 0x600 ?s1" by (simp add: stack_source2_def)
  have l: "thread_list2 demo_rich2 \<noteq> NULL" "ptr2 ?c \<noteq> thread_list2 demo_rich2"
    and "\<exists>u. threads2 demo_rich2 (thread_list2 demo_rich2) = Some u"
    by (simp_all add: demo_rich2_def demo2_def kernel_of_def demo_defs)
  then obtain u where u: "threads2 demo_rich2 (thread_list2 demo_rich2) = Some u" by blast
  obtain s' where s': "thread_create2 0x1234 0x600 200 7 0 demo_rich2 = Some (0x500, s')"
    and m: "mem2 s' = demo_fresh_memory"
    and t: "threads2 s' 0x500 = Some ((fresh_thread2 demo_thread2 0x600 200 7 0)\<lparr>runq_next2 := thread_list2 demo_rich2\<rparr>)"
    using thread_create2_exact [OF demo_rich2_malloc st l(1) u l(2), of "0x1234" 200 7 0] l(2)
    by (simp add: demo_fresh_memory_def)
  let ?t = "(fresh_thread2 demo_thread2 0x600 200 7 0)\<lparr>runq_next2 := thread_list2 demo_rich2\<rparr>"
  have sp: "sp2 ?t = 0x6A4" by (simp add: fresh_thread2_def)
  have 1: "ram demo_fresh_cpu (sp2 ?t + of_nat k) = mem2 s' (sp2 ?t + of_nat k)" if "0 < k" "k \<le> 35" for k
    unfolding sp m by (rule demo_fresh_stack [OF that])
  have 2: "word16 (ram demo_fresh_cpu (aux_at 0x10 demo_fresh_cpu + 1)) (ram demo_fresh_cpu (aux_at 0x10 demo_fresh_cpu)) = sp2 ?t"
    unfolding sp by (simp add: aux_at_def word16_def demo_fresh_cpu_def)
  from fresh_thread2_starts [OF demo_rich2_malloc st l(1) u l(2) s' t 1 2, of id] show ?thesis
    by (simp add: Let_def)
qed

end
