(* ===== verification/V2_Periodic.thy ===== *)
theory V2_Periodic
  imports V2_Create RT_Periodic RT_Board
begin

text \<open>
  The body of the threads of version 2.0, \<open>periodic_pattern\<close>, as a state machine with one step per
  stage; a step that yields returns the state in which some thread has the processor. Unlike the
  library's, it measures every period from the first release. What a job and an error handler do is
  a parameter. Last, the timer set-up.
\<close>

datatype stage2 = Start2 | Offset_slept2 | Cycle2 | Release2 | Executed2 | Checked2

record pattern2 =
  stage2 :: stage2
  this_thread2 :: addr
  thread_counter_us2 :: u32
  previous_thread_counter_us2 :: u32
  carry_thread_counter2 :: u8
  ticks_aux2 :: u32
  carry_ticks_aux2 :: u8

type_synonym upcall2 = "addr \<Rightarrow> s16 \<Rightarrow> kernel2 \<Rightarrow> kernel2 option"
type_synonym job2 = "addr \<Rightarrow> kernel2 \<Rightarrow> kernel2 option"

section \<open>The steps\<close>

definition enter_pattern2 :: "pattern2 \<Rightarrow> kernel2 \<Rightarrow> (pattern2 \<times> kernel2) option" where
  "enter_pattern2 l s = do {
     let now = tick_counter_us2 s;
     let l = l\<lparr>stage2 := Offset_slept2, this_thread2 := current_thread2 s, thread_counter_us2 := now,
               previous_thread_counter_us2 := now, carry_thread_counter2 := 0\<rparr>;
     s \<leftarrow> upd_thread2 (current_thread2 s) (\<lambda>t. t\<lparr>current_cost_ticks2 := 0\<rparr>) s;
     t \<leftarrow> deref2 (current_thread2 s) s;
     s \<leftarrow> tick_sleep2 (offset_ticks2 t) s;
     Some (l, s) }"

definition begin_cycle2 :: "pattern2 \<Rightarrow> kernel2 \<Rightarrow> (pattern2 \<times> kernel2) option" where
  "begin_cycle2 l s = do {
     t \<leftarrow> deref2 (current_thread2 s) s;
     s \<leftarrow> (if block_pattern2 t \<noteq> 0 then thread_block2 s else Some s);
     Some (l\<lparr>stage2 := Release2\<rparr>, s) }"

definition release_job2 :: "job2 \<Rightarrow> pattern2 \<Rightarrow> kernel2 \<Rightarrow> (pattern2 \<times> kernel2) option" where
  "release_job2 E l s = do {
     s \<leftarrow> upd_thread2 (current_thread2 s) (\<lambda>t. t\<lparr>current_cost_ticks2 := 0\<rparr>) s;
     t \<leftarrow> deref2 (this_thread2 l) s;
     s \<leftarrow> (if executor2 t = NULL then None else E (executor2 t) s);
     Some (l\<lparr>stage2 := Executed2\<rparr>, s) }"

text \<open>One of the three tests behind a job, each with its own fresh look at the thread.\<close>

definition report2 :: "upcall2 \<Rightarrow> s16 \<Rightarrow> bool \<Rightarrow> addr \<Rightarrow> kernel2 \<Rightarrow> kernel2 option" where
  "report2 H e c th s = do {
     t \<leftarrow> deref2 th s;
     if c then H (error_handler2 t) e s else Some s }"

definition check_job2 :: "upcall2 \<Rightarrow> pattern2 \<Rightarrow> kernel2 \<Rightarrow> (pattern2 \<times> kernel2) option" where
  "check_job2 H l s = do {
     let now = tick_counter_us2 s;
     let l = l\<lparr>stage2 := Checked2, ticks_aux2 := now,
               carry_ticks_aux2 := (if now < thread_counter_us2 l then 1 else 0)\<rparr>;
     (_, s) \<leftarrow> get_current_cost_ticks2 s;
     t \<leftarrow> deref2 (this_thread2 l) s;
     (if error_handler2 t \<noteq> NULL
      then do {
        s \<leftarrow> report2 H RTARDUINO_PERIOD_MISS2 (min_period_ticks2 t \<le> ticks_aux2 l - thread_counter_us2 l) (this_thread2 l) s;
        t \<leftarrow> deref2 (this_thread2 l) s;
        s \<leftarrow> report2 H RTARDUINO_DEADLINE_MISS2 (max_deadline_ticks2 t \<le> ticks_aux2 l - thread_counter_us2 l) (this_thread2 l) s;
        t \<leftarrow> deref2 (this_thread2 l) s;
        s \<leftarrow> report2 H RTARDUINO_COST_OVERUN2 (max_cost_ticks2 t \<le> current_cost_ticks2 t) (this_thread2 l) s;
        Some (l, s) }
      else Some (l, s)) }"

definition sleep_to_next2 :: "pattern2 \<Rightarrow> kernel2 \<Rightarrow> (pattern2 \<times> kernel2) option" where
  "sleep_to_next2 l s = do {
     t \<leftarrow> deref2 (this_thread2 l) s;
     let l = l\<lparr>stage2 := Cycle2, previous_thread_counter_us2 := thread_counter_us2 l,
               thread_counter_us2 := thread_counter_us2 l + min_period_ticks2 t\<rparr>;
     s \<leftarrow> tick_sleep2 (thread_counter_us2 l - ticks_aux2 l) s;
     Some (l, s) }"

definition pattern_step2 :: "upcall2 \<Rightarrow> job2 \<Rightarrow> pattern2 \<Rightarrow> kernel2 \<Rightarrow> (pattern2 \<times> kernel2) option" where
  "pattern_step2 H E l s = (case stage2 l of
     Start2 \<Rightarrow> enter_pattern2 l s
   | Offset_slept2 \<Rightarrow> Some (l\<lparr>stage2 := Cycle2, thread_counter_us2 := tick_counter_us2 s\<rparr>, s)
   | Cycle2 \<Rightarrow> begin_cycle2 l s
   | Release2 \<Rightarrow> release_job2 E l s
   | Executed2 \<Rightarrow> check_job2 H l s
   | Checked2 \<Rightarrow> sleep_to_next2 l s)"

section \<open>Timer\<close>

definition enable_timer2_2 :: "board \<Rightarrow> timer2 \<Rightarrow> timer2" where
  "enable_timer2_2 B r =
     (let r = r\<lparr>interrupts_on := False\<rparr>;
          r = r\<lparr>TCCR2A := push_bit (COM2A1 B) 1\<rparr>;
          r = r\<lparr>TCCR2B := push_bit (CS22 B) 0 OR push_bit (CS21 B) 1 OR push_bit (CS20 B) 0\<rparr>;
          r = r\<lparr>TIMSK2 := push_bit (TOIE2 B) 1\<rparr>
      in r\<lparr>interrupts_on := True\<rparr>)"

section \<open>Releases do not drift\<close>

text \<open>
  The local variables of a thread of period \<open>p\<close> after \<open>n\<close> sleeps from cycle to cycle, whatever the
  kernel looked like at each of its steps.
\<close>

inductive cycles2 :: "upcall2 \<Rightarrow> job2 \<Rightarrow> u32 \<Rightarrow> pattern2 \<Rightarrow> nat \<Rightarrow> pattern2 \<Rightarrow> bool" for H E p l0 where
  first: "stage2 l0 = Cycle2 \<Longrightarrow> cycles2 H E p l0 0 l0"
| inside: "cycles2 H E p l0 n l \<Longrightarrow> stage2 l \<noteq> Checked2 \<Longrightarrow> pattern_step2 H E l s = Some (l', s')
    \<Longrightarrow> cycles2 H E p l0 n l'"
| again: "cycles2 H E p l0 n l \<Longrightarrow> stage2 l = Checked2 \<Longrightarrow> deref2 (this_thread2 l) s = Some t
    \<Longrightarrow> min_period_ticks2 t = p \<Longrightarrow> pattern_step2 H E l s = Some (l', s') \<Longrightarrow> cycles2 H E p l0 (Suc n) l'"

lemma cycles2_counter:
  "cycles2 H E p l0 n l \<Longrightarrow> thread_counter_us2 l = thread_counter_us2 l0 + of_nat n * p
     \<and> stage2 l \<in> {Cycle2, Release2, Executed2, Checked2}"
proof (induction rule: cycles2.induct)
  case (inside n l s l' s')
  then show ?case
    by (auto simp: pattern_step2_def begin_cycle2_def release_job2_def check_job2_def Let_def bind_eq_Some_conv
        split: if_splits)
next
  case (again n l s t l' s')
  then show ?case
    by (auto simp: pattern_step2_def sleep_to_next2_def Let_def bind_eq_Some_conv algebra_simps)
qed simp

section \<open>Properties\<close>


text \<open>A thread of period 100 that has begun its first cycle at tick 1000.\<close>

definition demo_worker2 :: kernel2 where
  "demo_worker2 = demo2\<lparr>current_thread2 := 0x200, tick_counter_us2 := 1040,
     threads2 := (threads2 demo2)(0x200 \<mapsto> (the (threads2 demo2 0x200))\<lparr>min_period_ticks2 := 100, executor2 := 0x77\<rparr>)\<rparr>"

definition demo_pattern2 :: "stage2 \<Rightarrow> pattern2" where
  "demo_pattern2 st = \<lparr>stage2 = st, this_thread2 = 0x200, thread_counter_us2 = 1000,
     previous_thread_counter_us2 = 0, carry_thread_counter2 = 0, ticks_aux2 = 1040, carry_ticks_aux2 = 0\<rparr>"

lemma demo_worker2_wf: "kernel_wf2 demo_worker2 [0x300, 0x200, 0x100]"
  by (simp add: kernel_wf2_def demo_worker2_def demo2_def kernel_of_def demo_thread2_def thread_of_def
      blank_thread_def demo_def)


end
