(* ===== verification/RT_Prog.thy ===== *)
theory RT_Prog
  imports RT_Board "HOL-Library.Char_ord"
begin

text \<open>
  What the sketches are made of. A function of a sketch is a \<open>prog\<close>: one step per statement, so that
  a call that yields the processor ends its step and the rest of the function is what the thread does
  when it gets the processor back. Calls of the Arduino core are recorded in a trace.
\<close>

section \<open>Programs\<close>

text \<open>\<open>Act k\<close> is one step that may depend on the state what to do next (None: undefined behaviour);
  \<open>Loop b p q\<close> is \<open>while (b) p\<close> followed by \<open>q\<close>.\<close>

datatype 's prog = Done | Act "'s \<Rightarrow> ('s \<times> 's prog) option" | Loop "'s \<Rightarrow> bool" "'s prog" "'s prog"

primrec seq :: "'s prog \<Rightarrow> 's prog \<Rightarrow> 's prog" where
  "seq Done r = r"
| "seq (Act k) r = Act (\<lambda>s. map_option (map_prod id (\<lambda>p. seq p r)) (k s))"
| "seq (Loop b p q) r = Loop b p (seq q r)"

definition block :: "'s prog list \<Rightarrow> 's prog" where
  "block ps = foldr seq ps Done"

definition stmt :: "('s \<Rightarrow> 's) \<Rightarrow> 's prog" where
  "stmt f = Act (\<lambda>s. Some (f s, Done))"

definition call :: "('s \<Rightarrow> 's option) \<Rightarrow> 's prog" where
  "call f = Act (\<lambda>s. map_option (\<lambda>s. (s, Done)) (f s))"

text \<open>A call whose result the rest of the statement uses.\<close>

definition call_then :: "('s \<Rightarrow> ('a \<times> 's) option) \<Rightarrow> ('a \<Rightarrow> 's prog) \<Rightarrow> 's prog" where
  "call_then f k = Act (\<lambda>s. map_option (\<lambda>(r, s). (s, k r)) (f s))"

definition cond :: "('s \<Rightarrow> bool) \<Rightarrow> 's prog \<Rightarrow> 's prog \<Rightarrow> 's prog" where
  "cond b p q = Act (\<lambda>s. Some (s, if b s then p else q))"

definition while_do :: "('s \<Rightarrow> bool) \<Rightarrow> 's prog \<Rightarrow> 's prog" where
  "while_do b p = Loop b p Done"

definition forever :: "'s prog \<Rightarrow> 's prog" where
  "forever p = Loop (\<lambda>_. True) p Done"

text \<open>\<open>for (int i = m; i < n; i++)\<close>\<close>

definition for_loop :: "nat \<Rightarrow> nat \<Rightarrow> (nat \<Rightarrow> 's prog) \<Rightarrow> 's prog" where
  "for_loop m n p = block (map p [m..<n])"

section \<open>Execution\<close>

fun step :: "'s prog \<Rightarrow> 's \<Rightarrow> ('s \<times> 's prog) option" where
  "step Done s = Some (s, Done)"
| "step (Act k) s = k s"
| "step (Loop b p q) s = Some (s, if b s then seq p (Loop b p q) else q)"

fun steps :: "nat \<Rightarrow> 's prog \<Rightarrow> 's \<Rightarrow> ('s \<times> 's prog) option" where
  "steps 0 p s = Some (s, p)"
| "steps (Suc n) p s = do { (s, p) \<leftarrow> step p s; steps n p s }"

text \<open>The program, not interrupted, returns in state \<open>s'\<close>.\<close>

definition returns :: "'s prog \<Rightarrow> 's \<Rightarrow> 's \<Rightarrow> bool" where
  "returns p s s' \<longleftrightarrow> (\<exists>n. steps n p s = Some (s', Done))"

section \<open>Rules for sequential runs\<close>

lemma seq_Done [simp]: "seq p Done = p"
proof (induction p)
  case (Act k)
  have "map_option (map_prod id (\<lambda>p. seq p Done)) (k s) = k s" for s
    using Act by (cases "k s") (auto, metis option.set_intros rangeI snds.intros)
  then show ?case by simp
qed simp_all

lemma seq_assoc: "seq (seq p q) r = seq p (seq q r)"
proof (induction p)
  case (Act k)
  have "map_option (map_prod id (\<lambda>p. seq p r)) (map_option (map_prod id (\<lambda>p. seq p q)) (k s))
      = map_option (map_prod id (\<lambda>p. seq p (seq q r))) (k s)" for s
    using Act by (cases "k s") (auto, metis option.set_intros rangeI snds.intros)
  then show ?case by simp
qed simp_all

lemma steps_Done [simp]: "steps n Done s = Some (s, Done)"
  by (induction n) simp_all

lemma steps_add: "steps m p s = Some (s1, p1) \<Longrightarrow> steps (m + n) p s = steps n p1 s1"
proof (induction m arbitrary: p s)
  case (Suc m)
  then obtain s2 p2 where "step p s = Some (s2, p2)" and "steps m p2 s2 = Some (s1, p1)"
    by (auto simp: bind_eq_Some_conv)
  with Suc.IH show ?case by simp
qed simp

lemma step_seq: "p \<noteq> Done \<Longrightarrow> step (seq p q) s = map_option (map_prod id (\<lambda>p. seq p q)) (step p s)"
  by (cases p) (simp_all add: seq_assoc)

lemma steps_seq:
  "steps n p s = Some (s', Done) \<Longrightarrow> \<exists>m. steps m (seq p q) s = Some (s', q)"
proof (induction n arbitrary: p s)
  case 0
  then show ?case by (intro exI [of _ 0]) simp
next
  case (Suc n)
  show ?case
  proof (cases "p = Done")
    case True
    with Suc.prems show ?thesis by (intro exI [of _ 0]) simp
  next
    case False
    from Suc.prems obtain s1 p1 where 1: "step p s = Some (s1, p1)" and "steps n p1 s1 = Some (s', Done)"
      by (auto simp: bind_eq_Some_conv)
    from Suc.IH [OF this(2)] obtain m where "steps m (seq p1 q) s1 = Some (s', q)" by blast
    then have "steps (Suc m) (seq p q) s = Some (s', q)" using step_seq [OF False] 1 by simp
    then show ?thesis by blast
  qed
qed

lemma returns_Done [simp]: "returns Done s s' \<longleftrightarrow> s' = s"
  by (auto simp: returns_def)

lemma returns_seq:
  assumes "returns p s s1" and "returns q s1 s'"
  shows "returns (seq p q) s s'"
proof -
  from assms obtain n k where "steps n p s = Some (s1, Done)" and k: "steps k q s1 = Some (s', Done)"
    by (auto simp: returns_def)
  from steps_seq [OF this(1)] obtain m where "steps m (seq p q) s = Some (s1, q)" by blast
  from steps_add [OF this, of k] k show ?thesis unfolding returns_def by metis
qed

lemma returns_step:
  assumes "step p s = Some (s1, q)" and "returns q s1 s'"
  shows "returns p s s'"
proof -
  from assms(2) obtain n where "steps n q s1 = Some (s', Done)" by (auto simp: returns_def)
  then have "steps (Suc n) p s = Some (s', Done)" by (simp add: assms(1))
  then show ?thesis unfolding returns_def by blast
qed

lemma returns_unique:
  assumes "returns p s a" and "returns p s b"
  shows "a = b"
proof -
  from assms obtain m n where "steps m p s = Some (a, Done)" and "steps n p s = Some (b, Done)"
    by (auto simp: returns_def)
  with steps_add [of m p s a Done n] steps_add [of n p s b Done m] show ?thesis by (simp add: add.commute)
qed

lemma steps_seqD:
  "steps n (seq p q) s = Some (s', Done) \<Longrightarrow> \<exists>s1 k. k \<le> n \<and> returns p s s1 \<and> steps k q s1 = Some (s', Done)"
proof (induction n arbitrary: p s)
  case 0
  then have "p = Done \<and> q = Done" by (cases p) simp_all
  with 0 show ?case by simp
next
  case (Suc n)
  show ?case
  proof (cases "p = Done")
    case True
    with Suc.prems have "steps (Suc n) q s = Some (s', Done)" by simp
    with True show ?thesis by (intro exI [of _ s] exI [of _ "Suc n"]) simp
  next
    case False
    with Suc.prems obtain s2 p2 where p2: "step p s = Some (s2, p2)" and "steps n (seq p2 q) s2 = Some (s', Done)"
      by (auto simp: step_seq bind_eq_Some_conv)
    from Suc.IH [OF this(2)] obtain s1 k where "k \<le> n" "returns p2 s2 s1" "steps k q s1 = Some (s', Done)" by blast
    with returns_step [OF p2] show ?thesis by (intro exI [of _ s1] exI [of _ k]) simp
  qed
qed

lemma returns_seqD:
  assumes "returns (seq p q) s s'"
  shows "\<exists>s1. returns p s s1 \<and> returns q s1 s'"
proof -
  from assms obtain n where "steps n (seq p q) s = Some (s', Done)" by (auto simp: returns_def)
  from steps_seqD [OF this] obtain s1 k where "returns p s s1" "steps k q s1 = Some (s', Done)" by blast
  then show ?thesis unfolding returns_def [of q] by blast
qed

text \<open>A loop that ends does so with its invariant and with its condition false.\<close>

lemma while_invariant:
  assumes "returns (while_do b p) s s'" and "I s"
    and "\<And>s s1. I s \<Longrightarrow> b s \<Longrightarrow> returns p s s1 \<Longrightarrow> I s1"
  shows "I s' \<and> \<not> b s'"
proof -
  have "steps n (while_do b p) s = Some (s', Done) \<Longrightarrow> I s \<Longrightarrow> I s' \<and> \<not> b s'" for n
  proof (induction n arbitrary: s rule: less_induct)
    case (less n)
    then obtain m where n: "n = Suc m" by (cases n) (auto simp: while_do_def)
    show ?case
    proof (cases "b s")
      case True
      with less.prems(1) n have "steps m (seq p (while_do b p)) s = Some (s', Done)" by (simp add: while_do_def)
      from steps_seqD [OF this] obtain s1 k where k: "k \<le> m" "steps k (while_do b p) s1 = Some (s', Done)"
        and "returns p s s1" by blast
      from assms(3) [OF less.prems(2) True this(3)] have "I s1" .
      moreover have "k < n" using k(1) n by simp
      ultimately show ?thesis using less.IH k(2) by blast
    next
      case False
      with less.prems n show ?thesis by (simp add: while_do_def)
    qed
  qed
  with assms(1,2) show ?thesis by (auto simp: returns_def)
qed

text \<open>
  Programs form a monoid under sequencing, with \<open>Done\<close> as its one: a block is the product of its statements,
  statements done again and again are a power.
\<close>

instantiation prog :: (type) monoid_mult
begin

definition one_prog :: "'a prog" where
  "one_prog = Done"

definition times_prog :: "'a prog \<Rightarrow> 'a prog \<Rightarrow> 'a prog" where
  "times_prog = seq"

instance
  by standard (simp_all add: one_prog_def times_prog_def seq_assoc)

end

lemma block_prod_list: "block ps = prod_list ps"
  by (induction ps) (simp_all add: block_def one_prog_def times_prog_def)

lemma block_power: "block (replicate n p) = p ^ n"
  by (simp add: block_prod_list prod_list_replicate)

lemma block_append_seq: "block (ps @ qs) = seq (block ps) (block qs)"
  by (simp add: block_prod_list times_prog_def)

lemma returns_power_Suc: "returns (p ^ Suc n) s s' \<longleftrightarrow> (\<exists>s1. returns (p ^ n) s s1 \<and> returns p s1 s')"
  unfolding power_Suc2 times_prog_def by (blast intro: returns_seq dest: returns_seqD)

lemma returns_block_ConsD: "returns (block (p # ps)) s s' \<Longrightarrow> \<exists>s1. returns p s s1 \<and> returns (block ps) s1 s'"
  by (simp add: block_def returns_seqD)

lemma returns_block_Nil [simp]: "returns (block []) s s' \<longleftrightarrow> s' = s"
  by (simp add: block_def)

lemma returns_block_part: "returns (block ps) a b \<Longrightarrow> p \<in> set ps \<Longrightarrow> \<exists>c d. returns p c d"
  by (induction ps arbitrary: a) (auto dest!: returns_block_ConsD)

lemma returns_block_Cons: "returns p s s1 \<Longrightarrow> returns (block ps) s1 s' \<Longrightarrow> returns (block (p # ps)) s s'"
  by (simp add: block_def returns_seq)

lemma returns_block_append:
  "returns (block ps) s s1 \<Longrightarrow> returns (block qs) s1 s' \<Longrightarrow> returns (block (ps @ qs)) s s'"
  unfolding block_append_seq by (rule returns_seq)

lemma returns_stmt: "returns (stmt f) s (f s)"
  by (rule returns_step [of _ _ "f s" Done]) (simp_all add: stmt_def)

lemma returns_call: "f s = Some s' \<Longrightarrow> returns (call f) s s'"
  by (rule returns_step [of _ _ s' Done]) (simp_all add: call_def)

lemma returns_call_then: "f s = Some (r, s1) \<Longrightarrow> returns (k r) s1 s' \<Longrightarrow> returns (call_then f k) s s'"
  by (rule returns_step [of _ _ s1 "k r"]) (simp_all add: call_then_def)

lemma returns_cond: "returns (if b s then p else q) s s' \<Longrightarrow> returns (cond b p q) s s'"
  by (rule returns_step [of _ _ s "if b s then p else q"]) (simp_all add: cond_def)

lemma returns_while_end: "\<not> b s \<Longrightarrow> returns (while_do b p) s s"
  by (rule returns_step [of _ _ s Done]) (simp_all add: while_do_def)

lemma returns_while_step:
  assumes "b s" and "returns p s s1" and "returns (while_do b p) s1 s'"
  shows "returns (while_do b p) s s'"
proof (rule returns_step)
  show "step (while_do b p) s = Some (s, seq p (while_do b p))" using assms(1) by (simp add: while_do_def)
  show "returns (seq p (while_do b p)) s s'" using assms(2,3) by (rule returns_seq)
qed

text \<open>Part of a run: the state it comes to and what is left to do there.\<close>

definition reaches :: "'s prog \<Rightarrow> 's \<Rightarrow> 's \<Rightarrow> 's prog \<Rightarrow> bool" where
  "reaches p s s' q \<longleftrightarrow> (\<exists>n. steps n p s = Some (s', q))"

lemma reaches_refl: "reaches p s s p"
  unfolding reaches_def by (intro exI [of _ 0]) simp

lemma reaches_step: "step p s = Some (s1, p1) \<Longrightarrow> reaches p1 s1 s' q \<Longrightarrow> reaches p s s' q"
  unfolding reaches_def by (elim exE, rule exI [of _ "Suc _"]) simp

lemma reaches_seq:
  assumes "returns p s s1" and "reaches q s1 s' r"
  shows "reaches (seq p q) s s' r"
proof -
  from assms(1) obtain n where "steps n p s = Some (s1, Done)" by (auto simp: returns_def)
  from steps_seq [OF this] obtain m where m: "steps m (seq p q) s = Some (s1, q)" by blast
  from assms(2) obtain k where "steps k q s1 = Some (s', r)" by (auto simp: reaches_def)
  with steps_add [OF m, of k] show ?thesis unfolding reaches_def by metis
qed

lemma reaches_block_Cons:
  "returns p s s1 \<Longrightarrow> reaches (block ps) s1 s' q \<Longrightarrow> reaches (block (p # ps)) s s' q"
  by (simp add: block_def reaches_seq)

section \<open>Programs that never return\<close>

lemma seq_Loop_not_Done: "seq p (Loop b q r) \<noteq> Done"
  by (cases p) simp_all

text \<open>No number of steps brings a program behind an endless loop.\<close>

lemma steps_seq_forever:
  "steps n (seq p (Loop (\<lambda>_. True) q r)) s = Some (s', x) \<Longrightarrow> \<exists>p'. x = seq p' (Loop (\<lambda>_. True) q r)"
proof (induction n arbitrary: p s)
  case (Suc n)
  show ?case
  proof (cases "p = Done")
    case True
    with Suc.prems have "steps n (seq q (Loop (\<lambda>_. True) q r)) s = Some (s', x)" by simp
    then show ?thesis by (rule Suc.IH)
  next
    case False
    with Suc.prems obtain s1 p1 where "steps n (seq p1 (Loop (\<lambda>_. True) q r)) s1 = Some (s', x)"
      by (auto simp: step_seq bind_eq_Some_conv)
    then show ?thesis by (rule Suc.IH)
  qed
qed auto

lemma never_returns: "\<not> returns (seq p (Loop (\<lambda>_. True) q r)) s s'"
  unfolding returns_def using steps_seq_forever seq_Loop_not_Done by metis

lemma forever_never_returns: "\<not> returns (forever q) s s'"
  using never_returns [of Done q Done] by (simp add: forever_def)

lemma returns_cond_iff: "returns (seq (cond b p q) r) s s' \<longleftrightarrow> returns (seq (if b s then p else q) r) s s'"
proof
  have st: "step (seq (cond b p q) r) s = Some (s, seq (if b s then p else q) r)" by (simp add: cond_def)
  assume "returns (seq (cond b p q) r) s s'"
  then obtain n where n: "steps n (seq (cond b p q) r) s = Some (s', Done)" by (auto simp: returns_def)
  moreover have "seq (cond b p q) r \<noteq> Done" by (simp add: cond_def)
  ultimately obtain m where "n = Suc m" by (cases n) auto
  with n st show "returns (seq (if b s then p else q) r) s s'" by (auto simp: returns_def)
next
  assume "returns (seq (if b s then p else q) r) s s'"
  then show "returns (seq (cond b p q) r) s s'"
    by (rule returns_step [rotated]) (simp add: cond_def)
qed

text \<open>A program that returns does so through every state it comes to.\<close>

lemma reaches_returns:
  assumes "reaches p s b q" and "returns p s s'"
  shows "returns q b s'"
proof -
  from assms(2) obtain m where m: "steps m p s = Some (s', Done)" by (auto simp: returns_def)
  from assms(1) obtain n where n: "steps n p s = Some (b, q)" by (auto simp: reaches_def)
  show ?thesis
  proof (cases "n \<le> m")
    case True
    with steps_add [OF n, of "m - n"] m show ?thesis by (auto simp: returns_def)
  next
    case False
    with steps_add [OF m, of "n - m"] n have "q = Done" "b = s'" by simp_all
    then show ?thesis by (auto simp: returns_def intro: exI [of _ 0])
  qed
qed

lemma reaches_forever_never_returns: "reaches p s b (forever q) \<Longrightarrow> \<not> returns p s s'"
  by (rule notI, drule (1) reaches_returns) (simp add: forever_never_returns)

section \<open>The Arduino core\<close>

text \<open>
  The calls of the core that the sketches make, with their arguments. \<open>Number x b\<close> is a number printed
  to the base \<open>b\<close>; \<open>println\<close> is its argument and a \<open>Newline\<close>.
\<close>

datatype event =
    Serial_begin nat | Pin_mode nat nat | Digital_write nat nat | Delay nat
  | Text string | Number int nat | Character u8 | Newline
  | Tone nat nat nat | Analog_write nat nat | Delay_us nat
  | Attach_interrupt nat addr int | Detach_interrupt nat

definition LOW :: nat where "LOW = 0"
definition HIGH :: nat where "HIGH = 1"
definition INPUT :: nat where "INPUT = 0"
definition OUTPUT :: nat where "OUTPUT = 1"

abbreviation tab :: string where "tab \<equiv> [CHR 0x09]"
abbreviation nl :: string where "nl \<equiv> [CHR 0x0A]"

text \<open>
  The state of a sketch: the kernel, the calls made so far, the registers of Timer 2, the bytes waiting at
  the serial port and the sketch's own variables.
\<close>

record ('k, 'v) app =
  kern :: 'k
  trace :: "event list"
  timer :: timer2
  rx :: "u8 list"
  vars :: 'v

definition emit :: "(('k, 'v) app \<Rightarrow> event list) \<Rightarrow> ('k, 'v) app prog" where
  "emit e = stmt (\<lambda>a. a\<lparr>trace := trace a @ e a\<rparr>)"

definition print_str :: "string \<Rightarrow> ('k, 'v) app prog" where
  "print_str t = emit (\<lambda>_. [Text t])"

definition println_str :: "string \<Rightarrow> ('k, 'v) app prog" where
  "println_str t = emit (\<lambda>_. [Text t, Newline])"

definition print_num :: "(('k, 'v) app \<Rightarrow> int) \<Rightarrow> ('k, 'v) app prog" where
  "print_num f = emit (\<lambda>a. [Number (f a) 10])"

definition println_num :: "(('k, 'v) app \<Rightarrow> int) \<Rightarrow> ('k, 'v) app prog" where
  "println_num f = emit (\<lambda>a. [Number (f a) 10, Newline])"

definition print_hex :: "(('k, 'v) app \<Rightarrow> int) \<Rightarrow> ('k, 'v) app prog" where
  "print_hex f = emit (\<lambda>a. [Number (f a) 16])"

definition println_hex :: "(('k, 'v) app \<Rightarrow> int) \<Rightarrow> ('k, 'v) app prog" where
  "println_hex f = emit (\<lambda>a. [Number (f a) 16, Newline])"

definition println_char :: "(('k, 'v) app \<Rightarrow> u8) \<Rightarrow> ('k, 'v) app prog" where
  "println_char f = emit (\<lambda>a. [Character (f a), Newline])"

definition delay :: "nat \<Rightarrow> ('k, 'v) app prog" where
  "delay ms = emit (\<lambda>_. [Delay ms])"

text \<open>The argument of \<open>delayMicroseconds\<close> is an \<open>unsigned int\<close>, of 16 bits.\<close>

definition delayMicroseconds :: "int \<Rightarrow> ('k, 'v) app prog" where
  "delayMicroseconds us = emit (\<lambda>_. [Delay_us (nat (us mod 2 ^ 16))])"

definition analogWrite :: "nat \<Rightarrow> nat \<Rightarrow> ('k, 'v) app prog" where
  "analogWrite pin v = emit (\<lambda>_. [Analog_write pin v])"

definition digitalWrite :: "nat \<Rightarrow> nat \<Rightarrow> ('k, 'v) app prog" where
  "digitalWrite pin v = emit (\<lambda>_. [Digital_write pin v])"

definition pinMode :: "nat \<Rightarrow> nat \<Rightarrow> ('k, 'v) app prog" where
  "pinMode pin m = emit (\<lambda>_. [Pin_mode pin m])"

definition serial_begin :: "nat \<Rightarrow> ('k, 'v) app prog" where
  "serial_begin b = emit (\<lambda>_. [Serial_begin b])"

text \<open>\<open>Serial.available() > 0\<close> and \<open>Serial.read()\<close>, which is -1 when nothing waits.\<close>

definition available :: "('k, 'v) app \<Rightarrow> bool" where
  "available a \<longleftrightarrow> rx a \<noteq> []"

definition serial_read :: "('k, 'v) app \<Rightarrow> (s16 \<times> ('k, 'v) app) option" where
  "serial_read a = (case rx a of [] \<Rightarrow> Some (- 1, a) | b # bs \<Rightarrow> Some (ucast b, a\<lparr>rx := bs\<rparr>))"

text \<open>
  An assignment to the sketch's variables, one to the registers of the timer, a call of the kernel, a call
  with a result.
\<close>

definition assign :: "('v \<Rightarrow> 'v) \<Rightarrow> ('k, 'v) app prog" where
  "assign f = stmt (\<lambda>a. a\<lparr>vars := f (vars a)\<rparr>)"

definition start_timer :: "(timer2 \<Rightarrow> timer2) \<Rightarrow> ('k, 'v) app prog" where
  "start_timer f = stmt (\<lambda>a. a\<lparr>timer := f (timer a)\<rparr>)"

definition kcall :: "('k \<Rightarrow> 'k option) \<Rightarrow> ('k, 'v) app prog" where
  "kcall f = call (\<lambda>a. map_option (\<lambda>k. a\<lparr>kern := k\<rparr>) (f (kern a)))"

definition kcall_then :: "('k \<Rightarrow> ('a \<times> 'k) option) \<Rightarrow> ('a \<Rightarrow> ('k, 'v) app prog) \<Rightarrow> ('k, 'v) app prog" where
  "kcall_then f g = call_then (\<lambda>a. map_option (\<lambda>(r, k). (r, a\<lparr>kern := k\<rparr>)) (f (kern a))) g"

text \<open>Reading something of the kernel that may not be there.\<close>

definition kread :: "('k \<Rightarrow> 'a option) \<Rightarrow> ('a \<Rightarrow> ('k, 'v) app prog) \<Rightarrow> ('k, 'v) app prog" where
  "kread f g = kcall_then (\<lambda>k. map_option (\<lambda>x. (x, k)) (f k)) g"

text \<open>A value that may be undefined, and what is done with it.\<close>

definition compute :: "'a option \<Rightarrow> ('a \<Rightarrow> 's prog) \<Rightarrow> 's prog" where
  "compute x k = Act (\<lambda>s. map_option (\<lambda>v. (s, k v)) x)"

text \<open>\<open>while(1){}\<close>\<close>

definition hang :: "'s prog" where
  "hang = forever Done"

text \<open>A call whose argument is read from the sketch's variables.\<close>

definition kcall_with :: "('v \<Rightarrow> 'k \<Rightarrow> 'k option) \<Rightarrow> ('k, 'v) app prog" where
  "kcall_with f = call (\<lambda>a. map_option (\<lambda>k. a\<lparr>kern := k\<rparr>) (f (vars a) (kern a)))"

definition kcall_with_then ::
  "('v \<Rightarrow> 'k \<Rightarrow> ('a \<times> 'k) option) \<Rightarrow> ('a \<Rightarrow> ('k, 'v) app prog) \<Rightarrow> ('k, 'v) app prog" where
  "kcall_with_then f g = call_then (\<lambda>a. map_option (\<lambda>(r, k). (r, a\<lparr>kern := k\<rparr>)) (f (vars a) (kern a))) g"

section \<open>Rules for the core\<close>

lemma returns_emit: "returns (emit e) a (a\<lparr>trace := trace a @ e a\<rparr>)"
  unfolding emit_def by (rule returns_stmt)

lemma returns_assign: "returns (assign f) a (a\<lparr>vars := f (vars a)\<rparr>)"
  unfolding assign_def by (rule returns_stmt)

lemma returns_kcall_then:
  "f (kern a) = Some (r, k) \<Longrightarrow> returns (g r) (a\<lparr>kern := k\<rparr>) a' \<Longrightarrow> returns (kcall_then f g) a a'"
  unfolding kcall_then_def by (rule returns_call_then [of _ _ r "a\<lparr>kern := k\<rparr>"]) simp_all

lemma returns_kcall: "f (kern a) = Some k \<Longrightarrow> returns (kcall f) a (a\<lparr>kern := k\<rparr>)"
  unfolding kcall_def by (rule returns_call) simp

section \<open>Running a block by rewriting\<close>

text \<open>
  Equivalences that take the first statement off a block; with them the simplifier runs a straight-line
  program, to the state it returns in or to False where its behaviour is undefined.
\<close>

named_theorems runs \<open>execution of a block, statement by statement\<close>

lemma returns_step_iff:
  assumes "p \<noteq> Done"
  shows "returns p s s' \<longleftrightarrow> (case step p s of None \<Rightarrow> False | Some (s1, q) \<Rightarrow> returns q s1 s')"
proof
  assume "returns p s s'"
  then obtain n where n: "steps n p s = Some (s', Done)" by (auto simp: returns_def)
  with assms obtain m where "n = Suc m" by (cases n) auto
  with n show "case step p s of None \<Rightarrow> False | Some (s1, q) \<Rightarrow> returns q s1 s'"
    by (cases "step p s") (auto simp: returns_def)
qed (auto intro: returns_step split: option.splits)

lemma returns_seq_det: "returns p a c \<Longrightarrow> returns (seq p q) a b \<longleftrightarrow> returns q c b"
  using returns_seq returns_seqD returns_unique by metis

lemma returns_seq_ex: "returns (seq p q) s s' \<longleftrightarrow> (\<exists>s1. returns p s s1 \<and> returns q s1 s')"
  by (blast intro: returns_seq dest: returns_seqD)

lemma returns_while_iff:
  "returns (while_do b p) s s' \<longleftrightarrow> (if b s then \<exists>s1. returns p s s1 \<and> returns (while_do b p) s1 s' else s' = s)"
proof -
  have "returns (while_do b p) s s' \<longleftrightarrow> returns (if b s then seq p (while_do b p) else Done) s s'"
    using returns_step_iff [of "while_do b p" s s'] by (simp add: while_do_def)
  then show ?thesis by (simp add: returns_seq_ex)
qed

lemma seq_not_Done: "p \<noteq> Done \<Longrightarrow> seq p q \<noteq> Done"
  by (cases p) simp_all

lemma returns_seq_iff:
  assumes "p \<noteq> Done"
  shows "returns (seq p q) s s' \<longleftrightarrow> (case step p s of None \<Rightarrow> False | Some (s1, r) \<Rightarrow> returns (seq r q) s1 s')"
  using returns_step_iff [OF seq_not_Done [OF assms]] step_seq [OF assms]
  by (auto split: option.splits)

lemma seq_block [runs]: "seq (block ps) q = foldr seq ps q"
  by (induction ps) (simp_all add: block_def seq_assoc)

lemma block_foldr [runs]: "block ps = foldr seq ps Done"
  by (simp add: block_def)

lemma run_emit [runs]: "returns (seq (emit e) q) a a' \<longleftrightarrow> returns q (a\<lparr>trace := trace a @ e a\<rparr>) a'"
  by (subst returns_seq_iff) (simp_all add: emit_def stmt_def)

lemma run_emit_last [runs]: "returns (emit e) a a' \<longleftrightarrow> a' = a\<lparr>trace := trace a @ e a\<rparr>"
  using run_emit [of e Done] by simp

lemma run_assign [runs]: "returns (seq (assign f) q) a a' \<longleftrightarrow> returns q (a\<lparr>vars := f (vars a)\<rparr>) a'"
  by (subst returns_seq_iff) (simp_all add: assign_def stmt_def)

lemma run_assign_last [runs]: "returns (assign f) a a' \<longleftrightarrow> a' = a\<lparr>vars := f (vars a)\<rparr>"
  using run_assign [of f Done] by simp

lemma run_call: "returns (seq (call f) q) a a' \<longleftrightarrow> (case f a of None \<Rightarrow> False | Some b \<Rightarrow> returns q b a')"
  by (subst returns_seq_iff) (simp_all add: call_def split: option.splits)

lemma run_kcall [runs]:
  "returns (seq (kcall f) q) a a' \<longleftrightarrow> (case f (kern a) of None \<Rightarrow> False | Some k \<Rightarrow> returns q (a\<lparr>kern := k\<rparr>) a')"
  by (subst returns_seq_iff) (simp_all add: kcall_def call_def split: option.splits)

lemma run_kcall_then [runs]:
  "returns (seq (kcall_then f g) q) a a'
     \<longleftrightarrow> (case f (kern a) of None \<Rightarrow> False | Some (r, k) \<Rightarrow> returns (seq (g r) q) (a\<lparr>kern := k\<rparr>) a')"
  by (subst returns_seq_iff) (simp_all add: kcall_then_def call_then_def split: option.splits)

lemma run_kcall_with [runs]:
  "returns (seq (kcall_with f) q) a a'
     \<longleftrightarrow> (case f (vars a) (kern a) of None \<Rightarrow> False | Some k \<Rightarrow> returns q (a\<lparr>kern := k\<rparr>) a')"
  by (subst returns_seq_iff) (simp_all add: kcall_with_def call_def split: option.splits)

lemma run_kcall_with_then [runs]:
  "returns (seq (kcall_with_then f g) q) a a'
     \<longleftrightarrow> (case f (vars a) (kern a) of None \<Rightarrow> False | Some (r, k) \<Rightarrow> returns (seq (g r) q) (a\<lparr>kern := k\<rparr>) a')"
  by (subst returns_seq_iff) (simp_all add: kcall_with_then_def call_then_def split: option.splits)

lemma run_cond [runs]:
  "returns (seq (cond b p q) r) a a' \<longleftrightarrow> (if b a then returns (seq p r) a a' else returns (seq q r) a a')"
  using returns_cond_iff [of b p q r a a'] by simp

lemma run_compute [runs]:
  "returns (seq (compute x k) q) a a' \<longleftrightarrow> (case x of None \<Rightarrow> False | Some v \<Rightarrow> returns (seq (k v) q) a a')"
  by (subst returns_seq_iff) (simp_all add: compute_def split: option.splits)

text \<open>The same for the last statement.\<close>

lemmas run_kcall_last [runs] = run_kcall [of _ Done, unfolded seq_Done]
lemmas run_kcall_then_last [runs] = run_kcall_then [of _ _ Done, unfolded seq_Done]
lemmas run_kcall_with_last [runs] = run_kcall_with [of _ Done, unfolded seq_Done]
lemmas run_kcall_with_then_last [runs] = run_kcall_with_then [of _ _ Done, unfolded seq_Done]
lemmas run_compute_last [runs] = run_compute [of _ _ Done, unfolded seq_Done]
lemmas run_cond_last [runs] = run_cond [of _ _ _ Done, unfolded seq_Done]

lemmas [runs] = seq_assoc print_str_def println_str_def print_num_def println_num_def print_hex_def println_hex_def
  println_char_def delay_def delayMicroseconds_def analogWrite_def digitalWrite_def pinMode_def serial_begin_def

text \<open>A job that toggles something, done again and again.\<close>

lemma returns_replicate:
  assumes "\<And>i a. I i a \<Longrightarrow> \<exists>a'. returns p a a' \<and> I (Suc i) a'" and "I 0 a"
  shows "\<exists>a'. returns (block (replicate n p)) a a' \<and> I n a'"
  unfolding block_power
proof (induction n)
  case 0
  with assms(2) show ?case by (simp add: one_prog_def)
next
  case (Suc n)
  with assms(1) show ?case unfolding returns_power_Suc by blast
qed

text \<open>The writes of a blinking LED.\<close>

definition blinks :: "nat \<Rightarrow> nat \<Rightarrow> event list" where
  "blinks pin n = map (\<lambda>i. Digital_write pin (if even i then HIGH else LOW)) [0..<n]"

lemma blinks_0 [simp]: "blinks pin 0 = []"
  by (simp add: blinks_def)

lemma blinks_Suc: "blinks pin (Suc n) = blinks pin n @ [Digital_write pin (if even n then HIGH else LOW)]"
  by (simp add: blinks_def)

text \<open>The contract of a static variable of a job: what was assigned is read back.\<close>

locale static_var =
  fixes get :: "'v \<Rightarrow> s16" and put :: "s16 \<Rightarrow> 'v \<Rightarrow> 'v"
  assumes get_put: "get (put x v) = x"
begin

lemma toggle_run:
  assumes "p = cond (\<lambda>a. get (vars a) = 0)
     (block [digitalWrite pin HIGH, assign (put 1)]) (block [assign (put 0), digitalWrite pin LOW])"
  shows "\<exists>b. returns p a b \<and> kern b = kern a
    \<and> (if get (vars a) = 0 then get (vars b) = 1 \<and> trace b = trace a @ [Digital_write pin HIGH]
       else get (vars b) = 0 \<and> trace b = trace a @ [Digital_write pin LOW])"
proof (cases "get (vars a) = 0")
  case True
  have "returns (block [digitalWrite pin HIGH, assign (put 1)]) a
      (a\<lparr>trace := trace a @ [Digital_write pin HIGH], vars := put 1 (vars a)\<rparr>)"
    unfolding digitalWrite_def by (rule returns_block_Cons [OF returns_emit returns_block_Cons [OF returns_assign]]) simp
  then have "returns p a (a\<lparr>trace := trace a @ [Digital_write pin HIGH], vars := put 1 (vars a)\<rparr>)"
    unfolding assms by (intro returns_cond) (simp add: True)
  with True get_put show ?thesis by (intro exI) auto
next
  case False
  have "returns (block [assign (put 0), digitalWrite pin LOW]) a
      (a\<lparr>vars := put 0 (vars a), trace := trace a @ [Digital_write pin LOW]\<rparr>)"
    unfolding digitalWrite_def by (rule returns_block_Cons [OF returns_assign returns_block_Cons [OF returns_emit]]) simp
  then have "returns p a (a\<lparr>vars := put 0 (vars a), trace := trace a @ [Digital_write pin LOW]\<rparr>)"
    unfolding assms by (intro returns_cond) (simp add: False)
  with False get_put show ?thesis by (intro exI) auto
qed

lemma toggle_blinks:
  fixes p :: "('k, 'v) app prog"
  assumes "p = cond (\<lambda>a. get (vars a) = 0)
     (block [digitalWrite pin HIGH, assign (put 1)]) (block [assign (put 0), digitalWrite pin LOW])"
    and "get (vars a) = 0"
  shows "\<exists>b. returns (block (replicate n p)) a b \<and> trace b = trace a @ blinks pin n \<and> kern b = kern a"
proof -
  define I where "I i b \<longleftrightarrow> get (vars b) = (if even i then 0 else 1) \<and> trace b = trace a @ blinks pin i
    \<and> kern b = kern a" for i and b :: "('k, 'v) app"
  have "\<exists>c. returns p b c \<and> I (Suc i) c" if "I i b" for i b
    using toggle_run [OF assms(1), of b] that by (auto simp: I_def blinks_Suc)
  moreover have "I 0 a" using assms(2) by (simp add: I_def)
  ultimately show ?thesis using returns_replicate [of I p a n] by (auto simp: I_def)
qed

end

end
