(* ===== verification/V2_Sketch.thy ===== *)
theory V2_Sketch
  imports V2_Periodic RT_Prog
begin

text \<open>
  The use case at the end of context_switch_2_0.ino: its tasks, \<open>setup\<close> and \<open>loop\<close>. Where the linker
  puts the functions is the parameter \<open>image2\<close>.
\<close>

record image2 =
  periodic_pattern_at2 :: addr
  periodic_info_at2 :: addr
  periodic_unblock_at2 :: addr
  errfunction_at2 :: addr

record vars2 =
  swing2 :: s16
  th2 :: addr
  cost_us2 :: u32
  state2 :: s16

type_synonym sketch2 = "(kernel2, vars2) app prog"

section \<open>Tasks\<close>

definition setup2 :: sketch2 where
  "setup2 = block [serial_begin 9600, pinMode 2 INPUT, pinMode 13 OUTPUT]"

definition periodic_pins2 :: sketch2 where
  "periodic_pins2 = cond (\<lambda>a. swing2 (vars a) = 0)
     (block [digitalWrite 13 HIGH, assign (\<lambda>v. v\<lparr>swing2 := 1\<rparr>)])
     (block [assign (\<lambda>v. v\<lparr>swing2 := 0\<rparr>), digitalWrite 13 LOW])"

definition periodic_info2 :: sketch2 where
  "periodic_info2 = block [
     print_str (''[T2] THREAD 1------'' @ tab),
     print_str '' tick_counter_: '',
     println_num (\<lambda>a. uint (tick_counter_us2 (kern a))),
     print_str '' us__per__tick: '',
     println_num (\<lambda>_. uint us_per_tick2),
     print_str '' prio_________: '',
     kcall_then (\<lambda>k. map_option (\<lambda>p. (p, k)) (get_current_priority2 k)) (\<lambda>p. println_num (\<lambda>_. uint p)),
     print_str '' block_________: '',
     kcall_then (\<lambda>k. map_option (\<lambda>t. (block_pattern2 t, k)) (deref2 (current_thread2 k) k))
       (\<lambda>b. println_num (\<lambda>_. uint b)),
     print_str '' cost_in_ us__: '',
     kcall_then get_current_cost2 (\<lambda>c. assign (\<lambda>v. v\<lparr>cost_us2 := c\<rparr>)),
     println_num (\<lambda>a. uint (cost_us2 (vars a)))]"

definition printHola_2 :: sketch2 where
  "printHola_2 = forever (block [
     kcall thread_block2,
     digitalWrite 13 HIGH,
     kcall (thread_usleep2 1000000),
     digitalWrite 13 LOW,
     kcall (thread_usleep2 1000000)])"

definition periodic_unblock_signal2 :: sketch2 where
  "periodic_unblock_signal2 = cond (\<lambda>a. th2 (vars a) \<noteq> NULL) (kcall_with (\<lambda>v. thread_unblock2 (th2 v))) Done"

definition printHola2_2 :: sketch2 where
  "printHola2_2 = forever (block [
     kcall_with (\<lambda>v. thread_unblock2 (th2 v)),
     print_str (''[T2] THREAD 1: tick '' @ tab),
     println_num (\<lambda>a. uint (tick_counter_us2 (kern a))),
     kcall (thread_usleep2 4000000)])"

definition errfunction2 :: "s16 \<Rightarrow> sketch2" where
  "errfunction2 errno = forever (digitalWrite 13 HIGH)"

definition blink2 :: sketch2 where
  "blink2 = assign (\<lambda>v. v\<lparr>state2 := (if state2 v = 0 then 1 else 0)\<rparr>)"

section \<open>The main thread\<close>

definition threads_subsystem_init2 :: "board \<Rightarrow> sketch2" where
  "threads_subsystem_init2 B = cond (\<lambda>a. current_thread2 (kern a) = NULL) Done
     (block [start_timer (enable_timer2_2 B), forever (kcall thread_yield2)])"

text \<open>Printing a pointer, and freeing one that the thread \<open>th\<close> holds.\<close>

definition println_ptr2 :: "(thread2 \<Rightarrow> addr) \<Rightarrow> sketch2" where
  "println_ptr2 f = kcall_with_then (\<lambda>v k. map_option (\<lambda>t. (f t, k)) (deref2 (th2 v) k)) (\<lambda>p. println_num (\<lambda>_. sint p))"

definition free_thread2 :: sketch2 where
  "free_thread2 = block [
     kcall_with (\<lambda>v k. do { t \<leftarrow> deref2 (th2 v) k; if stack2 t \<noteq> NULL then free2 (stack2 t) k else Some k }),
     cond (\<lambda>a. th2 (vars a) \<noteq> NULL) (kcall_with (\<lambda>v. free2 (th2 v))) Done]"

definition loop2 :: "board \<Rightarrow> image2 \<Rightarrow> sketch2" where
  "loop2 B img = block [
     print_str (''INI-'' @ nl @ nl),
     delay 1000,
     for_loop 40 41 (\<lambda>i. Done),
     kcall_then (sporadic_thread_create2 (periodic_pattern_at2 img) (periodic_info_at2 img) NULL 200 30
         100000 1000000 1000000 500000 (errfunction_at2 img)) (\<lambda>r. assign (\<lambda>v. v\<lparr>th2 := r\<rparr>)),
     kcall_then (periodic_thread_create2 (periodic_pattern_at2 img) (periodic_unblock_at2 img) NULL 200 20
         100000 100000 100000 128 (errfunction_at2 img)) (\<lambda>_. Done),
     threads_subsystem_init2 B,
     println_num (\<lambda>a. sint (th2 (vars a))),
     println_ptr2 stack2,
     println_ptr2 sp2,
     delay 100,
     free_thread2,
     delay 4000]"

section \<open>Properties\<close>

interpretation swing2: static_var swing2 "\<lambda>x v. v\<lparr>swing2 := x\<rparr>"
  by unfold_locales simp

lemma pins2_blink:
  assumes "swing2 (vars a) = 0"
  shows "\<exists>b. returns (block (replicate n periodic_pins2)) a b \<and> trace b = trace a @ blinks 13 n \<and> kern b = kern a"
  by (rule swing2.toggle_blinks [OF periodic_pins2_def assms])

text \<open>The use case of version 2.0 never leaves \<open>threads_subsystem_init\<close> once there is a thread: the
  main thread yields for ever, and what \<open>loop\<close> does behind it (printing pointers, freeing the thread and
  its stack) is never reached; with no thread it returns at once.\<close>

theorem threads_subsystem_init2_blocks:
  "(if current_thread2 (kern a) = NULL then returns (threads_subsystem_init2 B) a a
    else \<forall>rest a'. \<not> returns (seq (threads_subsystem_init2 B) rest) a a')"
proof (cases "current_thread2 (kern a) = NULL")
  case True
  then show ?thesis unfolding threads_subsystem_init2_def by (simp add: returns_cond)
next
  case False
  have "\<not> returns (seq (threads_subsystem_init2 B) rest) a a'" for rest a'
    using False
    by (simp add: threads_subsystem_init2_def returns_cond_iff block_def forever_def seq_assoc never_returns)
  with False show ?thesis by simp
qed

end
