(* ===== verification/V1_Kernel.thy ===== *)
theory V1_Kernel
  imports V2_Switch V2_Sketch
begin

text \<open>
  The kernel of context_switch.ino, the first version: threads have no offset and no blocking pattern,
  no priority is lowered on an overrun, and a yield that finds no other thread does not switch. The
  names carry the suffix \<open>1\<close>.
\<close>

section \<open>Data\<close>

definition RTARDUINO_NORM_PRIO1 :: u8 where [rt_consts]: "RTARDUINO_NORM_PRIO1 = 2"
definition RTARDUINO_BLOCKED1 :: u8 where [rt_consts]: "RTARDUINO_BLOCKED1 = 0x02"
definition RTARDUINO_ACTIVE1 :: u8 where [rt_consts]: "RTARDUINO_ACTIVE1 = 0x01"
definition RTARDUINO_SLEPT1 :: u8 where [rt_consts]: "RTARDUINO_SLEPT1 = 0x00"
definition RTARDUINO_COST_OVERUN1 :: s16 where [rt_consts]: "RTARDUINO_COST_OVERUN1 = 0x03"
definition RTARDUINO_DEADLINE_MISS1 :: s16 where [rt_consts]: "RTARDUINO_DEADLINE_MISS1 = 0x01"

definition us_per_tick1 :: u32 where "us_per_tick1 = 128"
definition yield_max1 :: u32 where "yield_max1 = 1"

record thread1 =
  runq_prev1 :: addr
  runq_next1 :: addr
  sp1 :: addr
  stack1 :: addr
  priority1 :: u8
  flags1 :: u8
  stack_size1 :: u16
  ticks_to_wait1 :: u32
  carry_ticks_to_wait1 :: u8
  min_period_ticks1 :: u32
  max_deadline_ticks1 :: u32
  max_cost_ticks1 :: u32
  current_cost_ticks1 :: u32
  executor1 :: addr
  error_handler1 :: addr
  parm1 :: addr

record chunk1 =
  ptr1 :: addr
  as_thread1 :: thread1

record kernel1 =
  tick_counter_us1 :: u32
  tick_counter_previous_us1 :: u32
  carry_tick_counter1 :: u8
  yield1 :: u32
  thread_list1 :: addr
  current_thread1 :: addr
  thread_main_inf1 :: addr
  next_thread1 :: addr
  pxCurrentTCB_aux1_0 :: u8
  pxCurrentTCB_aux1_1 :: u8
  hw_sp1 :: u16
  threads1 :: "addr \<rightharpoonup> thread1"
  mem1 :: "addr \<Rightarrow> u8"
  blocks1 :: "addr set"
  answers1 :: "chunk1 list"

definition deref1 :: "addr \<Rightarrow> kernel1 \<Rightarrow> thread1 option" where
  "deref1 a s = (if a = NULL then None else threads1 s a)"

definition upd_thread1 :: "addr \<Rightarrow> (thread1 \<Rightarrow> thread1) \<Rightarrow> kernel1 \<Rightarrow> kernel1 option" where
  "upd_thread1 a f s = do {
     t \<leftarrow> deref1 a s;
     Some (s\<lparr>threads1 := (threads1 s)(a \<mapsto> f t)\<rparr>) }"

section \<open>Scheduler\<close>

definition change_high1 :: "kernel1 \<Rightarrow> kernel1 option" where
  "change_high1 s = do {
     let aux = push_bit 8 (ucast (pxCurrentTCB_aux1_1 s)) OR ucast (pxCurrentTCB_aux1_0 s);
     s \<leftarrow> upd_thread1 (current_thread1 s) (\<lambda>t. t\<lparr>sp1 := aux\<rparr>) s;
     s \<leftarrow> (if current_thread1 s \<noteq> next_thread1 s
           then do {
             n \<leftarrow> deref1 (next_thread1 s) s;
             Some (s\<lparr>pxCurrentTCB_aux1_0 := ucast (sp1 n AND 0xff),
                     pxCurrentTCB_aux1_1 := ucast (drop_bit 8 (sp1 n) AND 0xff)\<rparr>) }
           else Some s);
     Some (s\<lparr>current_thread1 := next_thread1 s\<rparr>) }"

text \<open>
  The return address, 32 registers and the status register; the instructions are those of
  version 2.0.
\<close>

definition switch_frame1 :: u16 where
  "switch_frame1 = 35"

definition do_switch1 :: "kernel1 \<Rightarrow> kernel1 option" where
  "do_switch1 s = do {
     let low = hw_sp1 s - switch_frame1;
     s \<leftarrow> change_high1 (s\<lparr>pxCurrentTCB_aux1_0 := ucast low, pxCurrentTCB_aux1_1 := ucast (drop_bit 8 low)\<rparr>);
     let new = push_bit 8 (ucast (pxCurrentTCB_aux1_1 s)) OR ucast (pxCurrentTCB_aux1_0 s);
     Some (s\<lparr>hw_sp1 := new + switch_frame1\<rparr>) }"

definition thread_start1 :: "addr \<Rightarrow> kernel1 \<Rightarrow> kernel1 option" where
  "thread_start1 th s = do_switch1 (s\<lparr>next_thread1 := th\<rparr>)"

definition wake_check1 :: "u32 \<Rightarrow> u8 \<Rightarrow> thread1 \<Rightarrow> thread1" where
  "wake_check1 now carry t =
     (if flags1 t = RTARDUINO_SLEPT1 then
        let t = (if carry_ticks_to_wait1 t = 1
                 then (if carry = 1 then t\<lparr>carry_ticks_to_wait1 := 0\<rparr> else t) else t)
        in if carry_ticks_to_wait1 t = 0 \<and> ticks_to_wait1 t < now
           then t\<lparr>flags1 := RTARDUINO_ACTIVE1\<rparr> else t
      else t)"

partial_function (option) yield_loop1 :: "addr \<Rightarrow> addr \<Rightarrow> kernel1 \<Rightarrow> (addr \<times> kernel1) option" where
  "yield_loop1 th th_candidate s = do {
     t \<leftarrow> deref1 th s;
     let th = (if runq_next1 t = NULL then thread_list1 s else runq_next1 t);
     let s = s\<lparr>next_thread1 := th\<rparr>;
     s \<leftarrow> upd_thread1 th (wake_check1 (tick_counter_us1 s) (carry_tick_counter1 s)) s;
     t \<leftarrow> deref1 th s;
     th_candidate \<leftarrow>
       (if flags1 t = RTARDUINO_ACTIVE1
        then do {
          c \<leftarrow> deref1 th_candidate s;
          Some (if priority1 c \<le> priority1 t \<and> next_thread1 s \<noteq> current_thread1 s
                then th else th_candidate) }
        else Some th_candidate);
     (if next_thread1 s \<noteq> current_thread1 s then yield_loop1 th th_candidate s
      else Some (th_candidate, s)) }"

text \<open>The caller is charged the ticks since the last tick that was seen through to its end.\<close>

definition charge1 :: "kernel1 \<Rightarrow> kernel1 option" where
  "charge1 s = upd_thread1 (current_thread1 s)
     (\<lambda>t. t\<lparr>current_cost_ticks1 := current_cost_ticks1 t + (tick_counter_us1 s - tick_counter_previous_us1 s)\<rparr>) s"

definition thread_yield1 :: "kernel1 \<Rightarrow> kernel1 option" where
  "thread_yield1 s =
     (if thread_list1 s = NULL then Some s
      else do {
        (th_candidate, s) \<leftarrow> yield_loop1 (current_thread1 s) (thread_main_inf1 s) s;
        s \<leftarrow> charge1 s;
        let s = s\<lparr>next_thread1 := th_candidate\<rparr>;
        if current_thread1 s \<noteq> next_thread1 s then thread_start1 (next_thread1 s) s else Some s })"

section \<open>Operations that end in a yield\<close>

definition thread_block1 :: "kernel1 \<Rightarrow> kernel1 option" where
  "thread_block1 s = do {
     t \<leftarrow> deref1 (current_thread1 s) s;
     if flags1 t = RTARDUINO_ACTIVE1
     then do {
       s \<leftarrow> upd_thread1 (current_thread1 s) (\<lambda>t. t\<lparr>flags1 := RTARDUINO_BLOCKED1\<rparr>) s;
       thread_yield1 s }
     else Some s }"

definition thread_unblock1 :: "addr \<Rightarrow> kernel1 \<Rightarrow> kernel1 option" where
  "thread_unblock1 th s = do {
     t \<leftarrow> deref1 th s;
     if flags1 t = RTARDUINO_BLOCKED1
     then do {
       s \<leftarrow> upd_thread1 th (\<lambda>t. t\<lparr>flags1 := RTARDUINO_ACTIVE1\<rparr>) s;
       thread_yield1 s }
     else Some s }"

text \<open>What \<open>tick_sleep\<close> writes before it yields.\<close>

definition set_sleep1 :: "u32 \<Rightarrow> u32 \<Rightarrow> thread1 \<Rightarrow> thread1" where
  "set_sleep1 ticks now t =
     (let t = t\<lparr>flags1 := RTARDUINO_SLEPT1, ticks_to_wait1 := ticks + now\<rparr>
      in if ticks_to_wait1 t < now then t\<lparr>carry_ticks_to_wait1 := 1\<rparr>
         else t\<lparr>carry_ticks_to_wait1 := 0\<rparr>)"

definition tick_sleep1 :: "u32 \<Rightarrow> kernel1 \<Rightarrow> kernel1 option" where
  "tick_sleep1 ticks s = do {
     s \<leftarrow> upd_thread1 (current_thread1 s) (set_sleep1 ticks (tick_counter_us1 s)) s;
     thread_yield1 s }"

definition thread_usleep1 :: "u32 \<Rightarrow> kernel1 \<Rightarrow> kernel1 option" where
  "thread_usleep1 time_us s = do {
     s \<leftarrow> upd_thread1 (current_thread1 s) (\<lambda>t. t\<lparr>flags1 := RTARDUINO_SLEPT1\<rparr>) s;
     tick_sleep1 (time_us div us_per_tick1) s }"

text \<open>A function without statements.\<close>

definition thread_ms1 :: "u32 \<Rightarrow> kernel1 \<Rightarrow> kernel1" where
  "thread_ms1 time_ms s = s"

section \<open>Timer\<close>

text \<open>The interrupt up to its yield; the last assignment happens when the interrupted thread resumes.\<close>

definition timer_isr1 :: "kernel1 \<Rightarrow> kernel1 option" where
  "timer_isr1 s =
     (let s = s\<lparr>tick_counter_us1 := tick_counter_us1 s + 1, yield1 := yield1 s + 1\<rparr>
      in if yield1 s = yield_max1
         then (let s = s\<lparr>yield1 := 0\<rparr>;
                   s = (if tick_counter_us1 s < tick_counter_previous_us1 s
                        then s\<lparr>carry_tick_counter1 := 1\<rparr> else s\<lparr>carry_tick_counter1 := 0\<rparr>)
               in thread_yield1 s)
         else Some s)"

definition timer_isr_resumed1 :: "kernel1 \<Rightarrow> kernel1" where
  "timer_isr_resumed1 s = s\<lparr>tick_counter_previous_us1 := tick_counter_us1 s\<rparr>"

section \<open>Creation\<close>

definition malloc1 :: "kernel1 \<Rightarrow> chunk1 option \<times> kernel1" where
  "malloc1 s = (case answers1 s of
     [] \<Rightarrow> (None, s)
   | c # cs \<Rightarrow>
       (if ptr1 c = NULL \<or> ptr1 c \<in> blocks1 s then (None, s\<lparr>answers1 := cs\<rparr>)
        else (Some c, s\<lparr>answers1 := cs, blocks1 := insert (ptr1 c) (blocks1 s)\<rparr>)))"

definition free1 :: "addr \<Rightarrow> kernel1 \<Rightarrow> kernel1 option" where
  "free1 p s =
     (if p = NULL then Some s
      else if p \<in> blocks1 s then Some (s\<lparr>blocks1 := blocks1 s - {p}, threads1 := (threads1 s)(p := None)\<rparr>)
      else None)"

definition memset1 :: "addr \<Rightarrow> u8 \<Rightarrow> u16 \<Rightarrow> kernel1 \<Rightarrow> kernel1" where
  "memset1 p b n s = s\<lparr>mem1 := (\<lambda>a. if a - p < n then b else mem1 s a)\<rparr>"

text \<open>The statement \<open>*th->sp-- = b\<close>, and its loop over zeros.\<close>

definition push_byte1 :: "addr \<Rightarrow> u8 \<Rightarrow> kernel1 \<Rightarrow> kernel1 option" where
  "push_byte1 th b s = do {
     t \<leftarrow> deref1 th s;
     upd_thread1 th (\<lambda>t. t\<lparr>sp1 := sp1 t - 1\<rparr>) (s\<lparr>mem1 := (mem1 s)(sp1 t := b)\<rparr>) }"

fun push_zeros1 :: "nat \<Rightarrow> addr \<Rightarrow> kernel1 \<Rightarrow> kernel1 option" where
  "push_zeros1 0 th s = Some s"
| "push_zeros1 (Suc n) th s = do { s \<leftarrow> push_byte1 th 0x00 s; push_zeros1 n th s }"

definition init_stack1 :: "addr \<Rightarrow> addr \<Rightarrow> kernel1 \<Rightarrow> kernel1 option" where
  "init_stack1 entry th s = do {
     t \<leftarrow> deref1 th s;
     let s = memset1 (stack1 t) 0x99 (stack_size1 t) s;
     s \<leftarrow> upd_thread1 th (\<lambda>t. t\<lparr>sp1 := stack1 t + stack_size1 t - 1\<rparr>) s;
     s \<leftarrow> push_byte1 th (ucast (entry AND 0xff)) s;
     s \<leftarrow> push_byte1 th (ucast (drop_bit 8 entry AND 0xff)) s;
     push_zeros1 33 th s }"

text \<open>The caller's stack or a block of its own; False stands for the early return of NULL.\<close>

definition give_stack1 :: "addr \<Rightarrow> addr \<Rightarrow> u16 \<Rightarrow> kernel1 \<Rightarrow> (bool \<times> kernel1) option" where
  "give_stack1 th stk stk_size s =
     (if stk \<noteq> NULL
      then do {
        s \<leftarrow> upd_thread1 th (\<lambda>t. t\<lparr>stack1 := stk, stack_size1 := stk_size\<rparr>) s;
        Some (True, s) }
      else (case malloc1 s of
          (None, s) \<Rightarrow> do {
            s \<leftarrow> upd_thread1 th (\<lambda>t. t\<lparr>stack1 := NULL\<rparr>) s;
            s \<leftarrow> free1 th s;
            Some (False, s) }
        | (Some c, s) \<Rightarrow> do {
            s \<leftarrow> upd_thread1 th (\<lambda>t. t\<lparr>stack1 := ptr1 c, stack_size1 := stk_size\<rparr>) s;
            Some (True, s) }))"

definition create_main1 :: "addr \<Rightarrow> kernel1 \<Rightarrow> kernel1 option" where
  "create_main1 th s =
     (let (c, s) = malloc1 s;
          thmain = (case c of None \<Rightarrow> NULL | Some c \<Rightarrow> ptr1 c);
          s = (case c of None \<Rightarrow> s | Some c \<Rightarrow> s\<lparr>threads1 := (threads1 s)(ptr1 c \<mapsto> as_thread1 c)\<rparr>)
      in do {
        s \<leftarrow> upd_thread1 thmain (\<lambda>t. t\<lparr>priority1 := RTARDUINO_NORM_PRIO1, parm1 := NULL\<rparr>) (s\<lparr>thread_main_inf1 := thmain\<rparr>);
        s \<leftarrow> upd_thread1 th (\<lambda>t. t\<lparr>flags1 := RTARDUINO_ACTIVE1\<rparr>) s;
        s \<leftarrow> upd_thread1 thmain (\<lambda>t. t\<lparr>runq_next1 := NULL, runq_prev1 := NULL\<rparr>)
               (s\<lparr>thread_list1 := thmain\<rparr>);
        thread_start1 thmain (s\<lparr>current_thread1 := thmain\<rparr>) })"

definition link_front1 :: "addr \<Rightarrow> kernel1 \<Rightarrow> kernel1 option" where
  "link_front1 th s = do {
     s \<leftarrow> upd_thread1 th (\<lambda>t. t\<lparr>runq_next1 := thread_list1 s\<rparr>) s;
     s \<leftarrow> upd_thread1 (thread_list1 s) (\<lambda>t. t\<lparr>runq_prev1 := th\<rparr>) s;
     Some (s\<lparr>thread_list1 := th\<rparr>) }"

definition thread_create1 :: "addr \<Rightarrow> addr \<Rightarrow> u16 \<Rightarrow> u8 \<Rightarrow> addr \<Rightarrow> kernel1 \<Rightarrow> (addr \<times> kernel1) option" where
  "thread_create1 entry stk stk_size pri arg s =
     (case malloc1 s of
        (None, s) \<Rightarrow> Some (NULL, s)
      | (Some c, s) \<Rightarrow> do {
          let th = ptr1 c;
          let s = s\<lparr>threads1 := (threads1 s)(th \<mapsto> (as_thread1 c)
                \<lparr>priority1 := pri, parm1 := arg, flags1 := RTARDUINO_ACTIVE1\<rparr>)\<rparr>;
          (ok, s) \<leftarrow> give_stack1 th stk stk_size s;
          (if \<not> ok then Some (NULL, s)
           else do {
             s \<leftarrow> init_stack1 entry th s;
             s \<leftarrow> (if thread_list1 s = NULL then create_main1 th s else Some s);
             s \<leftarrow> link_front1 th s;
             Some (th, s) }) })"

text \<open>
  \<open>periodic_thread_create\<close> has no return statement: its caller finds whatever is in the result
  registers, the parameter \<open>junk\<close>.
\<close>

definition periodic_thread_create1 ::
  "addr \<Rightarrow> addr \<Rightarrow> addr \<Rightarrow> addr \<Rightarrow> u16 \<Rightarrow> u8 \<Rightarrow> u32 \<Rightarrow> u32 \<Rightarrow> u32 \<Rightarrow> addr \<Rightarrow> kernel1 \<Rightarrow> (addr \<times> kernel1) option" where
  "periodic_thread_create1 junk pat entry stk stk_size pri period_us max_deadline_us max_cost_us handler s = do {
     (base_th, s) \<leftarrow> thread_create1 pat stk stk_size pri NULL s;
     s \<leftarrow> upd_thread1 base_th (\<lambda>t. t\<lparr>executor1 := entry, error_handler1 := handler,
            min_period_ticks1 := period_us div us_per_tick1, max_cost_ticks1 := max_cost_us div us_per_tick1,
            max_deadline_ticks1 := max_deadline_us div us_per_tick1\<rparr>) s;
     Some (junk, s) }"

section \<open>The body of a periodic thread\<close>

datatype stage1 = Start1 | Cycle1 | Executed1 | Checked1

record pattern1 =
  stage1 :: stage1
  this_thread1 :: addr
  thread_counter_us1 :: u32
  previous_thread_counter_us1 :: u32
  carry_thread_counter1 :: u8
  ticks_aux1 :: u32
  carry_ticks_aux1 :: u8

type_synonym upcall1 = "addr \<Rightarrow> s16 \<Rightarrow> kernel1 \<Rightarrow> kernel1 option"
type_synonym job1 = "addr \<Rightarrow> kernel1 \<Rightarrow> kernel1 option"

definition enter_pattern1 :: "pattern1 \<Rightarrow> kernel1 \<Rightarrow> pattern1" where
  "enter_pattern1 l s = l\<lparr>stage1 := Cycle1, this_thread1 := current_thread1 s,
     thread_counter_us1 := tick_counter_us1 s, previous_thread_counter_us1 := tick_counter_us1 s,
     carry_thread_counter1 := 0\<rparr>"

definition release_job1 :: "job1 \<Rightarrow> pattern1 \<Rightarrow> kernel1 \<Rightarrow> (pattern1 \<times> kernel1) option" where
  "release_job1 E l s = do {
     s \<leftarrow> upd_thread1 (this_thread1 l) (\<lambda>t. t\<lparr>current_cost_ticks1 := 0\<rparr>) s;
     t \<leftarrow> deref1 (this_thread1 l) s;
     s \<leftarrow> (if executor1 t = NULL then None else E (executor1 t) s);
     Some (l\<lparr>stage1 := Executed1\<rparr>, s) }"

definition check_job1 :: "upcall1 \<Rightarrow> pattern1 \<Rightarrow> kernel1 \<Rightarrow> (pattern1 \<times> kernel1) option" where
  "check_job1 H l s = do {
     let now = tick_counter_us1 s;
     let l = l\<lparr>stage1 := Checked1, ticks_aux1 := now,
               carry_ticks_aux1 := (if now < thread_counter_us1 l then 1 else 0)\<rparr>;
     t \<leftarrow> deref1 (this_thread1 l) s;
     (if error_handler1 t \<noteq> NULL
      then do {
        s \<leftarrow> (if max_deadline_ticks1 t < ticks_aux1 l - thread_counter_us1 l
              then H (error_handler1 t) RTARDUINO_DEADLINE_MISS1 s else Some s);
        t \<leftarrow> deref1 (this_thread1 l) s;
        s \<leftarrow> (if max_cost_ticks1 t < current_cost_ticks1 t
              then H (error_handler1 t) RTARDUINO_COST_OVERUN1 s else Some s);
        Some (l, s) }
      else Some (l, s)) }"

definition sleep_to_next1 :: "pattern1 \<Rightarrow> kernel1 \<Rightarrow> (pattern1 \<times> kernel1) option" where
  "sleep_to_next1 l s = do {
     t \<leftarrow> deref1 (this_thread1 l) s;
     let l = l\<lparr>stage1 := Cycle1, previous_thread_counter_us1 := thread_counter_us1 l,
               thread_counter_us1 := thread_counter_us1 l + min_period_ticks1 t\<rparr>;
     s \<leftarrow> tick_sleep1 (thread_counter_us1 l - ticks_aux1 l) s;
     Some (l, s) }"

definition pattern_step1 :: "upcall1 \<Rightarrow> job1 \<Rightarrow> pattern1 \<Rightarrow> kernel1 \<Rightarrow> (pattern1 \<times> kernel1) option" where
  "pattern_step1 H E l s = (case stage1 l of
     Start1 \<Rightarrow> Some (enter_pattern1 l s, s)
   | Cycle1 \<Rightarrow> release_job1 E l s
   | Executed1 \<Rightarrow> check_job1 H l s
   | Checked1 \<Rightarrow> sleep_to_next1 l s)"

section \<open>The switch, instruction by instruction\<close>

definition do_switch_code1 :: "addr \<Rightarrow> instr list" where
  "do_switch_code1 px = map PUSH [0..<32] @
     [IN 0 0x3f, PUSH 0, LDS 26 px, LDS 27 (px + 1), IN 0 0x3d, ST_X_inc 0, IN 0 0x3e, ST_X_inc 0,
      CALL_change_high, LDS 26 px, LDS 27 (px + 1), LD_X_inc 0, OUT 0x3d 0, LD_X_inc 0, OUT 0x3e 0,
      POP 0, OUT 0x3f 0] @ map POP (rev [0..<32]) @ [RET]"

lemma do_switch_code1_same: "do_switch_code1 px = do_switch_code2 px"
  by (simp add: do_switch_code1_def do_switch_code2_def switch_out_code2_def switch_in_code2_def del: upt_rec_numeral)

section \<open>Timer\<close>

definition enable_timer2_1 :: "board \<Rightarrow> timer2 \<Rightarrow> timer2" where
  "enable_timer2_1 B r =
     (let r = r\<lparr>interrupts_on := False\<rparr>;
          r = r\<lparr>TCCR2A := push_bit (COM2A1 B) 1\<rparr>;
          r = r\<lparr>TCCR2B := push_bit (CS22 B) 0 OR push_bit (CS21 B) 1 OR push_bit (CS20 B) 0\<rparr>;
          r = r\<lparr>TIMSK2 := push_bit (TOIE2 B) 1\<rparr>
      in r\<lparr>interrupts_on := True\<rparr>)"

section \<open>Charging\<close>

definition cost1 :: "kernel1 \<Rightarrow> addr \<Rightarrow> u32 option" where
  "cost1 s a = map_option current_cost_ticks1 (threads1 s a)"

definition same_costs :: "kernel1 \<Rightarrow> kernel1 \<Rightarrow> bool" where
  "same_costs s s' \<longleftrightarrow> (\<forall>a. cost1 s' a = cost1 s a) \<and> tick_counter_us1 s' = tick_counter_us1 s
     \<and> tick_counter_previous_us1 s' = tick_counter_previous_us1 s"

lemma same_costs_trans: "same_costs s s1 \<Longrightarrow> same_costs s1 s2 \<Longrightarrow> same_costs s s2"
  by (simp add: same_costs_def)

lemma same_costs_fields:
  "threads1 s' = threads1 s \<Longrightarrow> tick_counter_us1 s' = tick_counter_us1 s
   \<Longrightarrow> tick_counter_previous_us1 s' = tick_counter_previous_us1 s \<Longrightarrow> same_costs s s'"
  by (simp add: same_costs_def cost1_def)

lemma same_costs_upd:
  assumes "upd_thread1 a f s = Some s'" and "\<And>t. current_cost_ticks1 (f t) = current_cost_ticks1 t"
  shows "same_costs s s' \<and> current_thread1 s' = current_thread1 s"
proof -
  from assms(1) obtain t where t: "threads1 s a = Some t" and s': "s' = s\<lparr>threads1 := (threads1 s)(a \<mapsto> f t)\<rparr>"
    by (auto simp: upd_thread1_def deref1_def split: if_splits bind_splits)
  then show ?thesis using assms(2) by (simp add: same_costs_def cost1_def)
qed

lemma yield_loop1_costs:
  assumes "yield_loop1 th cand s = Some r"
  shows "same_costs s (snd r) \<and> current_thread1 (snd r) = current_thread1 s"
proof (rule yield_loop1.raw_induct [where
    P = "\<lambda>th cand s r. same_costs s (snd r) \<and> current_thread1 (snd r) = current_thread1 s", OF _ assms])
  fix loop th cand s r
  assume IH: "\<And>th cand s r. loop th cand s = Some r \<Longrightarrow> same_costs s (snd r) \<and> current_thread1 (snd r) = current_thread1 s"
    and step: "do {
     t \<leftarrow> deref1 th s;
     let th = (if runq_next1 t = NULL then thread_list1 s else runq_next1 t);
     let s = s\<lparr>next_thread1 := th\<rparr>;
     s \<leftarrow> upd_thread1 th (wake_check1 (tick_counter_us1 s) (carry_tick_counter1 s)) s;
     t \<leftarrow> deref1 th s;
     th_candidate \<leftarrow>
       (if flags1 t = RTARDUINO_ACTIVE1
        then do {
          c \<leftarrow> deref1 cand s;
          Some (if priority1 c \<le> priority1 t \<and> next_thread1 s \<noteq> current_thread1 s
                then th else cand) }
        else Some cand);
     (if next_thread1 s \<noteq> current_thread1 s then loop th th_candidate s
      else Some (th_candidate, s)) } = Some r"
  from step obtain t where t: "deref1 th s = Some t" by (cases "deref1 th s") auto
  define n where "n = (if runq_next1 t = NULL then thread_list1 s else runq_next1 t)"
  define s0 where "s0 = s\<lparr>next_thread1 := n\<rparr>"
  from step t obtain s1 u r' where s1: "upd_thread1 n (wake_check1 (tick_counter_us1 s0) (carry_tick_counter1 s0)) s0 = Some s1"
    and "deref1 n s1 = Some u"
    and rest: "(if next_thread1 s1 \<noteq> current_thread1 s1 then loop n r' s1 else Some (r', s1)) = Some r"
    by (simp only: Let_def n_def [symmetric] s0_def [symmetric] bind.bind_lunit)
      (fastforce simp only: bind_eq_Some_conv)
  have "same_costs s s0" by (rule same_costs_fields) (simp_all add: s0_def)
  moreover have "same_costs s0 s1 \<and> current_thread1 s1 = current_thread1 s0"
    by (rule same_costs_upd [OF s1]) (simp add: wake_check1_def Let_def)
  moreover have "same_costs s1 (snd r) \<and> current_thread1 (snd r) = current_thread1 s1"
    using rest IH by (cases "next_thread1 s1 = current_thread1 s1") (auto simp: same_costs_def)
  ultimately show "same_costs s (snd r) \<and> current_thread1 (snd r) = current_thread1 s"
    using same_costs_trans by (simp add: s0_def) blast
qed

lemma thread_start1_costs:
  assumes "thread_start1 n s = Some s'"
  shows "same_costs s s'"
proof -
  define l where "l = hw_sp1 s - switch_frame1"
  define s1 where "s1 = s\<lparr>next_thread1 := n, pxCurrentTCB_aux1_0 := ucast l, pxCurrentTCB_aux1_1 := ucast (drop_bit 8 l)\<rparr>"
  from assms obtain s2 y where s2: "change_high1 s1 = Some s2" and s': "s' = s2\<lparr>hw_sp1 := y\<rparr>"
    by (auto simp: thread_start1_def do_switch1_def Let_def l_def s1_def bind_eq_Some_conv)
  define a :: addr where "a = push_bit 8 (ucast (pxCurrentTCB_aux1_1 s1)) OR ucast (pxCurrentTCB_aux1_0 s1)"
  from s2 obtain s3 where s3: "upd_thread1 (current_thread1 s1) (\<lambda>t. t\<lparr>sp1 := a\<rparr>) s1 = Some s3"
    and rest: "(if current_thread1 s3 \<noteq> next_thread1 s3
           then do {
             n \<leftarrow> deref1 (next_thread1 s3) s3;
             Some (s3\<lparr>pxCurrentTCB_aux1_0 := ucast (sp1 n AND 0xff),
                     pxCurrentTCB_aux1_1 := ucast (drop_bit 8 (sp1 n) AND 0xff)\<rparr>) }
           else Some s3) \<bind> (\<lambda>s. Some (s\<lparr>current_thread1 := next_thread1 s\<rparr>)) = Some s2"
    unfolding change_high1_def Let_def a_def bind_eq_Some_conv by blast
  have "same_costs s s1" by (rule same_costs_fields) (simp_all add: s1_def)
  moreover have "same_costs s1 s3" using same_costs_upd [OF s3] by simp
  moreover have "same_costs s3 s2"
    by (rule same_costs_fields; use rest in \<open>cases "deref1 (next_thread1 s3) s3"\<close>) (auto split: if_splits)
  moreover have "same_costs s2 s'" by (rule same_costs_fields) (simp_all add: s')
  ultimately show ?thesis using same_costs_trans by meson
qed

section \<open>Properties\<close>

text \<open>C40: the first version charges the same ticks again and again: each yield adds to its caller's cost
  all ticks since \<open>tick_counter_previous_us\<close> and moves neither that mark nor the counter, so that the next
  yield charges them once more, to whichever thread calls it.\<close>

theorem yield1_charges_again:
  assumes "thread_yield1 s = Some s'" and "thread_list1 s \<noteq> NULL"
  shows "(\<forall>a. cost1 s' a = (if a = current_thread1 s
      then map_option (\<lambda>c. c + (tick_counter_us1 s - tick_counter_previous_us1 s)) (cost1 s a) else cost1 s a))
    \<and> tick_counter_us1 s' - tick_counter_previous_us1 s' = tick_counter_us1 s - tick_counter_previous_us1 s"
proof -
  from assms obtain n s1 s2 where s1: "yield_loop1 (current_thread1 s) (thread_main_inf1 s) s = Some (n, s1)"
    and s2: "charge1 s1 = Some s2"
    and rest: "(if current_thread1 s2 \<noteq> n then thread_start1 n (s2\<lparr>next_thread1 := n\<rparr>) else Some (s2\<lparr>next_thread1 := n\<rparr>)) = Some s'"
    by (auto simp: thread_yield1_def Let_def bind_eq_Some_conv cong: if_cong)
  have 1: "same_costs s s1" "current_thread1 s1 = current_thread1 s" using yield_loop1_costs [OF s1] by simp_all
  from s2 obtain t where t: "threads1 s1 (current_thread1 s1) = Some t"
    and s2: "s2 = s1\<lparr>threads1 := (threads1 s1)(current_thread1 s1 \<mapsto>
      t\<lparr>current_cost_ticks1 := current_cost_ticks1 t + (tick_counter_us1 s1 - tick_counter_previous_us1 s1)\<rparr>)\<rparr>"
    by (auto simp: charge1_def upd_thread1_def deref1_def split: if_splits bind_splits)
  have "same_costs s2 (s2\<lparr>next_thread1 := n\<rparr>)" by (rule same_costs_fields) simp_all
  moreover have "same_costs (s2\<lparr>next_thread1 := n\<rparr>) s'"
    using rest thread_start1_costs by (cases "current_thread1 s2 = n") (auto simp: same_costs_def)
  ultimately have 2: "same_costs s2 s'" by (rule same_costs_trans)
  have "cost1 s1 (current_thread1 s) = cost1 s (current_thread1 s)" using 1(1) unfolding same_costs_def by blast
  moreover have "cost1 s1 (current_thread1 s) = Some (current_cost_ticks1 t)" using 1(2) t by (simp add: cost1_def)
  ultimately have "cost1 s (current_thread1 s) = Some (current_cost_ticks1 t)" by simp
  then show ?thesis using 1 2 t unfolding same_costs_def by (simp add: s2) (simp add: cost1_def)
qed

text \<open>A kernel with the main thread 0x100 and the thread 0x200, 3 ticks behind.\<close>

definition demo_thread1 :: thread1 where
  "demo_thread1 = \<lparr>runq_prev1 = 0, runq_next1 = 0, sp1 = 0x500, stack1 = 0x400, priority1 = 2, flags1 = 1,
     stack_size1 = 200, ticks_to_wait1 = 0, carry_ticks_to_wait1 = 0, min_period_ticks1 = 10,
     max_deadline_ticks1 = 10, max_cost_ticks1 = 5, current_cost_ticks1 = 0, executor1 = 0, error_handler1 = 0,
     parm1 = 0\<rparr>"

definition demo1 :: kernel1 where
  "demo1 = \<lparr>tick_counter_us1 = 10, tick_counter_previous_us1 = 7, carry_tick_counter1 = 0, yield1 = 0,
     thread_list1 = 0x200, current_thread1 = 0x100, thread_main_inf1 = 0x100, next_thread1 = 0,
     pxCurrentTCB_aux1_0 = 0, pxCurrentTCB_aux1_1 = 0, hw_sp1 = 0x800,
     threads1 = [0x200 \<mapsto> demo_thread1\<lparr>runq_next1 := 0x100, priority1 := 5\<rparr>,
       0x100 \<mapsto> demo_thread1\<lparr>runq_prev1 := 0x200\<rparr>],
     mem1 = (\<lambda>_. 0), blocks1 = {0x100, 0x200}, answers1 = []\<rparr>"

lemma demo1_yield: "\<exists>s'. thread_yield1 demo1 = Some s' \<and> current_thread1 s' = 0x200"
proof -
  have "\<exists>s'. yield_loop1 0x100 0x100 demo1 = Some (0x200, s') \<and> thread_list1 s' = 0x200 \<and> current_thread1 s' = 0x100
      \<and> threads1 s' = threads1 demo1"
    by (subst yield_loop1.simps, simp add: deref1_def upd_thread1_def demo1_def demo_thread1_def wake_check1_def rt_consts)
      (subst yield_loop1.simps, simp add: deref1_def upd_thread1_def demo_thread1_def wake_check1_def rt_consts fun_upd_idem)
  then obtain s1 where 1: "yield_loop1 0x100 0x100 demo1 = Some (0x200, s1)" "current_thread1 s1 = 0x100"
    and h: "threads1 s1 = threads1 demo1" by blast
  have c: "current_thread1 demo1 = 0x100" "thread_main_inf1 demo1 = 0x100" "thread_list1 demo1 = 0x200"
    by (simp_all add: demo1_def)
  have d: "deref1 0x100 s1 = Some (demo_thread1\<lparr>runq_prev1 := 0x200\<rparr>)"
    "deref1 0x200 s1 = Some (demo_thread1\<lparr>runq_next1 := 0x100, priority1 := 5\<rparr>)"
    by (simp_all add: deref1_def h demo1_def)
  show ?thesis
    using 1 d by (simp add: thread_yield1_def c charge1_def upd_thread1_def thread_start1_def do_switch1_def
        change_high1_def Let_def deref1_def)
qed

theorem yield1_charges_again_witness:
  "\<exists>s'. thread_yield1 demo1 = Some s' \<and> cost1 s' 0x100 = Some 3 \<and> current_thread1 s' = 0x200
     \<and> tick_counter_us1 s' - tick_counter_previous_us1 s' = 3"
proof -
  obtain s' where s': "thread_yield1 demo1 = Some s'" "current_thread1 s' = 0x200" using demo1_yield by blast
  have "thread_list1 demo1 \<noteq> NULL" by (simp add: demo1_def)
  note e = yield1_charges_again [OF s'(1) this]
  have f: "current_thread1 demo1 = 0x100" "tick_counter_us1 demo1 - tick_counter_previous_us1 demo1 = 3"
    "cost1 demo1 0x100 = Some 0"
    by (simp_all add: demo1_def cost1_def demo_thread1_def)
  from e have "cost1 s' 0x100 = Some 3" by (simp add: f)
  moreover from e have "tick_counter_us1 s' - tick_counter_previous_us1 s' = 3" by (simp add: f)
  ultimately show ?thesis using s' by blast
qed

text \<open>The first version cannot create a periodic thread without memory: the NULL it gets from
  \<open>thread_create\<close> is written through at once, and with memory the pointer handed to the caller does not
  depend on the thread made.\<close>

theorem periodic_create1_unchecked:
  "(answers1 s = [] \<longrightarrow> periodic_thread_create1 junk pat entry stk stk_size pri period dl c h s = None)
   \<and> (\<forall>r s'. periodic_thread_create1 junk pat entry stk stk_size pri period dl c h s = Some (r, s') \<longrightarrow> r = junk)"
  by (auto simp: periodic_thread_create1_def thread_create1_def malloc1_def upd_thread1_def deref1_def bind_eq_Some_conv)

theorem periodic_create1_unchecked_witness:
  "periodic_thread_create1 0xBEEF 0x1000 0x1100 0 200 30 100000 100000 0 0 demo1 = None"
proof -
  have "answers1 demo1 = []" by (simp add: demo1_def)
  with periodic_create1_unchecked [of demo1 "0xBEEF" "0x1000" "0x1100" 0 200 30 100000 100000 0 0] show ?thesis by simp
qed

end
