(* ===== verification/V1_Sketch.thy ===== *)
theory V1_Sketch
  imports V1_Kernel
begin

text \<open>
  The use case at the end of context_switch.ino: its tasks, \<open>setup\<close> and \<open>loop\<close>, as programs of single
  statements. The parameter \<open>image1\<close> says where the linker puts the functions.
\<close>

record image1 =
  periodic_pattern_at1 :: addr
  periodic_pins_at1 :: addr
  periodic_info_at1 :: addr
  errfunction_at1 :: addr

record vars1 =
  swing1 :: s16
  th1 :: addr

type_synonym sketch1 = "(kernel1, vars1) app prog"

section \<open>Tasks\<close>

definition setup1 :: sketch1 where
  "setup1 = block [serial_begin 9600, pinMode 2 INPUT, pinMode 13 OUTPUT]"

definition periodic_pins1 :: sketch1 where
  "periodic_pins1 = cond (\<lambda>a. swing1 (vars a) = 0)
     (block [digitalWrite 13 HIGH, assign (\<lambda>v. v\<lparr>swing1 := 1\<rparr>)])
     (block [assign (\<lambda>v. v\<lparr>swing1 := 0\<rparr>), digitalWrite 13 LOW])"

definition periodic_info1 :: sketch1 where
  "periodic_info1 = block [
     print_str (''[T2] THREAD 1: tick '' @ tab),
     println_num (\<lambda>a. uint (tick_counter_us1 (kern a)))]"

definition printHola_1 :: sketch1 where
  "printHola_1 = forever (block [
     kcall thread_block1,
     digitalWrite 13 HIGH,
     kcall (thread_usleep1 1000000),
     digitalWrite 13 LOW,
     kcall (thread_usleep1 1000000)])"

definition printHola2_1 :: sketch1 where
  "printHola2_1 = forever (block [
     kcall_with (\<lambda>v. thread_unblock1 (th1 v)),
     print_str (''[T2] THREAD 1: tick '' @ tab),
     println_num (\<lambda>a. uint (tick_counter_us1 (kern a))),
     kcall (thread_usleep1 4000000)])"

definition errfunction1 :: "s16 \<Rightarrow> sketch1" where
  "errfunction1 errno = forever (digitalWrite 13 HIGH)"

section \<open>The main thread\<close>

definition threads_subsystem_init1 :: "board \<Rightarrow> sketch1" where
  "threads_subsystem_init1 B = cond (\<lambda>a. current_thread1 (kern a) = NULL) Done
     (block [start_timer (enable_timer2_1 B), forever (kcall thread_yield1)])"

definition println_ptr1 :: "(thread1 \<Rightarrow> addr) \<Rightarrow> sketch1" where
  "println_ptr1 f = kcall_with_then (\<lambda>v k. map_option (\<lambda>t. (f t, k)) (deref1 (th1 v) k)) (\<lambda>p. println_num (\<lambda>_. sint p))"

definition free_thread1 :: sketch1 where
  "free_thread1 = block [
     kcall_with (\<lambda>v k. do { t \<leftarrow> deref1 (th1 v) k; if stack1 t \<noteq> NULL then free1 (stack1 t) k else Some k }),
     cond (\<lambda>a. th1 (vars a) \<noteq> NULL) (kcall_with (\<lambda>v. free1 (th1 v))) Done]"

text \<open>\<open>junk\<close> and \<open>junk'\<close> are what the two creations, which return nothing, leave as their result.\<close>

definition loop1 :: "board \<Rightarrow> image1 \<Rightarrow> addr \<Rightarrow> addr \<Rightarrow> sketch1" where
  "loop1 B img junk junk' = block [
     print_str (''INI-'' @ nl @ nl),
     delay 1000,
     for_loop 40 41 (\<lambda>i. kcall_then (periodic_thread_create1 junk (periodic_pattern_at1 img) (periodic_pins_at1 img) NULL 200
         (of_nat i) 100000 100000 0 (errfunction_at1 img)) (\<lambda>r. assign (\<lambda>v. v\<lparr>th1 := r\<rparr>))),
     kcall_then (periodic_thread_create1 junk' (periodic_pattern_at1 img) (periodic_info_at1 img) NULL 200 30
         100000 1000000 1000000 NULL) (\<lambda>_. Done),
     println_num (\<lambda>a. sint (th1 (vars a))),
     println_ptr1 stack1,
     println_ptr1 sp1,
     delay 100,
     threads_subsystem_init1 B,
     free_thread1,
     delay 4000]"

section \<open>Properties\<close>

interpretation swing1: static_var swing1 "\<lambda>x v. v\<lparr>swing1 := x\<rparr>"
  by unfold_locales simp

text \<open>The LED job has a budget of 0 ticks and an error handler that never returns.\<close>

lemma errfunction1_never_returns: "\<not> returns (errfunction1 e) a a'"
  unfolding errfunction1_def by (rule forever_never_returns)

text \<open>The job that blinks the LED writes HIGH and LOW in turn and leaves the kernel alone.\<close>

lemma pins1_blink:
  assumes "swing1 (vars a) = 0"
  shows "\<exists>b. returns (block (replicate n periodic_pins1)) a b \<and> trace b = trace a @ blinks 13 n \<and> kern b = kern a"
  by (rule swing1.toggle_blinks [OF periodic_pins1_def assms])

end
