(* ===== verification/RT_Sketch.thy ===== *)
theory RT_Sketch
  imports RT_Prog RT_Create RT_Signal RT_Semaphore RT_Queue RT_Memory
begin

text \<open>
  Sketches that use the library: what surrounds it (the board, where the linker puts functions and
  variables, the error handlers as the kernel calls them), its operations as statements of a sketch,
  \<open>threads_subsystem_start\<close>, and the use case at the end of rtthreads.cpp.
\<close>

section \<open>The target\<close>

record target =
  handlers :: upcall
  image_of :: image
  board_of :: board
  at :: "string \<Rightarrow> addr"

text \<open>
  \<open>at\<close> is the address of a function or a variable of the sketch. It is a parameter, like everything here
  that only the linker and the board know.
\<close>

section \<open>Operations of the library as statements\<close>

definition new_periodic :: "target \<Rightarrow> addr \<Rightarrow> addr \<Rightarrow> addr \<Rightarrow> u16 \<Rightarrow> u8 \<Rightarrow> u32 \<Rightarrow> u32 \<Rightarrow> u32 \<Rightarrow> u32 \<Rightarrow> addr
    \<Rightarrow> (addr \<Rightarrow> (kernel, 'v) app prog) \<Rightarrow> (kernel, 'v) app prog" where
  "new_periodic T entry params stk stk_size pri offset_us period_us max_deadline_us max_cost_us handler k =
     kcall_then (periodic_thread_create (handlers T) (image_of T) entry params stk stk_size pri offset_us period_us
       max_deadline_us max_cost_us handler) k"

definition new_sporadic :: "target \<Rightarrow> addr \<Rightarrow> addr \<Rightarrow> addr \<Rightarrow> u16 \<Rightarrow> u8 \<Rightarrow> u32 \<Rightarrow> u32 \<Rightarrow> u32 \<Rightarrow> u32 \<Rightarrow> u8 \<Rightarrow> u32 \<Rightarrow> addr
    \<Rightarrow> (addr \<Rightarrow> (kernel, 'v) app prog) \<Rightarrow> (kernel, 'v) app prog" where
  "new_sporadic T entry params stk stk_size pri offset_us mit_us max_deadline_us max_cost_us policy qmax handler k =
     kcall_then (sporadic_thread_create (handlers T) (image_of T) entry params stk stk_size pri offset_us mit_us
       max_deadline_us max_cost_us policy qmax handler) k"

definition new_aperiodic :: "target \<Rightarrow> addr \<Rightarrow> addr \<Rightarrow> addr \<Rightarrow> u16 \<Rightarrow> u8 \<Rightarrow> u32 \<Rightarrow> u32 \<Rightarrow> u32 \<Rightarrow> u8 \<Rightarrow> u32 \<Rightarrow> addr
    \<Rightarrow> (addr \<Rightarrow> (kernel, 'v) app prog) \<Rightarrow> (kernel, 'v) app prog" where
  "new_aperiodic T entry params stk stk_size pri offset_us max_deadline_us max_cost_us policy qmax handler k =
     kcall_then (aperiodic_thread_create (handlers T) (image_of T) entry params stk stk_size pri offset_us
       max_deadline_us max_cost_us policy qmax handler) k"

text \<open>The main program ends in a loop of yields.\<close>

definition threads_subsystem_start :: "target \<Rightarrow> (kernel, 'v) app prog" where
  "threads_subsystem_start T = cond (\<lambda>a. current_thread (kern a) = NULL) Done
     (block [start_timer (enable_timer2 (board_of T)), forever (kcall (thread_yield (handlers T)))])"

definition thread_internals_threadlist :: "kernel \<Rightarrow> addr" where
  "thread_internals_threadlist s = thread_list s"

text \<open>A function without statements.\<close>

definition thread_ms :: "u32 \<Rightarrow> kernel \<Rightarrow> kernel" where
  "thread_ms time_ms s = s"

definition attach_thread_to_interrupt :: "u8 \<Rightarrow> addr \<Rightarrow> s16 \<Rightarrow> kernel \<Rightarrow> kernel" where
  "attach_thread_to_interrupt interrupt thr mode s = s"

text \<open>Interrupts are attached by the Arduino core.\<close>

definition attach_interrupt :: "u8 \<Rightarrow> addr \<Rightarrow> s16 \<Rightarrow> ('k, 'v) app prog" where
  "attach_interrupt interrupt handler mode = emit (\<lambda>_. [Attach_interrupt (unat interrupt) handler (sint mode)])"

definition detach_interrupt :: "u8 \<Rightarrow> ('k, 'v) app prog" where
  "detach_interrupt interrupt = emit (\<lambda>_. [Detach_interrupt (unat interrupt)])"

text \<open>The naked function \<open>ats_wrapper\<close>; the instruction behind its loop is never reached.\<close>

definition ats_wrapper :: "(kernel, 'v) app prog" where
  "ats_wrapper = forever (kcall (\<lambda>s. upd_thread (current_thread s) (\<lambda>t. t\<lparr>aux2 := aux2 t + 1\<rparr>) s))"

section \<open>The use case of rtthreads.cpp\<close>

record case_vars =
  case_swing :: s16
  case_cost_us :: u32
  case_th :: addr
  case_state :: s16

type_synonym case_prog = "(kernel, case_vars) app prog"

definition case_setup :: case_prog where
  "case_setup = block [serial_begin 9600, pinMode 2 INPUT, pinMode 13 OUTPUT]"

definition case_periodic_pins :: case_prog where
  "case_periodic_pins = cond (\<lambda>a. case_swing (vars a) = 0)
     (block [digitalWrite 13 HIGH, assign (\<lambda>v. v\<lparr>case_swing := 1\<rparr>)])
     (block [assign (\<lambda>v. v\<lparr>case_swing := 0\<rparr>), digitalWrite 13 LOW])"

definition case_periodic_info :: case_prog where
  "case_periodic_info = block [
     print_str (''[T2] THREAD 1------'' @ tab),
     print_str '' tick_counter_: '',
     println_num (\<lambda>a. uint (global_thread_tick_counter (kern a))),
     print_str '' us__per__tick: '',
     println_num (\<lambda>_. uint us_per_tick),
     print_str '' prio_________: '',
     kcall_then (\<lambda>k. map_option (\<lambda>p. (p, k)) (get_current_priority k)) (\<lambda>p. println_num (\<lambda>_. uint p)),
     print_str '' block_________: '',
     kcall_then (\<lambda>k. map_option (\<lambda>t. (block_pattern t, k)) (deref (current_thread k) k))
       (\<lambda>b. println_num (\<lambda>_. uint b)),
     print_str '' cost_in_ us__: '',
     kcall_then get_current_cost (\<lambda>c. assign (\<lambda>v. v\<lparr>case_cost_us := c\<rparr>)),
     println_num (\<lambda>a. uint (case_cost_us (vars a)))]"

definition case_printHola :: "upcall \<Rightarrow> case_prog" where
  "case_printHola H = forever (block [
     kcall (thread_block H),
     digitalWrite 13 HIGH,
     kcall (thread_usleep H 1000000),
     digitalWrite 13 LOW,
     kcall (thread_usleep H 1000000)])"

definition case_periodic_unblock_signal :: "upcall \<Rightarrow> case_prog" where
  "case_periodic_unblock_signal H =
     cond (\<lambda>a. case_th (vars a) \<noteq> NULL) (kcall_with (\<lambda>v. thread_unblock H (case_th v))) Done"

definition case_printHola2 :: "upcall \<Rightarrow> case_prog" where
  "case_printHola2 H = forever (block [
     kcall_with (\<lambda>v. thread_unblock H (case_th v)),
     print_str (''[T2] THREAD 1: tick '' @ tab),
     println_num (\<lambda>a. uint (global_thread_tick_counter (kern a))),
     kcall (thread_usleep H 4000000)])"

definition case_errfunction :: "s16 \<Rightarrow> case_prog" where
  "case_errfunction errno = forever (digitalWrite 13 HIGH)"

definition case_blink :: case_prog where
  "case_blink = assign (\<lambda>v. v\<lparr>case_state := (if case_state v = 0 then 1 else 0)\<rparr>)"

text \<open>
  \<open>loop\<close> creates its threads with functions of an older interface, of nine arguments, which the library no
  longer has; they are parameters. The address of \<open>th\<close> printed after the start is an \<open>int\<close>.
\<close>

type_synonym older_create =
  "addr \<Rightarrow> addr \<Rightarrow> u16 \<Rightarrow> u8 \<Rightarrow> u32 \<Rightarrow> u32 \<Rightarrow> u32 \<Rightarrow> u32 \<Rightarrow> addr \<Rightarrow> kernel \<Rightarrow> (addr \<times> kernel) option"

record older_library =
  older_sporadic_thread_create :: older_create
  older_periodic_thread_create :: older_create

definition case_println_member :: "(thread \<Rightarrow> addr) \<Rightarrow> case_prog" where
  "case_println_member f = kcall_with_then (\<lambda>v k. map_option (\<lambda>t. (t, k)) (deref (case_th v) k))
     (\<lambda>t. println_num (\<lambda>_. sint (f t)))"

definition case_free_thread :: case_prog where
  "case_free_thread = block [
     kcall_with_then (\<lambda>v k. map_option (\<lambda>t. (t, k)) (deref (case_th v) k))
       (\<lambda>t. if stack t \<noteq> NULL then kcall_with (\<lambda>v k. do { t \<leftarrow> deref (case_th v) k; thread_free (stack t) k })
            else Done),
     cond (\<lambda>a. case_th (vars a) \<noteq> NULL) (kcall_with (\<lambda>v. thread_free (case_th v))) Done]"

definition case_loop :: "target \<Rightarrow> older_library \<Rightarrow> case_prog" where
  "case_loop T old = block [
     print_str (''INI-'' @ nl @ nl),
     delay 1000,
     for_loop 40 41 (\<lambda>i. Done),
     kcall_then (older_sporadic_thread_create old (at T ''periodic_info'') NULL 200 30 100000 1000000 1000000 500000
         (at T ''errfunction'')) (\<lambda>r. assign (\<lambda>v. v\<lparr>case_th := r\<rparr>)),
     kcall_then (older_periodic_thread_create old (at T ''periodic_unblock_signal'') NULL 20000 20 100000 100000 100000
         128 (at T ''errfunction'')) (\<lambda>_. Done),
     threads_subsystem_start T,
     println_num (\<lambda>a. sint (case_th (vars a))),
     case_println_member stack,
     case_println_member sp,
     delay 100,
     case_free_thread,
     delay 4000]"

interpretation case_swing: static_var case_swing "\<lambda>x v. v\<lparr>case_swing := x\<rparr>"
  by unfold_locales simp

lemma case_pins_blink:
  assumes "case_swing (vars a) = 0"
  shows "\<exists>b. returns (block (replicate n case_periodic_pins)) a b \<and> trace b = trace a @ blinks 13 n \<and> kern b = kern a"
  by (rule case_swing.toggle_blinks [OF case_periodic_pins_def assms])

section \<open>Starting a sketch\<close>

text \<open>With a thread to run, the main program comes to its loop of yields and stays there.\<close>

definition idle :: "target \<Rightarrow> (kernel, 'v) app prog" where
  "idle T = forever (kcall (thread_yield (handlers T)))"

lemma start_reaches_idle:
  assumes "current_thread (kern a) \<noteq> NULL"
  shows "reaches (block [threads_subsystem_start T]) a (a\<lparr>timer := enable_timer2 (board_of T) (timer a)\<rparr>) (idle T)"
proof -
  let ?p = "block [start_timer (enable_timer2 (board_of T)), forever (kcall (thread_yield (handlers T)))]"
  have "step (block [threads_subsystem_start T]) a = Some (a, ?p)"
    using assms by (simp add: threads_subsystem_start_def block_def cond_def)
  moreover have "reaches ?p a (a\<lparr>timer := enable_timer2 (board_of T) (timer a)\<rparr>) (idle T)"
    unfolding start_timer_def block_def idle_def
    by (simp only: foldr.simps comp_apply id_apply seq_Done) (rule reaches_seq [OF returns_stmt reaches_refl])
  ultimately show ?thesis by (rule reaches_step)
qed

lemma start_never_returns:
  assumes "current_thread (kern a) \<noteq> NULL"
  shows "\<not> returns (seq (threads_subsystem_start T) rest) a a'"
  using assms
  by (simp add: threads_subsystem_start_def returns_cond_iff block_def forever_def seq_assoc never_returns)

text \<open>Once there is a thread, what the use case's \<open>loop\<close> does behind the start, its calls of \<open>free\<close>
  included, is never reached; without memory for one it dereferences NULL.\<close>

lemma case_loop_stays:
  assumes "older_sporadic_thread_create old (at T ''periodic_info'') NULL 200 30 100000 1000000 1000000 500000
      (at T ''errfunction'') (kern a) = Some (p, k1)"
    and "older_periodic_thread_create old (at T ''periodic_unblock_signal'') NULL 20000 20 100000 100000 100000
      128 (at T ''errfunction'') k1 = Some (q, k2)"
    and "current_thread k2 \<noteq> NULL \<or> p = NULL"
  shows "\<not> returns (case_loop T old) a b"
proof (cases "current_thread k2 = NULL")
  case True
  with assms show ?thesis
    by (simp add: case_loop_def runs for_loop_def upt_conv_Cons threads_subsystem_start_def case_println_member_def
        deref_def)
next
  case False
  with assms show ?thesis
    by (simp add: case_loop_def runs for_loop_def upt_conv_Cons start_never_returns)
qed

text \<open>What \<open>periodic_thread_create\<close> adds to a thread.\<close>

definition periodic_of :: "addr \<Rightarrow> addr \<Rightarrow> u32 \<Rightarrow> u32 \<Rightarrow> u32 \<Rightarrow> u32 \<Rightarrow> addr \<Rightarrow> thread \<Rightarrow> thread" where
  "periodic_of entry params offset_us period_us max_deadline_us max_cost_us handler t =
     t\<lparr>executor := entry, params_and_data := params, error_handler := handler, offset_ticks := offset_us div us_per_tick,
       min_period_ticks := period_us div us_per_tick, max_cost_ticks := max_cost_us div us_per_tick,
       max_deadline_ticks := max_deadline_us div us_per_tick, block_pattern := 0x00,
       ats_active := 0, ats_pending := 0, ats_max := 0, blocked_semaphore := NULL\<rparr>"

lemma periodic_of_keeps [simp]:
  "runq_next (periodic_of e p o' per d co h t) = runq_next t" "stack (periodic_of e p o' per d co h t) = stack t"
  "stack_size (periodic_of e p o' per d co h t) = stack_size t" "priority (periodic_of e p o' per d co h t) = priority t"
  "executor (periodic_of e p o' per d co h t) = e"
  by (simp_all add: periodic_of_def)

lemma periodic_created:
  assumes "thread_create H img (periodic_pattern_at img) stk stk_size pri NULL s = Some (p, k)" and "p \<noteq> NULL"
    and "threads k p = Some t"
  shows "periodic_thread_create H img e params stk stk_size pri off per dl co h s
    = Some (p, k\<lparr>threads := (threads k)(p \<mapsto> periodic_of e params off per dl co h t)\<rparr>)"
  using assms by (simp add: periodic_thread_create_def upd_thread_def deref_def periodic_of_def)

lemma runq_wf_periodic:
  assumes "runq_wf s ts" and "threads s p = Some t" and "p \<noteq> NULL"
  shows "runq_wf (s\<lparr>threads := (threads s)(p \<mapsto> periodic_of e params off per dl co h t)\<rparr>) ts"
  by (rule runq_wf_upd_thread [OF assms(1), of p "periodic_of e params off per dl co h"])
    (simp_all add: upd_thread_def deref_def assms(2,3))

lemma periodic_first:
  assumes "malloc s = (Some c, s1)" and "stack_source stk s1 stk' s2" and "thread_list s = NULL"
    and "malloc s2 = (Some m, s3)"
  shows "\<exists>s' t. periodic_thread_create H img entry params stk stk_size pri offset_us period_us max_deadline_us
      max_cost_us handler s = Some (ptr c, s') \<and> runq_wf s' [ptr c, ptr m] \<and> current_thread s' = ptr m
    \<and> threads s' (ptr c) = Some t \<and> executor t = entry \<and> params_and_data t = params
    \<and> error_handler t = handler \<and> priority t = pri \<and> status t = SIMPLERTFRAMEWORK_ACTIVE
    \<and> offset_ticks t = offset_us div us_per_tick \<and> min_period_ticks t = period_us div us_per_tick
    \<and> max_deadline_ticks t = max_deadline_us div us_per_tick \<and> max_cost_ticks t = max_cost_us div us_per_tick
    \<and> block_pattern t = 0"
proof -
  have c: "ptr c \<noteq> NULL" using assms(1) by (auto simp: malloc_Some_iff)
  obtain s' where s': "thread_create H img (periodic_pattern_at img) stk stk_size pri NULL s = Some (ptr c, s')"
    and wf: "runq_wf s' [ptr c, ptr m]" and cur: "current_thread s' = ptr m"
    and t: "threads s' (ptr c) = Some ((fresh_thread (as_thread c) stk' stk_size pri NULL)\<lparr>runq_next := ptr m\<rparr>)"
    using thread_create_first [OF assms, of H img "periodic_pattern_at img" stk_size pri NULL] by blast
  note periodic_created [OF s' c t] runq_wf_periodic [OF wf t c]
  then show ?thesis
    using c cur by (intro exI conjI) (assumption | simp add: periodic_of_def fresh_thread_def)+
qed

text \<open>The start of a sketch with one periodic thread.\<close>

lemma single_starts:
  fixes a :: "(kernel, 'v) app"
  assumes "malloc (kern a) = (Some c, s1)" and "malloc s1 = (Some d, s2)" and "malloc s2 = (Some m, s3)"
    and "thread_list (kern a) = NULL"
    and "p = block [print_str x, delay 1000,
      new_periodic T entry params NULL stk_size pri offset_us period_us max_deadline_us max_cost_us handler (\<lambda>_. Done),
      threads_subsystem_start T]"
  shows "\<exists>b t. reaches p a b (idle T) \<and> trace b = trace a @ [Text x, Delay 1000]
    \<and> timer b = enable_timer2 (board_of T) (timer a) \<and> vars b = vars a
    \<and> runq_wf (kern b) [ptr c, ptr m] \<and> current_thread (kern b) = ptr m \<and> threads (kern b) (ptr c) = Some t
    \<and> executor t = entry \<and> error_handler t = handler \<and> priority t = pri \<and> status t = SIMPLERTFRAMEWORK_ACTIVE
    \<and> offset_ticks t = offset_us div us_per_tick \<and> min_period_ticks t = period_us div us_per_tick
    \<and> max_deadline_ticks t = max_deadline_us div us_per_tick \<and> max_cost_ticks t = max_cost_us div us_per_tick"
proof -
  have st: "stack_source NULL s1 (ptr d) s2" using assms(2) by (auto simp: stack_source_def)
  obtain k t where k: "periodic_thread_create (handlers T) (image_of T) entry params NULL stk_size pri offset_us
      period_us max_deadline_us max_cost_us handler (kern a) = Some (ptr c, k)"
    and wf: "runq_wf k [ptr c, ptr m]" and cur: "current_thread k = ptr m" and t: "threads k (ptr c) = Some t"
      "executor t = entry" "error_handler t = handler" "priority t = pri" "status t = SIMPLERTFRAMEWORK_ACTIVE"
      "offset_ticks t = offset_us div us_per_tick" "min_period_ticks t = period_us div us_per_tick"
      "max_deadline_ticks t = max_deadline_us div us_per_tick" "max_cost_ticks t = max_cost_us div us_per_tick"
    using periodic_first [OF assms(1) st assms(4,3), of "handlers T" "image_of T" entry params stk_size pri offset_us
        period_us max_deadline_us max_cost_us handler] by blast
  define b where "b = a\<lparr>trace := trace a @ [Text x] @ [Delay 1000], kern := k\<rparr>"
  have nn: "current_thread (kern b) \<noteq> NULL"
    using runq_wf_deref [OF wf, of "ptr m"] cur by (auto simp: b_def deref_def split: if_splits)
  have 1: "returns (print_str x) a (a\<lparr>trace := trace a @ [Text x]\<rparr>)"
    unfolding print_str_def by (rule returns_emit)
  have 2: "returns (delay 1000) (a\<lparr>trace := trace a @ [Text x]\<rparr>) (a\<lparr>trace := trace a @ [Text x] @ [Delay 1000]\<rparr>)"
    unfolding delay_def using returns_emit [of "\<lambda>_. [Delay 1000]" "a\<lparr>trace := trace a @ [Text x]\<rparr>"] by simp
  have "returns (new_periodic T entry params NULL stk_size pri offset_us period_us max_deadline_us max_cost_us handler
      (\<lambda>_. Done)) (a\<lparr>trace := trace a @ [Text x] @ [Delay 1000]\<rparr>) b"
    unfolding new_periodic_def by (rule returns_kcall_then [of _ _ "ptr c" k]) (simp_all add: k b_def)
  then have "reaches p a (b\<lparr>timer := enable_timer2 (board_of T) (timer b)\<rparr>) (idle T)"
    unfolding assms(5)
    by (rule reaches_block_Cons [OF 1 reaches_block_Cons [OF 2 reaches_block_Cons [OF _ start_reaches_idle [OF nn]]]])
  then show ?thesis
    using wf cur t by (intro exI [of _ "b\<lparr>timer := enable_timer2 (board_of T) (timer b)\<rparr>"] exI [of _ t]) (simp add: b_def)
qed

text \<open>The first two threads of a program, with memory for their structures and stacks and for the structure
  of the main thread.\<close>

lemma periodic_pair:
  assumes "malloc s = (Some c, s1)" and "malloc s1 = (Some x, s2)" and "malloc s2 = (Some m, s3)"
    and "malloc s3 = (Some d, s4)" and "malloc s4 = (Some y, s5)" and "thread_list s = NULL"
  shows "\<exists>k k' t u v. periodic_thread_create H img e params NULL z pri off per dl co h s = Some (ptr c, k)
    \<and> periodic_thread_create H img e' params' NULL z' pri' off' per' dl' co' h' k = Some (ptr d, k')
    \<and> runq_wf k' [ptr d, ptr c, ptr m] \<and> current_thread k' = ptr m \<and> blocks k' = blocks s5
    \<and> threads k' (ptr c) = Some t \<and> stack t = ptr x \<and> stack_size t = z \<and> executor t = e \<and> priority t = pri
    \<and> threads k' (ptr d) = Some u \<and> stack u = ptr y \<and> stack_size u = z' \<and> executor u = e' \<and> priority u = pri'
    \<and> threads k' (ptr m) = Some v \<and> stack_size v = 300"
proof -
  have st: "stack_source NULL s1 (ptr x) s2" using assms(2) by (auto simp: stack_source_def)
  let ?T = "(fresh_thread (as_thread c) (ptr x) z pri NULL)\<lparr>runq_next := ptr m\<rparr>"
  obtain k0 v where k0: "thread_create H img (periodic_pattern_at img) NULL z pri NULL s = Some (ptr c, k0)"
    and wf: "runq_wf k0 [ptr c, ptr m]" and cur: "current_thread k0 = ptr m" and b: "blocks k0 = blocks s3" "answers k0 = answers s3"
    and t: "threads k0 (ptr c) = Some ?T" and v: "threads k0 (ptr m) = Some v" "stack_size v = 300"
    using thread_create_first [OF assms(1) st assms(6,3), of H img "periodic_pattern_at img" z pri NULL]
    by (auto simp: main_thread_def)
  have c: "ptr c \<noteq> NULL" "ptr d \<noteq> NULL" and new: "ptr d \<notin> blocks s3" and old: "{ptr c, ptr m} \<subseteq> blocks s3"
    and ne: "ptr c \<noteq> ptr m"
    using assms(1-4) by (auto simp: malloc_Some_iff)
  let ?P = "periodic_of e params off per dl co h ?T"
  let ?k = "k0\<lparr>threads := (threads k0)(ptr c \<mapsto> ?P)\<rparr>"
  have k: "periodic_thread_create H img e params NULL z pri off per dl co h s = Some (ptr c, ?k)"
    by (rule periodic_created [OF k0 c(1) t])
  have kwf: "runq_wf ?k [ptr c, ptr m]" by (rule runq_wf_periodic [OF wf t c(1)])
  let ?k1 = "?k\<lparr>answers := answers s4, blocks := blocks s4\<rparr>"
  have m1: "malloc ?k = (Some d, ?k1)" by (rule malloc_cong [OF _ _ assms(4)]) (simp_all add: b)
  have m2: "malloc ?k1 = (Some y, ?k1\<lparr>answers := answers s5, blocks := blocks s5\<rparr>)"
    by (rule malloc_cong [OF _ _ assms(5)]) simp_all
  then have st2: "stack_source NULL ?k1 (ptr y) (?k1\<lparr>answers := answers s5, blocks := blocks s5\<rparr>)"
    by (auto simp: stack_source_def)
  note e2 = thread_create_exact [OF m1 st2 runq_wf_list_nonnull [OF kwf], of H img "periodic_pattern_at img" z' pri' NULL]
  let ?U = "(fresh_thread (as_thread d) (ptr y) z' pri' NULL)\<lparr>runq_next := thread_list ?k\<rparr>"
  obtain k2 where k2: "thread_create H img (periodic_pattern_at img) NULL z' pri' NULL ?k = Some (ptr d, k2)"
    and u: "threads k2 = (threads ?k)(ptr d \<mapsto> ?U)" and b2: "blocks k2 = blocks s5" "current_thread k2 = ptr m"
    using e2 cur by simp
  have "runq_wf k2 (ptr d # [ptr c, ptr m])"
    using thread_create_wf(3) [OF kwf _ m1 st2 k2] old b by simp
  then have wf2: "runq_wf (k2\<lparr>threads := (threads k2)(ptr d \<mapsto> periodic_of e' params' off' per' dl' co' h' ?U)\<rparr>)
      [ptr d, ptr c, ptr m]"
    by (rule runq_wf_periodic) (simp_all add: u c(2))
  have dn: "ptr d \<noteq> ptr c" "ptr d \<noteq> ptr m" using new old by auto
  have k': "periodic_thread_create H img e' params' NULL z' pri' off' per' dl' co' h' ?k = Some (ptr d,
      k2\<lparr>threads := (threads k2)(ptr d \<mapsto> periodic_of e' params' off' per' dl' co' h' ?U)\<rparr>)"
    by (rule periodic_created [OF k2 c(2)]) (simp add: u)
  show ?thesis
    by (rule exI [of _ ?k], rule exI [of _ "k2\<lparr>threads := (threads k2)(ptr d \<mapsto> periodic_of e' params' off' per' dl' co' h' ?U)\<rparr>"],
        rule exI [of _ ?P], rule exI [of _ "periodic_of e' params' off' per' dl' co' h' ?U"], rule exI [of _ v],
        intro conjI, rule k, rule k', rule wf2) (use u b2 v dn ne in \<open>simp_all add: fresh_thread_def\<close>)
qed

text \<open>The start of a sketch with two periodic threads, whatever it does with their addresses.\<close>

lemma pair_starts:
  fixes a :: "(kernel, 'v) app"
  assumes mem: "malloc (kern a) = (Some c, s1)" "malloc s1 = (Some x, s2)" "malloc s2 = (Some m, s3)"
      "malloc s3 = (Some d, s4)" "malloc s4 = (Some y, s5)" "thread_list (kern a) = NULL"
    and f: "\<And>b. returns (f (ptr c)) b (b\<lparr>vars := g (vars b)\<rparr>)"
    and f': "\<And>b. returns (f' (ptr d)) b (b\<lparr>vars := g' (vars b)\<rparr>)"
    and p: "p = block [print_str w, delay 1000,
      new_periodic T e params NULL z pri off per dl co h f,
      new_periodic T e' params' NULL z' pri' off' per' dl' co' h' f',
      threads_subsystem_start T]"
  shows "\<exists>b t u v. reaches p a b (idle T) \<and> trace b = trace a @ [Text w, Delay 1000]
    \<and> timer b = enable_timer2 (board_of T) (timer a) \<and> vars b = g' (g (vars a))
    \<and> runq_wf (kern b) [ptr d, ptr c, ptr m] \<and> current_thread (kern b) = ptr m \<and> blocks (kern b) = blocks s5
    \<and> threads (kern b) (ptr c) = Some t \<and> stack t = ptr x \<and> stack_size t = z \<and> executor t = e \<and> priority t = pri
    \<and> threads (kern b) (ptr d) = Some u \<and> stack u = ptr y \<and> stack_size u = z' \<and> executor u = e' \<and> priority u = pri'
    \<and> threads (kern b) (ptr m) = Some v \<and> stack_size v = 300"
proof -
  obtain k k' t u v where k: "periodic_thread_create (handlers T) (image_of T) e params NULL z pri off per dl co h (kern a)
      = Some (ptr c, k)"
    and k': "periodic_thread_create (handlers T) (image_of T) e' params' NULL z' pri' off' per' dl' co' h' k = Some (ptr d, k')"
    and wf: "runq_wf k' [ptr d, ptr c, ptr m]" and cur: "current_thread k' = ptr m" and bl: "blocks k' = blocks s5"
    and t: "threads k' (ptr c) = Some t" "stack t = ptr x" "stack_size t = z" "executor t = e" "priority t = pri"
      "threads k' (ptr d) = Some u" "stack u = ptr y" "stack_size u = z'" "executor u = e'" "priority u = pri'"
      "threads k' (ptr m) = Some v" "stack_size v = 300"
    using periodic_pair [OF mem, of "handlers T" "image_of T" e params z pri off per dl co h e' params' z' pri' off' per' dl' co' h']
    by blast
  let ?a1 = "a\<lparr>trace := trace a @ [Text w]\<rparr>"
  let ?a2 = "a\<lparr>trace := trace a @ [Text w, Delay 1000]\<rparr>"
  let ?b1 = "?a2\<lparr>kern := k, vars := g (vars a)\<rparr>"
  let ?b = "?b1\<lparr>kern := k', vars := g' (g (vars a))\<rparr>"
  have nn: "current_thread (kern ?b) \<noteq> NULL"
    using runq_wf_deref [OF wf, of "ptr m"] cur by (auto simp: deref_def split: if_splits)
  have 1: "returns (print_str w) a ?a1" unfolding print_str_def by (rule returns_emit)
  have 2: "returns (delay 1000) ?a1 ?a2"
    unfolding delay_def using returns_emit [of "\<lambda>_. [Delay 1000]" ?a1] by simp
  have 3: "returns (new_periodic T e params NULL z pri off per dl co h f) ?a2 ?b1"
    unfolding new_periodic_def by (rule returns_kcall_then [of _ _ "ptr c" k]) (use k f [of "?a2\<lparr>kern := k\<rparr>"] in simp_all)
  have 4: "returns (new_periodic T e' params' NULL z' pri' off' per' dl' co' h' f') ?b1 ?b"
    unfolding new_periodic_def by (rule returns_kcall_then [of _ _ "ptr d" k']) (use k' f' [of "?b1\<lparr>kern := k'\<rparr>"] in simp_all)
  have "reaches p a (?b\<lparr>timer := enable_timer2 (board_of T) (timer ?b)\<rparr>) (idle T)"
    unfolding p by (rule reaches_block_Cons [OF 1 reaches_block_Cons [OF 2 reaches_block_Cons [OF 3
      reaches_block_Cons [OF 4 start_reaches_idle [OF nn]]]]])
  then show ?thesis
    using wf cur bl t by (intro exI [of _ "?b\<lparr>timer := enable_timer2 (board_of T) (timer ?b)\<rparr>"] exI [of _ t]
        exI [of _ u] exI [of _ v]) simp
qed

text \<open>A target for the witnesses.\<close>

definition demo_target :: target where
  "demo_target = \<lparr>handlers = no_handler, image_of = demo_image, board_of = uno, at = (\<lambda>_. 0x3000)\<rparr>"

end
