(* ===== verification/Ex_Basic.thy ===== *)
theory Ex_Basic
  imports RT_Sketch RT_Periodic
begin

text \<open>
  The example sketches with periodic tasks only (src/arduino/examples/rtthreads): \<open>periodic_task\<close>,
  \<open>periodic_task_overun\<close>, \<open>periodic_1tasks_time\<close>, \<open>periodic_1tasks_led_info\<close>,
  \<open>periodic_1tasks_get_params\<close>, \<open>periodic_1tasks_time_read_write_byte\<close> and
  \<open>periodic_2tasks_read_write\<close>, one prefix each. Their \<open>setup\<close> is the one of the library's use case.
\<close>

text \<open>The variables of these sketches; each uses those it declares. All start at 0.\<close>

record basic_vars =
  count_info :: u32
  led_state :: s16
  byte_read :: s16

type_synonym basic = "(kernel, basic_vars) app prog"

section \<open>periodic_task\<close>

definition task_setup :: basic where
  "task_setup = block [serial_begin 9600, pinMode 2 INPUT, pinMode 13 OUTPUT]"

definition task_periodic_info :: basic where
  "task_periodic_info = block [
     assign (\<lambda>v. v\<lparr>count_info := count_info v + 1\<rparr>),
     print_str (''[T2] THREAD 1------'' @ nl @ ''   counter:'' @ tab),
     println_num (\<lambda>a. uint (count_info (vars a)))]"

definition task_error_handler :: "s16 \<Rightarrow> basic" where
  "task_error_handler erno = block [print_str (''[T2] Error------'' @ tab), hang]"

definition task_loop :: "target \<Rightarrow> basic" where
  "task_loop T = block [
     print_str (''Simple example  '' @ nl @ nl),
     delay 1000,
     new_periodic T (at T ''periodic_info'') NULL NULL 200 30 0 1000000 1000000 500000 (at T ''error_handler'') (\<lambda>_. Done),
     threads_subsystem_start T]"

section \<open>periodic_task_overun\<close>

definition overun_setup :: basic where
  "overun_setup = block [serial_begin 9600, pinMode 2 INPUT, pinMode 13 OUTPUT]"

definition overun_periodic_info :: basic where
  "overun_periodic_info = block [
     assign (\<lambda>v. v\<lparr>count_info := count_info v + 1\<rparr>),
     print_str (''[T2] THREAD 1------'' @ nl @ ''   counter:'' @ tab),
     println_num (\<lambda>a. uint (count_info (vars a)))]"

definition overun_error_handler :: "s16 \<Rightarrow> basic" where
  "overun_error_handler erno = block [
     print_str (''[T2] Error------'' @ tab @ '' '' @ nl @ ''  erno:''), println_num (\<lambda>_. sint erno), hang]"

definition overun_loop :: "target \<Rightarrow> basic" where
  "overun_loop T = block [
     print_str (''Simple example with overun '' @ nl @ nl),
     delay 1000,
     new_periodic T (at T ''periodic_info'') NULL NULL 200 30 0 1000000 1000000 0 (at T ''error_handler'') (\<lambda>_. Done),
     threads_subsystem_start T]"

section \<open>periodic_1tasks_time\<close>

definition time_setup :: basic where
  "time_setup = block [serial_begin 9600, pinMode 2 INPUT, pinMode 13 OUTPUT]"

definition time_periodic_task1 :: basic where
  "time_periodic_task1 = block [
     assign (\<lambda>v. v\<lparr>count_info := count_info v + 1\<rparr>),
     print_str (''[T1] THREAD 1------'' @ nl @ ''  current time(us): '' @ tab @ '' '' @ tab),
     print_num (\<lambda>a. uint (thread_get_time (kern a))),
     print_str (nl @ ''   and error(us):'' @ tab),
     println_num (\<lambda>_. uint thread_get_error_in_time)]"

definition time_error_handler_task1 :: "s16 \<Rightarrow> basic" where
  "time_error_handler_task1 erno = block [print_str (''[T1] Error------'' @ tab), hang]"

definition time_loop :: "target \<Rightarrow> basic" where
  "time_loop T = block [
     print_str (''Simple example'' @ nl @ ''  showing clock info + deviation '' @ nl),
     delay 1000,
     new_periodic T (at T ''periodic_task1'') NULL NULL 200 30 0 1000000 1000000 500000 (at T ''error_handler_task1'')
       (\<lambda>_. Done),
     threads_subsystem_start T]"

section \<open>periodic_1tasks_led_info\<close>

definition led_setup :: basic where
  "led_setup = block [serial_begin 9600, pinMode 2 INPUT, pinMode 13 OUTPUT]"

definition led_periodic_task1 :: basic where
  "led_periodic_task1 = block [
     assign (\<lambda>v. v\<lparr>count_info := count_info v + 1\<rparr>),
     print_str (''[T1] THREAD 1------'' @ nl @ ''  led info(): '' @ tab @ '' '' @ tab),
     print_num (\<lambda>a. sint (led_state (vars a))),
     println_str '''']"

definition led_error_handler_task1 :: "s16 \<Rightarrow> basic" where
  "led_error_handler_task1 erno = block [print_str (''[T1] Error------'' @ tab), hang]"

definition led_handler :: basic where
  "led_handler = cond (\<lambda>a. led_state (vars a) = 0)
     (assign (\<lambda>v. v\<lparr>led_state := 1\<rparr>)) (assign (\<lambda>v. v\<lparr>led_state := 0\<rparr>))"

definition led_loop :: "target \<Rightarrow> basic" where
  "led_loop T = block [
     print_str (''Simple example'' @ nl @ ''  showing clock info + deviation '' @ nl),
     delay 1000,
     new_periodic T (at T ''periodic_task1'') NULL NULL 200 30 0 1000000 1000000 500000 (at T ''error_handler_task1'')
       (\<lambda>_. Done),
     threads_subsystem_start T]"

section \<open>periodic_1tasks_get_params\<close>

text \<open>An \<open>int\<close> behind a pointer.\<close>

definition int_at :: "addr \<Rightarrow> kernel \<Rightarrow> s16 option" where
  "int_at p k = (if p = NULL then None else Some (load16 p (mem k)))"

definition set_int_at :: "addr \<Rightarrow> s16 \<Rightarrow> kernel \<Rightarrow> kernel option" where
  "set_int_at p x k = (if p = NULL then None else Some (k\<lparr>mem := store16 p x (mem k)\<rparr>))"

definition params_setup :: basic where
  "params_setup = block [serial_begin 9600, pinMode 2 INPUT, pinMode 13 OUTPUT]"

definition params_periodic_task1 :: basic where
  "params_periodic_task1 = kread thread_get_params (\<lambda>params. block [
     print_str (''[T2] THREAD 1------'' @ nl @ ''   counter:'' @ tab),
     kread (int_at params) (\<lambda>x. print_num (\<lambda>_. sint x)),
     kcall (\<lambda>k. do { x \<leftarrow> int_at params k; set_int_at params (x + 1) k })])"

definition params_error_handler_task1 :: "s16 \<Rightarrow> basic" where
  "params_error_handler_task1 erno = block [
     print_str (''[T2] Error------'' @ tab @ '' '' @ nl @ ''  erno:''), println_num (\<lambda>_. sint erno), hang]"

text \<open>The parameter is a local variable of \<open>loop\<close>, at \<open>at T ''counter''\<close>.\<close>

definition params_loop :: "target \<Rightarrow> basic" where
  "params_loop T = block [
     print_str (''Simple example with overun '' @ nl @ nl),
     delay 1000,
     kcall (set_int_at (at T ''counter'') 0),
     new_periodic T (at T ''periodic_task1'') (at T ''counter'') NULL 200 30 10000 1000000 1000000 500000
       (at T ''error_handler_task1'') (\<lambda>_. Done),
     threads_subsystem_start T]"

section \<open>periodic_1tasks_time_read_write_byte\<close>

text \<open>
  The variables whose addresses the task takes live in the memory of the kernel. \<open>plus8\<close> is what the
  compiler's addition of 8.0 makes of the bits of a \<open>float\<close>.
\<close>

definition cells_setup :: basic where
  "cells_setup = block [serial_begin 9600, pinMode 2 INPUT, pinMode 13 OUTPUT]"

definition cells_periodic_task1 :: "target \<Rightarrow> (u32 \<Rightarrow> u32) \<Rightarrow> basic" where
  "cells_periodic_task1 T plus8 = (
     let c8 = at T ''counter''; c16 = at T ''counter16''; c32 = at T ''counter32''; cf = at T ''float_counter''
     in block [
       kcall (\<lambda>k. Some (thread_write_byte (ucast c8) (mem k c8 + 1) k)),
       kcall (\<lambda>k. Some (thread_write_uint16_t (ucast c16) (load16 c16 (mem k) + 2) k)),
       kcall (\<lambda>k. Some (thread_write_uint32_t (ucast c32) (load32 c32 (mem k) + 4) k)),
       kcall (\<lambda>k. Some (thread_write_float (ucast cf) (plus8 (load32 cf (mem k))) k)),
       print_str (''[T1] THREAD 1------'' @ nl @ ''  current time(us): '' @ tab @ '' '' @ tab),
       print_num (\<lambda>a. uint (thread_get_time (kern a))),
       print_str (nl @ ''   counter(s):'' @ nl),
       kread (Some \<circ> thread_read_byte (ucast c8)) (\<lambda>aux_count8_2.
       kread (Some \<circ> thread_read_uint16_t (ucast c16)) (\<lambda>aux_count16_2.
       kread (Some \<circ> thread_read_uint32_t (ucast c32)) (\<lambda>aux_count32_2.
       kread (Some \<circ> thread_read_float (ucast cf)) (\<lambda>aux_float_2. block [
         println_num (\<lambda>_. uint aux_count8_2),
         println_num (\<lambda>_. uint aux_count16_2),
         println_num (\<lambda>_. uint aux_count32_2)]))))])"

definition cells_error_handler_task1 :: "s16 \<Rightarrow> basic" where
  "cells_error_handler_task1 erno = block [print_str (''[T1] Error------'' @ tab), hang]"

definition cells_loop :: "target \<Rightarrow> basic" where
  "cells_loop T = block [
     print_str (''Simple example'' @ nl @ ''  showing clock info + deviation '' @ nl),
     delay 1000,
     new_periodic T (at T ''periodic_task1'') NULL NULL 200 30 0 1000000 1000000 500000 (at T ''error_handler_task1'')
       (\<lambda>_. Done),
     threads_subsystem_start T]"

section \<open>periodic_2tasks_read_write\<close>

definition rw_setup :: basic where
  "rw_setup = block [serial_begin 9600, pinMode 2 INPUT, pinMode 13 OUTPUT]"

definition rw_periodic_task1 :: basic where
  "rw_periodic_task1 = block [
     assign (\<lambda>v. v\<lparr>count_info := count_info v + 1\<rparr>),
     print_str (''[T2] THREAD 1------'' @ nl @ ''   counter:'' @ tab),
     print_num (\<lambda>a. uint (count_info (vars a))),
     print_str (nl @ ''   inc byte:'' @ tab),
     println_num (\<lambda>a. sint (byte_read (vars a)))]"

definition rw_periodic_task2 :: basic where
  "rw_periodic_task2 = cond available (block [
     call_then serial_read (\<lambda>b. assign (\<lambda>v. v\<lparr>byte_read := b\<rparr>)),
     print_str ''I received: '']) Done"

definition rw_error_handler_task1 :: "s16 \<Rightarrow> basic" where
  "rw_error_handler_task1 erno = block [
     print_str (''[T2] Error------'' @ tab @ '' '' @ nl @ ''  erno:''), println_num (\<lambda>_. sint erno), hang]"

definition rw_error_handler_task2 :: "s16 \<Rightarrow> basic" where
  "rw_error_handler_task2 erno = block [
     print_str (''[T2] Error------'' @ tab @ '' '' @ nl @ ''  erno:''), println_num (\<lambda>_. sint erno), hang]"

definition rw_loop :: "target \<Rightarrow> basic" where
  "rw_loop T = block [
     print_str (''Simple example with overun '' @ nl @ nl),
     delay 1000,
     new_periodic T (at T ''periodic_task1'') NULL NULL 200 30 10000 1000000 1000000 500000 (at T ''error_handler_task1'')
       (\<lambda>_. Done),
     new_periodic T (at T ''periodic_task2'') NULL NULL 200 20 0 1000000 1000000 500000 (at T ''error_handler_task2'')
       (\<lambda>_. Done),
     threads_subsystem_start T]"

section \<open>Properties\<close>

text \<open>A sketch gets its thread going: with memory for three blocks, \<open>loop\<close> of \<open>periodic_task\<close>
  greets, waits a second, makes a thread for \<open>periodic_info\<close> with a period and a deadline of one second
  and a budget of half a second, in ticks, starts the timer and comes to the main program's loop of
  yields, in a well-formed kernel with the new thread in front of the main thread; it never returns.\<close>

theorem periodic_sketch_starts:
  fixes a :: "(kernel, basic_vars) app"
  assumes "malloc (kern a) = (Some c, s1)" and "malloc s1 = (Some d, s2)" and "malloc s2 = (Some m, s3)"
    and "thread_list (kern a) = NULL"
  shows "(\<exists>b t. reaches (task_loop T) a b (idle T)
    \<and> trace b = trace a @ [Text (''Simple example  '' @ nl @ nl), Delay 1000]
    \<and> timer b = enable_timer2 (board_of T) (timer a) \<and> runq_wf (kern b) [ptr c, ptr m]
    \<and> current_thread (kern b) = ptr m \<and> threads (kern b) (ptr c) = Some t
    \<and> executor t = at T ''periodic_info'' \<and> priority t = 30 \<and> status t = SIMPLERTFRAMEWORK_ACTIVE
    \<and> offset_ticks t = 0 \<and> min_period_ticks t = 7812 \<and> max_deadline_ticks t = 7812 \<and> max_cost_ticks t = 3906)
    \<and> (\<nexists>a'. returns (task_loop T) a a')"
proof -
  obtain b t where r: "reaches (task_loop T) a b (idle T)"
    and b: "trace b = trace a @ [Text (''Simple example  '' @ nl @ nl), Delay 1000]"
      "timer b = enable_timer2 (board_of T) (timer a)" "runq_wf (kern b) [ptr c, ptr m]"
      "current_thread (kern b) = ptr m" "threads (kern b) (ptr c) = Some t"
    and t: "executor t = at T ''periodic_info''" "priority t = 30" "status t = SIMPLERTFRAMEWORK_ACTIVE"
      "offset_ticks t = 0 div us_per_tick" "min_period_ticks t = 1000000 div us_per_tick"
      "max_deadline_ticks t = 1000000 div us_per_tick" "max_cost_ticks t = 500000 div us_per_tick"
    using single_starts [OF assms task_loop_def] by blast
  have "\<nexists>a'. returns (task_loop T) a a'"
    using reaches_forever_never_returns [OF r [unfolded idle_def]] by blast
  moreover have "offset_ticks t = 0 \<and> min_period_ticks t = 7812 \<and> max_deadline_ticks t = 7812 \<and> max_cost_ticks t = 3906"
    using t(4-7) by (simp add: us_per_tick_def)
  ultimately show ?thesis using r b t(1-3) by blast
qed

text \<open>Three blocks of memory for an empty kernel.\<close>

definition boot_kernel :: kernel where
  "boot_kernel = demo_reset\<lparr>answers := [demo_chunk 0x500, demo_chunk 0x600, demo_chunk 0x700]\<rparr>"

definition boot :: "(kernel, basic_vars) app" where
  "boot = \<lparr>kern = boot_kernel, trace = [], timer = \<lparr>TCCR2A = 0, TCCR2B = 0, TIMSK2 = 0, interrupts_on = True\<rparr>, rx = [],
     vars = \<lparr>count_info = 0, led_state = 0, byte_read = 0\<rparr>\<rparr>"

lemma boot_memory:
  "malloc (kern boot) = (Some (demo_chunk 0x500), boot_kernel\<lparr>answers := [demo_chunk 0x600, demo_chunk 0x700], blocks := {0x500}\<rparr>)"
  "malloc (boot_kernel\<lparr>answers := [demo_chunk 0x600, demo_chunk 0x700], blocks := {0x500}\<rparr>)
    = (Some (demo_chunk 0x600), boot_kernel\<lparr>answers := [demo_chunk 0x700], blocks := {0x600, 0x500}\<rparr>)"
  "malloc (boot_kernel\<lparr>answers := [demo_chunk 0x700], blocks := {0x600, 0x500}\<rparr>)
    = (Some (demo_chunk 0x700), boot_kernel\<lparr>answers := [], blocks := {0x700, 0x600, 0x500}\<rparr>)"
  "thread_list (kern boot) = NULL"
  by (simp_all add: boot_def boot_kernel_def demo_reset_def malloc_def demo_chunk_def)

theorem periodic_sketch_starts_witness:
  "\<exists>b. reaches (task_loop demo_target) boot b (idle demo_target) \<and> runq_wf (kern b) [0x500, 0x700]"
proof -
  have "ptr (demo_chunk x) = x" for x by (simp add: demo_chunk_def)
  with periodic_sketch_starts [OF boot_memory, of demo_target] show ?thesis by auto
qed

lemma zero_budget_reported:
  assumes "stage l = Executed" and "get_current_cost_ticks s = Some (n, s1)" and "deref (this_thread l) s1 = Some u"
    and "max_cost_ticks u = 0" and "error_handler u \<noteq> NULL"
    and "global_thread_tick_counter s - thread_counter_us l < max_deadline_ticks u"
  shows "map_option snd (pattern_step H E l s) = H (error_handler u) SIMPLERTFRAMEWORK_COST_OVERUN s1"
proof -
  have "\<not> max_deadline_ticks u \<le> global_thread_tick_counter s - thread_counter_us l" using assms(6) by simp
  then show ?thesis
    using assms(1-5) by (cases "H (error_handler u) SIMPLERTFRAMEWORK_COST_OVERUN s1")
      (simp_all add: pattern_step_def check_job_def)
qed

text \<open>The sketch \<open>periodic_task_overun\<close> shows an overrun at every job: its thread gets a budget of 0
  ticks, and with this budget each job that ends, also one that took no tick, has the error handler
  called with COST_OVERUN, when its deadline is not missed as well; and that handler never returns.\<close>

theorem overun_sketch_reports:
  fixes a :: "(kernel, basic_vars) app"
  assumes "malloc (kern a) = (Some c, s1)" and "malloc s1 = (Some d, s2)" and "malloc s2 = (Some m, s3)"
    and "thread_list (kern a) = NULL" and "at T ''error_handler'' \<noteq> NULL"
  shows "(\<exists>b t. reaches (overun_loop T) a b (idle T) \<and> threads (kern b) (ptr c) = Some t
      \<and> error_handler t = at T ''error_handler'' \<and> max_cost_ticks t = 0
      \<and> (\<forall>H E l s n s1 u. stage l = Executed \<longrightarrow> get_current_cost_ticks s = Some (n, s1)
          \<longrightarrow> deref (this_thread l) s1 = Some u
          \<longrightarrow> max_cost_ticks u = max_cost_ticks t \<longrightarrow> error_handler u = error_handler t
          \<longrightarrow> global_thread_tick_counter s - thread_counter_us l < max_deadline_ticks u
          \<longrightarrow> map_option snd (pattern_step H E l s) = H (at T ''error_handler'') SIMPLERTFRAMEWORK_COST_OVERUN s1))
    \<and> (\<nexists>x y. returns (overun_error_handler SIMPLERTFRAMEWORK_COST_OVERUN) x y)"
proof
  obtain b t where r: "reaches (overun_loop T) a b (idle T)" and t: "threads (kern b) (ptr c) = Some t"
      "error_handler t = at T ''error_handler''" "max_cost_ticks t = 0 div us_per_tick"
    using single_starts [OF assms(1-4) overun_loop_def] by blast
  from t(3) have z: "max_cost_ticks t = 0" by simp
  have "map_option snd (pattern_step H E l s) = H (at T ''error_handler'') SIMPLERTFRAMEWORK_COST_OVERUN s1"
    if "stage l = Executed" "get_current_cost_ticks s = Some (n, s1)" "deref (this_thread l) s1 = Some u"
      "max_cost_ticks u = max_cost_ticks t" "error_handler u = error_handler t"
      "global_thread_tick_counter s - thread_counter_us l < max_deadline_ticks u" for H E l s n s1 u
    using zero_budget_reported [OF that(1-3) _ _ that(6)] that(4,5) z t(2) assms(5) by simp
  with r t z show "\<exists>b t. reaches (overun_loop T) a b (idle T) \<and> threads (kern b) (ptr c) = Some t
      \<and> error_handler t = at T ''error_handler'' \<and> max_cost_ticks t = 0
      \<and> (\<forall>H E l s n s1 u. stage l = Executed \<longrightarrow> get_current_cost_ticks s = Some (n, s1)
          \<longrightarrow> deref (this_thread l) s1 = Some u
          \<longrightarrow> max_cost_ticks u = max_cost_ticks t \<longrightarrow> error_handler u = error_handler t
          \<longrightarrow> global_thread_tick_counter s - thread_counter_us l < max_deadline_ticks u
          \<longrightarrow> map_option snd (pattern_step H E l s) = H (at T ''error_handler'') SIMPLERTFRAMEWORK_COST_OVERUN s1)"
    by blast
next
  have "\<not> returns (seq p (forever Done)) x y" for p and x y :: "(kernel, basic_vars) app"
    unfolding forever_def by (rule never_returns)
  then show "\<nexists>x y. returns (overun_error_handler SIMPLERTFRAMEWORK_COST_OVERUN) x y"
    by (simp add: overun_error_handler_def block_def hang_def del: seq_assoc add: seq_assoc [symmetric])
qed

theorem overun_sketch_reports_witness:
  "\<exists>b t. reaches (overun_loop demo_target) boot b (idle demo_target) \<and> threads (kern b) 0x500 = Some t
     \<and> max_cost_ticks t = 0"
proof -
  have "at demo_target ''error_handler'' \<noteq> NULL" by (simp add: demo_target_def)
  from overun_sketch_reports [OF boot_memory this] show ?thesis by (auto simp: demo_chunk_def)
qed

end
