(* ===== verification/Ex_Signal.thy ===== *)
theory Ex_Signal
  imports RT_Sketch RT_Activation
begin

text \<open>
  The example sketches in which a periodic task that reads the serial port activates another thread:
  \<open>periodic_2tasks_1_periodic_read_1_sporadic_write\<close> (prefix \<open>sw\<close>) and its seven variants named after
  policies, \<open>periodic_2tasks_1_periodic_read_1_aperiodic_write\<close> (\<open>ap\<close>) with the variants IGNORE and
  TRANS, and \<open>periodic_3tasks_2periodic_1sporadic\<close> (\<open>three\<close>). The variants named after policies have the
  sporadic task and the error handlers of the first of them (\<open>save\<close>).
\<close>

text \<open>The variables of these sketches; each uses those it declares. All start at 0.\<close>

record signal_vars =
  signaler :: addr
  incoming :: s16
  activations :: u32
  result1 :: s16
  result2 :: s16
  result3 :: s16
  three_swing :: s16

type_synonym signalled = "(kernel, signal_vars) app prog"

text \<open>\<open>thread_signal(signaler)\<close>, its result dropped or kept.\<close>

definition signal_it :: "target \<Rightarrow> signalled" where
  "signal_it T = kcall_with (\<lambda>v k. map_option snd (thread_signal (handlers T) (signaler v) k))"

definition signal_result :: "target \<Rightarrow> (s16 \<Rightarrow> signal_vars \<Rightarrow> signal_vars) \<Rightarrow> signalled" where
  "signal_result T put = kcall_with_then (\<lambda>v. thread_signal (handlers T) (signaler v)) (\<lambda>r. assign (put r))"

definition read_incoming :: signalled where
  "read_incoming = call_then serial_read (\<lambda>b. assign (\<lambda>v. v\<lparr>incoming := b\<rparr>))"

section \<open>One sporadic task, woken with thread_unblock\<close>

definition sw_setup :: signalled where
  "sw_setup = block [serial_begin 9600, pinMode 2 INPUT, pinMode 13 OUTPUT]"

definition sw_sporadic_task1 :: signalled where
  "sw_sporadic_task1 = block [
     assign (\<lambda>v. v\<lparr>activations := activations v + 1\<rparr>),
     print_str (''[T1] THREAD 1------'' @ nl @ ''   counter:'' @ tab),
     print_num (\<lambda>a. uint (activations (vars a))),
     print_str (nl @ ''   inc byte:'' @ tab),
     print_num (\<lambda>a. sint (incoming (vars a))),
     print_str '' '',
     println_char (\<lambda>a. ucast (incoming (vars a)))]"

definition sw_periodic_task2 :: "target \<Rightarrow> signalled" where
  "sw_periodic_task2 T = cond available (block [
     read_incoming,
     kcall_with (\<lambda>v. thread_unblock (handlers T) (signaler v))]) Done"

definition sw_error_handler_task1 :: "s16 \<Rightarrow> signalled" where
  "sw_error_handler_task1 erno = block [
     print_str (''[T1] Error------'' @ tab @ '' '' @ nl @ ''  erno:''), println_num (\<lambda>_. sint erno), hang]"

definition sw_error_handler_task2 :: "s16 \<Rightarrow> signalled" where
  "sw_error_handler_task2 erno = block [
     print_str (''[T2] Error------'' @ tab @ '' '' @ nl @ ''  erno:''), println_num (\<lambda>_. sint erno), hang]"

definition sw_loop :: "target \<Rightarrow> signalled" where
  "sw_loop T = block [
     print_str (''Simple example with 1 sporadic task and another periodic '' @ nl @ nl),
     delay 1000,
     new_sporadic T (at T ''sporadic_task1'') NULL NULL 200 30 10000 1000000 1000000 500000 SIMPLERTFRAMEWORK_SAVE_POLICY 0 (at T ''error_handler_task1'')
       (\<lambda>th1. assign (\<lambda>v. v\<lparr>signaler := th1\<rparr>)),
     new_periodic T (at T ''periodic_task2'') NULL NULL 200 20 0 1000000 1000000 500000 (at T ''error_handler_task2'') (\<lambda>_. Done),
     threads_subsystem_start T]"

section \<open>One sporadic task, signalled three times\<close>

definition save_setup :: signalled where
  "save_setup = block [serial_begin 9600, pinMode 2 INPUT, pinMode 13 OUTPUT]"

definition save_sporadic_task1 :: signalled where
  "save_sporadic_task1 = block [
     assign (\<lambda>v. v\<lparr>activations := activations v + 1\<rparr>),
     print_str (''[T1] THREAD 1------'' @ nl @ ''   counter:'' @ tab),
     print_num (\<lambda>a. uint (thread_get_time (kern a))),
     print_str (nl @ '' inc byte:'' @ tab),
     print_num (\<lambda>a. sint (incoming (vars a))),
     print_str '' '',
     println_char (\<lambda>a. ucast (incoming (vars a))),
     print_str (''res: --------------'' @ nl),
     println_num (\<lambda>a. sint (result1 (vars a))),
     println_num (\<lambda>a. sint (result2 (vars a))),
     println_num (\<lambda>a. sint (result3 (vars a)))]"

definition save_periodic_task2 :: "target \<Rightarrow> signalled" where
  "save_periodic_task2 T = cond available (block [
     read_incoming,
     signal_result T (\<lambda>r v. v\<lparr>result1 := r\<rparr>),
     signal_result T (\<lambda>r v. v\<lparr>result2 := r\<rparr>),
     signal_result T (\<lambda>r v. v\<lparr>result3 := r\<rparr>)]) Done"

definition save_error_handler_task1 :: "s16 \<Rightarrow> signalled" where
  "save_error_handler_task1 erno = block [
     print_str (''[T1] Error------'' @ tab @ '' '' @ nl @ ''  erno:''), println_num (\<lambda>_. sint erno), hang]"

definition save_error_handler_task2 :: "s16 \<Rightarrow> signalled" where
  "save_error_handler_task2 erno = block [
     print_str (''[T2] Error------'' @ tab @ '' '' @ nl @ ''  erno:''), println_num (\<lambda>_. sint erno), hang]"

definition save_loop :: "target \<Rightarrow> signalled" where
  "save_loop T = block [
     print_str (''Simple example with 1 sporadic task and another periodic '' @ nl @ nl),
     delay 1000,
     new_sporadic T (at T ''sporadic_task1'') NULL NULL 200 30 10000 1000000 1000000 500000 (SIMPLERTFRAMEWORK_OVER_SAVE_POLICY OR SIMPLERTFRAMEWORK_SAVE_POLICY) 4 (at T ''error_handler_task1'')
       (\<lambda>th1. assign (\<lambda>v. v\<lparr>signaler := th1\<rparr>)),
     new_periodic T (at T ''periodic_task2'') NULL NULL 200 40 0 1000000 1000000 500000 (at T ''error_handler_task2'') (\<lambda>_. Done),
     threads_subsystem_start T]"

text \<open>The variant EXCEPT_SAVE.\<close>

definition except_save_loop :: "target \<Rightarrow> signalled" where
  "except_save_loop T = block [
     print_str (''Simple example with 1 sporadic task and another periodic '' @ nl @ nl),
     delay 1000,
     new_sporadic T (at T ''sporadic_task1'') NULL NULL 200 30 10000 1000000 1000000 500000 (SIMPLERTFRAMEWORK_OVER_EXCEPT_POLICY OR SIMPLERTFRAMEWORK_SAVE_POLICY) 1 (at T ''error_handler_task1'')
       (\<lambda>th1. assign (\<lambda>v. v\<lparr>signaler := th1\<rparr>)),
     new_periodic T (at T ''periodic_task2'') NULL NULL 200 40 0 1000000 1000000 500000 (at T ''error_handler_task2'') (\<lambda>_. Done),
     threads_subsystem_start T]"

text \<open>The variant IGNORE_SAVE.\<close>

definition ignore_save_periodic_task2 :: "target \<Rightarrow> signalled" where
  "ignore_save_periodic_task2 T = cond available (block [
     read_incoming,
     signal_result T (\<lambda>r v. v\<lparr>result1 := r\<rparr>),
     delay 50,
     signal_result T (\<lambda>r v. v\<lparr>result2 := r\<rparr>),
     delay 50,
     signal_result T (\<lambda>r v. v\<lparr>result3 := r\<rparr>)]) Done"

definition ignore_save_loop :: "target \<Rightarrow> signalled" where
  "ignore_save_loop T = block [
     print_str (''Simple example with 1 sporadic task and another periodic '' @ nl @ nl),
     delay 1000,
     new_sporadic T (at T ''sporadic_task1'') NULL NULL 200 30 0 100000 100000 10000000 (SIMPLERTFRAMEWORK_OVER_IGNORE_POLICY OR SIMPLERTFRAMEWORK_SAVE_POLICY) 0 (at T ''error_handler_task1'')
       (\<lambda>th1. assign (\<lambda>v. v\<lparr>signaler := th1\<rparr>)),
     new_periodic T (at T ''periodic_task2'') NULL NULL 200 40 0 1000000 1000000 10000000 (at T ''error_handler_task2'') (\<lambda>_. Done),
     threads_subsystem_start T]"

text \<open>The variant REPLACE_SAVE.\<close>

definition replace_save_periodic_task2 :: "target \<Rightarrow> signalled" where
  "replace_save_periodic_task2 T = cond available (block [
     read_incoming,
     signal_result T (\<lambda>r v. v\<lparr>result1 := r\<rparr>),
     delay 50,
     signal_result T (\<lambda>r v. v\<lparr>result2 := r\<rparr>),
     delay 200,
     signal_result T (\<lambda>r v. v\<lparr>result3 := r\<rparr>)]) Done"

definition replace_save_loop :: "target \<Rightarrow> signalled" where
  "replace_save_loop T = block [
     print_str (''Simple example with 1 sporadic task and another periodic '' @ nl @ nl),
     delay 1000,
     new_sporadic T (at T ''sporadic_task1'') NULL NULL 200 30 0 100000 100000 10000000 (SIMPLERTFRAMEWORK_OVER_REPLACE_POLICY OR SIMPLERTFRAMEWORK_SAVE_POLICY) 0 (at T ''error_handler_task1'')
       (\<lambda>th1. assign (\<lambda>v. v\<lparr>signaler := th1\<rparr>)),
     new_periodic T (at T ''periodic_task2'') NULL NULL 200 40 0 1000000 1000000 10000000 (at T ''error_handler_task2'') (\<lambda>_. Done),
     threads_subsystem_start T]"

text \<open>The variant SAVE_EXCEPT.\<close>

definition save_except_periodic_task2 :: "target \<Rightarrow> signalled" where
  "save_except_periodic_task2 T = cond available (block [
     read_incoming,
     signal_result T (\<lambda>r v. v\<lparr>result1 := r\<rparr>),
     delay 0,
     signal_result T (\<lambda>r v. v\<lparr>result2 := r\<rparr>),
     delay 0,
     signal_result T (\<lambda>r v. v\<lparr>result3 := r\<rparr>)]) Done"

definition save_except_loop :: "target \<Rightarrow> signalled" where
  "save_except_loop T = block [
     print_str (''Simple example with 1 sporadic task and another periodic '' @ nl @ nl),
     delay 1000,
     new_sporadic T (at T ''sporadic_task1'') NULL NULL 200 30 0 100000 100000 10000000 (SIMPLERTFRAMEWORK_OVER_IGNORE_POLICY OR SIMPLERTFRAMEWORK_IGNORE_POLICY) 3 (at T ''error_handler_task1'')
       (\<lambda>th1. assign (\<lambda>v. v\<lparr>signaler := th1\<rparr>)),
     new_periodic T (at T ''periodic_task2'') NULL NULL 200 40 0 1000000 1000000 10000000 (at T ''error_handler_task2'') (\<lambda>_. Done),
     threads_subsystem_start T]"

text \<open>The variant SAVE_IGNORE.\<close>

definition save_ignore_periodic_task2 :: "target \<Rightarrow> signalled" where
  "save_ignore_periodic_task2 T = cond available (block [
     read_incoming,
     signal_result T (\<lambda>r v. v\<lparr>result1 := r\<rparr>),
     delay 50,
     signal_result T (\<lambda>r v. v\<lparr>result2 := r\<rparr>),
     delay 50,
     signal_result T (\<lambda>r v. v\<lparr>result3 := r\<rparr>)]) Done"

definition save_ignore_loop :: "target \<Rightarrow> signalled" where
  "save_ignore_loop T = block [
     print_str (''Simple example with 1 sporadic task and another periodic '' @ nl @ nl),
     delay 1000,
     new_sporadic T (at T ''sporadic_task1'') NULL NULL 200 30 0 100000 100000 10000000 (SIMPLERTFRAMEWORK_OVER_IGNORE_POLICY OR SIMPLERTFRAMEWORK_IGNORE_POLICY) 3 (at T ''error_handler_task1'')
       (\<lambda>th1. assign (\<lambda>v. v\<lparr>signaler := th1\<rparr>)),
     new_periodic T (at T ''periodic_task2'') NULL NULL 200 40 0 1000000 1000000 10000000 (at T ''error_handler_task2'') (\<lambda>_. Done),
     threads_subsystem_start T]"

text \<open>The variant SAVE_REPLACE.\<close>

definition save_replace_periodic_task2 :: "target \<Rightarrow> signalled" where
  "save_replace_periodic_task2 T = cond available (block [
     read_incoming,
     signal_result T (\<lambda>r v. v\<lparr>result1 := r\<rparr>),
     delay 50,
     signal_result T (\<lambda>r v. v\<lparr>result2 := r\<rparr>),
     delay 50,
     signal_result T (\<lambda>r v. v\<lparr>result3 := r\<rparr>)]) Done"

definition save_replace_loop :: "target \<Rightarrow> signalled" where
  "save_replace_loop T = block [
     print_str (''Simple example with 1 sporadic task and another periodic '' @ nl @ nl),
     delay 1000,
     new_sporadic T (at T ''sporadic_task1'') NULL NULL 200 30 0 100000 100000 10000000 (SIMPLERTFRAMEWORK_OVER_IGNORE_POLICY OR SIMPLERTFRAMEWORK_REPLACE_POLICY) 3 (at T ''error_handler_task1'')
       (\<lambda>th1. assign (\<lambda>v. v\<lparr>signaler := th1\<rparr>)),
     new_periodic T (at T ''periodic_task2'') NULL NULL 200 40 0 1000000 1000000 10000000 (at T ''error_handler_task2'') (\<lambda>_. Done),
     threads_subsystem_start T]"

section \<open>One aperiodic task\<close>

definition ap_setup :: signalled where
  "ap_setup = block [serial_begin 9600, pinMode 2 INPUT, pinMode 13 OUTPUT]"

definition ap_aperiodic_task1 :: signalled where
  "ap_aperiodic_task1 = block [
     assign (\<lambda>v. v\<lparr>activations := activations v + 1\<rparr>),
     print_str (''[T1] THREAD 1------'' @ nl @ ''   counter:'' @ tab),
     print_num (\<lambda>a. uint (activations (vars a))),
     print_str (nl @ ''   inc byte:'' @ tab),
     print_num (\<lambda>a. sint (incoming (vars a))),
     print_str '' '',
     println_char (\<lambda>a. ucast (incoming (vars a)))]"

definition ap_periodic_task2 :: "target \<Rightarrow> signalled" where
  "ap_periodic_task2 T = cond available (block [
     read_incoming,
     signal_it T,
     signal_it T]) Done"

definition ap_error_handler_task1 :: "s16 \<Rightarrow> signalled" where
  "ap_error_handler_task1 erno = block [
     print_str (''[T1] Error------'' @ tab @ '' '' @ nl @ ''  erno:''), println_num (\<lambda>_. sint erno), hang]"

definition ap_error_handler_task2 :: "s16 \<Rightarrow> signalled" where
  "ap_error_handler_task2 erno = block [
     print_str (''[T2] Error------'' @ tab @ '' '' @ nl @ ''  erno:''), println_num (\<lambda>_. sint erno), hang]"

definition ap_loop :: "target \<Rightarrow> signalled" where
  "ap_loop T = block [
     print_str (''Simple example with 1 aperiodic task and another periodic '' @ nl @ nl),
     delay 1000,
     new_aperiodic T (at T ''aperiodic_task1'') NULL NULL 200 20 0 1000000 500000 SIMPLERTFRAMEWORK_OVER_SAVE_POLICY 2 NULL
       (\<lambda>th1. assign (\<lambda>v. v\<lparr>signaler := th1\<rparr>)),
     new_periodic T (at T ''periodic_task2'') NULL NULL 200 30 0 1000000 1000000 500000 (at T ''error_handler_task2'') (\<lambda>_. Done),
     threads_subsystem_start T]"

text \<open>The variant IGNORE.\<close>

definition ap_ignore_periodic_task2 :: "target \<Rightarrow> signalled" where
  "ap_ignore_periodic_task2 T = cond available (block [
     read_incoming,
     signal_it T,
     signal_it T,
     signal_it T]) Done"

definition ap_ignore_loop :: "target \<Rightarrow> signalled" where
  "ap_ignore_loop T = block [
     print_str (''Simple example with 1 aperiodic task and another periodic '' @ nl @ nl),
     delay 1000,
     new_aperiodic T (at T ''aperiodic_task1'') NULL NULL 200 20 0 1000000 500000 SIMPLERTFRAMEWORK_OVER_IGNORE_POLICY 1 NULL
       (\<lambda>th1. assign (\<lambda>v. v\<lparr>signaler := th1\<rparr>)),
     new_periodic T (at T ''periodic_task2'') NULL NULL 200 30 0 1000000 1000000 500000 (at T ''error_handler_task2'') (\<lambda>_. Done),
     threads_subsystem_start T]"

text \<open>The variant TRANS: the counter is incremented with interrupts off, which is one step here anyway.\<close>

definition trans_aperiodic_task1 :: signalled where
  "trans_aperiodic_task1 = block [
     assign (\<lambda>v. v\<lparr>activations := activations v + 1\<rparr>),
     print_str (''[T1] THREAD 1------'' @ nl @ ''   counter:'' @ tab),
     print_num (\<lambda>a. uint (activations (vars a))),
     print_str (nl @ ''   inc byte:'' @ tab),
     print_num (\<lambda>a. sint (incoming (vars a))),
     print_str '' '',
     println_char (\<lambda>a. ucast (incoming (vars a)))]"

section \<open>Two periodic tasks and a sporadic one\<close>

definition three_setup :: signalled where
  "three_setup = block [serial_begin 9600, pinMode 2 INPUT, pinMode 13 OUTPUT]"

definition three_sporadic_task1 :: signalled where
  "three_sporadic_task1 = block [
     assign (\<lambda>v. v\<lparr>activations := activations v + 1\<rparr>),
     print_str (''[T1] THREAD 1------'' @ nl @ ''   counter:'' @ tab),
     print_num (\<lambda>a. uint (activations (vars a))),
     print_str (nl @ ''   inc byte:'' @ tab),
     print_num (\<lambda>a. sint (incoming (vars a))),
     print_str '' '',
     println_char (\<lambda>a. ucast (incoming (vars a)))]"

definition three_periodic_task2 :: "target \<Rightarrow> signalled" where
  "three_periodic_task2 T = cond available (block [
     read_incoming,
     signal_it T]) Done"

definition three_periodic_task3 :: signalled where
  "three_periodic_task3 = cond (\<lambda>a. three_swing (vars a) = 0)
     (block [digitalWrite 13 HIGH, assign (\<lambda>v. v\<lparr>three_swing := 1\<rparr>)])
     (block [assign (\<lambda>v. v\<lparr>three_swing := 0\<rparr>), digitalWrite 13 LOW])"

definition three_error_handler_task1 :: "s16 \<Rightarrow> signalled" where
  "three_error_handler_task1 erno = block [
     print_str (''[T1] Error------'' @ tab @ '' '' @ nl @ ''  erno:''), println_num (\<lambda>_. sint erno), hang]"

definition three_error_handler_task2 :: "s16 \<Rightarrow> signalled" where
  "three_error_handler_task2 erno = block [
     print_str (''[T2] Error------'' @ tab @ '' '' @ nl @ ''  erno:''), println_num (\<lambda>_. sint erno), hang]"

definition three_error_handler_task3 :: "s16 \<Rightarrow> signalled" where
  "three_error_handler_task3 erno = block [
     print_str (''[T3] Error------'' @ tab @ '' '' @ nl @ ''  erno:''), println_num (\<lambda>_. sint erno), hang]"

definition three_loop :: "target \<Rightarrow> signalled" where
  "three_loop T = block [
     print_str (''Simple example'' @ nl @ ''  -1x(100 ms) periodic led '' @ nl @ '' - 1x(1 second)reader'' @ nl
       @ '' - 1x(sporadic) producer. '' @ nl @ ''Introduce data'' @ nl @ nl),
     delay 1000,
     new_sporadic T (at T ''sporadic_task1'') NULL NULL 200 30 10000 1000000 1000000 500000 SIMPLERTFRAMEWORK_SAVE_POLICY 0 (at T ''error_handler_task1'')
       (\<lambda>th1. assign (\<lambda>v. v\<lparr>signaler := th1\<rparr>)),
     new_periodic T (at T ''periodic_task2'') NULL NULL 200 20 0 1000000 1000000 500000 (at T ''error_handler_task2'') (\<lambda>_. Done),
     new_periodic T (at T ''periodic_task3'') NULL NULL 200 20 0 100000 100000 50000 (at T ''error_handler_task3'') (\<lambda>_. Done),
     threads_subsystem_start T]"

section \<open>Properties\<close>

interpretation three_swing: static_var three_swing "\<lambda>x v. v\<lparr>three_swing := x\<rparr>"
  by unfold_locales simp

lemma three_led_blinks:
  assumes "three_swing (vars a) = 0"
  shows "\<exists>b. returns (block (replicate n three_periodic_task3)) a b \<and> trace b = trace a @ blinks 13 n \<and> kern b = kern a"
  by (rule three_swing.toggle_blinks [OF three_periodic_task3_def assms])

text \<open>Signals one after the other, with the times they come at, and no job done in between.\<close>

fun burst :: "thread \<Rightarrow> u32 list \<Rightarrow> s16 list \<times> thread" where
  "burst t [] = ([], t)"
| "burst t (n # ns) = (let (r, t) = signal_update n t; (rs, t) = burst t ns in (r # rs, t))"

lemmas signal_simps = signal_update_def policy_mit_def policy_ov_def rt_consts Let_def

text \<open>What the three signals that \<open>periodic_task2\<close> of the policy sketches sends in a row do to the
  sporadic thread of the sketch, by policies and queue length as its \<open>loop\<close> sets them: SAVE (length 4) counts all
  three; EXCEPT_SAVE (length 1) counts two, one more than the length, and returns the exception for the
  third; IGNORE_SAVE (length 0) counts one and reports success for all; REPLACE_SAVE (length 0) counts
  one and remembers the time of the last; SAVE_IGNORE (length 3) counts the first only when the others
  come within the minimum interarrival time.\<close>

theorem policy_sketches_burst:
  assumes "block_pattern t = 1" and "queue_pending t = 0"
  shows "(mit_policy t = SIMPLERTFRAMEWORK_OVER_SAVE_POLICY OR SIMPLERTFRAMEWORK_SAVE_POLICY \<and> queue_length_max t = 4
      \<longrightarrow> fst (burst t [x, y, z]) = [0, 0, 0] \<and> queue_pending (snd (burst t [x, y, z])) = 3)
    \<and> (mit_policy t = SIMPLERTFRAMEWORK_OVER_EXCEPT_POLICY OR SIMPLERTFRAMEWORK_SAVE_POLICY \<and> queue_length_max t = 1
      \<longrightarrow> fst (burst t [x, y, z]) = [0, 0, 0x20] \<and> queue_pending (snd (burst t [x, y, z])) = 2)
    \<and> (mit_policy t = SIMPLERTFRAMEWORK_OVER_IGNORE_POLICY OR SIMPLERTFRAMEWORK_SAVE_POLICY \<and> queue_length_max t = 0
      \<longrightarrow> fst (burst t [x, y, z]) = [0, 0, 0] \<and> queue_pending (snd (burst t [x, y, z])) = 1)
    \<and> (mit_policy t = SIMPLERTFRAMEWORK_OVER_REPLACE_POLICY OR SIMPLERTFRAMEWORK_SAVE_POLICY \<and> queue_length_max t = 0
      \<longrightarrow> fst (burst t [x, y, z]) = [0, 0, 0] \<and> queue_pending (snd (burst t [x, y, z])) = 1
        \<and> queue_last_input (snd (burst t [x, y, z])) = z)
    \<and> (mit_policy t = SIMPLERTFRAMEWORK_OVER_IGNORE_POLICY OR SIMPLERTFRAMEWORK_IGNORE_POLICY \<and> queue_length_max t = 3
        \<and> min_period_ticks t < x - queue_last_input t \<and> y - x \<le> min_period_ticks t \<and> z - x \<le> min_period_ticks t
      \<longrightarrow> fst (burst t [x, y, z]) = [0, 0, 0] \<and> queue_pending (snd (burst t [x, y, z])) = 1)"
  using assms by (intro conjI) (auto simp: signal_simps)

theorem policy_sketches_burst_witness:
  "fst (burst (blank_thread\<lparr>block_pattern := 1, mit_policy := 0x21, queue_length_max := 1\<rparr>) [5, 6, 7]) = [0, 0, 0x20]"
  using policy_sketches_burst [of "blank_thread\<lparr>block_pattern := 1, mit_policy := 0x21, queue_length_max := 1\<rparr>" 5 6 7]
  by (simp add: blank_thread_def rt_consts)

end
