(* ===== verification/Ex_Queue.thy ===== *)
theory Ex_Queue
  imports RT_Sketch
begin

text \<open>
  The example sketches with a queue between two periodic tasks (src/arduino/examples/rtthreads):
  \<open>periodic_2_QUEUES_\<close> (prefix \<open>q\<close>), where nobody writes, \<open>periodic_2_QUEUES_DOUBLE_WRITE\<close> (\<open>dw\<close>) and
  \<open>periodic_2_QUEUES_DOUBLE_READ\<close> (\<open>dr\<close>), where the reader reads twice for each write.
\<close>

text \<open>
  Their variables. All start at 0, but for \<open>q_handler\<close>, which starts at 1000 in \<open>dr\<close>. \<open>qgen\<close>, the address of
  \<open>q1\<close>, is never used.
\<close>

record queue_vars =
  q_counter :: u32
  q_th1 :: addr
  q_th2 :: addr
  q_q1 :: addr
  q_handler :: s16
  q_aux :: s16
  q_aux_t :: s16
  q_data :: u32

type_synonym queueing = "(kernel, queue_vars) app prog"

text \<open>
  \<open>if(q1!=NULL) qdata=(int)thread_queue_nb_get_element(q1)\<close>: the pointer becomes a signed number of 16 bits
  and that an unsigned one of 32 bits.
\<close>

definition read_queue :: queueing where
  "read_queue = cond (\<lambda>a. q_q1 (vars a) \<noteq> NULL)
     (kcall_with_then (\<lambda>v. thread_queue_nb_get_element (q_q1 v)) (\<lambda>p. assign (\<lambda>v. v\<lparr>q_data := scast p\<rparr>))) Done"

definition write_queue :: queueing where
  "write_queue = kcall_with_then (\<lambda>v. thread_queue_nb_set_element (q_q1 v) (q_handler v))
     (\<lambda>r. assign (\<lambda>v. v\<lparr>q_data := scast (ucast r :: s16)\<rparr>))"

section \<open>periodic_2_QUEUES_\<close>

definition q_setup :: queueing where
  "q_setup = block [serial_begin 9600, pinMode 2 INPUT, pinMode 13 OUTPUT]"

definition q_periodic_task1 :: queueing where
  "q_periodic_task1 = block [
     assign (\<lambda>v. v\<lparr>q_counter := q_counter v + 1\<rparr>),
     print_str (''[T1] THREAD 1------'' @ nl @ ''  current time(us): '' @ tab @ '' '' @ tab),
     print_num (\<lambda>a. uint (thread_get_time (kern a))),
     print_str (nl @ ''   DATA:'' @ tab),
     read_queue,
     println_num (\<lambda>a. uint (q_data (vars a))),
     assign (\<lambda>v. v\<lparr>q_aux := 1\<rparr>),
     assign (\<lambda>v. v\<lparr>q_aux := 2\<rparr>),
     assign (\<lambda>v. v\<lparr>q_aux := 3\<rparr>)]"

definition q_error_handler_task1 :: "s16 \<Rightarrow> queueing" where
  "q_error_handler_task1 what = Done"

definition q_periodic_task2 :: queueing where
  "q_periodic_task2 = block [
     assign (\<lambda>v. v\<lparr>q_handler := q_handler v + 1\<rparr>),
     assign (\<lambda>v. v\<lparr>q_handler := q_handler v + 1\<rparr>)]"

definition q_error_handler_task2 :: "s16 \<Rightarrow> queueing" where
  "q_error_handler_task2 what = assign (\<lambda>v. v\<lparr>q_aux_t := q_aux v\<rparr>)"

definition q_loop :: "target \<Rightarrow> queueing" where
  "q_loop T = block [
     print_str (''Simple example'' @ nl @ ''  showing clock info + deviation '' @ nl),
     delay 1000,
     new_periodic T (at T ''periodic_task1'') NULL NULL 200 30 0 1000000 1000000 500000 (at T ''error_handler_task1'')
       (\<lambda>r. assign (\<lambda>v. v\<lparr>q_th1 := r\<rparr>)),
     kcall_then (thread_queue_create 2) (\<lambda>r. assign (\<lambda>v. v\<lparr>q_q1 := r\<rparr>)),
     new_periodic T (at T ''periodic_task2'') NULL NULL 200 30 100000 1000000 1000000 500000 (at T ''error_handler_task2'')
       (\<lambda>r. assign (\<lambda>v. v\<lparr>q_th2 := r\<rparr>)),
     threads_subsystem_start T]"

section \<open>periodic_2_QUEUES_DOUBLE_WRITE\<close>

definition dw_setup :: queueing where
  "dw_setup = block [serial_begin 9600, pinMode 2 INPUT, pinMode 13 OUTPUT]"

definition dw_periodic_task1 :: queueing where
  "dw_periodic_task1 = block [
     assign (\<lambda>v. v\<lparr>q_counter := q_counter v + 1\<rparr>),
     print_str (''[T1] THREAD 1------'' @ nl @ ''  current time(us): '' @ tab @ '' '' @ tab),
     print_num (\<lambda>a. uint (thread_get_time (kern a))),
     print_str (nl @ ''   DATA:'' @ tab),
     read_queue,
     println_num (\<lambda>a. uint (q_data (vars a))),
     print_str (nl @ ''   DATA:'' @ tab),
     read_queue,
     println_num (\<lambda>a. uint (q_data (vars a))),
     assign (\<lambda>v. v\<lparr>q_aux := 1\<rparr>),
     assign (\<lambda>v. v\<lparr>q_aux := 2\<rparr>),
     assign (\<lambda>v. v\<lparr>q_aux := 3\<rparr>)]"

definition dw_error_handler_task1 :: "s16 \<Rightarrow> queueing" where
  "dw_error_handler_task1 what = Done"

definition dw_periodic_task2 :: queueing where
  "dw_periodic_task2 = block [
     assign (\<lambda>v. v\<lparr>q_handler := q_handler v + 1\<rparr>),
     write_queue]"

definition dw_error_handler_task2 :: "s16 \<Rightarrow> queueing" where
  "dw_error_handler_task2 what = assign (\<lambda>v. v\<lparr>q_aux_t := q_aux v\<rparr>)"

definition dw_loop :: "target \<Rightarrow> queueing" where
  "dw_loop T = block [
     print_str (''Simple example'' @ nl @ ''  showing clock info + deviation '' @ nl),
     delay 1000,
     new_periodic T (at T ''periodic_task1'') NULL NULL 200 30 0 1000000 1000000 500000 (at T ''error_handler_task1'')
       (\<lambda>r. assign (\<lambda>v. v\<lparr>q_th1 := r\<rparr>)),
     kcall_then (thread_queue_create 2) (\<lambda>r. assign (\<lambda>v. v\<lparr>q_q1 := r\<rparr>)),
     new_periodic T (at T ''periodic_task2'') NULL NULL 200 30 100000 1000000 1000000 500000 (at T ''error_handler_task2'')
       (\<lambda>r. assign (\<lambda>v. v\<lparr>q_th2 := r\<rparr>)),
     threads_subsystem_start T]"

section \<open>periodic_2_QUEUES_DOUBLE_READ\<close>

definition dr_setup :: queueing where
  "dr_setup = block [serial_begin 9600, pinMode 2 INPUT, pinMode 13 OUTPUT]"

definition dr_periodic_task1 :: queueing where
  "dr_periodic_task1 = block [
     assign (\<lambda>v. v\<lparr>q_counter := q_counter v + 1\<rparr>),
     print_str (''[T1] THREAD 1------'' @ nl @ ''  current time(us): '' @ tab @ '' '' @ tab),
     print_num (\<lambda>a. uint (thread_get_time (kern a))),
     print_str (nl @ ''   DATA(!=0):'' @ tab),
     read_queue,
     println_num (\<lambda>a. uint (q_data (vars a))),
     print_str (nl @ ''   DATA (=0):'' @ tab),
     read_queue,
     println_num (\<lambda>a. uint (q_data (vars a))),
     assign (\<lambda>v. v\<lparr>q_aux := 1\<rparr>),
     assign (\<lambda>v. v\<lparr>q_aux := 2\<rparr>),
     assign (\<lambda>v. v\<lparr>q_aux := 3\<rparr>)]"

definition dr_error_handler_task1 :: "s16 \<Rightarrow> queueing" where
  "dr_error_handler_task1 what = Done"

definition dr_periodic_task2 :: queueing where
  "dr_periodic_task2 = block [
     assign (\<lambda>v. v\<lparr>q_handler := q_handler v + 1\<rparr>),
     write_queue]"

definition dr_error_handler_task2 :: "s16 \<Rightarrow> queueing" where
  "dr_error_handler_task2 what = assign (\<lambda>v. v\<lparr>q_aux_t := q_aux v\<rparr>)"

definition dr_loop :: "target \<Rightarrow> queueing" where
  "dr_loop T = block [
     print_str (''Simple example'' @ nl @ ''  showing clock info + deviation '' @ nl),
     delay 1000,
     new_periodic T (at T ''periodic_task1'') NULL NULL 200 30 0 1000000 1000000 500000 (at T ''error_handler_task1'')
       (\<lambda>r. assign (\<lambda>v. v\<lparr>q_th1 := r\<rparr>)),
     kcall_then (thread_queue_create 2) (\<lambda>r. assign (\<lambda>v. v\<lparr>q_q1 := r\<rparr>)),
     new_periodic T (at T ''periodic_task2'') NULL NULL 200 30 100000 1000000 1000000 500000 (at T ''error_handler_task2'')
       (\<lambda>r. assign (\<lambda>v. v\<lparr>q_th2 := r\<rparr>)),
     threads_subsystem_start T]"

section \<open>A period of the writer and the reader\<close>

text \<open>The queue after \<open>i\<close> elements have been written and read: empty, its read index at \<open>i\<close>.\<close>

definition drained :: "nat \<Rightarrow> addr list \<Rightarrow> queue" where
  "drained i es = \<lparr>stored = 0, howmany = 2, read_index = of_nat i, write_index = of_nat (i mod 2), elements = es\<rparr>"

definition dr_period :: queueing where
  "dr_period = block [dr_periodic_task2, dr_periodic_task1]"

text \<open>What the reader prints.\<close>

definition dr_output :: "kernel \<Rightarrow> s16 \<Rightarrow> event list" where
  "dr_output k x = [Text (''[T1] THREAD 1------'' @ nl @ ''  current time(us): '' @ tab @ '' '' @ tab),
     Number (uint (thread_get_time k)) 10, Text (nl @ ''   DATA(!=0):'' @ tab),
     Number (uint (scast x :: u32)) 10, Newline, Text (nl @ ''   DATA (=0):'' @ tab), Number 0 10, Newline]"

lemmas queue_run = thread_queue_nb_get_element_def thread_queue_nb_set_element_def queue_at_def queue_get_def
  queue_set_def element_at_def drained_def

lemmas dr_jobs = dr_period_def dr_periodic_task1_def dr_periodic_task2_def read_queue_def write_queue_def
  dr_output_def thread_get_time_def

lemma dr_period_run:
  assumes "q_q1 (vars a) \<noteq> NULL" and "queues (kern a) (q_q1 (vars a)) = Some (drained i [x, y])" and "i = 0 \<or> i = 1"
  shows "\<exists>b es. returns dr_period a b \<and> queues (kern b) (q_q1 (vars b)) = Some (drained (Suc i) es) \<and> length es = 2
    \<and> q_q1 (vars b) \<noteq> NULL \<and> trace b = trace a @ dr_output (kern a) (q_handler (vars a) + 1)"
  using assms(3)
proof
  assume i: "i = 0"
  show ?thesis using assms(1,2) unfolding i by (simp add: dr_jobs runs queue_run)
next
  assume i: "i = 1"
  show ?thesis using assms(1,2) unfolding i by (simp add: dr_jobs runs queue_run)
qed

lemma dr_period_worn_out:
  assumes "q_q1 (vars a) \<noteq> NULL" and "queues (kern a) (q_q1 (vars a)) = Some (drained 2 [x, y])"
  shows "\<not> returns dr_period a b"
  using assms by (simp add: dr_jobs runs queue_run)

lemma created_drained:
  assumes "thread_queue_create 2 s = Some (p, k)"
  shows "\<exists>es. p \<noteq> NULL \<and> queues k p = Some (drained 0 es) \<and> length es = 2"
proof -
  from assms obtain c s1 where "malloc s = (Some c, s1)" and "ptr c = p"
    and k: "k = s1\<lparr>queues := (queues s1)(ptr c \<mapsto> \<lparr>stored = 0, howmany = 2, read_index = 0, write_index = 0,
      elements = map (as_words c) [0..<2]\<rparr>)\<rparr>"
    by (auto simp: thread_queue_create_def thread_malloc_def Let_def queue_header_def split: prod.splits option.splits)
  then show ?thesis by (auto simp: malloc_Some_iff drained_def)
qed

section \<open>Properties\<close>

text \<open>The sketch DOUBLE_READ works for two periods and not longer: from the queue its \<open>loop\<close> creates, each of
  the first two rounds of writer and reader prints the number just written, sign-extended, and then 0 for the
  empty queue; in the third round the reader reads outside the block of the queue.\<close>

theorem double_read_wears_out:
  assumes "q_q1 (vars a) \<noteq> NULL" and "queues (kern a) (q_q1 (vars a)) = Some (drained i es)" and "length es = 2"
    and "i \<le> 2"
  shows "(if i < 2 then \<exists>b es'. returns dr_period a b \<and> queues (kern b) (q_q1 (vars b)) = Some (drained (Suc i) es')
        \<and> length es' = 2 \<and> q_q1 (vars b) \<noteq> NULL \<and> trace b = trace a @ dr_output (kern a) (q_handler (vars a) + 1)
      else \<forall>b. \<not> returns dr_period a b)
    \<and> (\<forall>s p k. thread_queue_create 2 s = Some (p, k) \<longrightarrow>
        (\<exists>es. p \<noteq> NULL \<and> queues k p = Some (drained 0 es) \<and> length es = 2))"
proof -
  obtain x y where "es = [x, y]" using assms(3) by (auto simp: length_Suc_conv numeral_2_eq_2)
  moreover have "i = 0 \<or> i = 1 \<or> i = 2" using assms(4) by linarith
  ultimately show ?thesis
    using dr_period_run [of a i x y] dr_period_worn_out [of a x y] assms(1,2) created_drained by fastforce
qed

definition dr_demo :: "(kernel, queue_vars) app" where
  "dr_demo = \<lparr>kern = demo\<lparr>queues := [0x600 \<mapsto> drained 0 [7, 7]]\<rparr>, trace = [],
     timer = \<lparr>TCCR2A = 0, TCCR2B = 0, TIMSK2 = 0, interrupts_on = True\<rparr>, rx = [],
     vars = \<lparr>q_counter = 0, q_th1 = 0x200, q_th2 = 0x300, q_q1 = 0x600, q_handler = 1000, q_aux = 0, q_aux_t = 0,
       q_data = 0\<rparr>\<rparr>"

theorem double_read_wears_out_witness:
  "\<exists>b c. returns dr_period dr_demo b \<and> returns dr_period b c \<and> Number 1001 10 \<in> set (trace b) \<and> (\<forall>d. \<not> returns dr_period c d)"
proof -
  have "q_q1 (vars dr_demo) \<noteq> NULL" and q: "queues (kern dr_demo) (q_q1 (vars dr_demo)) = Some (drained 0 [7, 7])"
    by (simp_all add: dr_demo_def)
  from double_read_wears_out [OF this]
  obtain b es where b: "returns dr_period dr_demo b" "trace b = trace dr_demo @ dr_output (kern dr_demo) 1001"
    and 1: "q_q1 (vars b) \<noteq> NULL" "queues (kern b) (q_q1 (vars b)) = Some (drained 1 es)" "length es = 2"
    by (auto simp: dr_demo_def)
  from double_read_wears_out [OF 1] obtain c es' where c: "returns dr_period b c"
    and 2: "q_q1 (vars c) \<noteq> NULL" "queues (kern c) (q_q1 (vars c)) = Some (drained 2 es')" "length es' = 2"
    by (auto simp: numeral_2_eq_2)
  from double_read_wears_out [OF 2] have "\<forall>d. \<not> returns dr_period c d" by simp
  moreover have "Number 1001 10 \<in> set (trace b)" by (simp add: b(2) dr_output_def)
  ultimately show ?thesis using b(1) c by blast
qed

end
