(* ===== verification/Ex_Semaphore.thy ===== *)
theory Ex_Semaphore
  imports RT_Sketch
begin

text \<open>
  The example sketches with a semaphore between two periodic tasks: \<open>periodic_2_1SEMAPHORE_\<close> of the examples
  (prefix \<open>one\<close>; \<open>periodic_2_1SEMAPHORE_2V\<close> is the same file and \<open>periodic_2_1SEMAPHORE_2P\<close> differs in a
  blank), and of src/arduino \<open>periodic_2_1SEMAPHORE_\<close> (\<open>twice\<close>), \<open>periodic_2_1SEMAPHORE_2Prate\<close> (\<open>rate\<close>),
  \<open>periodic_2_1SEMAPHORE_2Prate_BAD\<close> (\<open>bad\<close>) and \<open>periodic_2_1SEMAPHORE_BARRIER\<close> (\<open>bar\<close>).
\<close>

text \<open>Their variables, which start at 0; \<open>qdata\<close> is never used.\<close>

record sem_vars =
  s_counter :: u32
  s_th1 :: addr
  s_th2 :: addr
  s_sem1 :: addr
  s_handler :: s16
  s_aux :: s16
  s_aux_t :: s16

type_synonym guarded = "(kernel, sem_vars) app prog"

definition take_sem :: "target \<Rightarrow> guarded" where
  "take_sem T = kcall_with (\<lambda>v. thread_semaphore_P (handlers T) (s_sem1 v))"

definition post_sem :: "target \<Rightarrow> guarded" where
  "post_sem T = kcall_with (\<lambda>v. thread_semaphore_V (handlers T) (s_sem1 v))"

definition count_up :: guarded where
  "count_up = assign (\<lambda>v. v\<lparr>s_handler := s_handler v + 1\<rparr>)"

definition copy_handler :: guarded where
  "copy_handler = assign (\<lambda>v. v\<lparr>s_aux_t := s_handler v\<rparr>)"

section \<open>periodic_2_1SEMAPHORE_ (examples)\<close>

definition one_setup :: guarded where
  "one_setup = block [serial_begin 9600, pinMode 2 INPUT, pinMode 13 OUTPUT]"

definition one_periodic_task1 :: "target \<Rightarrow> guarded" where
  "one_periodic_task1 T = block [
     assign (\<lambda>v. v\<lparr>s_counter := s_counter v + 1\<rparr>),
     print_str (nl @ ''[T1] THREAD 1------'' @ nl @ ''  current time(us): '' @ tab @ '' '' @ tab),
     print_num (\<lambda>a. uint (thread_get_time (kern a))),
     print_str (nl @ ''   DATA:'' @ tab),
     print_num (\<lambda>a. sint (s_handler (vars a))),
     take_sem T]"

definition one_error_handler_task1 :: "s16 \<Rightarrow> guarded" where
  "one_error_handler_task1 what = Done"

definition one_periodic_task2 :: "target \<Rightarrow> guarded" where
  "one_periodic_task2 T = block [count_up, post_sem T]"

definition one_error_handler_task2 :: "s16 \<Rightarrow> guarded" where
  "one_error_handler_task2 what = assign (\<lambda>v. v\<lparr>s_aux_t := s_aux v\<rparr>)"

definition one_loop :: "target \<Rightarrow> guarded" where
  "one_loop T = block [
     print_str (''Simple example'' @ nl @ ''  showing clock info + deviation '' @ nl),
     delay 1000,
     new_periodic T (at T ''periodic_task1'') NULL NULL 200 30 0 1000000 1000000 500000 (at T ''error_handler_task1'')
       (\<lambda>r. assign (\<lambda>v. v\<lparr>s_th1 := r\<rparr>)),
     kcall_then (thread_semaphore_create 0) (\<lambda>r. assign (\<lambda>v. v\<lparr>s_sem1 := r\<rparr>)),
     new_periodic T (at T ''periodic_task2'') NULL NULL 200 30 100000 1000000 1000000 500000 (at T ''error_handler_task2'')
       (\<lambda>r. assign (\<lambda>v. v\<lparr>s_th2 := r\<rparr>)),
     threads_subsystem_start T]"

section \<open>periodic_2_1SEMAPHORE_\<close>

definition twice_setup :: guarded where
  "twice_setup = block [serial_begin 9600, pinMode 2 INPUT, pinMode 13 OUTPUT]"

definition twice_periodic_task1 :: "target \<Rightarrow> guarded" where
  "twice_periodic_task1 T = block [
     assign (\<lambda>v. v\<lparr>s_counter := s_counter v + 1\<rparr>),
     print_str (nl @ ''[T1] THREAD 1------'' @ nl @ ''  current time(us): '' @ tab @ '' '' @ tab),
     print_num (\<lambda>a. uint (thread_get_time (kern a))),
     print_str (nl @ ''   DATA:'' @ tab),
     print_num (\<lambda>a. sint (s_handler (vars a))),
     take_sem T]"

definition twice_error_handler_task1 :: "s16 \<Rightarrow> guarded" where
  "twice_error_handler_task1 what = Done"

definition twice_periodic_task2 :: "target \<Rightarrow> guarded" where
  "twice_periodic_task2 T = block [count_up, count_up, post_sem T]"

definition twice_error_handler_task2 :: "s16 \<Rightarrow> guarded" where
  "twice_error_handler_task2 what = assign (\<lambda>v. v\<lparr>s_aux_t := s_aux v\<rparr>)"

definition twice_loop :: "target \<Rightarrow> guarded" where
  "twice_loop T = block [
     print_str (''Simple example'' @ nl @ ''  showing clock info + deviation '' @ nl),
     delay 1000,
     new_periodic T (at T ''periodic_task1'') NULL NULL 200 30 0 1000000 1000000 500000 (at T ''error_handler_task1'')
       (\<lambda>r. assign (\<lambda>v. v\<lparr>s_th1 := r\<rparr>)),
     kcall_then (thread_semaphore_create 0) (\<lambda>r. assign (\<lambda>v. v\<lparr>s_sem1 := r\<rparr>)),
     new_periodic T (at T ''periodic_task2'') NULL NULL 200 30 100000 1000000 1000000 500000 (at T ''error_handler_task2'')
       (\<lambda>r. assign (\<lambda>v. v\<lparr>s_th2 := r\<rparr>)),
     threads_subsystem_start T]"

section \<open>periodic_2_1SEMAPHORE_2Prate\<close>

definition rate_setup :: guarded where
  "rate_setup = block [serial_begin 9600, pinMode 2 INPUT, pinMode 13 OUTPUT]"

definition rate_periodic_task1 :: "target \<Rightarrow> guarded" where
  "rate_periodic_task1 T = block [
     assign (\<lambda>v. v\<lparr>s_counter := s_counter v + 1\<rparr>),
     print_str (nl @ ''[T1] THREAD 1------'' @ nl @ ''  current time(us): '' @ tab @ '' '' @ tab),
     print_num (\<lambda>a. uint (thread_get_time (kern a))),
     print_str (nl @ ''   DATA:'' @ tab),
     print_num (\<lambda>a. sint (s_handler (vars a))),
     take_sem T,
     take_sem T]"

definition rate_error_handler_task1 :: "s16 \<Rightarrow> guarded" where
  "rate_error_handler_task1 what = Done"

definition rate_periodic_task2 :: "target \<Rightarrow> guarded" where
  "rate_periodic_task2 T = block [count_up, post_sem T]"

definition rate_error_handler_task2 :: "s16 \<Rightarrow> guarded" where
  "rate_error_handler_task2 what = assign (\<lambda>v. v\<lparr>s_aux_t := s_aux v\<rparr>)"

definition rate_loop :: "target \<Rightarrow> guarded" where
  "rate_loop T = block [
     print_str (''Simple example'' @ nl @ ''  showing clock info + deviation '' @ nl),
     delay 1000,
     new_periodic T (at T ''periodic_task1'') NULL NULL 200 30 0 1000000 1000000 5000000 (at T ''error_handler_task1'')
       (\<lambda>r. assign (\<lambda>v. v\<lparr>s_th1 := r\<rparr>)),
     kcall_then (thread_semaphore_create 1) (\<lambda>r. assign (\<lambda>v. v\<lparr>s_sem1 := r\<rparr>)),
     new_periodic T (at T ''periodic_task2'') NULL NULL 200 30 100000 1000000 1000000 5000000 (at T ''error_handler_task2'')
       (\<lambda>r. assign (\<lambda>v. v\<lparr>s_th2 := r\<rparr>)),
     threads_subsystem_start T]"

section \<open>periodic_2_1SEMAPHORE_2Prate_BAD\<close>

definition bad_setup :: guarded where
  "bad_setup = block [serial_begin 9600, pinMode 2 INPUT, pinMode 13 OUTPUT]"

definition bad_periodic_task1 :: "target \<Rightarrow> guarded" where
  "bad_periodic_task1 T = block [
     assign (\<lambda>v. v\<lparr>s_counter := s_counter v + 1\<rparr>),
     print_str (nl @ ''[T1] THREAD 1------'' @ nl @ ''  current time(us): '' @ tab @ '' '' @ tab),
     print_num (\<lambda>a. uint (thread_get_time (kern a))),
     print_str (nl @ ''   DATA:'' @ tab),
     print_num (\<lambda>a. sint (s_handler (vars a))),
     take_sem T,
     copy_handler,
     post_sem T]"

definition bad_error_handler_task1 :: "s16 \<Rightarrow> guarded" where
  "bad_error_handler_task1 what = Done"

definition bad_periodic_task2 :: "target \<Rightarrow> guarded" where
  "bad_periodic_task2 T = block [take_sem T, count_up, post_sem T]"

definition bad_error_handler_task2 :: "s16 \<Rightarrow> guarded" where
  "bad_error_handler_task2 what = assign (\<lambda>v. v\<lparr>s_aux_t := s_aux v\<rparr>)"

definition bad_loop :: "target \<Rightarrow> guarded" where
  "bad_loop T = block [
     print_str (''Simple example'' @ nl @ ''  showing clock info + deviation '' @ nl),
     delay 1000,
     new_periodic T (at T ''periodic_task1'') NULL NULL 200 30 0 1000000 10000000 5000000 (at T ''error_handler_task1'')
       (\<lambda>r. assign (\<lambda>v. v\<lparr>s_th1 := r\<rparr>)),
     kcall_then (thread_semaphore_create 1) (\<lambda>r. assign (\<lambda>v. v\<lparr>s_sem1 := r\<rparr>)),
     new_periodic T (at T ''periodic_task2'') NULL NULL 200 30 100000 1000000 10000000 5000000 (at T ''error_handler_task2'')
       (\<lambda>r. assign (\<lambda>v. v\<lparr>s_th2 := r\<rparr>)),
     threads_subsystem_start T]"

section \<open>periodic_2_1SEMAPHORE_BARRIER\<close>

definition bar_setup :: guarded where
  "bar_setup = block [serial_begin 9600, pinMode 2 INPUT, pinMode 13 OUTPUT]"

definition bar_periodic_task1 :: "target \<Rightarrow> guarded" where
  "bar_periodic_task1 T = block [
     assign (\<lambda>v. v\<lparr>s_counter := s_counter v + 1\<rparr>),
     print_str (nl @ ''[T1] THREAD 1------'' @ nl @ ''  current time(us): '' @ tab @ '' '' @ tab),
     print_num (\<lambda>a. uint (thread_get_time (kern a))),
     print_str (nl @ ''   DATA:'' @ tab),
     print_num (\<lambda>a. sint (s_handler (vars a))),
     take_sem T,
     copy_handler,
     post_sem T]"

definition bar_error_handler_task1 :: "s16 \<Rightarrow> guarded" where
  "bar_error_handler_task1 what = Done"

definition bar_periodic_task2 :: "target \<Rightarrow> guarded" where
  "bar_periodic_task2 T = block [take_sem T, count_up, post_sem T]"

definition bar_error_handler_task2 :: "s16 \<Rightarrow> guarded" where
  "bar_error_handler_task2 what = Done"

definition bar_loop :: "target \<Rightarrow> guarded" where
  "bar_loop T = block [
     print_str (''Simple example'' @ nl @ ''  showing clock info + deviation '' @ nl),
     delay 1000,
     new_periodic T (at T ''periodic_task1'') NULL NULL 200 30 0 1000000 10000000 5000000 (at T ''error_handler_task1'')
       (\<lambda>r. assign (\<lambda>v. v\<lparr>s_th1 := r\<rparr>)),
     kcall_then (thread_semaphore_create 1) (\<lambda>r. assign (\<lambda>v. v\<lparr>s_sem1 := r\<rparr>)),
     new_periodic T (at T ''periodic_task2'') NULL NULL 200 30 0 1000000 10000000 5000000 (at T ''error_handler_task2'')
       (\<lambda>r. assign (\<lambda>v. v\<lparr>s_th2 := r\<rparr>)),
     threads_subsystem_start T]"

section \<open>Properties\<close>

lemma V_free:
  assumes "handler_ok H" and "sem_inv sem ts s" and "queued (abs_sem sem ts s) = {}"
    and "tokens (abs_sem sem ts s) < 2 ^ 15 - 1"
  shows "\<exists>s'. thread_semaphore_V H sem s = Some s' \<and> sem_inv sem ts s'
    \<and> abs_sem sem ts s' = (abs_sem sem ts s)\<lparr>tokens := tokens (abs_sem sem ts s) + 1\<rparr> \<and> current_thread s' = current_thread s"
proof -
  have "kernel_wf s" and "sems s sem \<noteq> None" and "sem \<noteq> NULL"
    using assms(2) by (auto simp: sem_inv_def sem_ok_def intro: kernel_wfI)
  then obtain s' where "thread_semaphore_V H sem s = Some s'" using sem_V_safe [OF assms(1)] by blast
  with sem_V_post [OF assms(2-4)] show ?thesis by blast
qed


text \<open>Thread 0x200 runs task 2 and finds the semaphore taken.\<close>

definition bar_demo :: "(kernel, sem_vars) app" where
  "bar_demo = \<lparr>kern = demo_taken, trace = [], timer = \<lparr>TCCR2A = 0, TCCR2B = 0, TIMSK2 = 0, interrupts_on = True\<rparr>, rx = [],
     vars = \<lparr>s_counter = 0, s_th1 = 0x200, s_th2 = 0x300, s_sem1 = 0x400, s_handler = 0, s_aux = 0, s_aux_t = 0\<rparr>\<rparr>"

definition bar_target :: target where
  "bar_target = \<lparr>handlers = no_handler, image_of = demo_image, board_of = uno, at = (\<lambda>_. 0x3000)\<rparr>"


end
