(* ===== verification/Ex_ATS.thy ===== *)
theory Ex_ATS
  imports RT_Sketch
begin

text \<open>
  The example sketches with asynchronous signals: \<open>periodic_1_ATS_auto\<close> (prefix \<open>auto\<close>), whose task signals
  itself, \<open>periodic_2_ATS_\<close> (\<open>ats\<close>) and, of src/arduino, \<open>periodic_2_ATS_BAD\<close> (\<open>abad\<close>). The kernel calls the error
  handlers of these sketches through \<open>handlers T\<close> when it delivers a signal; here are their bodies.
\<close>

record ats_vars =
  a_counter :: u32
  a_th1 :: addr
  a_th2 :: addr
  a_handler :: s16
  a_aux :: s16
  a_aux_t :: s16

type_synonym alerted = "(kernel, ats_vars) app prog"

definition ats_signal :: "target \<Rightarrow> (ats_vars \<Rightarrow> addr) \<Rightarrow> alerted" where
  "ats_signal T th = kcall_with (\<lambda>v k. map_option snd (thread_ATS_signal (handlers T) (th v) k))"

definition set_aux :: "s16 \<Rightarrow> alerted" where
  "set_aux x = assign (\<lambda>v. v\<lparr>a_aux := x\<rparr>)"

section \<open>periodic_1_ATS_auto\<close>

definition auto_setup :: alerted where
  "auto_setup = block [serial_begin 9600, pinMode 2 INPUT, pinMode 13 OUTPUT]"

definition auto_periodic_task1 :: "target \<Rightarrow> alerted" where
  "auto_periodic_task1 T = block [
     assign (\<lambda>v. v\<lparr>a_counter := a_counter v + 1\<rparr>),
     print_str (''[T1] THREAD 1------'' @ nl @ ''  current time(us): '' @ tab @ '' '' @ tab),
     print_num (\<lambda>a. uint (thread_get_time (kern a))),
     print_str (nl @ ''   error handler:'' @ tab),
     println_num (\<lambda>a. sint (a_handler (vars a))),
     print_str (nl @ ''   auxt:'' @ tab),
     println_num (\<lambda>a. sint (a_aux_t (vars a))),
     set_aux 0,
     kcall (thread_ATS_enable (handlers T)),
     set_aux 1,
     ats_signal T a_th1,
     ats_signal T a_th1,
     set_aux 2,
     kcall thread_ATS_disable,
     set_aux 3]"

definition auto_error_handler_task1 :: "s16 \<Rightarrow> alerted" where
  "auto_error_handler_task1 what = block [
     assign (\<lambda>v. v\<lparr>a_handler := a_handler v + 1\<rparr>),
     assign (\<lambda>v. v\<lparr>a_aux_t := a_aux v\<rparr>)]"

definition auto_loop :: "target \<Rightarrow> alerted" where
  "auto_loop T = block [
     print_str (''Simple example'' @ nl @ ''  showing clock info + deviation '' @ nl),
     delay 1000,
     new_periodic T (at T ''periodic_task1'') NULL NULL 200 30 0 1000000 1000000 500000 (at T ''error_handler_task1'')
       (\<lambda>r. assign (\<lambda>v. v\<lparr>a_th1 := r\<rparr>)),
     threads_subsystem_start T]"

section \<open>periodic_2_ATS_\<close>

definition two_ats_setup :: alerted where
  "two_ats_setup = block [serial_begin 9600, pinMode 2 INPUT, pinMode 13 OUTPUT]"

definition two_ats_periodic_task1 :: "target \<Rightarrow> alerted" where
  "two_ats_periodic_task1 T = block [
     assign (\<lambda>v. v\<lparr>a_counter := a_counter v + 1\<rparr>),
     print_str (''[T1] THREAD 1------'' @ nl @ ''  current time(us): '' @ tab @ '' '' @ tab),
     print_num (\<lambda>a. uint (thread_get_time (kern a))),
     print_str (nl @ ''   error handler:'' @ tab),
     println_num (\<lambda>a. sint (a_handler (vars a))),
     print_str (nl @ ''   auxt2:'' @ tab),
     println_num (\<lambda>a. sint (a_aux_t (vars a))),
     set_aux 1,
     kcall (thread_ATS_enable (handlers T)),
     set_aux 2,
     set_aux 3,
     ats_signal T a_th2]"

definition two_ats_error_handler_task1 :: "s16 \<Rightarrow> alerted" where
  "two_ats_error_handler_task1 what = Done"

definition two_ats_periodic_task2 :: "target \<Rightarrow> alerted" where
  "two_ats_periodic_task2 T = block [
     kcall (thread_ATS_enable (handlers T)),
     assign (\<lambda>v. v\<lparr>a_handler := a_handler v + 1\<rparr>),
     assign (\<lambda>v. v\<lparr>a_handler := a_handler v + 1\<rparr>)]"

definition two_ats_error_handler_task2 :: "s16 \<Rightarrow> alerted" where
  "two_ats_error_handler_task2 what = assign (\<lambda>v. v\<lparr>a_aux_t := a_aux v\<rparr>)"

definition two_ats_loop :: "target \<Rightarrow> alerted" where
  "two_ats_loop T = block [
     print_str (''Simple example'' @ nl @ ''  showing clock info + deviation '' @ nl),
     delay 1000,
     new_periodic T (at T ''periodic_task1'') NULL NULL 200 30 0 1000000 1000000 500000 (at T ''error_handler_task1'')
       (\<lambda>r. assign (\<lambda>v. v\<lparr>a_th1 := r\<rparr>)),
     new_periodic T (at T ''periodic_task2'') NULL NULL 200 30 100000 1000000 1000000 500000 (at T ''error_handler_task2'')
       (\<lambda>r. assign (\<lambda>v. v\<lparr>a_th2 := r\<rparr>)),
     threads_subsystem_start T]"

section \<open>periodic_2_ATS_BAD\<close>

definition abad_setup :: alerted where
  "abad_setup = block [serial_begin 9600, pinMode 2 INPUT, pinMode 13 OUTPUT]"

definition abad_periodic_task1 :: "target \<Rightarrow> alerted" where
  "abad_periodic_task1 T = block [
     assign (\<lambda>v. v\<lparr>a_counter := a_counter v + 1\<rparr>),
     print_str (''[T1] THREAD 1------'' @ nl @ ''  current time(us): '' @ tab @ '' '' @ tab),
     print_num (\<lambda>a. uint (thread_get_time (kern a))),
     print_str (nl @ ''   error handler:'' @ tab),
     println_num (\<lambda>a. sint (a_handler (vars a))),
     print_str (nl @ ''   auxt2:'' @ tab),
     println_num (\<lambda>a. sint (a_aux_t (vars a))),
     ats_signal T a_th2]"

definition abad_error_handler_task1 :: "s16 \<Rightarrow> alerted" where
  "abad_error_handler_task1 what = Done"

definition abad_periodic_task2 :: "target \<Rightarrow> alerted" where
  "abad_periodic_task2 T = block [
     kcall (thread_ATS_enable (handlers T)),
     assign (\<lambda>v. v\<lparr>a_handler := a_handler v + 1\<rparr>),
     assign (\<lambda>v. v\<lparr>a_handler := a_handler v + 1\<rparr>)]"

definition abad_error_handler_task2 :: "s16 \<Rightarrow> alerted" where
  "abad_error_handler_task2 what = assign (\<lambda>v. v\<lparr>a_aux_t := a_aux_t v + 1\<rparr>)"

definition abad_loop :: "target \<Rightarrow> alerted" where
  "abad_loop T = block [
     print_str (''Simple example'' @ nl @ ''  showing clock info + deviation '' @ nl),
     delay 1000,
     new_periodic T (at T ''periodic_task1'') NULL NULL 200 20 100000 1000000 1000000 500000 (at T ''error_handler_task1'')
       (\<lambda>r. assign (\<lambda>v. v\<lparr>a_th1 := r\<rparr>)),
     new_periodic T (at T ''periodic_task2'') NULL NULL 200 30 100 1000000 1000000 500000 (at T ''error_handler_task2'')
       (\<lambda>r. assign (\<lambda>v. v\<lparr>a_th2 := r\<rparr>)),
     threads_subsystem_start T]"

end
