(* ===== verification/RT_Alone.thy ===== *)
theory RT_Alone
  imports RT_Create RT_Signal RT_Semaphore RT_Queue RT_Memory
begin

text \<open>
  The main program alone: as long as every other thread has a priority below that of the main
  thread, no call of the library takes the processor from the main program. This is how a sketch
  that creates threads of priority 0 goes through all operations of the library, one after another.
\<close>

section \<open>Threads that never get the processor\<close>

definition underling :: "kernel \<Rightarrow> addr \<Rightarrow> bool" where
  "underling k a \<longleftrightarrow> (\<exists>t. threads k a = Some t \<and> priority t < SIMPLERTFRAMEWORK_NORM_PRIO
     \<and> status t = SIMPLERTFRAMEWORK_ACTIVE \<and> blocked_semaphore t = NULL)"

definition in_charge :: "kernel \<Rightarrow> bool" where
  "in_charge k \<longleftrightarrow> current_thread k = thread_main_inf k \<and> (\<exists>t. threads k (thread_main_inf k) = Some t
     \<and> SIMPLERTFRAMEWORK_NORM_PRIO \<le> priority t \<and> ats_pending t = 0)"

definition alone :: "addr list \<Rightarrow> kernel \<Rightarrow> bool" where
  "alone ts k \<longleftrightarrow> runq_wf k ts \<and> set ts \<subseteq> blocks k \<and> in_charge k
     \<and> (\<forall>a \<in> set ts - {thread_main_inf k}. underling k a)"

lemma alone_underling:
  assumes "alone ts k" and "a \<in> set ts" and "a \<noteq> thread_main_inf k"
  obtains t where "threads k a = Some t" and "priority t < SIMPLERTFRAMEWORK_NORM_PRIO"
    and "status t = SIMPLERTFRAMEWORK_ACTIVE" and "blocked_semaphore t = NULL" and "a \<noteq> NULL"
proof -
  have "a \<noteq> NULL" using assms(1,2) runq_wf_deref by (fastforce simp: alone_def deref_def)
  moreover have "underling k a" using assms unfolding alone_def by blast
  ultimately show ?thesis using that unfolding underling_def by blast
qed

text \<open>What such an operation leaves of the rest: the heap of the other structures and the allocator.\<close>

definition same_store :: "kernel \<Rightarrow> kernel \<Rightarrow> bool" where
  "same_store k k' \<longleftrightarrow> sems k' = sems k \<and> queues k' = queues k \<and> answers k' = answers k \<and> blocks k' = blocks k
     \<and> thread_main_inf k' = thread_main_inf k"

lemma same_store_refl [simp]: "same_store k k"
  by (simp add: same_store_def)

lemma same_store_trans: "same_store k k1 \<Longrightarrow> same_store k1 k2 \<Longrightarrow> same_store k k2"
  by (simp add: same_store_def)

lemma alone_pick:
  assumes "alone ts k"
  shows "yield_pick k ts = thread_main_inf k"
proof (rule ccontr)
  assume n: "yield_pick k ts \<noteq> thread_main_inf k"
  have "yield_pick k ts \<in> set ts" using assms yield_pick_mem unfolding alone_def by blast
  with n assms obtain u where u: "threads k (yield_pick k ts) = Some u" "priority u < SIMPLERTFRAMEWORK_NORM_PRIO"
    unfolding alone_def underling_def by blast
  obtain t where t: "threads k (thread_main_inf k) = Some t" "SIMPLERTFRAMEWORK_NORM_PRIO \<le> priority t"
    using assms unfolding alone_def in_charge_def by blast
  have "prio (yield_heap k ts) (thread_main_inf k) \<le> prio (yield_heap k ts) (yield_pick k ts)"
    unfolding yield_pick_def by (rule pick_prio_ge)
  then have "priority t \<le> priority u" using t u by (simp add: yield_heap_def prio_def)
  with t(2) u(2) show False by order
qed

text \<open>A kernel that differs only in the main thread's own structure and in the store.\<close>

lemma alone_cong:
  assumes "alone ts k" and "thread_list k' = thread_list k" and "thread_main_inf k' = thread_main_inf k"
    and "current_thread k' = current_thread k" and "set ts \<subseteq> blocks k'"
    and "\<And>a. a \<in> set ts \<Longrightarrow> a \<noteq> thread_main_inf k \<Longrightarrow> threads k' a = threads k a"
    and "threads k (thread_main_inf k) = Some t" and "threads k' (thread_main_inf k) = Some t'"
    and "runq_next t' = runq_next t" and "ats_pending t' = 0" and "SIMPLERTFRAMEWORK_NORM_PRIO \<le> priority t'"
  shows "alone ts k'"
proof -
  have wf: "runq_wf k ts" using assms(1) by (simp add: alone_def)
  have "map_option runq_next (threads k' a) = map_option runq_next (threads k a)" if "a \<in> set ts" for a
    using assms(6) [OF that] assms(7-9) by (cases "a = thread_main_inf k") simp_all
  then have "runq_wf k' ts"
    using runq_wf_cong [OF assms(2,3) _ _ wf] runq_wf_current [OF wf] assms(4) by simp
  moreover have "underling k' a" if "a \<in> set ts - {thread_main_inf k'}" for a
    using that assms(1,3) assms(6) [of a] by (auto simp: alone_def underling_def)
  ultimately show ?thesis using assms(1,3-5,8,10,11) by (simp add: alone_def in_charge_def)
qed

lemma alone_main:
  assumes "alone ts k"
  obtains t where "threads k (thread_main_inf k) = Some t" and "ats_pending t = 0"
    and "SIMPLERTFRAMEWORK_NORM_PRIO \<le> priority t" and "thread_main_inf k \<noteq> NULL" and "thread_main_inf k \<in> set ts"
    and "current_thread k = thread_main_inf k" and "deref (current_thread k) k = Some t"
proof -
  have wf: "runq_wf k ts" using assms by (simp add: alone_def)
  have "thread_main_inf k \<noteq> NULL" using runq_wf_deref [OF wf runq_wf_main [OF wf]] by (auto simp: deref_def)
  then show ?thesis using assms that runq_wf_main [OF wf] by (auto simp: alone_def in_charge_def deref_def)
qed

text \<open>Other kernels with the same threads.\<close>

lemma alone_store:
  assumes "alone ts k" and "thread_list k' = thread_list k" and "thread_main_inf k' = thread_main_inf k"
    and "current_thread k' = current_thread k" and "set ts \<subseteq> blocks k'"
    and "\<And>a. a \<in> set ts \<Longrightarrow> threads k' a = threads k a"
  shows "alone ts k'"
proof -
  obtain t where "threads k (thread_main_inf k) = Some t" "ats_pending t = 0"
    "SIMPLERTFRAMEWORK_NORM_PRIO \<le> priority t" "thread_main_inf k \<in> set ts"
    using alone_main [OF assms(1)] by metis
  then show ?thesis by (intro alone_cong [OF assms(1-5)]) (simp_all add: assms(6))
qed

section \<open>Yields\<close>

lemma account_priority:
  "priority (account d t) = priority t \<or> priority (account d t) = SIMPLERTFRAMEWORK_OVERRUN_PRIO"
  by (simp add: account_def Let_def)

lemma alone_yield:
  assumes "alone ts k"
  shows "\<exists>k'. thread_yield H k = Some k' \<and> alone ts k' \<and> same_store k k'"
proof -
  have wf: "runq_wf k ts" using assms by (simp add: alone_def)
  obtain t where t: "threads k (thread_main_inf k) = Some t" "ats_pending t = 0"
    "SIMPLERTFRAMEWORK_NORM_PRIO \<le> priority t" "thread_main_inf k \<noteq> NULL" "thread_main_inf k \<in> set ts"
    "current_thread k = thread_main_inf k"
    using alone_main [OF assms] by metis
  let ?k = "yield_result k ts"
  let ?g = "global_thread_tick_counter k"
  let ?u = "(account (?g - tick_counter_last_cost k) (refresh ?g (carry_tick_counter k) t))\<lparr>sp := hw_sp k - switch_frame\<rparr>"
  have u: "threads ?k (thread_main_inf k) = Some ?u"
    using t by (simp add: yield_result_def switched_def yield_heap_def refresh_on_mem Let_def)
  have "threads ?k a = threads k a" if mem: "a \<in> set ts" "a \<noteq> thread_main_inf k" for a
  proof -
    obtain x where "threads k a = Some x" "status x = SIMPLERTFRAMEWORK_ACTIVE"
      by (rule alone_underling [OF assms mem])
    then show ?thesis using yield_result_other [OF wf mem(1)] mem(2) t(6) by (simp add: refresh_active)
  qed
  moreover have "SIMPLERTFRAMEWORK_NORM_PRIO \<le> priority ?u"
    using account_priority [of "?g - tick_counter_last_cost k" "refresh ?g (carry_tick_counter k) t"] t(3)
    by (auto simp: rt_consts)
  ultimately have q: "alone ts ?k"
    using assms t(2,6) u by (intro alone_cong [OF assms _ _ _ _ _ t(1) u]) (simp_all add: alone_pick [OF assms] alone_def)
  have "ats_deliver H ?k = Some ?k"
    by (rule ats_deliver_idle [of _ ?u]) (use t u in \<open>simp_all add: alone_pick [OF assms]\<close>)
  then show ?thesis
    using q by (intro exI [of _ ?k]) (simp add: thread_yield_exact [OF wf] same_store_def)
qed

text \<open>A change of another thread that leaves it an underling.\<close>

lemma alone_upd:
  assumes "alone ts k" and "th \<in> set ts" and "th \<noteq> thread_main_inf k" and "threads k th = Some x"
    and "runq_next y = runq_next x" and "priority y = priority x" and "status y = status x"
    and "blocked_semaphore y = blocked_semaphore x"
  shows "alone ts (k\<lparr>threads := (threads k)(th \<mapsto> y)\<rparr>)"
proof -
  let ?k = "k\<lparr>threads := (threads k)(th \<mapsto> y)\<rparr>"
  have wf: "runq_wf k ts" using assms(1) by (simp add: alone_def)
  have "runq_wf ?k ts"
    using assms(4,5) runq_wf_current [OF wf] by (intro runq_wf_cong [OF _ _ _ _ wf]) simp_all
  moreover have "underling ?k a" if "a \<in> set ts - {thread_main_inf ?k}" for a
  proof -
    from that have a: "a \<in> set ts" "a \<noteq> thread_main_inf k" by simp_all
    obtain t where "threads k a = Some t" "priority t < SIMPLERTFRAMEWORK_NORM_PRIO"
      "status t = SIMPLERTFRAMEWORK_ACTIVE" "blocked_semaphore t = NULL"
      by (rule alone_underling [OF assms(1) a])
    then show ?thesis using assms(4,6-8) by (cases "a = th") (simp_all add: underling_def)
  qed
  ultimately show ?thesis using assms(1,3) by (auto simp: alone_def in_charge_def)
qed

text \<open>A change of the main thread's own structure.\<close>

lemma alone_upd_main:
  assumes "alone ts k" and "threads k (thread_main_inf k) = Some x"
    and "runq_next y = runq_next x" and "priority y = priority x" and "ats_pending y = ats_pending x"
  shows "alone ts (k\<lparr>threads := (threads k)(thread_main_inf k \<mapsto> y)\<rparr>)"
proof -
  obtain t where "threads k (thread_main_inf k) = Some t" "ats_pending t = 0" "SIMPLERTFRAMEWORK_NORM_PRIO \<le> priority t"
    by (rule alone_main [OF assms(1)])
  with assms show ?thesis by (intro alone_cong [OF assms(1) _ _ _ _ _ assms(2), of _ y]) (simp_all add: alone_def)
qed

section \<open>The contract of an operation the main program comes back from\<close>

locale returning_op =
  fixes opn :: "upcall \<Rightarrow> kernel \<Rightarrow> kernel option"
  assumes comes_back: "alone ts k \<Longrightarrow> \<exists>k'. opn H k = Some k' \<and> alone ts k' \<and> same_store k k'"
begin

lemma op_back:
  assumes "alone ts k"
  obtains k' where "opn H k = Some k'" and "alone ts k'" and "same_store k k'"
  using comes_back [OF assms] by blast

text \<open>Also when it follows a change of the main thread's own structure.\<close>

lemma op_back_after_upd:
  assumes "alone ts k" and "\<And>t. runq_next (f t) = runq_next t" and "\<And>t. priority (f t) = priority t"
    and "\<And>t. ats_pending (f t) = ats_pending t"
  obtains k1 k' where "upd_thread (current_thread k) f k = Some k1" and "opn H k1 = Some k'" and "alone ts k'"
    and "same_store k k'"
proof -
  obtain t where t: "threads k (thread_main_inf k) = Some t" "current_thread k = thread_main_inf k"
    "thread_main_inf k \<noteq> NULL" by (rule alone_main [OF assms(1)])
  let ?k = "k\<lparr>threads := (threads k)(thread_main_inf k \<mapsto> f t)\<rparr>"
  have "upd_thread (current_thread k) f k = Some ?k" using t by (simp add: upd_thread_def deref_def)
  moreover have "alone ts ?k" using assms(2-4) by (intro alone_upd_main [OF assms(1) t(1)]) simp_all
  then obtain k' where "opn H ?k = Some k'" "alone ts k'" "same_store ?k k'" by (rule op_back)
  ultimately show ?thesis using that by (simp add: same_store_def)
qed

end

interpretation alone_yielding: returning_op thread_yield
  by unfold_locales (rule alone_yield)

lemma alone_ATS_enable:
  assumes "alone ts k"
  shows "\<exists>k'. thread_ATS_enable H k = Some k' \<and> alone ts k' \<and> same_store k k'"
proof -
  obtain t where t: "deref (current_thread k) k = Some t" by (rule alone_main [OF assms])
  obtain k1 k' where "upd_thread (current_thread k) (\<lambda>t. t\<lparr>ats_active := 1\<rparr>) k = Some k1"
    "thread_yield H k1 = Some k'" "alone ts k'" "same_store k k'"
    by (rule alone_yielding.op_back_after_upd [OF assms, of "\<lambda>t. t\<lparr>ats_active := 1\<rparr>" H]) simp_all
  with t assms show ?thesis by (simp add: thread_ATS_enable_def)
qed

interpretation alone_ATS_enabling: returning_op thread_ATS_enable
  by unfold_locales (rule alone_ATS_enable)

lemma alone_ATS_disable:
  assumes "alone ts k"
  shows "\<exists>k'. thread_ATS_disable k = Some k' \<and> alone ts k' \<and> same_store k k'"
proof -
  obtain t where t: "deref (current_thread k) k = Some t" "threads k (thread_main_inf k) = Some t"
    "current_thread k = thread_main_inf k" "thread_main_inf k \<noteq> NULL" by (rule alone_main [OF assms])
  have "alone ts (k\<lparr>threads := (threads k)(thread_main_inf k \<mapsto> t\<lparr>ats_active := 0\<rparr>)\<rparr>)"
    by (rule alone_upd_main [OF assms t(2)]) simp_all
  with t assms show ?thesis by (simp add: thread_ATS_disable_def upd_thread_def same_store_def)
qed

interpretation alone_ATS_disabling: returning_op "\<lambda>_. thread_ATS_disable"
  by unfold_locales (rule alone_ATS_disable)

section \<open>Signals to the other threads\<close>

lemma signal_update_keeps_more [simp]:
  "priority (snd (signal_update now t)) = priority t"
  "blocked_semaphore (snd (signal_update now t)) = blocked_semaphore t"
  by (simp_all add: signal_update_def)

lemma alone_signal:
  assumes "alone ts k" and "th \<in> set ts" and "th \<noteq> thread_main_inf k"
  shows "\<exists>r k'. thread_signal H th k = Some (r, k') \<and> alone ts k' \<and> same_store k k'"
proof -
  obtain t where t: "threads k th = Some t" "status t = SIMPLERTFRAMEWORK_ACTIVE" "th \<noteq> NULL"
    by (rule alone_underling [OF assms])
  let ?u = "signal_update (global_thread_tick_counter k) t"
  have "alone ts (k\<lparr>threads := (threads k)(th \<mapsto> snd ?u)\<rparr>)" by (rule alone_upd [OF assms t(1)]) simp_all
  with t show ?thesis
    by (simp add: thread_signal_def thread_unblock_def upd_thread_def deref_def case_prod_beta same_store_def rt_consts)
qed

lemma alone_ATS_signal:
  assumes "alone ts k" and "th \<in> set ts" and "th \<noteq> thread_main_inf k"
  shows "\<exists>k'. thread_ATS_signal H th k = Some (0, k') \<and> alone ts k' \<and> same_store k k'"
proof -
  obtain t where t: "threads k th = Some t" "th \<noteq> NULL" by (rule alone_underling [OF assms])
  let ?k = "k\<lparr>threads := (threads k)(th \<mapsto> t\<lparr>ats_pending := ats_pending t + 1\<rparr>)\<rparr>"
  have "alone ts ?k" by (rule alone_upd [OF assms t(1)]) simp_all
  then obtain k' where "thread_yield H ?k = Some k'" "alone ts k'" "same_store ?k k'"
    by (rule alone_yielding.op_back)
  with t show ?thesis by (simp add: thread_ATS_signal_def upd_thread_def deref_def same_store_def)
qed

section \<open>Semaphores\<close>

lemma alone_P:
  assumes "alone ts k" and "sem \<noteq> NULL" and "sems k sem = Some v"
  shows "\<exists>k'. thread_semaphore_P H sem k = Some k' \<and> alone ts k' \<and> answers k' = answers k \<and> blocks k' = blocks k
    \<and> queues k' = queues k \<and> thread_main_inf k' = thread_main_inf k
    \<and> sems k' = (sems k)(sem \<mapsto> if sint v \<le> 0 then v else v - 1)"
proof (cases "sint v \<le> 0")
  case True
  obtain k1 k' where "upd_thread (current_thread k)
      (\<lambda>t. t\<lparr>blocked_semaphore := sem, status := SIMPLERTFRAMEWORK_SEM_BLOCKED\<rparr>) k = Some k1"
    "thread_yield H k1 = Some k'" "alone ts k'" "same_store k k'"
    by (rule alone_yielding.op_back_after_upd [OF assms(1), of "\<lambda>t. t\<lparr>blocked_semaphore := sem,
          status := SIMPLERTFRAMEWORK_SEM_BLOCKED\<rparr>" H]) simp_all
  moreover have "(sems k)(sem \<mapsto> v) = sems k" using assms(3) by (simp add: fun_upd_idem)
  ultimately show ?thesis using True assms(2,3) by (simp add: thread_semaphore_P_def same_store_def)
next
  case False
  have "alone ts (k\<lparr>sems := (sems k)(sem \<mapsto> v - 1)\<rparr>)"
    using assms(1) by (intro alone_store [OF assms(1)]) (simp_all add: alone_def)
  with False assms(2,3) show ?thesis by (simp add: thread_semaphore_P_def)
qed

lemma alone_no_choice:
  assumes "alone ts k" and "sem \<noteq> NULL"
  shows "sem_choice sem ts k = NULL"
proof (rule ccontr)
  have wf: "runq_wf k ts" using assms(1) by (simp add: alone_def)
  assume "sem_choice sem ts k \<noteq> NULL"
  with sem_choice_cases [OF wf, of sem] have c: "sem_choice sem ts k \<in> set (butlast ts)"
    and w: "waits (threads k) sem (sem_choice sem ts k)" by auto
  from c have "sem_choice sem ts k \<in> set ts" "sem_choice sem ts k \<noteq> thread_main_inf k"
    using runq_wf_butlast(3) [OF wf] by auto
  then obtain t where "threads k (sem_choice sem ts k) = Some t" "blocked_semaphore t = NULL"
    by (rule alone_underling [OF assms(1)])
  with w assms(2) show False by (simp add: waits_def)
qed

lemma alone_V:
  assumes "alone ts k" and "sem \<noteq> NULL" and "sems k sem = Some v"
  shows "\<exists>k'. thread_semaphore_V H sem k = Some k' \<and> alone ts k' \<and> answers k' = answers k \<and> blocks k' = blocks k
    \<and> queues k' = queues k \<and> thread_main_inf k' = thread_main_inf k \<and> sems k' = (sems k)(sem \<mapsto> v + 1)"
proof -
  have wf: "runq_wf k ts" using assms(1) by (simp add: alone_def)
  have "alone ts (k\<lparr>sems := (sems k)(sem \<mapsto> v + 1)\<rparr>)"
    using assms(1) by (intro alone_store [OF assms(1)]) (simp_all add: alone_def)
  then show ?thesis by (simp add: sem_V_eq [OF wf assms(2,3)] alone_no_choice [OF assms(1,2)])
qed

section \<open>Enough memory\<close>

text \<open>\<open>malloc\<close> will grant the next \<open>n\<close> requests.\<close>

definition stocked :: "nat \<Rightarrow> kernel \<Rightarrow> bool" where
  "stocked n k \<longleftrightarrow> n \<le> length (answers k) \<and> distinct (map ptr (take n (answers k)))
     \<and> (\<forall>c \<in> set (take n (answers k)). ptr c \<noteq> NULL \<and> ptr c \<notin> blocks k)"

lemma stocked_malloc:
  assumes "stocked (Suc n) k"
  obtains c k' where "malloc k = (Some c, k')" and "stocked n k'" and "ptr c \<noteq> NULL" and "ptr c \<notin> blocks k"
    and "k' = k\<lparr>answers := tl (answers k), blocks := insert (ptr c) (blocks k)\<rparr>"
proof -
  from assms obtain c cs where a: "answers k = c # cs" by (cases "answers k") (auto simp: stocked_def)
  let ?k = "k\<lparr>answers := cs, blocks := insert (ptr c) (blocks k)\<rparr>"
  have "ptr c \<noteq> NULL" "ptr c \<notin> blocks k" using assms a by (simp_all add: stocked_def)
  moreover from this have "malloc k = (Some c, ?k)" using a by (simp add: malloc_def)
  moreover have "ptr x \<noteq> ptr c" if "x \<in> set (take n cs)" for x
  proof -
    have "ptr c \<notin> ptr ` set (take n cs)" using assms a by (simp add: stocked_def)
    with that show ?thesis by (metis imageI)
  qed
  then have "stocked n ?k" using assms a by (simp add: stocked_def)
  ultimately show ?thesis using that a by simp
qed

lemma stocked_cong: "stocked n k \<Longrightarrow> answers k' = answers k \<Longrightarrow> blocks k' \<subseteq> blocks k \<Longrightarrow> stocked n k'"
  by (auto simp: stocked_def)

lemma stocked_same: "stocked n k \<Longrightarrow> same_store k k' \<Longrightarrow> stocked n k'"
  using stocked_cong [of n k k'] by (simp add: same_store_def)

lemma alone_take:
  assumes "alone ts k"
  shows "alone ts (k\<lparr>answers := cs, blocks := insert p (blocks k)\<rparr>)"
  using assms by (intro alone_store [OF assms]) (auto simp: alone_def)

text \<open>A thread of low priority, with a stack from \<open>malloc\<close>, made by \<open>periodic_thread_create\<close>.\<close>

lemma alone_creates:
  assumes "alone ts k" and "stocked (Suc (Suc n)) k" and "pri < SIMPLERTFRAMEWORK_NORM_PRIO"
  shows "\<exists>th k'. periodic_thread_create H img entry params NULL stk_size pri off per dl cost handler k = Some (th, k')
    \<and> alone (th # ts) k' \<and> stocked n k' \<and> thread_main_inf k' = thread_main_inf k \<and> th \<noteq> thread_main_inf k"
proof -
  obtain c k1 where m: "malloc k = (Some c, k1)" and s1: "stocked (Suc n) k1" and c: "ptr c \<noteq> NULL" "ptr c \<notin> blocks k"
    and k1: "k1 = k\<lparr>answers := tl (answers k), blocks := insert (ptr c) (blocks k)\<rparr>"
    using stocked_malloc [OF assms(2)] .
  obtain d k2 where d: "malloc k1 = (Some d, k2)" and s2: "stocked n k2" and dn: "ptr d \<noteq> NULL"
    and k2: "k2 = k1\<lparr>answers := tl (answers k1), blocks := insert (ptr d) (blocks k1)\<rparr>"
    using stocked_malloc [OF s1] .
  have st: "stack_source NULL k1 (ptr d) k2" using d by (simp add: stack_source_def)
  have wf: "runq_wf k ts" and b: "set ts \<subseteq> blocks k" using assms(1) by (simp_all add: alone_def)
  let ?T = "(fresh_thread (as_thread c) (ptr d) stk_size pri NULL)\<lparr>runq_next := thread_list k\<rparr>"
  let ?U = "?T\<lparr>executor := entry, params_and_data := params, error_handler := handler, offset_ticks := off div us_per_tick,
       min_period_ticks := per div us_per_tick, max_cost_ticks := cost div us_per_tick,
       max_deadline_ticks := dl div us_per_tick, block_pattern := 0x00, ats_active := 0, ats_pending := 0, ats_max := 0,
       blocked_semaphore := NULL\<rparr>"
  let ?k3 = "k2\<lparr>mem := entry_frame (ptr d + stk_size - 1) (periodic_pattern_at img) (mem k),
       threads := (threads k)(ptr c \<mapsto> ?T), thread_list := ptr c\<rparr>"
  let ?k4 = "?k3\<lparr>threads := (threads k)(ptr c \<mapsto> ?U)\<rparr>"
  note e = thread_create_exact [OF m st runq_wf_list_nonnull [OF wf], of H img "periodic_pattern_at img" stk_size pri NULL]
  have "periodic_thread_create H img entry params NULL stk_size pri off per dl cost handler k = Some (ptr c, ?k4)"
    using c(1) unfolding periodic_thread_create_def e by (simp add: upd_thread_def deref_def)
  moreover have new: "ptr c \<notin> set ts" using b c(2) by blast
  have q: "runq_wf ?k3 (ptr c # ts)" by (rule thread_create_wf(3) [OF wf b m st e])
  have "runq_wf ?k4 (ptr c # ts)"
    by (rule runq_wf_cong [OF _ _ _ _ q]) (use runq_wf_current [OF q] in simp_all)
  have "stocked n ?k4" by (rule stocked_cong [OF s2]) simp_all
  moreover have "alone (ptr c # ts) ?k4"
  proof -
    have "ptr c \<noteq> thread_main_inf k" using new runq_wf_main [OF wf] by auto
    then have "underling ?k4 a" if "a \<in> set (ptr c # ts) - {thread_main_inf ?k4}" for a
      using that assms(1,3) by (auto simp: underling_def alone_def k1 k2 fresh_thread_def)
    moreover have "in_charge ?k4"
      using assms(1) \<open>ptr c \<noteq> thread_main_inf k\<close> by (auto simp: alone_def in_charge_def k1 k2)
    ultimately show ?thesis
      using \<open>runq_wf ?k4 (ptr c # ts)\<close> b unfolding alone_def by (auto simp: k1 k2)
  qed
  moreover have "ptr c \<noteq> thread_main_inf k" using new runq_wf_main [OF wf] by auto
  ultimately show ?thesis by (intro exI [of _ "ptr c"] exI [of _ ?k4]) (simp add: k1 k2)
qed

text \<open>The first thread, which brings the main thread's structure with it.\<close>

lemma alone_starts:
  assumes "thread_list k = NULL" and "stocked (Suc (Suc (Suc n))) k" and "pri < SIMPLERTFRAMEWORK_NORM_PRIO"
  shows "\<exists>th k' m. periodic_thread_create H img entry params NULL stk_size pri off per dl cost handler k = Some (th, k')
    \<and> alone [th, m] k' \<and> stocked n k' \<and> thread_main_inf k' = m \<and> th \<noteq> m"
proof -
  obtain c k1 where m1: "malloc k = (Some c, k1)" and s1: "stocked (Suc (Suc n)) k1" and c: "ptr c \<noteq> NULL"
    and k1: "k1 = k\<lparr>answers := tl (answers k), blocks := insert (ptr c) (blocks k)\<rparr>"
    using stocked_malloc [OF assms(2)] .
  obtain d k2 where m2: "malloc k1 = (Some d, k2)" and s2: "stocked (Suc n) k2"
    and k2: "k2 = k1\<lparr>answers := tl (answers k1), blocks := insert (ptr d) (blocks k1)\<rparr>"
    using stocked_malloc [OF s1] .
  obtain m k3 where m3: "malloc k2 = (Some m, k3)" and s3: "stocked n k3" and mn: "ptr m \<noteq> NULL" "ptr m \<notin> blocks k2"
    and k3: "k3 = k2\<lparr>answers := tl (answers k2), blocks := insert (ptr m) (blocks k2)\<rparr>"
    using stocked_malloc [OF s2] .
  have ne: "ptr c \<noteq> ptr m" using mn(2) by (auto simp: k1 k2)
  have st: "stack_source NULL k1 (ptr d) k2" using m2 by (simp add: stack_source_def)
  let ?T = "(fresh_thread (as_thread c) (ptr d) stk_size pri NULL)\<lparr>runq_next := ptr m\<rparr>"
  let ?f = "\<lambda>t :: thread. t\<lparr>executor := entry, params_and_data := params, error_handler := handler,
       offset_ticks := off div us_per_tick, min_period_ticks := per div us_per_tick,
       max_cost_ticks := cost div us_per_tick, max_deadline_ticks := dl div us_per_tick, block_pattern := 0x00,
       ats_active := 0, ats_pending := 0, ats_max := 0, blocked_semaphore := NULL\<rparr>"
  obtain s' where e: "thread_create H img (periodic_pattern_at img) NULL stk_size pri NULL k = Some (ptr c, s')"
    and wf: "runq_wf s' [ptr c, ptr m]" and s': "current_thread s' = ptr m" "blocks s' = blocks k3" "answers s' = answers k3"
      "threads s' (ptr c) = Some ?T"
      "threads s' (ptr m) = Some ((main_thread img (as_thread m))\<lparr>sp := hw_sp k - switch_frame\<rparr>)"
    using thread_create_first [OF m1 st assms(1) m3, of H img "periodic_pattern_at img" stk_size pri NULL] by blast
  let ?k = "s'\<lparr>threads := (threads s')(ptr c \<mapsto> ?f ?T)\<rparr>"
  have e': "periodic_thread_create H img entry params NULL stk_size pri off per dl cost handler k = Some (ptr c, ?k)"
    using c s'(4) unfolding periodic_thread_create_def e by (simp add: upd_thread_def deref_def)
  have m: "thread_main_inf s' = ptr m" using wf by (simp add: runq_wf_def)
  have w: "runq_wf ?k [ptr c, ptr m]"
    by (rule runq_wf_cong [OF _ _ _ _ wf]) (simp_all add: s')
  have s4: "stocked n ?k" by (rule stocked_cong [OF s3]) (simp_all add: s')
  have "underling ?k (ptr c)" using assms(3) by (simp add: underling_def fresh_thread_def)
  moreover have "set [ptr c, ptr m] - {thread_main_inf ?k} = {ptr c}" using ne m by auto
  moreover have "in_charge ?k" using ne m s' by (simp add: in_charge_def main_thread_def)
  moreover have "set [ptr c, ptr m] \<subseteq> blocks ?k" using s' by (simp add: k1 k2 k3)
  ultimately have "alone [ptr c, ptr m] ?k" using w by (simp only: alone_def ball_simps)
  with e' s4 show ?thesis using ne m by (intro exI [of _ "ptr c"] exI [of _ ?k] exI [of _ "ptr m"]) simp
qed

section \<open>Blocks of memory\<close>

text \<open>A block that no thread lives in.\<close>

definition held :: "addr \<Rightarrow> addr list \<Rightarrow> kernel \<Rightarrow> bool" where
  "held p ts k \<longleftrightarrow> p \<noteq> NULL \<and> p \<in> blocks k \<and> p \<notin> set ts"

lemma alone_malloc:
  assumes "alone ts k" and "stocked (Suc n) k"
  obtains c k' where "malloc k = (Some c, k')" and "alone ts k'" and "stocked n k'" and "held (ptr c) ts k'"
    and "sems k' = sems k" and "queues k' = queues k" and "thread_main_inf k' = thread_main_inf k"
proof -
  obtain c k' where m: "malloc k = (Some c, k')" "stocked n k'" "ptr c \<noteq> NULL" "ptr c \<notin> blocks k"
    and k': "k' = k\<lparr>answers := tl (answers k), blocks := insert (ptr c) (blocks k)\<rparr>"
    using stocked_malloc [OF assms(2)] .
  have "alone ts k'" unfolding k' by (rule alone_take [OF assms(1)])
  moreover have "held (ptr c) ts k'" using m(3,4) assms(1) by (auto simp: held_def k' alone_def)
  ultimately show ?thesis by (rule that [OF m(1) _ m(2)]) (simp_all add: k')
qed

lemma alone_free:
  assumes "alone ts k" and "held p ts k"
  shows "\<exists>k'. thread_free p k = Some k' \<and> alone ts k' \<and> (stocked n k \<longrightarrow> stocked n k')
    \<and> thread_main_inf k' = thread_main_inf k"
proof -
  let ?k = "k\<lparr>blocks := blocks k - {p}, threads := (threads k)(p := None), sems := (sems k)(p := None),
     queues := (queues k)(p := None)\<rparr>"
  have "alone ts ?k"
    using assms by (intro alone_store [OF assms(1)]) (auto simp: held_def alone_def)
  moreover have "stocked n ?k" if "stocked n k" by (rule stocked_cong [OF that]) auto
  ultimately show ?thesis using assms(2) by (simp add: thread_free_def held_def)
qed

lemma alone_queue_create:
  assumes "alone ts k" and "stocked (Suc n) k" and "2 * m + queue_header \<ge> queue_header"
  shows "\<exists>p k' es. thread_queue_create m k = Some (p, k') \<and> alone ts k' \<and> stocked n k' \<and> held p ts k'
    \<and> queues k' p = Some \<lparr>stored = 0, howmany = ucast m, read_index = 0, write_index = 0, elements = es\<rparr>
    \<and> length es = unat (2 * m + queue_header - queue_header) div 2 \<and> thread_main_inf k' = thread_main_inf k
    \<and> blocks k \<subseteq> blocks k' \<and> (\<forall>a \<in> blocks k. queues k' a = queues k a)"
proof -
  obtain c k1 where m: "malloc k = (Some c, k1)" and a: "alone ts k1" and s: "stocked n k1" and h: "held (ptr c) ts k1"
    and i: "thread_main_inf k1 = thread_main_inf k" "queues k1 = queues k" by (rule alone_malloc [OF assms(1,2)])
  have new: "ptr c \<notin> blocks k" "blocks k \<subseteq> blocks k1" using m by (auto simp: malloc_Some_iff)
  let ?q = "\<lparr>stored = 0, howmany = ucast m, read_index = 0, write_index = 0,
     elements = map (as_words c) [0..<unat (2 * m + queue_header - queue_header) div 2]\<rparr>"
  let ?k = "k1\<lparr>queues := (queues k1)(ptr c \<mapsto> ?q)\<rparr>"
  have "thread_queue_create m k = Some (ptr c, ?k)"
    using assms(3) by (simp add: thread_queue_create_def thread_malloc_def m Let_def)
  moreover have "alone ts ?k" using a by (intro alone_store [OF a]) (simp_all add: alone_def)
  moreover have "stocked n ?k" by (rule stocked_cong [OF s]) simp_all
  moreover have "\<forall>a \<in> blocks k. queues ?k a = queues k a" using new i by auto
  ultimately show ?thesis using h i new(2) by (simp add: held_def)
qed

lemma alone_queues: "alone ts k \<Longrightarrow> alone ts (k\<lparr>queues := q\<rparr>)"
  by (rule alone_store) (simp_all add: alone_def)

lemma alone_mem: "alone ts k \<Longrightarrow> alone ts (k\<lparr>mem := m\<rparr>)"
  by (rule alone_store) (simp_all add: alone_def)

lemma alone_sem_create:
  assumes "alone ts k" and "stocked (Suc n) k"
  shows "\<exists>p k'. thread_semaphore_create v k = Some (p, k') \<and> alone ts k' \<and> stocked n k' \<and> held p ts k'
    \<and> sems k' p = Some v \<and> (\<forall>a \<in> blocks k. sems k' a = sems k a) \<and> blocks k \<subseteq> blocks k'
    \<and> thread_main_inf k' = thread_main_inf k"
proof -
  obtain c k1 where m: "malloc k = (Some c, k1)" and a: "alone ts k1" and s: "stocked n k1" and h: "held (ptr c) ts k1"
    and i: "sems k1 = sems k" "thread_main_inf k1 = thread_main_inf k"
    by (rule alone_malloc [OF assms])
  have new: "ptr c \<notin> blocks k" "blocks k \<subseteq> blocks k1" using m by (auto simp: malloc_Some_iff)
  let ?k = "k1\<lparr>sems := (sems k1)(ptr c \<mapsto> v)\<rparr>"
  have "alone ts ?k" using a by (intro alone_store [OF a]) (simp_all add: alone_def)
  moreover have "stocked n ?k" by (rule stocked_cong [OF s]) simp_all
  moreover have "\<forall>a \<in> blocks k. sems ?k a = sems k a" using new i by auto
  ultimately show ?thesis
    using h i new(2) by (simp add: thread_semaphore_create_def thread_malloc_def m held_def)
qed

lemma alone_sem_free:
  assumes "alone ts k" and "held sem ts k"
  shows "\<exists>k'. thread_semaphore_free sem k = Some k' \<and> alone ts k' \<and> (stocked n k \<longrightarrow> stocked n k')
    \<and> thread_main_inf k' = thread_main_inf k"
proof -
  have wf: "runq_wf k ts" and nn: "sem \<noteq> NULL" using assms by (simp_all add: alone_def held_def)
  let ?k = "freed sem ts k"
  have "threads ?k a = threads k a" if mem: "a \<in> set ts" "a \<noteq> thread_main_inf k" for a
  proof -
    obtain t where "threads k a = Some t" "status t = SIMPLERTFRAMEWORK_ACTIVE"
      by (rule alone_underling [OF assms(1) mem])
    moreover from this have "release sem t = t" by (simp add: release_def rt_consts)
    moreover have "a \<noteq> sem" using mem(1) assms(2) by (auto simp: held_def)
    ultimately show ?thesis by (simp add: freed_def)
  qed
  moreover have "threads ?k (thread_main_inf k) = threads k (thread_main_inf k)"
    using runq_wf_butlast(2) [OF wf] runq_wf_main [OF wf] assms(2) by (auto simp: freed_def held_def)
  ultimately have "threads ?k a = threads k a" if "a \<in> set ts" for a
    using that by (cases "a = thread_main_inf k") auto
  moreover have "set ts \<subseteq> blocks ?k" using assms by (auto simp: freed_def held_def alone_def)
  ultimately have "alone ts ?k" by (intro alone_store [OF assms(1)]) (simp_all add: freed_def)
  moreover have "stocked n ?k" if "stocked n k" by (rule stocked_cong [OF that]) (auto simp: freed_def)
  ultimately show ?thesis
    using sem_free_eq [OF wf nn] assms(2) by (simp add: held_def freed_def)
qed

end
