(* ===== verification/Ex_Perf.thy ===== *)
theory Ex_Perf
  imports RT_Sketch RT_Alone
begin

text \<open>
  The performance tests: \<open>perf_test_rtframework\<close> and its variants \<open>_2\<close> and \<open>_3\<close> in examples, prefixes
  \<open>perf\<close>, \<open>perf2\<close> and \<open>perf3\<close>; the one in examples/rtthreads, \<open>rperf\<close>; and the one beside examples, \<open>sperf\<close>.
  Their \<open>loop\<close> goes once through the operations of the library and shows the time and the memory each
  takes. It is cut into parts by what is measured; a part or a function that two of the sketches have in
  the same words is modelled once. What \<open>micros()\<close> answers and where the heap ends (\<open>__brkval\<close>) are two
  sequences in the state.
\<close>

section \<open>Variables\<close>

text \<open>The measuring variables of \<open>loop\<close> and the readings to come, and the variables for what \<open>loop\<close> makes.\<close>

record meter =
  m_t1 :: u32
  m_t2 :: u32
  m_mem1 :: s16
  m_mem2 :: s16
  m_micros :: "nat \<Rightarrow> u32"
  m_brkval :: "nat \<Rightarrow> u16"

record perf_objs =
  o_th1 :: addr
  o_th2 :: addr
  o_queue :: addr
  o_sem :: addr
  o_ptr :: addr

text \<open>The variables outside \<open>loop\<close>; its own \<open>th1\<close> hides the one the tasks use.\<close>

record perf_vars =
  p_meter :: meter
  p_objs :: perf_objs
  p_counter :: u32
  p_th1 :: addr
  p_handler :: s16
  p_aux :: s16
  p_aux_t :: s16

type_synonym perf = "(kernel, perf_vars) app prog"

section \<open>Statements\<close>

definition on_meter :: "(meter \<Rightarrow> meter) \<Rightarrow> perf" where
  "on_meter f = assign (\<lambda>v. v\<lparr>p_meter := f (p_meter v)\<rparr>)"

definition later :: "(nat \<Rightarrow> 'a) \<Rightarrow> nat \<Rightarrow> 'a" where
  "later f n = f (Suc n)"

definition set_t1 :: perf where
  "set_t1 = on_meter (\<lambda>m. m\<lparr>m_t1 := m_micros m 0, m_micros := later (m_micros m)\<rparr>)"

definition set_t2 :: perf where
  "set_t2 = on_meter (\<lambda>m. m\<lparr>m_t2 := m_micros m 0, m_micros := later (m_micros m)\<rparr>)"

definition skip_micros :: perf where
  "skip_micros = on_meter (\<lambda>m. m\<lparr>m_micros := later (m_micros m)\<rparr>)"

definition set_mem1 :: perf where
  "set_mem1 = on_meter (\<lambda>m. m\<lparr>m_mem1 := m_brkval m 0, m_brkval := later (m_brkval m)\<rparr>)"

definition set_mem2 :: perf where
  "set_mem2 = on_meter (\<lambda>m. m\<lparr>m_mem2 := m_brkval m 0, m_brkval := later (m_brkval m)\<rparr>)"

definition sub_t :: perf where
  "sub_t = on_meter (\<lambda>m. m\<lparr>m_t2 := m_t2 m - m_t1 m\<rparr>)"

definition sub_mem :: perf where
  "sub_mem = on_meter (\<lambda>m. m\<lparr>m_mem2 := m_mem2 m - m_mem1 m\<rparr>)"

definition div_t :: perf where
  "div_t = on_meter (\<lambda>m. m\<lparr>m_t2 := m_t2 m div 10\<rparr>)"

definition inc_mem1 :: perf where
  "inc_mem1 = on_meter (\<lambda>m. m\<lparr>m_mem1 := m_mem1 m + 1\<rparr>)"

definition dec_mem1 :: perf where
  "dec_mem1 = on_meter (\<lambda>m. m\<lparr>m_mem1 := m_mem1 m - 1\<rparr>)"

definition show_t2 :: perf where
  "show_t2 = println_num (\<lambda>a. uint (m_t2 (p_meter (vars a))))"

definition show_mem2 :: perf where
  "show_mem2 = println_num (\<lambda>a. sint (m_mem2 (p_meter (vars a))))"

text \<open>\<open>sizeof(struct thread_t)\<close>: 8 pointers, 8 bytes, a 16-bit and eleven 32-bit numbers; the AVR packs them.\<close>

definition show_sizeof :: perf where
  "show_sizeof = print_num (\<lambda>_. 8 * 2 + 8 + 2 + 11 * 4)"

text \<open>A measurement, in the two orders the sketches subtract in.\<close>

definition timed :: "string \<Rightarrow> string \<Rightarrow> perf list \<Rightarrow> perf" where
  "timed us bytes xs = block ([set_mem1, set_t1] @ xs @ [set_t2, set_mem2, sub_t, sub_mem,
     print_str us, show_t2, print_str bytes, show_mem2])"

definition timed_mem_first :: "string \<Rightarrow> string \<Rightarrow> perf list \<Rightarrow> perf" where
  "timed_mem_first us bytes xs = block ([set_mem1, set_t1] @ xs @ [set_t2, set_mem2, sub_mem, sub_t,
     print_str us, show_t2, print_str bytes, show_mem2])"

text \<open>The calls that are measured.\<close>

definition keep :: "(perf_objs \<Rightarrow> perf_objs) \<Rightarrow> perf" where
  "keep f = assign (\<lambda>v. v\<lparr>p_objs := f (p_objs v)\<rparr>)"

definition new_thread :: "target \<Rightarrow> (addr \<Rightarrow> perf) \<Rightarrow> perf" where
  "new_thread T = new_periodic T (at T ''periodic_task1'') NULL NULL 200 0 0 1000000 1000000 500000
     (at T ''error_handler_task1'')"

definition make_th1 :: "target \<Rightarrow> perf" where
  "make_th1 T = new_thread T (\<lambda>p. keep (\<lambda>v. v\<lparr>o_th1 := p\<rparr>))"

definition make_th2 :: "target \<Rightarrow> perf" where
  "make_th2 T = new_thread T (\<lambda>p. keep (\<lambda>v. v\<lparr>o_th2 := p\<rparr>))"

definition signal_th1 :: "target \<Rightarrow> perf" where
  "signal_th1 T = kcall_with_then (\<lambda>v. thread_signal (handlers T) (o_th1 (p_objs v))) (\<lambda>_. Done)"

definition ATS_signal_th1 :: "target \<Rightarrow> perf" where
  "ATS_signal_th1 T = kcall_with_then (\<lambda>v. thread_ATS_signal (handlers T) (o_th1 (p_objs v))) (\<lambda>_. Done)"

definition enable_ATS :: "target \<Rightarrow> perf" where
  "enable_ATS T = kcall (thread_ATS_enable (handlers T))"

definition disable_ATS :: perf where
  "disable_ATS = kcall thread_ATS_disable"

definition yield :: "target \<Rightarrow> perf" where
  "yield T = kcall (thread_yield (handlers T))"

definition make_queue :: "u16 \<Rightarrow> perf" where
  "make_queue n = kcall_then (thread_queue_create n) (\<lambda>p. keep (\<lambda>v. v\<lparr>o_queue := p\<rparr>))"

definition drop_queue :: "u16 \<Rightarrow> perf" where
  "drop_queue n = kcall_then (thread_queue_create n) (\<lambda>_. Done)"

definition put_queue :: perf where
  "put_queue = kcall_with_then (\<lambda>v. thread_queue_nb_set_element (o_queue (p_objs v)) (o_queue (p_objs v))) (\<lambda>_. Done)"

definition get_queue :: perf where
  "get_queue = kcall_with_then (\<lambda>v. thread_queue_nb_get_element (o_queue (p_objs v))) (\<lambda>_. Done)"

definition delete_queue :: perf where
  "delete_queue = kcall_with (\<lambda>v. thread_queue_delete (o_queue (p_objs v)))"

definition malloc_ptr :: "kernel \<Rightarrow> (addr \<times> kernel) option" where
  "malloc_ptr s = (let (c, s) = thread_malloc s in Some (case c of None \<Rightarrow> NULL | Some c \<Rightarrow> ptr c, s))"

definition make_block :: perf where
  "make_block = kcall_then malloc_ptr (\<lambda>p. keep (\<lambda>v. v\<lparr>o_ptr := p\<rparr>))"

definition drop_block :: perf where
  "drop_block = kcall_then malloc_ptr (\<lambda>_. Done)"

definition free_block :: perf where
  "free_block = kcall_with (\<lambda>v. thread_free (o_ptr (p_objs v)))"

definition make_sem :: "s16 \<Rightarrow> perf" where
  "make_sem n = kcall_then (thread_semaphore_create n) (\<lambda>p. keep (\<lambda>v. v\<lparr>o_sem := p\<rparr>))"

definition drop_sem :: "s16 \<Rightarrow> perf" where
  "drop_sem n = kcall_then (thread_semaphore_create n) (\<lambda>_. Done)"

definition P_sem :: "target \<Rightarrow> perf" where
  "P_sem T = kcall_with (\<lambda>v. thread_semaphore_P (handlers T) (o_sem (p_objs v)))"

definition V_sem :: "target \<Rightarrow> perf" where
  "V_sem T = kcall_with (\<lambda>v. thread_semaphore_V (handlers T) (o_sem (p_objs v)))"

definition free_sem :: perf where
  "free_sem = kcall_with (\<lambda>v. thread_semaphore_free (o_sem (p_objs v)))"

definition read_time :: perf where
  "read_time = kread (Some \<circ> thread_get_time) (\<lambda>_. Done)"

definition read_error :: perf where
  "read_error = kread (\<lambda>_. Some thread_get_error_in_time) (\<lambda>_. Done)"

definition read_cell :: "(u32 \<Rightarrow> kernel \<Rightarrow> 'a) \<Rightarrow> addr \<Rightarrow> perf" where
  "read_cell f p = kread (Some \<circ> f (ucast p)) (\<lambda>_. Done)"

definition write_cell :: "(u32 \<Rightarrow> 'a::zero \<Rightarrow> kernel \<Rightarrow> kernel) \<Rightarrow> addr \<Rightarrow> perf" where
  "write_cell f p = kcall (Some \<circ> f (ucast p) 0)"

section \<open>The functions outside loop\<close>

definition perf_setup :: perf where
  "perf_setup = block [serial_begin 9600, pinMode 2 INPUT, pinMode 13 OUTPUT]"

definition perf_periodic_task1 :: "target \<Rightarrow> perf" where
  "perf_periodic_task1 T = block [
     assign (\<lambda>v. v\<lparr>p_counter := p_counter v + 1\<rparr>),
     print_str (''[T1] THREAD 1------'' @ nl @ ''  current time(us): '' @ tab @ '' '' @ tab),
     print_num (\<lambda>a. uint (thread_get_time (kern a))),
     print_str (nl @ ''   error handler:'' @ tab),
     println_num (\<lambda>a. sint (p_handler (vars a))),
     print_str (nl @ ''   auxt:'' @ tab),
     println_num (\<lambda>a. sint (p_aux_t (vars a))),
     assign (\<lambda>v. v\<lparr>p_aux := 0\<rparr>),
     kcall (thread_ATS_enable (handlers T)),
     assign (\<lambda>v. v\<lparr>p_aux := 1\<rparr>),
     kcall_with_then (\<lambda>v. thread_ATS_signal (handlers T) (p_th1 v)) (\<lambda>_. Done),
     assign (\<lambda>v. v\<lparr>p_aux := 2\<rparr>),
     kcall thread_ATS_disable,
     assign (\<lambda>v. v\<lparr>p_aux := 3\<rparr>)]"

definition perf_error_handler_task1 :: "s16 \<Rightarrow> perf" where
  "perf_error_handler_task1 what = block [
     cond (\<lambda>_. what = SIMPLERTFRAMEWORK_ATS_SIGNAL) (assign (\<lambda>v. v\<lparr>p_handler := p_handler v + 1\<rparr>)) Done,
     assign (\<lambda>v. v\<lparr>p_aux_t := p_aux v\<rparr>)]"

section \<open>examples/perf_test_rtframework\<close>

definition perf_begin :: perf where
  "perf_begin = block [
     print_str (''Simple PERFORMANCE TESTs '' @ nl),
     set_t1,
     set_t2,
     set_mem1,
     set_mem2,
     sub_t,
     print_str (''error_(us)'' @ tab),
     show_t2,
     set_mem2]"

definition perf_threads :: "target \<Rightarrow> perf" where
  "perf_threads T = block [
     timed (''1_hilo_200(us)'' @ tab) (''1_hilo_200(bytes)'' @ tab) [make_th1 T],
     print_str ''sizof THREAD:'',
     show_sizeof,
     println_str ''  ++GOOD:'',
     timed (''2_hilo_200(us)'' @ tab) (''2_hilo_200(bytes)'' @ tab) [make_th2 T]]"

definition perf_signal :: "target \<Rightarrow> perf" where
  "perf_signal T = block [
     timed (''thread_signal_(us)'' @ tab) (''trhreadsignal_(bytes)'' @ tab) [signal_th1 T]]"

definition perf_queue :: perf where
  "perf_queue = block [
     timed (''queue_create_100_(us)'' @ tab) (''queue_create_100_(bytes)'' @ tab) [make_queue 100],
     timed (''queue_create_10_(us)'' @ tab) (''queue_create_10_(bytes)'' @ tab) [make_queue 10],
     timed_mem_first (''set_element(us)'' @ tab) (''set_element(bytes)'' @ tab) [put_queue],
     timed_mem_first (''get_element(us)'' @ tab) (''get_element(bytes)'' @ tab) [get_queue]]"

definition perf_alloc :: perf where
  "perf_alloc = block [
     timed_mem_first (''malloc_10(us)'' @ tab) (''malloc_10(bytes)'' @ tab) [drop_block],
     timed_mem_first (''malloc_100(us)'' @ tab) (''malloc_100(bytes)'' @ tab) [drop_block]]"

definition perf_clock :: perf where
  "perf_clock = block [
     timed_mem_first (''get_time(us)'' @ tab) (''gettime(bytes)'' @ tab) [read_time],
     timed_mem_first (''get_error(us)'' @ tab) (''get_errot (bytes)'' @ tab) [read_error]]"

definition perf_read :: "target \<Rightarrow> perf" where
  "perf_read T = block [
     timed_mem_first (''read_byte(us)'' @ tab) (''read_byte (bytes)'' @ tab)
       [read_cell thread_read_byte (at T ''data_int'')],
     timed_mem_first (''read_uint16_t(us)'' @ tab) (''read_uint16_t(bytes)'' @ tab)
       [read_cell thread_read_uint16_t (at T ''data_int'')],
     timed_mem_first (''read_uint32_t(us)'' @ tab) (''read_uint32_t(bytes)'' @ tab)
       [read_cell thread_read_uint32_t (at T ''data_int'')],
     timed_mem_first (''read_float(us)'' @ tab) (''read_float(bytes)'' @ tab)
       [read_cell thread_read_float (at T ''data_float'')]]"

definition perf_write :: "target \<Rightarrow> perf" where
  "perf_write T = block [
     timed_mem_first (''write_byte(us)'' @ tab) (''write_byte (bytes)'' @ tab)
       [write_cell thread_write_byte (at T ''data_int'')],
     timed_mem_first (''write_uint16_t(us)'' @ tab) (''write_uint16_t(bytes)'' @ tab)
       [write_cell thread_write_uint16_t (at T ''data_int'')],
     timed_mem_first (''write_uint32_t(us)'' @ tab) (''write_uint32_t(bytes)'' @ tab)
       [write_cell thread_write_uint32_t (at T ''data_int'')],
     timed_mem_first (''write_float(us)'' @ tab) (''write_float(bytes)'' @ tab)
       [write_cell thread_write_float (at T ''data_float'')]]"

definition perf_sem :: "target \<Rightarrow> perf" where
  "perf_sem T = block [
     timed_mem_first (''sem_create(us)'' @ tab) (''sem_create(bytes)'' @ tab) [make_sem 1],
     timed_mem_first (''sem_P(us)'' @ tab) (''sem_P(bytes)'' @ tab) [P_sem T],
     timed_mem_first (''sem_V(us)'' @ tab) (''sem_V(bytes)'' @ tab) [V_sem T]]"

definition perf_atomic :: perf where
  "perf_atomic = block [
     timed_mem_first (''ATOMIC_SECTION(us)'' @ tab) (''ATOMIC_SECTION(bytes)'' @ tab)
       [inc_mem1, dec_mem1]]"

definition perf_end :: "target \<Rightarrow> perf" where
  "perf_end T = block [
     set_t1,
     yield T,
     set_t2,
     sub_t,
     print_str (''yield()'' @ tab),
     show_t2,
     delay 1000,
     hang,
     threads_subsystem_start T]"

definition perf_loop :: "target \<Rightarrow> perf" where
  "perf_loop T = block [perf_begin, perf_threads T, perf_signal T, perf_queue, perf_alloc,
     perf_clock, perf_read T, perf_write T, perf_sem T, perf_atomic, perf_end T]"

section \<open>examples/perf_test_rtframework_2\<close>

definition perf2_begin :: perf where
  "perf2_begin = block (
     [print_str (''Simple PERFORMANCE TESTs '' @ nl), set_t1] @ replicate 10 skip_micros @ [set_t2,
       set_mem1,
       set_mem2,
       sub_t,
       print_str (''error_(us)'' @ tab),
       div_t,
       show_t2,
       set_mem2])"

definition perf2_signal :: "target \<Rightarrow> perf" where
  "perf2_signal T = block [
     timed (''thread_signal_(us)'' @ tab) (''trhreadsignal_(bytes)'' @ tab)
       (replicate 10 (signal_th1 T))]"

definition perf2_access :: "target \<Rightarrow> perf" where
  "perf2_access T = block [perf_clock, perf_read T, perf_write T]"

definition perf2_sync :: "target \<Rightarrow> perf" where
  "perf2_sync T = block [perf_sem T, perf_atomic, perf_end T]"

definition perf2_loop :: "target \<Rightarrow> perf" where
  "perf2_loop T = block [perf2_begin, perf_threads T, perf2_signal T, perf_queue, perf_alloc,
     perf2_access T, perf2_sync T]"

section \<open>examples/perf_test_rtframework_3\<close>

definition perf3_queue :: perf where
  "perf3_queue = block [
     timed (''queue_create_100_(us)'' @ tab) (''queue_create_100_(bytes)'' @ tab) [make_queue 100],
     timed (''queue_create_10_(us)'' @ tab) (''queue_create_10_(bytes)'' @ tab) 
       ([make_queue 10] @ replicate 4 (drop_queue 10)),
     timed_mem_first (''set_element(us)'' @ tab) (''set_element(bytes)'' @ tab)
       (replicate 10 put_queue),
     timed_mem_first (''get_element(us)'' @ tab) (''get_element(bytes)'' @ tab)
       (replicate 10 get_queue)]"

definition perf3_alloc :: perf where
  "perf3_alloc = block [
     timed_mem_first (''malloc_10(us)'' @ tab) (''malloc_10(bytes)'' @ tab)
       (replicate 5 drop_block),
     timed_mem_first (''free_10(us)'' @ tab) (''free_10(bytes)'' @ tab) [make_block, free_block],
     timed_mem_first (''malloc_100(us)'' @ tab) (''malloc_100(bytes)'' @ tab) []]"

definition perf3_clock :: perf where
  "perf3_clock = block [
     timed_mem_first (''get_time(us)'' @ tab) (''gettime(bytes)'' @ tab)
       (replicate 10 read_time),
     timed_mem_first (''get_error(us)'' @ tab) (''get_errot (bytes)'' @ tab)
       (replicate 10 read_error)]"

definition perf3_read :: "target \<Rightarrow> perf" where
  "perf3_read T = block [
     timed_mem_first (''read_byte(us)'' @ tab) (''read_byte (bytes)'' @ tab)
       (replicate 10 (read_cell thread_read_byte (at T ''data_int''))),
     timed_mem_first (''read_uint16_t(us)'' @ tab) (''read_uint16_t(bytes)'' @ tab)
       (replicate 10 (read_cell thread_read_uint16_t (at T ''data_int''))),
     timed_mem_first (''read_uint32_t(us)'' @ tab) (''read_uint32_t(bytes)'' @ tab)
       (replicate 10 (read_cell thread_read_uint32_t (at T ''data_int''))),
     timed_mem_first (''read_float(us)'' @ tab) (''read_float(bytes)'' @ tab)
       (replicate 10 (read_cell thread_read_float (at T ''data_float'')))]"

definition perf3_write :: "target \<Rightarrow> perf" where
  "perf3_write T = block [
     timed_mem_first (''write_byte(us)'' @ tab) (''write_byte (bytes)'' @ tab)
       (replicate 10 (write_cell thread_write_byte (at T ''data_int''))),
     timed_mem_first (''write_uint16_t(us)'' @ tab) (''write_uint16_t(bytes)'' @ tab)
       (replicate 10 (write_cell thread_write_uint16_t (at T ''data_int''))),
     timed_mem_first (''write_uint32_t(us)'' @ tab) (''write_uint32_t(bytes)'' @ tab)
       (replicate 10 (write_cell thread_write_uint32_t (at T ''data_int''))),
     timed_mem_first (''write_float(us)'' @ tab) (''write_float(bytes)'' @ tab)
       (replicate 10 (write_cell thread_write_float (at T ''data_float'')))]"

definition perf3_sem :: "target \<Rightarrow> perf" where
  "perf3_sem T = block [
     timed_mem_first (''sem_create(us)'' @ tab) (''sem_create(bytes)'' @ tab) 
       ([make_sem 1] @ replicate 9 (drop_sem 1)),
     timed_mem_first (''sem_P(us)'' @ tab) (''sem_P(bytes)'' @ tab)
       (replicate 10 (P_sem T)),
     timed_mem_first (''sem_V(us)'' @ tab) (''sem_V(bytes)'' @ tab)
       (replicate 10 (V_sem T))]"

definition perf3_atomic :: perf where
  "perf3_atomic = block [
     timed_mem_first (''ATOMIC_SECTION(us)'' @ tab) (''ATOMIC_SECTION(bytes)'' @ tab)
       [inc_mem1, dec_mem1, inc_mem1, dec_mem1, inc_mem1, dec_mem1, inc_mem1, dec_mem1, inc_mem1, dec_mem1, inc_mem1, dec_mem1, inc_mem1, dec_mem1, inc_mem1, dec_mem1, inc_mem1, dec_mem1, inc_mem1, dec_mem1]]"

definition perf3_end :: "target \<Rightarrow> perf" where
  "perf3_end T = block (
     [set_t1] @ replicate 10 (yield T) @ [set_t2,
       sub_t,
       print_str (''yield()'' @ tab),
       show_t2,
       delay 1000,
       hang,
       threads_subsystem_start T])"

definition perf3_loop :: "target \<Rightarrow> perf" where
  "perf3_loop T = block [perf2_begin, perf_threads T, perf2_signal T, perf3_queue, perf3_alloc,
     perf3_clock, perf3_read T, perf3_write T, perf3_sem T, perf3_atomic, perf3_end T]"

section \<open>examples/rtthreads/perf_test_rtframework\<close>

definition rperf_begin :: perf where
  "rperf_begin = block [
     print_str (''Simple TESTs '' @ nl),
     set_t1,
     set_t2,
     set_mem1,
     set_mem2,
     sub_t,
     print_str (''error_(us)'' @ tab),
     show_t2]"

definition rperf_threads :: "target \<Rightarrow> perf" where
  "rperf_threads T = block [
     timed (''1_hilo_(us)'' @ tab) (''1_hilo_(bytes)'' @ tab) [make_th1 T],
     timed (''2_hilo_(us)'' @ tab) (''2_hilo_(bytes)'' @ tab) [make_th2 T],
     timed (''2_hilo_removed(us)'' @ tab) (''2_hilo_removed(bytes)'' @ tab) []]"

definition rperf_ATS :: "target \<Rightarrow> perf" where
  "rperf_ATS T = block [
     timed (''thread_ATS_enable_(us)'' @ tab) (''thread_ATS_enable_(bytes)'' @ tab) [enable_ATS T],
     timed (''thread_ATS_disable_(us)'' @ tab) (''thread_ATS_disable_(bytes)'' @ tab) [disable_ATS],
     timed (''thread_ATS_signal_(us)'' @ tab) (''thread_ATS_signal_(bytes)'' @ tab) [ATS_signal_th1 T]]"

definition rperf_queue :: perf where
  "rperf_queue = block [
     timed (''queue_create_100_(us)'' @ tab) (''queue_create_100_(bytes)'' @ tab) [make_queue 100],
     timed (''queue_create_10_(us)'' @ tab) (''queue_create_10_(bytes)'' @ tab) [make_queue 10],
     timed_mem_first (''set_element(us)'' @ tab) (''set_element(bytes)'' @ tab) [put_queue],
     timed_mem_first (''get_element(us)'' @ tab) (''get_element(bytes)'' @ tab) [get_queue],
     timed_mem_first (''queue_remove(us)'' @ tab) (''queue_remove(bytes)'' @ tab) [delete_queue]]"

definition rperf_sem :: "target \<Rightarrow> perf" where
  "rperf_sem T = block [
     timed (''sem_create_10_(us)'' @ tab) (''sem_create_10_(bytes)'' @ tab) [make_sem 10],
     timed (''sem_P(us)'' @ tab) (''sem_P(bytes)'' @ tab) [P_sem T],
     timed (''sem_V(us)'' @ tab) (''sem_V(bytes)'' @ tab) [V_sem T],
     timed (''sem_free(us)'' @ tab) (''sem_free(bytes)'' @ tab) [free_sem]]"

definition rperf_atomic :: perf where
  "rperf_atomic = block [
     timed (''ATOMIC_BLOCK(us)'' @ tab) (''ATOMIC_BLOCK(bytes)'' @ tab) []]"

definition rperf_alloc :: perf where
  "rperf_alloc = block [
     timed_mem_first (''malloc_10(us)'' @ tab) (''malloc_10(bytes)'' @ tab) [make_block],
     timed_mem_first (''free_10)'' @ tab) (''free_10(bytes)'' @ tab) [free_block],
     timed_mem_first (''malloc_100(us)'' @ tab) (''malloc_100(bytes)'' @ tab) [make_block],
     timed_mem_first (''free_100(us)'' @ tab) (''free_100(bytes)'' @ tab) [free_block]]"

definition rperf_write :: "target \<Rightarrow> perf" where
  "rperf_write T = block [
     timed_mem_first (''write_byte(us)'' @ tab) (''write_byte (bytes)'' @ tab)
       [write_cell thread_write_byte (at T ''data_int'')],
     timed_mem_first (''write_uint16_t(us)'' @ tab) (''write_uint16_t(bytes)'' @ tab)
       [write_cell thread_write_uint16_t (at T ''data_int'')],
     timed_mem_first (''write_uint32_t(us)'' @ tab) (''write_uint32_t(bytes)'' @ tab)
       [read_cell thread_read_uint32_t (at T ''data_int'')],
     timed_mem_first (''write_float(us)'' @ tab) (''write_float(bytes)'' @ tab)
       [read_cell thread_read_float (at T ''data_float'')]]"

definition rperf_access :: "target \<Rightarrow> perf" where
  "rperf_access T = block [perf_clock, perf_read T]"

definition rperf_loop :: "target \<Rightarrow> perf" where
  "rperf_loop T = block [rperf_begin, rperf_threads T, perf_signal T, rperf_ATS T, rperf_queue, rperf_sem T,
     rperf_atomic, rperf_alloc, rperf_access T, rperf_write T, perf_end T]"

section \<open>perf_test_rtframework\<close>

definition sperf_threads :: "target \<Rightarrow> perf" where
  "sperf_threads T = block [
     timed (''1_hilo_(us)'' @ tab) (''1_hilo_(bytes)'' @ tab) [make_th1 T],
     timed (''2_hilo_(us)'' @ tab) (''2_hilo_(bytes)'' @ tab) [make_th2 T]]"

definition sperf_access :: "target \<Rightarrow> perf" where
  "sperf_access T = block [perf_clock, perf_read T, rperf_write T]"

definition sperf_loop :: "target \<Rightarrow> perf" where
  "sperf_loop T = block [rperf_begin, sperf_threads T, perf_signal T, perf_queue,
     perf_alloc, sperf_access T, perf_end T]"

section \<open>What a program does from a class of states\<close>

text \<open>
  \<open>does P p n Q\<close>: from a state whose kernel and objects satisfy \<open>P\<close> the program \<open>p\<close> returns in one that
  satisfies \<open>Q\<close>, shows \<open>n\<close> numbers, and leaves the timer and the global \<open>th1\<close> alone.
\<close>

definition printed :: "event list \<Rightarrow> nat" where
  "printed tr = length (filter (\<lambda>e. case e of Number _ _ \<Rightarrow> True | _ \<Rightarrow> False) tr)"

definition does ::
  "(kernel \<Rightarrow> perf_objs \<Rightarrow> bool) \<Rightarrow> perf \<Rightarrow> nat \<Rightarrow> (kernel \<Rightarrow> perf_objs \<Rightarrow> bool) \<Rightarrow> bool" where
  "does P p n Q \<longleftrightarrow> (\<forall>a. P (kern a) (p_objs (vars a)) \<longrightarrow> (\<exists>b. returns p a b \<and> Q (kern b) (p_objs (vars b))
     \<and> printed (trace b) = printed (trace a) + n \<and> timer b = timer a \<and> p_th1 (vars b) = p_th1 (vars a)))"

lemma printed_append [simp]: "printed (xs @ ys) = printed xs + printed ys"
  by (simp add: printed_def)

lemma printed_simps [simp]:
  "printed [] = 0" "printed (Number x b # es) = Suc (printed es)" "printed (Text t # es) = printed es"
  "printed (Newline # es) = printed es" "printed (Delay d # es) = printed es"
  by (simp_all add: printed_def)

named_theorems steps_of \<open>what the statements of the performance tests do\<close>

lemma does_seq:
  assumes "does P p m Q" and "does Q q n R"
  shows "does P (seq p q) (m + n) R"
  unfolding does_def
proof (intro allI impI)
  fix a :: "(kernel, perf_vars) app"
  assume "P (kern a) (p_objs (vars a))"
  with assms(1) obtain b where b: "returns p a b" "Q (kern b) (p_objs (vars b))"
    "printed (trace b) = printed (trace a) + m" "timer b = timer a" "p_th1 (vars b) = p_th1 (vars a)"
    unfolding does_def by blast
  from assms(2) b(2) obtain c where "returns q b c" "R (kern c) (p_objs (vars c))"
    "printed (trace c) = printed (trace b) + n" "timer c = timer b" "p_th1 (vars c) = p_th1 (vars b)"
    unfolding does_def by blast
  with b show "\<exists>c. returns (seq p q) a c \<and> R (kern c) (p_objs (vars c))
      \<and> printed (trace c) = printed (trace a) + (m + n) \<and> timer c = timer a \<and> p_th1 (vars c) = p_th1 (vars a)"
    by (intro exI [of _ c]) (simp add: returns_seq)
qed

lemma does_Nil: "does P (block []) 0 P"
  unfolding does_def by (auto simp: block_def intro!: exI [of _ "_ :: (kernel, perf_vars) app"])

lemma does_Cons: "does P p m Q \<Longrightarrow> does Q (block ps) n R \<Longrightarrow> does P (block (p # ps)) (m + n) R"
  unfolding block_def by (simp add: does_seq)

lemma does_one: "does P p m Q \<Longrightarrow> does P (block [p]) m Q"
  using does_Cons [OF _ does_Nil] by fastforce

lemma does_append: "does P (block ps) m Q \<Longrightarrow> does Q (block qs) n R \<Longrightarrow> does P (block (ps @ qs)) (m + n) R"
proof -
  have "block (ps @ qs) = seq (block ps) (block qs)"
    by (induction ps) (simp_all add: block_def seq_assoc)
  then show "does P (block ps) m Q \<Longrightarrow> does Q (block qs) n R \<Longrightarrow> does P (block (ps @ qs)) (m + n) R"
    by (simp add: does_seq)
qed

lemma does_replicate:
  assumes "\<And>i. i < n \<Longrightarrow> does (P i) p 0 (P (Suc i))"
  shows "does (P 0) (block (replicate n p)) 0 (P n)"
  using assms
proof (induction n)
  case 0
  show ?case using does_Nil by simp
next
  case (Suc n)
  have "does (P 0) (block (replicate n p @ [p])) (0 + 0) (P (Suc n))"
    by (rule does_append [OF Suc.IH does_one]) (use Suc.prems in simp_all)
  then show ?case by (simp add: replicate_append_same)
qed

lemma does_weaken: "does P p n Q \<Longrightarrow> (\<And>k v. Q k v \<Longrightarrow> R k v) \<Longrightarrow> does P p n R"
  unfolding does_def by blast

text \<open>Statements that concern neither the kernel nor the objects.\<close>

lemma does_meter: "does P (on_meter f) 0 P"
  unfolding does_def on_meter_def
  by (intro allI impI exI [of _ "_\<lparr>vars := _\<rparr>"] conjI) (rule returns_assign, simp_all)

lemmas meter_defs = set_t1_def set_t2_def skip_micros_def set_mem1_def set_mem2_def sub_t_def sub_mem_def
  div_t_def inc_mem1_def dec_mem1_def

lemma does_emit:
  assumes "\<And>a. printed (e a) = n"
  shows "does P (emit e) n P"
  unfolding does_def by (intro allI impI exI [of _ "_\<lparr>trace := _\<rparr>"] conjI) (rule returns_emit, simp_all add: assms)

lemma does_meters [steps_of]:
  "does P set_t1 0 P" "does P set_t2 0 P" "does P skip_micros 0 P" "does P set_mem1 0 P" "does P set_mem2 0 P"
  "does P sub_t 0 P" "does P sub_mem 0 P" "does P div_t 0 P" "does P inc_mem1 0 P" "does P dec_mem1 0 P"
  unfolding meter_defs by (rule does_meter)+

lemma does_shows [steps_of]:
  "does P (print_str x) 0 P" "does P (println_str x) 0 P" "does P (delay n) 0 P" "does P show_t2 1 P"
  "does P show_mem2 1 P" "does P show_sizeof 1 P"
  unfolding print_str_def println_str_def delay_def show_t2_def show_mem2_def show_sizeof_def print_num_def
    println_num_def by (rule does_emit, simp)+

lemma does_timed:
  assumes "does P (block xs) 0 Q"
  shows "does P (timed us bytes xs) 2 Q" and "does P (timed_mem_first us bytes xs) 2 Q"
proof -
  have 1: "does P (block [set_mem1, set_t1]) (0 + 0) P"
    by (rule does_Cons [OF does_meters(4) does_one [OF does_meters(1)]])
  have 2: "does Q (block [print_str us, show_t2, print_str bytes, show_mem2]) (0 + (1 + (0 + 1))) Q"
    by (rule does_Cons [OF does_shows(1) does_Cons [OF does_shows(4) does_Cons [OF does_shows(1)
          does_one [OF does_shows(5)]]]])
  have "does Q (block [set_t2, set_mem2, sub_t, sub_mem]) (0 + (0 + (0 + 0))) Q"
    and "does Q (block [set_t2, set_mem2, sub_mem, sub_t]) (0 + (0 + (0 + 0))) Q"
    by (rule does_Cons [OF does_meters(2) does_Cons [OF does_meters(5) does_Cons [OF does_meters(6)
          does_one [OF does_meters(7)]]]])
      (rule does_Cons [OF does_meters(2) does_Cons [OF does_meters(5) does_Cons [OF does_meters(7)
          does_one [OF does_meters(6)]]]])
  from does_append [OF does_append [OF 1 assms] does_append [OF this(1) 2]]
    does_append [OF does_append [OF 1 assms] does_append [OF this(2) 2]]
  show "does P (timed us bytes xs) 2 Q" and "does P (timed_mem_first us bytes xs) 2 Q"
    unfolding timed_def timed_mem_first_def by (simp_all add: numeral_2_eq_2)
qed

lemma does_keep:
  assumes "\<And>k v. P k v \<Longrightarrow> Q k (f v)"
  shows "does P (keep f) 0 Q"
  unfolding does_def keep_def
  by (intro allI impI exI [of _ "_\<lparr>vars := _\<rparr>"] conjI) (rule returns_assign, simp_all add: assms)

text \<open>Calls of the kernel.\<close>

lemma does_kcall:
  assumes "\<And>k v. P k v \<Longrightarrow> \<exists>k'. f k = Some k' \<and> Q k' v"
  shows "does P (kcall f) 0 Q"
  unfolding does_def
proof (intro allI impI)
  fix a :: "(kernel, perf_vars) app"
  assume "P (kern a) (p_objs (vars a))"
  with assms obtain k where "f (kern a) = Some k" "Q k (p_objs (vars a))" by blast
  then show "\<exists>b. returns (kcall f) a b \<and> Q (kern b) (p_objs (vars b)) \<and> printed (trace b) = printed (trace a) + 0
      \<and> timer b = timer a \<and> p_th1 (vars b) = p_th1 (vars a)"
    by (intro exI [of _ "a\<lparr>kern := k\<rparr>"]) (simp add: returns_kcall)
qed

lemma does_kcall_with:
  assumes "\<And>k v. P k v \<Longrightarrow> \<exists>k'. f v k = Some k' \<and> Q k' v"
  shows "does P (kcall_with (\<lambda>v. f (p_objs v))) 0 Q"
  unfolding does_def
proof (intro allI impI)
  fix a :: "(kernel, perf_vars) app"
  assume "P (kern a) (p_objs (vars a))"
  with assms obtain k where "f (p_objs (vars a)) (kern a) = Some k" "Q k (p_objs (vars a))" by blast
  then show "\<exists>b. returns (kcall_with (\<lambda>v. f (p_objs v))) a b \<and> Q (kern b) (p_objs (vars b))
      \<and> printed (trace b) = printed (trace a) + 0 \<and> timer b = timer a \<and> p_th1 (vars b) = p_th1 (vars a)"
    by (intro exI [of _ "a\<lparr>kern := k\<rparr>"]) (simp add: runs)
qed

lemma does_kcall_with_then:
  assumes "\<And>k v. P k v \<Longrightarrow> \<exists>r k'. f v k = Some (r, k') \<and> Q k' v"
  shows "does P (kcall_with_then (\<lambda>v. f (p_objs v)) (\<lambda>_. Done)) 0 Q"
  unfolding does_def
proof (intro allI impI)
  fix a :: "(kernel, perf_vars) app"
  assume "P (kern a) (p_objs (vars a))"
  with assms obtain r k where "f (p_objs (vars a)) (kern a) = Some (r, k)" "Q k (p_objs (vars a))" by blast
  then show "\<exists>b. returns (kcall_with_then (\<lambda>v. f (p_objs v)) (\<lambda>_. Done)) a b \<and> Q (kern b) (p_objs (vars b))
      \<and> printed (trace b) = printed (trace a) + 0 \<and> timer b = timer a \<and> p_th1 (vars b) = p_th1 (vars a)"
    by (intro exI [of _ "a\<lparr>kern := k\<rparr>"]) (simp add: run_kcall_with_then_last)
qed

lemma does_kcall_then:
  assumes "\<And>k v. P k v \<Longrightarrow> \<exists>r k'. f k = Some (r, k') \<and> Q r k' v" and "\<And>r. does (Q r) (g r) n R"
  shows "does P (kcall_then f g) n R"
  unfolding does_def
proof (intro allI impI)
  fix a :: "(kernel, perf_vars) app"
  assume "P (kern a) (p_objs (vars a))"
  with assms(1) obtain r k where k: "f (kern a) = Some (r, k)" "Q r k (p_objs (vars a))" by blast
  with assms(2) [of r] obtain b where "returns (g r) (a\<lparr>kern := k\<rparr>) b" "R (kern b) (p_objs (vars b))"
    "printed (trace b) = printed (trace a) + n" "timer b = timer a" "p_th1 (vars b) = p_th1 (vars a)"
    unfolding does_def by force
  with returns_kcall_then [of f a r k g, OF k(1)]
  show "\<exists>b. returns (kcall_then f g) a b \<and> R (kern b) (p_objs (vars b)) \<and> printed (trace b) = printed (trace a) + n
      \<and> timer b = timer a \<and> p_th1 (vars b) = p_th1 (vars a)" by blast
qed

lemma does_done: "does P Done 0 P"
  using does_Nil by (simp add: block_def)

lemma does_kread: "does P (kread (Some \<circ> f) (\<lambda>_. Done)) 0 P"
  unfolding kread_def by (rule does_kcall_then [where Q = "\<lambda>_. P", OF _ does_done]) simp

lemma does_kread_const: "does P (kread (\<lambda>_. Some x) (\<lambda>_. Done)) 0 P"
  using does_kread [of P "\<lambda>_. x"] by (simp add: comp_def)

section \<open>The states the tests go through\<close>

text \<open>
  The main program alone, with memory for \<open>n\<close> more blocks and its first thread in the run queue; \<open>R\<close> says
  what it holds besides.
\<close>

type_synonym holding = "addr list \<Rightarrow> kernel \<Rightarrow> perf_objs \<Rightarrow> bool"

definition running :: "nat \<Rightarrow> holding \<Rightarrow> kernel \<Rightarrow> perf_objs \<Rightarrow> bool" where
  "running n R k v \<longleftrightarrow> (\<exists>ts. alone ts k \<and> stocked n k \<and> o_th1 v \<in> set ts \<and> o_th1 v \<noteq> thread_main_inf k \<and> R ts k v)"

definition unstarted :: "nat \<Rightarrow> kernel \<Rightarrow> perf_objs \<Rightarrow> bool" where
  "unstarted n k v \<longleftrightarrow> thread_list k = NULL \<and> stocked n k"

definition nothing :: holding where
  "nothing ts k v \<longleftrightarrow> True"

definition a_queue :: "nat \<Rightarrow> nat \<Rightarrow> holding" where
  "a_queue i r ts k v \<longleftrightarrow> held (o_queue v) ts k \<and> (\<exists>q. queues k (o_queue v) = Some q \<and> queue_ok q
     \<and> length (elements q) = 10 \<and> unat (stored q) = i \<and> unat (read_index q) = r)"

definition a_sem :: "s16 \<Rightarrow> holding" where
  "a_sem x ts k v \<longleftrightarrow> held (o_sem v) ts k \<and> sems k (o_sem v) = Some x"

definition a_block :: holding where
  "a_block ts k v \<longleftrightarrow> held (o_ptr v) ts k"

text \<open>What an operation that comes back cannot disturb.\<close>

definition in_store :: "holding \<Rightarrow> bool" where
  "in_store R \<longleftrightarrow> (\<forall>ts k k' v. same_store k k' \<longrightarrow> R ts k v \<longrightarrow> R ts k' v)"

lemma held_same: "same_store k k' \<Longrightarrow> held p ts k \<Longrightarrow> held p ts k'"
  by (simp add: held_def same_store_def)

lemma in_store_holdings: "in_store nothing" "in_store (a_queue i r)" "in_store (a_sem x)" "in_store a_block"
  unfolding in_store_def nothing_def a_queue_def a_sem_def a_block_def
  by (auto simp: held_same) (simp_all add: same_store_def)

lemma runningI:
  "alone ts k \<Longrightarrow> stocked n k \<Longrightarrow> o_th1 v \<in> set ts \<Longrightarrow> o_th1 v \<noteq> thread_main_inf k \<Longrightarrow> R ts k v \<Longrightarrow> running n R k v"
  unfolding running_def by blast

lemma runningE:
  assumes "running n R k v"
  obtains ts where "alone ts k" and "stocked n k" and "o_th1 v \<in> set ts" and "o_th1 v \<noteq> thread_main_inf k" and "R ts k v"
  using assms unfolding running_def by blast

lemma running_forget: "running n R k v \<Longrightarrow> running n nothing k v"
  unfolding running_def nothing_def by blast

lemma running_same:
  assumes "in_store R" and "stocked n k" and "o_th1 v \<in> set ts" and "o_th1 v \<noteq> thread_main_inf k" and "R ts k v"
    and "alone ts k'" and "same_store k k'"
  shows "running n R k' v"
  using assms stocked_same [OF assms(2,7)] by (intro runningI) (auto simp: same_store_def in_store_def)

context returning_op begin

lemma does_op:
  assumes "in_store R"
  shows "does (running n R) (kcall (opn H)) 0 (running n R)"
proof (rule does_kcall)
  fix k v assume "running n R k v"
  then obtain ts where r: "alone ts k" "stocked n k" "o_th1 v \<in> set ts" "o_th1 v \<noteq> thread_main_inf k" "R ts k v"
    by (rule runningE)
  obtain k' where "opn H k = Some k'" "alone ts k'" "same_store k k'" using op_back [OF r(1)] .
  with running_same [OF assms r(2-5)] show "\<exists>k'. opn H k = Some k' \<and> running n R k' v" by blast
qed

end

lemma does_yield: "in_store R \<Longrightarrow> does (running n R) (yield T) 0 (running n R)"
  unfolding yield_def by (rule alone_yielding.does_op)

lemma does_enable_ATS: "in_store R \<Longrightarrow> does (running n R) (enable_ATS T) 0 (running n R)"
  unfolding enable_ATS_def by (rule alone_ATS_enabling.does_op)

lemma does_disable_ATS: "in_store R \<Longrightarrow> does (running n R) disable_ATS 0 (running n R)"
  unfolding disable_ATS_def by (rule alone_ATS_disabling.does_op)

lemma does_signal_th1: "in_store R \<Longrightarrow> does (running n R) (signal_th1 T) 0 (running n R)"
  unfolding signal_th1_def
proof (rule does_kcall_with_then)
  fix k v assume R: "in_store R" and "running n R k v"
  then obtain ts where r: "alone ts k" "stocked n k" "o_th1 v \<in> set ts" "o_th1 v \<noteq> thread_main_inf k" "R ts k v"
    by (elim runningE)
  from alone_signal [OF r(1,3,4), of "handlers T"] running_same [OF R r(2-5)]
  show "\<exists>x k'. thread_signal (handlers T) (o_th1 v) k = Some (x, k') \<and> running n R k' v" by blast
qed

lemma does_ATS_signal_th1: "in_store R \<Longrightarrow> does (running n R) (ATS_signal_th1 T) 0 (running n R)"
  unfolding ATS_signal_th1_def
proof (rule does_kcall_with_then)
  fix k v assume R: "in_store R" and "running n R k v"
  then obtain ts where r: "alone ts k" "stocked n k" "o_th1 v \<in> set ts" "o_th1 v \<noteq> thread_main_inf k" "R ts k v"
    by (elim runningE)
  from alone_ATS_signal [OF r(1,3,4), of "handlers T"] running_same [OF R r(2-5)]
  show "\<exists>x k'. thread_ATS_signal (handlers T) (o_th1 v) k = Some (x, k') \<and> running n R k' v" by blast
qed

lemma does_write_cell:
  assumes "in_store R" and "\<And>k. \<exists>m. f (ucast p) 0 k = k\<lparr>mem := m\<rparr>"
  shows "does (running n R) (write_cell f p) 0 (running n R)"
  unfolding write_cell_def
proof (rule does_kcall)
  fix k v assume "running n R k v"
  then obtain ts where r: "alone ts k" "stocked n k" "o_th1 v \<in> set ts" "o_th1 v \<noteq> thread_main_inf k" "R ts k v"
    by (rule runningE)
  obtain m where m: "f (ucast p) 0 k = k\<lparr>mem := m\<rparr>" using assms(2) by blast
  have "running n R (k\<lparr>mem := m\<rparr>) v"
    by (rule running_same [OF assms(1) r(2-5) alone_mem [OF r(1)]]) (simp add: same_store_def)
  then show "\<exists>k'. (Some \<circ> f (ucast p) 0) k = Some k' \<and> running n R k' v" by (simp add: m)
qed

lemma does_writes:
  assumes "in_store R"
  shows "does (running n R) (write_cell thread_write_byte p) 0 (running n R)"
    and "does (running n R) (write_cell thread_write_uint16_t p) 0 (running n R)"
    and "does (running n R) (write_cell thread_write_uint32_t p) 0 (running n R)"
    and "does (running n R) (write_cell thread_write_float p) 0 (running n R)"
  by (rule does_write_cell [OF assms];
      simp add: thread_write_byte_def thread_write_uint16_t_def thread_write_uint32_t_def thread_write_float_def exI [of _ "mem _"];
      blast)+

lemma does_reads:
  "does P read_time 0 P" "does P read_error 0 P" "does P (read_cell f p) 0 P"
  unfolding read_time_def read_error_def read_cell_def by (rule does_kread does_kread_const)+

text \<open>Statements that take memory.\<close>

lemma does_make_th1: "does (unstarted (Suc (Suc (Suc n)))) (make_th1 T) 0 (running n nothing)"
  unfolding make_th1_def new_thread_def new_periodic_def
proof (rule does_kcall_then [where Q = "\<lambda>p k v. running n nothing k (v\<lparr>o_th1 := p\<rparr>)"])
  fix k v assume "unstarted (Suc (Suc (Suc n))) k (v :: perf_objs)"
  then have u: "thread_list k = NULL" "stocked (Suc (Suc (Suc n))) k" by (simp_all add: unstarted_def)
  have p: "(0 :: u8) < SIMPLERTFRAMEWORK_NORM_PRIO" by (simp add: rt_consts)
  from alone_starts [OF u p, of "handlers T" "image_of T" "at T ''periodic_task1''" NULL 200 0 1000000 1000000 500000
      "at T ''error_handler_task1''"]
  show "\<exists>r k'. periodic_thread_create (handlers T) (image_of T) (at T ''periodic_task1'') NULL NULL 200 0 0 1000000
      1000000 500000 (at T ''error_handler_task1'') k = Some (r, k') \<and> running n nothing k' (v\<lparr>o_th1 := r\<rparr>)"
    by (fastforce simp: running_def nothing_def)
next
  show "does (\<lambda>k v. running n nothing k (v\<lparr>o_th1 := r\<rparr>)) (keep (\<lambda>v. v\<lparr>o_th1 := r\<rparr>)) 0 (running n nothing)" for r
    by (rule does_keep)
qed

lemma does_make_th2: "does (running (Suc (Suc n)) nothing) (make_th2 T) 0 (running n nothing)"
  unfolding make_th2_def new_thread_def new_periodic_def
proof (rule does_kcall_then [where Q = "\<lambda>_. running n nothing"])
  fix k v assume "running (Suc (Suc n)) nothing k v"
  then obtain ts where r: "alone ts k" "stocked (Suc (Suc n)) k" "o_th1 v \<in> set ts" "o_th1 v \<noteq> thread_main_inf k"
    by (rule runningE)
  have p: "(0 :: u8) < SIMPLERTFRAMEWORK_NORM_PRIO" by (simp add: rt_consts)
  obtain th k' where "periodic_thread_create (handlers T) (image_of T) (at T ''periodic_task1'') NULL NULL 200 0 0 1000000
      1000000 500000 (at T ''error_handler_task1'') k = Some (th, k')" "alone (th # ts) k'" "stocked n k'"
      "thread_main_inf k' = thread_main_inf k"
    using alone_creates [OF r(1,2) p, of "handlers T" "image_of T" "at T ''periodic_task1''" NULL 200 0 1000000 1000000
        500000 "at T ''error_handler_task1''"] by blast
  with r(3,4) show "\<exists>th k'. periodic_thread_create (handlers T) (image_of T) (at T ''periodic_task1'') NULL NULL 200 0 0
      1000000 1000000 500000 (at T ''error_handler_task1'') k = Some (th, k') \<and> running n nothing k' v"
    by (intro exI conjI) (assumption, auto intro!: runningI simp: nothing_def)
next
  show "does (running n nothing) (keep (\<lambda>v. v\<lparr>o_th2 := th\<rparr>)) 0 (running n nothing)" for th
    by (rule does_keep) (simp add: running_def nothing_def)
qed

lemma does_drop_block: "does (running (Suc n) nothing) drop_block 0 (running n nothing)"
  unfolding drop_block_def
proof (rule does_kcall_then [OF _ does_done])
  fix k v assume "running (Suc n) nothing k v"
  then obtain ts where r: "alone ts k" "stocked (Suc n) k" "o_th1 v \<in> set ts" "o_th1 v \<noteq> thread_main_inf k"
    by (rule runningE)
  obtain c k' where "malloc k = (Some c, k')" "alone ts k'" "stocked n k'" "thread_main_inf k' = thread_main_inf k"
    by (rule alone_malloc [OF r(1,2)])
  with r(3,4) show "\<exists>p k'. malloc_ptr k = Some (p, k') \<and> running n nothing k' v"
    by (auto simp: malloc_ptr_def thread_malloc_def nothing_def intro!: runningI)
qed

lemma does_make_block: "does (running (Suc n) nothing) make_block 0 (running n a_block)"
  unfolding make_block_def
proof (rule does_kcall_then [where Q = "\<lambda>p. running n (\<lambda>ts k v. held p ts k)"])
  let ?Q = "\<lambda>p k v. running n (\<lambda>ts k v. held p ts k) k v"
  fix k v assume "running (Suc n) nothing k v"
  then obtain ts where r: "alone ts k" "stocked (Suc n) k" "o_th1 v \<in> set ts" "o_th1 v \<noteq> thread_main_inf k"
    by (rule runningE)
  obtain c k' where "malloc k = (Some c, k')" "alone ts k'" "stocked n k'" "held (ptr c) ts k'"
    "thread_main_inf k' = thread_main_inf k" by (rule alone_malloc [OF r(1,2)])
  with r(3,4) show "\<exists>p k'. malloc_ptr k = Some (p, k') \<and> ?Q p k' v"
    by (auto simp: malloc_ptr_def thread_malloc_def intro!: runningI)
next
  show "does (running n (\<lambda>ts k v. held p ts k)) (keep (\<lambda>v. v\<lparr>o_ptr := p\<rparr>)) 0 (running n a_block)" for p
    by (rule does_keep) (simp add: running_def a_block_def)
qed

lemma does_free_block: "does (running n a_block) free_block 0 (running n nothing)"
  unfolding free_block_def
proof (rule does_kcall_with)
  fix k v assume "running n a_block k v"
  then obtain ts where r: "alone ts k" "stocked n k" "o_th1 v \<in> set ts" "o_th1 v \<noteq> thread_main_inf k" "held (o_ptr v) ts k"
    unfolding a_block_def by (rule runningE)
  from alone_free [OF r(1,5), of n] r(2-4) show "\<exists>k'. thread_free (o_ptr v) k = Some k' \<and> running n nothing k' v"
    by (auto simp: nothing_def intro!: runningI)
qed

text \<open>Queues.\<close>

lemma small_queue:
  assumes "m = 100 \<or> m = 10"
  shows "2 * m + queue_header \<ge> queue_header" and "unat (2 * m + queue_header - queue_header) div 2 = unat (m :: u16)"
  using assms by (auto simp: queue_header_def)

lemma does_make_queue_100: "does (running (Suc n) nothing) (make_queue 100) 0 (running n nothing)"
  unfolding make_queue_def
proof (rule does_kcall_then [where Q = "\<lambda>_. running n nothing"])
  fix k v assume "running (Suc n) nothing k v"
  then obtain ts where r: "alone ts k" "stocked (Suc n) k" "o_th1 v \<in> set ts" "o_th1 v \<noteq> thread_main_inf k"
    by (rule runningE)
  from alone_queue_create [OF r(1,2) small_queue(1), of 100] r(3,4)
  show "\<exists>p k'. thread_queue_create 100 k = Some (p, k') \<and> running n nothing k' v"
    by (auto simp: nothing_def intro!: runningI)
next
  show "does (running n nothing) (keep (\<lambda>v. v\<lparr>o_queue := p\<rparr>)) 0 (running n nothing)" for p
    by (rule does_keep) (simp add: running_def nothing_def)
qed

lemma does_make_queue: "does (running (Suc n) nothing) (make_queue 10) 0 (running n (a_queue 0 0))"
  unfolding make_queue_def
proof (rule does_kcall_then [where Q = "\<lambda>p. running n (\<lambda>ts k v. held p ts k \<and> (\<exists>q. queues k p = Some q \<and> queue_ok q
    \<and> length (elements q) = 10 \<and> stored q = 0 \<and> read_index q = 0))"])
  let ?Q = "\<lambda>p k v. running n (\<lambda>ts k v. held p ts k \<and> (\<exists>q. queues k p = Some q \<and> queue_ok q \<and> length (elements q) = 10
     \<and> stored q = 0 \<and> read_index q = 0)) k v"
  fix k v assume "running (Suc n) nothing k v"
  then obtain ts where r: "alone ts k" "stocked (Suc n) k" "o_th1 v \<in> set ts" "o_th1 v \<noteq> thread_main_inf k"
    by (rule runningE)
  obtain p k' es where p: "thread_queue_create 10 k = Some (p, k')" "alone ts k'" "stocked n k'" "held p ts k'"
    "queues k' p = Some \<lparr>stored = 0, howmany = ucast (10 :: u16), read_index = 0, write_index = 0, elements = es\<rparr>"
    "length es = 10" "thread_main_inf k' = thread_main_inf k"
    using alone_queue_create [OF r(1,2) small_queue(1), of 10] small_queue(2) [of 10] by auto
  have "queue_ok \<lparr>stored = 0, howmany = ucast (10 :: u16), read_index = 0, write_index = 0, elements = es\<rparr>"
    using p(6) by (simp add: queue_ok_def Let_def)
  with p r(3,4) have "?Q p k' v" by (intro runningI [of ts]) simp_all
  with p(1) show "\<exists>p k'. thread_queue_create 10 k = Some (p, k') \<and> ?Q p k' v" by blast
next
  show "does (running n (\<lambda>ts k v. held p ts k \<and> (\<exists>q. queues k p = Some q \<and> queue_ok q
      \<and> length (elements q) = 10 \<and> stored q = 0 \<and> read_index q = 0))) (keep (\<lambda>v. v\<lparr>o_queue := p\<rparr>)) 0 (running n (a_queue 0 0))" for p
    by (rule does_keep) (auto simp: running_def a_queue_def)
qed

lemma does_drop_queue: "does (running (Suc n) (a_queue i r)) (drop_queue 10) 0 (running n (a_queue i r))"
  unfolding drop_queue_def
proof (rule does_kcall_then [OF _ does_done])
  fix k v assume "running (Suc n) (a_queue i r) k v"
  then obtain ts where t: "alone ts k" "stocked (Suc n) k" "o_th1 v \<in> set ts" "o_th1 v \<noteq> thread_main_inf k"
    "a_queue i r ts k v" by (rule runningE)
  obtain p k' where p: "thread_queue_create 10 k = Some (p, k')" "alone ts k'" "stocked n k'"
    "thread_main_inf k' = thread_main_inf k" and b: "blocks k \<subseteq> blocks k'" "\<forall>a \<in> blocks k. queues k' a = queues k a"
    using alone_queue_create [OF t(1,2) small_queue(1), of 10] by auto
  have "a_queue i r ts k' v" using t(5) b by (auto simp: a_queue_def held_def)
  with p t(3,4) show "\<exists>p k'. thread_queue_create 10 k = Some (p, k') \<and> running n (a_queue i r) k' v"
    by (auto intro!: runningI)
qed

text \<open>An operation on the queue of the test.\<close>

lemma running_queue:
  assumes "alone ts k" and "stocked n k" and "o_th1 v \<in> set ts" and "o_th1 v \<noteq> thread_main_inf k"
    and "held (o_queue v) ts k" and "queue_ok q" and "length (elements q) = 10" and "unat (stored q) = i"
    and "unat (read_index q) = r"
  shows "running n (a_queue i r) (k\<lparr>queues := (queues k)(o_queue v \<mapsto> q)\<rparr>) v"
  by (rule runningI [OF alone_queues [OF assms(1)]])
    (use assms(2-) in \<open>auto simp: a_queue_def held_def intro: stocked_cong\<close>)

lemma does_put_queue: "i < 10 \<Longrightarrow> does (running n (a_queue i r)) put_queue 0 (running n (a_queue (Suc i) r))"
  unfolding put_queue_def
proof (rule does_kcall_with_then)
  fix k v assume i: "i < 10" and "running n (a_queue i r) k v"
  then obtain ts q where t: "alone ts k" "stocked n k" "o_th1 v \<in> set ts" "o_th1 v \<noteq> thread_main_inf k"
    "held (o_queue v) ts k" and q: "queues k (o_queue v) = Some q" "queue_ok q" "length (elements q) = 10"
      "unat (stored q) = i" "unat (read_index q) = r"
    unfolding a_queue_def by (elim runningE) blast
  obtain q' where q': "queue_set q (o_queue v) = Some (0, q')" "queue_ok q'"
      "queue_content q' = queue_content q @ [o_queue v]" "length (elements q') = length (elements q)"
      "read_index q' = read_index q"
    using queue_set_room [OF q(2)] i q(3,4) by metis
  then have "unat (stored q') = Suc i" using q(4) length_queue_content [of q'] by simp
  with q q' have "running n (a_queue (Suc i) r) (k\<lparr>queues := (queues k)(o_queue v \<mapsto> q')\<rparr>) v"
    by (intro running_queue [OF t]) simp_all
  moreover have "thread_queue_nb_set_element (o_queue v) (o_queue v) k
      = Some (0, k\<lparr>queues := (queues k)(o_queue v \<mapsto> q')\<rparr>)"
    using t(5) q(1) q'(1) by (simp add: thread_queue_nb_set_element_def queue_at_def held_def)
  ultimately show "\<exists>x k'. thread_queue_nb_set_element (o_queue v) (o_queue v) k = Some (x, k')
      \<and> running n (a_queue (Suc i) r) k' v" by blast
qed

lemma does_get_queue:
  assumes "r < 10"
  shows "does (running n (a_queue (Suc i) r)) get_queue 0 (running n (a_queue i (Suc r)))"
  unfolding get_queue_def
proof (rule does_kcall_with_then)
  fix k v assume "running n (a_queue (Suc i) r) k v"
  then obtain ts q where t: "alone ts k" "stocked n k" "o_th1 v \<in> set ts" "o_th1 v \<noteq> thread_main_inf k"
    "held (o_queue v) ts k" and q: "queues k (o_queue v) = Some q" "queue_ok q" "length (elements q) = 10"
      "unat (stored q) = Suc i" "unat (read_index q) = r"
    unfolding a_queue_def by (elim runningE) blast
  obtain x xs where c: "queue_content q = x # xs"
    using q(4) length_queue_content [of q] by (cases "queue_content q") auto
  have b: "unat (read_index q) < length (elements q)" using q(3,5) assms by simp
  obtain q' where q': "queue_get q = Some (x, q')" "queue_ok q'" "queue_content q' = xs" "elements q' = elements q"
      "unat (read_index q') = Suc (unat (read_index q))"
    using queue_get_some [OF q(2) c b] .
  then have "unat (stored q') = i" using q(4) c length_queue_content [of q] length_queue_content [of q'] by simp
  with q q' have "running n (a_queue i (Suc r)) (k\<lparr>queues := (queues k)(o_queue v \<mapsto> q')\<rparr>) v"
    by (intro running_queue [OF t]) simp_all
  moreover have "thread_queue_nb_get_element (o_queue v) k = Some (x, k\<lparr>queues := (queues k)(o_queue v \<mapsto> q')\<rparr>)"
    using t(5) q(1) q'(1) by (simp add: thread_queue_nb_get_element_def queue_at_def held_def)
  ultimately show "\<exists>x k'. thread_queue_nb_get_element (o_queue v) k = Some (x, k')
      \<and> running n (a_queue i (Suc r)) k' v" by blast
qed

lemma does_delete_queue: "does (running n (a_queue i r)) delete_queue 0 (running n nothing)"
  unfolding delete_queue_def
proof (rule does_kcall_with)
  fix k v assume "running n (a_queue i r) k v"
  then obtain ts where t: "alone ts k" "stocked n k" "o_th1 v \<in> set ts" "o_th1 v \<noteq> thread_main_inf k"
    "held (o_queue v) ts k" unfolding a_queue_def by (elim runningE) blast
  from alone_free [OF t(1,5), of n] t(2-4)
  show "\<exists>k'. thread_queue_delete (o_queue v) k = Some k' \<and> running n nothing k' v"
    by (auto simp: thread_queue_delete_def nothing_def intro!: runningI)
qed

text \<open>Semaphores.\<close>

lemma does_make_sem: "does (running (Suc n) nothing) (make_sem x) 0 (running n (a_sem x))"
  unfolding make_sem_def
proof (rule does_kcall_then [where Q = "\<lambda>p. running n (\<lambda>ts k v. held p ts k \<and> sems k p = Some x)"])
  let ?Q = "\<lambda>p k v. running n (\<lambda>ts k v. held p ts k \<and> sems k p = Some x) k v"
  fix k v assume "running (Suc n) nothing k v"
  then obtain ts where r: "alone ts k" "stocked (Suc n) k" "o_th1 v \<in> set ts" "o_th1 v \<noteq> thread_main_inf k"
    by (rule runningE)
  from alone_sem_create [OF r(1,2), of x] r(3,4)
  show "\<exists>p k'. thread_semaphore_create x k = Some (p, k') \<and> ?Q p k' v" by (fastforce intro!: runningI)
next
  show "does (running n (\<lambda>ts k v. held p ts k \<and> sems k p = Some x)) (keep (\<lambda>v. v\<lparr>o_sem := p\<rparr>)) 0 (running n (a_sem x))" for p
    by (rule does_keep) (auto simp: running_def a_sem_def)
qed

lemma does_drop_sem: "does (running (Suc n) (a_sem x)) (drop_sem y) 0 (running n (a_sem x))"
  unfolding drop_sem_def
proof (rule does_kcall_then [OF _ does_done])
  fix k v assume "running (Suc n) (a_sem x) k v"
  then obtain ts where t: "alone ts k" "stocked (Suc n) k" "o_th1 v \<in> set ts" "o_th1 v \<noteq> thread_main_inf k"
    "a_sem x ts k v" by (rule runningE)
  obtain p k' where p: "thread_semaphore_create y k = Some (p, k')" "alone ts k'" "stocked n k'"
    "thread_main_inf k' = thread_main_inf k" and b: "blocks k \<subseteq> blocks k'" "\<forall>a \<in> blocks k. sems k' a = sems k a"
    using alone_sem_create [OF t(1,2), of y] by auto
  have "a_sem x ts k' v" using t(5) b by (auto simp: a_sem_def held_def)
  with p t(3,4) show "\<exists>p k'. thread_semaphore_create y k = Some (p, k') \<and> running n (a_sem x) k' v"
    by (auto intro!: runningI)
qed

lemma does_P_sem: "does (running n (a_sem x)) (P_sem T) 0 (running n (a_sem (if sint x \<le> 0 then x else x - 1)))"
  unfolding P_sem_def
proof (rule does_kcall_with)
  fix k v assume "running n (a_sem x) k v"
  then obtain ts where t: "alone ts k" "stocked n k" "o_th1 v \<in> set ts" "o_th1 v \<noteq> thread_main_inf k"
    "held (o_sem v) ts k" "sems k (o_sem v) = Some x" unfolding a_sem_def by (elim runningE) blast
  have nn: "o_sem v \<noteq> NULL" using t(5) by (simp add: held_def)
  from alone_P [OF t(1) nn t(6), of "handlers T"] t(2-5)
  show "\<exists>k'. thread_semaphore_P (handlers T) (o_sem v) k = Some k'
      \<and> running n (a_sem (if sint x \<le> 0 then x else x - 1)) k' v"
    by (elim exE conjE) (intro exI conjI, assumption,
      auto simp: a_sem_def held_def intro!: runningI elim: stocked_cong)
qed

lemma does_V_sem: "does (running n (a_sem x)) (V_sem T) 0 (running n (a_sem (x + 1)))"
  unfolding V_sem_def
proof (rule does_kcall_with)
  fix k v assume "running n (a_sem x) k v"
  then obtain ts where t: "alone ts k" "stocked n k" "o_th1 v \<in> set ts" "o_th1 v \<noteq> thread_main_inf k"
    "held (o_sem v) ts k" "sems k (o_sem v) = Some x" unfolding a_sem_def by (elim runningE) blast
  have nn: "o_sem v \<noteq> NULL" using t(5) by (simp add: held_def)
  from alone_V [OF t(1) nn t(6), of "handlers T"] t(2-5)
  show "\<exists>k'. thread_semaphore_V (handlers T) (o_sem v) k = Some k' \<and> running n (a_sem (x + 1)) k' v"
    by (elim exE conjE) (intro exI conjI, assumption,
      auto simp: a_sem_def held_def intro!: runningI elim: stocked_cong)
qed

lemma does_free_sem: "does (running n (a_sem x)) free_sem 0 (running n nothing)"
  unfolding free_sem_def
proof (rule does_kcall_with)
  fix k v assume "running n (a_sem x) k v"
  then obtain ts where t: "alone ts k" "stocked n k" "o_th1 v \<in> set ts" "o_th1 v \<noteq> thread_main_inf k"
    "held (o_sem v) ts k" unfolding a_sem_def by (elim runningE) blast
  from alone_sem_free [OF t(1,5), of n] t(2-4)
  show "\<exists>k'. thread_semaphore_free (o_sem v) k = Some k' \<and> running n nothing k' v"
    by (auto simp: nothing_def intro!: runningI)
qed

section \<open>Part by part\<close>

lemma does_num: "does P p m Q \<Longrightarrow> m = n \<Longrightarrow> does P p n Q"
  by simp

lemma count_down: "i < m \<Longrightarrow> n + (m - i) = Suc (n + (m - Suc i))"
  by simp

lemmas timed_one = does_timed(1) [OF does_one] does_timed(2) [OF does_one] does_timed(1) [OF does_Nil]
  does_timed(2) [OF does_Nil]

lemma does_begins: "does P perf_begin 1 P" "does P rperf_begin 1 P" "does P perf2_begin 1 P"
proof -
  show "does P perf_begin 1 P" unfolding perf_begin_def
    by (rule does_num, (rule does_Cons, rule steps_of)+, rule does_Nil, simp)
  show "does P rperf_begin 1 P" unfolding rperf_begin_def
    by (rule does_num, (rule does_Cons, rule steps_of)+, rule does_Nil, simp)
  have 1: "does P (block [print_str (''Simple PERFORMANCE TESTs '' @ nl), set_t1]) 0 P"
    by (rule does_num, (rule does_Cons, rule steps_of)+, rule does_Nil, simp)
  have 2: "does P (block (replicate 10 skip_micros)) 0 P"
    by (rule does_replicate) (rule steps_of)
  have 3: "does P (block [set_t2, set_mem1, set_mem2, sub_t, print_str (''error_(us)'' @ tab), div_t, show_t2, set_mem2]) 1 P"
    by (rule does_num, (rule does_Cons, rule steps_of)+, rule does_Nil, simp)
  show "does P perf2_begin 1 P" unfolding perf2_begin_def
    by (rule does_num [OF does_append [OF 1 does_append [OF 2 3]]]) simp
qed

lemma does_threads: "does (unstarted (Suc (Suc (Suc (Suc (Suc n)))))) (perf_threads T) 5 (running n nothing)"
    "does (unstarted (Suc (Suc (Suc (Suc (Suc n)))))) (rperf_threads T) 6 (running n nothing)"
    "does (unstarted (Suc (Suc (Suc (Suc (Suc n)))))) (sperf_threads T) 4 (running n nothing)"
proof -
  note 1 = timed_one(1) [OF does_make_th1] and 2 = timed_one(1) [OF does_make_th2]
  show "does (unstarted (Suc (Suc (Suc (Suc (Suc n)))))) (perf_threads T) 5 (running n nothing)"
    unfolding perf_threads_def
    by (rule does_num, rule does_Cons [OF 1], (rule does_Cons, rule steps_of)+, rule does_one [OF 2], simp)
  show "does (unstarted (Suc (Suc (Suc (Suc (Suc n)))))) (rperf_threads T) 6 (running n nothing)"
    unfolding rperf_threads_def
    by (rule does_num, rule does_Cons [OF 1], rule does_Cons [OF 2], rule does_one [OF timed_one(3)], simp)
  show "does (unstarted (Suc (Suc (Suc (Suc (Suc n)))))) (sperf_threads T) 4 (running n nothing)"
    unfolding sperf_threads_def
    by (rule does_num, rule does_Cons [OF 1], rule does_one [OF 2], simp)
qed

lemma does_signals: "does (running n nothing) (perf_signal T) 2 (running n nothing)"
    "does (running n nothing) (perf2_signal T) 2 (running n nothing)"
    "does (running n nothing) (rperf_ATS T) 6 (running n nothing)"
proof -
  note h = in_store_holdings(1)
  show "does (running n nothing) (perf_signal T) 2 (running n nothing)" unfolding perf_signal_def
    by (rule does_one [OF timed_one(1) [OF does_signal_th1 [OF h]]])
  have "does (running n nothing) (block (replicate 10 (signal_th1 T))) 0 (running n nothing)"
    by (rule does_replicate) (rule does_signal_th1 [OF h])
  then show "does (running n nothing) (perf2_signal T) 2 (running n nothing)" unfolding perf2_signal_def
    by (rule does_one [OF does_timed(1)])
  show "does (running n nothing) (rperf_ATS T) 6 (running n nothing)" unfolding rperf_ATS_def
    by (rule does_num, rule does_Cons [OF timed_one(1) [OF does_enable_ATS [OF h]]],
        rule does_Cons [OF timed_one(1) [OF does_disable_ATS [OF h]]],
        rule does_one [OF timed_one(1) [OF does_ATS_signal_th1 [OF h]]], simp)
qed

lemma does_queues: "does (running (Suc (Suc n)) nothing) perf_queue 8 (running n nothing)"
    "does (running (Suc (Suc n)) nothing) rperf_queue 10 (running n nothing)"
    "does (running (n + 6) nothing) perf3_queue 8 (running n nothing)"
proof -
  note 1 = timed_one(1) [OF does_make_queue_100] and 2 = timed_one(1) [OF does_make_queue]
  have 3: "does (running n (a_queue 0 0)) (timed_mem_first x y [put_queue]) 2 (running n (a_queue 1 0))" for x y
    using timed_one(2) [OF does_put_queue] by simp
  have 4: "does (running n (a_queue 1 0)) (timed_mem_first x y [get_queue]) 2 (running n (a_queue 0 1))" for x y
    using timed_one(2) [OF does_get_queue [of 0 n 0]] by simp
  have "does (running (Suc (Suc n)) nothing) perf_queue 8 (running n (a_queue 0 1))"
    unfolding perf_queue_def
    by (rule does_num, rule does_Cons [OF 1], rule does_Cons [OF 2], rule does_Cons [OF 3], rule does_one [OF 4], simp)
  then show "does (running (Suc (Suc n)) nothing) perf_queue 8 (running n nothing)"
    by (rule does_weaken) (rule running_forget)
  show "does (running (Suc (Suc n)) nothing) rperf_queue 10 (running n nothing)"
    unfolding rperf_queue_def
    by (rule does_num, rule does_Cons [OF 1], rule does_Cons [OF 2], rule does_Cons [OF 3], rule does_Cons [OF 4],
        rule does_one [OF timed_one(2) [OF does_delete_queue]], simp)
  have "does (running (n + (4 - i)) (a_queue 0 0)) (drop_queue 10) 0 (running (n + (4 - Suc i)) (a_queue 0 0))"
    if "i < 4" for i
    by (simp only: count_down [OF that] does_drop_queue)
  from does_replicate [of 4 "\<lambda>i. running (n + (4 - i)) (a_queue 0 0)", OF this]
  have "does (running (n + 4) (a_queue 0 0)) (block (replicate 4 (drop_queue 10))) 0 (running n (a_queue 0 0))" by simp
  from does_append [OF does_one [OF does_make_queue] this]
  have 5: "does (running (Suc (n + 4)) nothing) (timed x y ([make_queue 10] @ replicate 4 (drop_queue 10))) 2
      (running n (a_queue 0 0))" for x y
    by (intro does_timed(1)) simp
  have 6: "does (running n (a_queue 0 0)) (timed_mem_first x y (replicate 10 put_queue)) 2 (running n (a_queue 10 0))" for x y
    by (rule does_timed(2)) (rule does_replicate [of 10 "\<lambda>i. running n (a_queue i 0)", OF does_put_queue])
  have "does (running n (a_queue (10 - i) i)) get_queue 0 (running n (a_queue (10 - Suc i) (Suc i)))" if "i < 10" for i
  proof -
    have "10 - i = Suc (10 - Suc i)" using that by simp
    then show ?thesis by (simp only: does_get_queue [OF that])
  qed
  from does_replicate [of 10 "\<lambda>i. running n (a_queue (10 - i) i)", OF this]
  have 7: "does (running n (a_queue 10 0)) (timed_mem_first x y (replicate 10 get_queue)) 2 (running n (a_queue 0 10))" for x y
    by (intro does_timed(2)) simp
  have "does (running (Suc (Suc (n + 4))) nothing) perf3_queue 8 (running n (a_queue 0 10))"
    unfolding perf3_queue_def
    by (rule does_num, rule does_Cons [OF 1], rule does_Cons [OF 5], rule does_Cons [OF 6], rule does_one [OF 7], simp)
  then show "does (running (n + 6) nothing) perf3_queue 8 (running n nothing)"
    by (intro does_weaken [OF _ running_forget]) (simp add: eval_nat_numeral)
qed

lemma does_allocs: "does (running (Suc (Suc n)) nothing) perf_alloc 4 (running n nothing)"
    "does (running (Suc (Suc n)) nothing) rperf_alloc 8 (running n nothing)"
    "does (running (n + 6) nothing) perf3_alloc 6 (running n nothing)"
proof -
  note 1 = timed_one(2) [OF does_drop_block] and 2 = timed_one(2) [OF does_make_block]
    and 3 = timed_one(2) [OF does_free_block]
  show "does (running (Suc (Suc n)) nothing) perf_alloc 4 (running n nothing)"
    unfolding perf_alloc_def by (rule does_num, rule does_Cons [OF 1], rule does_one [OF 1], simp)
  show "does (running (Suc (Suc n)) nothing) rperf_alloc 8 (running n nothing)"
    unfolding rperf_alloc_def
    by (rule does_num, rule does_Cons [OF 2], rule does_Cons [OF 3], rule does_Cons [OF 2], rule does_one [OF 3], simp)
  have "does (running (Suc n + (5 - i)) nothing) drop_block 0 (running (Suc n + (5 - Suc i)) nothing)" if "i < 5" for i
    by (simp only: count_down [OF that] does_drop_block)
  from does_replicate [of 5 "\<lambda>i. running (Suc n + (5 - i)) nothing", OF this]
  have 4: "does (running (n + 6) nothing) (timed_mem_first x y (replicate 5 drop_block)) 2 (running (Suc n) nothing)" for x y
    by (intro does_timed(2)) (simp add: eval_nat_numeral)
  have "does (running (Suc n) nothing) (block [make_block, free_block]) 0 (running n nothing)"
    using does_Cons [OF does_make_block does_one [OF does_free_block]] by simp
  note 5 = does_timed(2) [OF this]
  show "does (running (n + 6) nothing) perf3_alloc 6 (running n nothing)"
    unfolding perf3_alloc_def
    by (rule does_num, rule does_Cons [OF 4], rule does_Cons [OF 5], rule does_one [OF timed_one(4)], simp)
qed

lemma does_clocks: "does P perf_clock 4 P" "does P perf3_clock 4 P"
proof -
  show "does P perf_clock 4 P" unfolding perf_clock_def
    by (rule does_num, (rule does_Cons, rule timed_one, rule does_reads)+, rule does_Nil, simp)
  show "does P perf3_clock 4 P" unfolding perf3_clock_def
    by (rule does_num, (rule does_Cons, rule does_timed, rule does_replicate, rule does_reads)+, rule does_Nil, simp)
qed

lemma does_all_reads: "does P (perf_read T) 8 P" "does P (perf3_read T) 8 P"
proof -
  show "does P (perf_read T) 8 P" unfolding perf_read_def
    by (rule does_num, (rule does_Cons, rule timed_one, rule does_reads)+, rule does_Nil, simp)
  have "does P (block (replicate 10 (read_cell f p))) 0 P" for f :: "u32 \<Rightarrow> kernel \<Rightarrow> 'a" and p
    by (rule does_replicate) (rule does_reads)
  note 1 = does_timed(2) [OF this]
  show "does P (perf3_read T) 8 P" unfolding perf3_read_def
    by (rule does_num, (rule does_Cons, rule 1)+, rule does_Nil, simp)
qed

lemma does_all_writes: "does (running n nothing) (perf_write T) 8 (running n nothing)"
    "does (running n nothing) (rperf_write T) 8 (running n nothing)"
    "does (running n nothing) (perf3_write T) 8 (running n nothing)"
proof -
  note w = does_writes [OF in_store_holdings(1)]
  show "does (running n nothing) (perf_write T) 8 (running n nothing)" unfolding perf_write_def
    by (rule does_num, (rule does_Cons, rule timed_one, rule w)+, rule does_Nil, simp)
  show "does (running n nothing) (rperf_write T) 8 (running n nothing)" unfolding rperf_write_def
    by (rule does_num, (rule does_Cons, rule timed_one, rule w does_reads)+, rule does_Nil, simp)
  show "does (running n nothing) (perf3_write T) 8 (running n nothing)" unfolding perf3_write_def
    by (rule does_num, (rule does_Cons, rule does_timed, rule does_replicate, rule w)+, rule does_Nil, simp)
qed

lemma does_sems: "does (running (Suc n) nothing) (perf_sem T) 6 (running n nothing)"
    "does (running (Suc n) nothing) (rperf_sem T) 8 (running n nothing)"
    "does (running (n + 10) nothing) (perf3_sem T) 6 (running n (a_sem 10))"
proof -
  have P: "does (running n (a_sem x)) (P_sem T) 0 (running n (a_sem y))"
    if "(if sint x \<le> 0 then x else x - 1) = y" for x y n
    using does_P_sem [of n x T] that by simp
  have "does (running (Suc n) nothing) (perf_sem T) 6 (running n (a_sem (0 + 1)))" unfolding perf_sem_def
    by (rule does_num, rule does_Cons [OF timed_one(2) [OF does_make_sem]],
        rule does_Cons [OF timed_one(2) [OF P]], (simp; fail), rule does_one [OF timed_one(2) [OF does_V_sem]], simp)
  then show "does (running (Suc n) nothing) (perf_sem T) 6 (running n nothing)"
    by (rule does_weaken) (rule running_forget)
  show "does (running (Suc n) nothing) (rperf_sem T) 8 (running n nothing)" unfolding rperf_sem_def
    by (rule does_num, rule does_Cons [OF timed_one(1) [OF does_make_sem]],
        rule does_Cons [OF timed_one(1) [OF does_P_sem]], rule does_Cons [OF timed_one(1) [OF does_V_sem]],
        rule does_one [OF timed_one(1) [OF does_free_sem]], simp)
  have "does (running (n + (9 - i)) (a_sem 1)) (drop_sem 1) 0 (running (n + (9 - Suc i)) (a_sem 1))" if "i < 9" for i
    by (simp only: count_down [OF that] does_drop_sem)
  from does_replicate [of 9 "\<lambda>i. running (n + (9 - i)) (a_sem 1)", OF this]
  have "does (running (n + 9) (a_sem 1)) (block (replicate 9 (drop_sem 1))) 0 (running n (a_sem 1))" by simp
  from does_append [OF does_one [OF does_make_sem] this]
  have 1: "does (running (n + 10) nothing) (timed_mem_first x y ([make_sem 1] @ replicate 9 (drop_sem 1))) 2
      (running n (a_sem 1))" for x y
    by (intro does_timed(2)) (simp add: eval_nat_numeral)
  have "does (running n (a_sem (if i = 0 then 1 else 0))) (P_sem T) 0 (running n (a_sem (if Suc i = 0 then 1 else 0)))" for i
    by (rule P) simp
  from does_replicate [of 10 "\<lambda>i. running n (a_sem (if i = 0 then 1 else 0))", OF this]
  have 2: "does (running n (a_sem 1)) (timed_mem_first x y (replicate 10 (P_sem T))) 2 (running n (a_sem 0))" for x y
    by (intro does_timed(2)) simp
  have "does (running n (a_sem (of_nat i))) (V_sem T) 0 (running n (a_sem (of_nat (Suc i))))" for i
    using does_V_sem [of n "of_nat i" T] by (simp add: add.commute)
  from does_replicate [of 10 "\<lambda>i. running n (a_sem (of_nat i))", OF this]
  have 3: "does (running n (a_sem 0)) (timed_mem_first x y (replicate 10 (V_sem T))) 2 (running n (a_sem 10))" for x y
    by (intro does_timed(2)) simp
  show "does (running (n + 10) nothing) (perf3_sem T) 6 (running n (a_sem 10))" unfolding perf3_sem_def
    by (rule does_num, rule does_Cons [OF 1], rule does_Cons [OF 2], rule does_one [OF 3], simp)
qed

lemma does_atomics: "does P perf_atomic 2 P" "does P rperf_atomic 2 P" "does P perf3_atomic 2 P"
proof -
  show "does P rperf_atomic 2 P" unfolding rperf_atomic_def by (rule does_one [OF timed_one(3)])
  show "does P perf_atomic 2 P" unfolding perf_atomic_def
    by (rule does_one [OF does_timed(2)], rule does_num, (rule does_Cons, rule steps_of)+, rule does_Nil, simp)
  show "does P perf3_atomic 2 P" unfolding perf3_atomic_def
    by (rule does_one [OF does_timed(2)], rule does_num, (rule does_Cons, rule steps_of)+, rule does_Nil, simp)
qed

section \<open>The whole loops\<close>

text \<open>What \<open>loop\<close> does at its end, and what it never comes to behind its \<open>while(1)\<close>.\<close>

definition ending :: "target \<Rightarrow> nat \<Rightarrow> perf list" where
  "ending T n = [set_t1] @ replicate n (yield T) @ [set_t2, sub_t, print_str (''yield()'' @ tab), show_t2, delay 1000]"

definition hung :: "target \<Rightarrow> perf" where
  "hung T = block [hang, threads_subsystem_start T]"

lemma perf_ends: "perf_end T = block (ending T 1 @ [hang, threads_subsystem_start T])"
    "perf3_end T = block (ending T 10 @ [hang, threads_subsystem_start T])"
  by (simp_all add: perf_end_def perf3_end_def ending_def)

lemma does_ending:
  assumes "in_store R"
  shows "does (running n R) (block (ending T m)) 1 (running n R)"
proof -
  have 1: "does (running n R) (block [set_t1]) 0 (running n R)" by (rule does_one) (rule steps_of)
  have 2: "does (running n R) (block (replicate m (yield T))) 0 (running n R)"
    by (rule does_replicate) (rule does_yield [OF assms])
  have 3: "does (running n R) (block [set_t2, sub_t, print_str (''yield()'' @ tab), show_t2, delay 1000]) 1 (running n R)"
    by (rule does_num, (rule does_Cons, rule steps_of)+, rule does_Nil, simp)
  show ?thesis unfolding ending_def by (rule does_num [OF does_append [OF 1 does_append [OF 2 3]]]) simp
qed

lemma block_nested: "block (ps @ [block qs]) = block (ps @ qs)"
  by (induction ps) (simp_all add: block_def)

lemma hung_never_returns: "\<not> returns (hung T) a b"
  using never_returns [of Done Done "block [threads_subsystem_start T]" a b]
  by (simp add: hung_def block_def hang_def forever_def)

lemma does_hang:
  assumes "does P (block ps) n Q" and "P (kern a) (p_objs (vars a))"
    and "p = block (ps @ [block (qs @ [hang, threads_subsystem_start T])])" and "does Q (block qs) m R"
  shows "(\<exists>b. reaches p a b (hung T) \<and> R (kern b) (p_objs (vars b)) \<and> printed (trace b) = printed (trace a) + (n + m)
    \<and> timer b = timer a \<and> p_th1 (vars b) = p_th1 (vars a)) \<and> (\<nexists>b. returns p a b)"
proof -
  from does_append [OF assms(1,4)] assms(2) obtain b where b: "returns (block (ps @ qs)) a b"
    "R (kern b) (p_objs (vars b))" "printed (trace b) = printed (trace a) + (n + m)" "timer b = timer a"
    "p_th1 (vars b) = p_th1 (vars a)" unfolding does_def by blast
  have "p = seq (block (ps @ qs)) (hung T)"
    unfolding assms(3) block_nested hung_def
    by (induction ps; induction qs) (simp_all add: block_def seq_assoc)
  then have "reaches p a b (hung T)" using reaches_seq [OF b(1) reaches_refl] by simp
  moreover from this have "\<nexists>b. returns p a b" by (metis reaches_returns hung_never_returns)
  ultimately show ?thesis using b(2-) by blast
qed

text \<open>The loops without the grouping of their parts.\<close>

lemma loops_flat:
  "perf2_loop T = block [perf2_begin, perf_threads T, perf2_signal T, perf_queue, perf_alloc,
     perf_clock, perf_read T, perf_write T, perf_sem T, perf_atomic, perf_end T]"
  "rperf_loop T = block [rperf_begin, rperf_threads T, perf_signal T, rperf_ATS T, rperf_queue, rperf_sem T,
     rperf_atomic, rperf_alloc, perf_clock, perf_read T, rperf_write T, perf_end T]"
  "sperf_loop T = block [rperf_begin, sperf_threads T, perf_signal T, perf_queue,
     perf_alloc, perf_clock, perf_read T, rperf_write T, perf_end T]"
  by (simp_all add: perf2_loop_def perf2_access_def perf2_sync_def rperf_loop_def rperf_access_def
      sperf_loop_def sperf_access_def block_def seq_assoc)

text \<open>The parts with the memory the loops come to them with.\<close>

lemma does_small:
  "does (running 3 nothing) perf_alloc 4 (running 1 nothing)" "does (running 1 nothing) (perf_sem T) 6 (running 0 nothing)"
  "does (running 3 nothing) (rperf_sem T) 8 (running 2 nothing)" "does (running 2 nothing) rperf_alloc 8 (running 0 nothing)"
  using does_allocs(1) [of 1] does_sems(1) [of 0] does_sems(2) [of 2] does_allocs(2) [of 0]
  by (simp_all add: eval_nat_numeral)

lemma perf_loop_runs:
  assumes "unstarted 10 (kern a) (p_objs (vars a))"
  shows "(\<exists>b. reaches (perf_loop T) a b (hung T) \<and> running 0 nothing (kern b) (p_objs (vars b))
    \<and> printed (trace b) = printed (trace a) + (48 + 1) \<and> timer b = timer a \<and> p_th1 (vars b) = p_th1 (vars a))
    \<and> (\<nexists>b. returns (perf_loop T) a b)"
proof (rule does_hang)
  show "does (unstarted 10) (block [perf_begin, perf_threads T, perf_signal T, perf_queue, perf_alloc, perf_clock, perf_read T,
      perf_write T, perf_sem T, perf_atomic]) 48 (running 0 nothing)"
    by (rule does_num, rule does_Cons [OF does_begins(1)],
        rule does_Cons [OF does_threads(1) [of 5, simplified]], rule does_Cons [OF does_signals(1)],
        rule does_Cons [OF does_queues(1) [of 3, simplified]], rule does_Cons [OF does_small(1)],
        rule does_Cons [OF does_clocks(1)], rule does_Cons [OF does_all_reads(1)],
        rule does_Cons [OF does_all_writes(1)], rule does_Cons [OF does_small(2)],
        rule does_one [OF does_atomics(1)], simp)
  show "does (running 0 nothing) (block (ending T 1)) 1 (running 0 nothing)"
    by (rule does_ending [OF in_store_holdings(1)])
qed (use assms in \<open>simp_all add: perf_loop_def perf_ends\<close>)

lemma perf2_loop_runs:
  assumes "unstarted 10 (kern a) (p_objs (vars a))"
  shows "(\<exists>b. reaches (perf2_loop T) a b (hung T) \<and> running 0 nothing (kern b) (p_objs (vars b))
    \<and> printed (trace b) = printed (trace a) + (48 + 1) \<and> timer b = timer a \<and> p_th1 (vars b) = p_th1 (vars a))
    \<and> (\<nexists>b. returns (perf2_loop T) a b)"
proof (rule does_hang)
  show "does (unstarted 10) (block [perf2_begin, perf_threads T, perf2_signal T, perf_queue, perf_alloc, perf_clock, perf_read T,
      perf_write T, perf_sem T, perf_atomic]) 48 (running 0 nothing)"
    by (rule does_num, rule does_Cons [OF does_begins(3)],
        rule does_Cons [OF does_threads(1) [of 5, simplified]], rule does_Cons [OF does_signals(2)],
        rule does_Cons [OF does_queues(1) [of 3, simplified]], rule does_Cons [OF does_small(1)],
        rule does_Cons [OF does_clocks(1)], rule does_Cons [OF does_all_reads(1)],
        rule does_Cons [OF does_all_writes(1)], rule does_Cons [OF does_small(2)],
        rule does_one [OF does_atomics(1)], simp)
  show "does (running 0 nothing) (block (ending T 1)) 1 (running 0 nothing)"
    by (rule does_ending [OF in_store_holdings(1)])
qed (use assms in \<open>simp_all add: loops_flat perf_ends\<close>)

lemma rperf_loop_runs:
  assumes "unstarted 10 (kern a) (p_objs (vars a))"
  shows "(\<exists>b. reaches (rperf_loop T) a b (hung T) \<and> running 0 nothing (kern b) (p_objs (vars b))
    \<and> printed (trace b) = printed (trace a) + (63 + 1) \<and> timer b = timer a \<and> p_th1 (vars b) = p_th1 (vars a))
    \<and> (\<nexists>b. returns (rperf_loop T) a b)"
proof (rule does_hang)
  show "does (unstarted 10) (block [rperf_begin, rperf_threads T, perf_signal T, rperf_ATS T, rperf_queue, rperf_sem T,
      rperf_atomic, rperf_alloc, perf_clock, perf_read T, rperf_write T]) 63 (running 0 nothing)"
    by (rule does_num, rule does_Cons [OF does_begins(2)],
        rule does_Cons [OF does_threads(2) [of 5, simplified]], rule does_Cons [OF does_signals(1)],
        rule does_Cons [OF does_signals(3)], rule does_Cons [OF does_queues(2) [of 3, simplified]],
        rule does_Cons [OF does_small(3)], rule does_Cons [OF does_atomics(2)],
        rule does_Cons [OF does_small(4)], rule does_Cons [OF does_clocks(1)],
        rule does_Cons [OF does_all_reads(1)], rule does_one [OF does_all_writes(2)], simp)
  show "does (running 0 nothing) (block (ending T 1)) 1 (running 0 nothing)"
    by (rule does_ending [OF in_store_holdings(1)])
qed (use assms in \<open>simp_all add: loops_flat perf_ends\<close>)

lemma sperf_loop_runs:
  assumes "unstarted 10 (kern a) (p_objs (vars a))"
  shows "(\<exists>b. reaches (sperf_loop T) a b (hung T) \<and> running 1 nothing (kern b) (p_objs (vars b))
    \<and> printed (trace b) = printed (trace a) + (39 + 1) \<and> timer b = timer a \<and> p_th1 (vars b) = p_th1 (vars a))
    \<and> (\<nexists>b. returns (sperf_loop T) a b)"
proof (rule does_hang)
  show "does (unstarted 10) (block [rperf_begin, sperf_threads T, perf_signal T, perf_queue, perf_alloc, perf_clock,
      perf_read T, rperf_write T]) 39 (running 1 nothing)"
    by (rule does_num, rule does_Cons [OF does_begins(2)],
        rule does_Cons [OF does_threads(3) [of 5, simplified]], rule does_Cons [OF does_signals(1)],
        rule does_Cons [OF does_queues(1) [of 3, simplified]], rule does_Cons [OF does_small(1)],
        rule does_Cons [OF does_clocks(1)], rule does_Cons [OF does_all_reads(1)],
        rule does_one [OF does_all_writes(2)], simp)
  show "does (running 1 nothing) (block (ending T 1)) 1 (running 1 nothing)"
    by (rule does_ending [OF in_store_holdings(1)])
qed (use assms in \<open>simp_all add: loops_flat perf_ends\<close>)

lemma perf3_loop_runs:
  assumes "unstarted 27 (kern a) (p_objs (vars a))"
  shows "(\<exists>b. reaches (perf3_loop T) a b (hung T) \<and> running 0 (a_sem 10) (kern b) (p_objs (vars b))
    \<and> printed (trace b) = printed (trace a) + (50 + 1) \<and> timer b = timer a \<and> p_th1 (vars b) = p_th1 (vars a))
    \<and> (\<nexists>b. returns (perf3_loop T) a b)"
proof (rule does_hang)
  show "does (unstarted 27) (block [perf2_begin, perf_threads T, perf2_signal T, perf3_queue, perf3_alloc, perf3_clock,
      perf3_read T, perf3_write T, perf3_sem T, perf3_atomic]) 50 (running 0 (a_sem 10))"
    by (rule does_num, rule does_Cons [OF does_begins(3)],
        rule does_Cons [OF does_threads(1) [of 22, simplified]], rule does_Cons [OF does_signals(2)],
        rule does_Cons [OF does_queues(3) [of 16, simplified]], rule does_Cons [OF does_allocs(3) [of 10, simplified]],
        rule does_Cons [OF does_clocks(2)], rule does_Cons [OF does_all_reads(2)],
        rule does_Cons [OF does_all_writes(3)], rule does_Cons [OF does_sems(3) [of 0, simplified]],
        rule does_one [OF does_atomics(3)], simp)
  show "does (running 0 (a_sem 10)) (block (ending T 10)) 1 (running 0 (a_sem 10))"
    by (rule does_ending [OF in_store_holdings(3)])
qed (use assms in \<open>simp_all add: perf3_loop_def perf_ends\<close>)

section \<open>What the tests show\<close>

text \<open>A loop comes to its \<open>while(1)\<close> with \<open>n\<close> more numbers shown, the main program still in charge.\<close>

definition completes :: "(target \<Rightarrow> perf) \<Rightarrow> nat \<Rightarrow> holding \<Rightarrow> target \<Rightarrow> (kernel, perf_vars) app \<Rightarrow> bool" where
  "completes L n R T a \<longleftrightarrow>
     (\<exists>b ts. reaches (L T) a b (hung T) \<and> alone ts (kern b) \<and> R ts (kern b) (p_objs (vars b))
        \<and> printed (trace b) = printed (trace a) + n \<and> timer b = timer a \<and> p_th1 (vars b) = p_th1 (vars a))
     \<and> (\<nexists>b. returns (L T) a b)"

lemma completesI:
  assumes "(\<exists>b. reaches (L T) a b (hung T) \<and> running m R (kern b) (p_objs (vars b))
      \<and> printed (trace b) = printed (trace a) + n \<and> timer b = timer a \<and> p_th1 (vars b) = p_th1 (vars a))
    \<and> (\<nexists>b. returns (L T) a b)"
  shows "completes L n R T a"
  using assms unfolding completes_def running_def by blast


text \<open>An empty kernel with memory, on which nothing has run.\<close>

definition perf_boot :: "nat \<Rightarrow> (kernel, perf_vars) app" where
  "perf_boot n = \<lparr>kern = demo_reset\<lparr>answers := map (\<lambda>i. demo_chunk (word_of_nat (i + 1) * 0x100)) [0..<n]\<rparr>,
     trace = [], timer = \<lparr>TCCR2A = 0, TCCR2B = 0, TIMSK2 = 0, interrupts_on = True\<rparr>, rx = [],
     vars = \<lparr>p_meter = \<lparr>m_t1 = 0, m_t2 = 0, m_mem1 = 0, m_mem2 = 0, m_micros = (\<lambda>i. 8 * of_nat i), m_brkval = (\<lambda>_. 0x400)\<rparr>,
       p_objs = \<lparr>o_th1 = 0, o_th2 = 0, o_queue = 0, o_sem = 0, o_ptr = 0\<rparr>,
       p_counter = 0, p_th1 = 0, p_handler = 0, p_aux = 0, p_aux_t = 0\<rparr>\<rparr>"

lemma perf_boot_stocked:
  "thread_list (kern (perf_boot n)) = NULL" "stocked 10 (kern (perf_boot 10))" "stocked 27 (kern (perf_boot 27))"
  by (simp_all add: perf_boot_def demo_reset_def stocked_def demo_chunk_def upt_rec)


text \<open>In the variant \<open>_3\<close> the main program takes a semaphore of one token ten times and posts it ten
  times. It passes a semaphore that has no token (nothing keeps the main program from running), and
  every post adds one: in the end the semaphore that began with one token has ten.\<close>

theorem perf3_mints_tokens:
  assumes "thread_list (kern a) = NULL" and "stocked 27 (kern a)"
  shows "completes perf3_loop 51 (a_sem 10) T a
    \<and> does (running (Suc n) nothing) (make_sem 1) 0 (running n (a_sem 1))
    \<and> does (running n (a_sem 0)) (P_sem T) 0 (running n (a_sem 0))"
proof -
  have u: "unstarted 27 (kern a) (p_objs (vars a))" using assms by (simp add: unstarted_def)
  have "completes perf3_loop 51 (a_sem 10) T a" using completesI [where L = perf3_loop, OF perf3_loop_runs [OF u]] by simp
  moreover have "does (running n (a_sem 0)) (P_sem T) 0 (running n (a_sem 0))" using does_P_sem [of n 0 T] by simp
  ultimately show ?thesis using does_make_sem by blast
qed

theorem perf3_mints_tokens_witness:
  "completes perf3_loop 51 (a_sem 10) demo_target (perf_boot 27)"
  using perf3_mints_tokens [OF perf_boot_stocked(1,3), of demo_target] by blast

text \<open>
  If a thread of these sketches did run, its job would be undefined: \<open>loop\<close> keeps the thread it makes in a
  variable of its own, and the \<open>th1\<close> the job signals to is still NULL.
\<close>

lemma ATS_signal_NULL: "thread_ATS_signal H NULL k = None"
  by (simp add: thread_ATS_signal_def upd_thread_def deref_def)

lemma perf_job_undefined:
  assumes "p_th1 (vars a) = NULL"
  shows "\<not> returns (perf_periodic_task1 T) a b"
  using assms by (simp add: perf_periodic_task1_def runs ATS_signal_NULL split: option.split)

end
