(* ===== verification/Ex_Sound.thy ===== *)
theory Ex_Sound
  imports RT_Prog
begin

text \<open>
  The sketches that make sound or blink without the library: sketch_mar28d and startwars (a march played
  with \<open>tone\<close>), sketch_mar28b (the same text as beep2_ino: two tunes on a buzzer), sound_test, beep2ino
  (a melody by pulse width), beep and sketch_mar15b. The frequencies of pitches.h, which is not in the
  repository, are the parameter \<open>P\<close>. A \<open>long\<close> is an \<open>int\<close> here; a result that does not fit into 32 bits, and
  a division by zero, are undefined. sketch_mar28a is a fragment of sketch_mar28b without its declarations.
\<close>

section \<open>Arithmetic of long\<close>

definition long :: "int \<Rightarrow> int option" where
  "long x = (if - (2 ^ 31) \<le> x \<and> x < 2 ^ 31 then Some x else None)"

definition long_div :: "int \<Rightarrow> int \<Rightarrow> int option" where
  "long_div x y = (if y = 0 then None else long (sgn x * sgn y * (\<bar>x\<bar> div \<bar>y\<bar>)))"

lemma long_nonneg: "0 \<le> x \<Longrightarrow> x < 2 ^ 31 \<Longrightarrow> long x = Some x"
  by (simp add: long_def)

lemma long_div_pos:
  assumes "0 \<le> x" and "x < 2 ^ 31" and "0 < y"
  shows "long_div x y = Some (x div y)"
proof -
  have "0 \<le> x div y" "x div y \<le> x" using assms zdiv_mono2 [of x 1 y] by (simp_all add: pos_imp_zdiv_nonneg_iff)
  with assms show ?thesis by (cases "x = 0") (simp_all add: long_div_def long_def)
qed

section \<open>The march: sketch_mar28d and startwars\<close>

text \<open>The table of frequencies, in hundredths of a hertz; \<open>tone\<close> takes whole ones.\<close>

definition frequencies :: "(string \<times> nat) list" where
  "frequencies = [
     (''C0'', 1635), (''Db0'', 1732), (''D0'', 1835), (''Eb0'', 1945), (''E0'', 2060),
     (''F0'', 2183), (''Gb0'', 2312), (''G0'', 2450), (''Ab0'', 2596), (''LA0'', 2750),
     (''Bb0'', 2914), (''B0'', 3087), (''C1'', 3270), (''Db1'', 3465), (''D1'', 3671),
     (''Eb1'', 3889), (''E1'', 4120), (''F1'', 4365), (''Gb1'', 4625), (''G1'', 4900),
     (''Ab1'', 5191), (''LA1'', 5500), (''Bb1'', 5827), (''B1'', 6174), (''C2'', 6541),
     (''Db2'', 6930), (''D2'', 7342), (''Eb2'', 7778), (''E2'', 8241), (''F2'', 8731),
     (''Gb2'', 9250), (''G2'', 9800), (''Ab2'', 10383), (''LA2'', 11000), (''Bb2'', 11654),
     (''B2'', 12347), (''C3'', 13081), (''Db3'', 13859), (''D3'', 14683), (''Eb3'', 15556),
     (''E3'', 16481), (''F3'', 17461), (''Gb3'', 18500), (''G3'', 19600), (''Ab3'', 20765),
     (''LA3'', 22000), (''Bb3'', 23308), (''B3'', 24694), (''C4'', 26163), (''Db4'', 27718),
     (''D4'', 29366), (''Eb4'', 31113), (''E4'', 32963), (''F4'', 34923), (''Gb4'', 36999),
     (''G4'', 39200), (''Ab4'', 41530), (''LA4'', 44000), (''Bb4'', 46616), (''B4'', 49388),
     (''C5'', 52325), (''Db5'', 55437), (''D5'', 58733), (''Eb5'', 62225), (''E5'', 65926),
     (''F5'', 69846), (''Gb5'', 73999), (''G5'', 78399), (''Ab5'', 83061), (''LA5'', 88000),
     (''Bb5'', 93233), (''B5'', 98777), (''C6'', 104650), (''Db6'', 110873), (''D6'', 117466),
     (''Eb6'', 124451), (''E6'', 131851), (''F6'', 139691), (''Gb6'', 147998), (''G6'', 156798),
     (''Ab6'', 166122), (''LA6'', 176000), (''Bb6'', 186466), (''B6'', 197553), (''C7'', 209300),
     (''Db7'', 221746), (''D7'', 234932), (''Eb7'', 248902), (''E7'', 263702), (''F7'', 279383),
     (''Gb7'', 295996), (''G7'', 313596), (''Ab7'', 332244), (''LA7'', 352001), (''Bb7'', 372931),
     (''B7'', 395107), (''C8'', 418601), (''Db8'', 443492), (''D8'', 469864), (''Eb8'', 497803)]"

definition frequency :: "string \<Rightarrow> nat" where
  "frequency n = (case map_of frequencies n of None \<Rightarrow> 0 | Some f \<Rightarrow> f div 100)"

definition BPM :: nat where "BPM = 120"
definition Q_ms :: nat where "Q_ms = 60000 div BPM"
definition H_ms :: nat where "H_ms = 2 * 60000 div BPM"
definition E_ms :: nat where "E_ms = 60000 div BPM div 2"
definition S_ms :: nat where "S_ms = 60000 div BPM div 4"

text \<open>\<open>Beat n d\<close> is \<open>tone(8,n,d); delay(1+d);\<close> and \<open>Rest d\<close> is \<open>delay(1+d);\<close>.\<close>

datatype beat = Beat string nat | Rest nat

definition tone :: "nat \<Rightarrow> nat \<Rightarrow> nat \<Rightarrow> ('k, 'v) app prog" where
  "tone pin f d = emit (\<lambda>_. [Tone pin f d])"

fun play :: "beat \<Rightarrow> ('k, 'v) app prog" where
  "play (Beat n d) = block [tone 8 (frequency n) d, delay (1 + d)]"
| "play (Rest d) = delay (1 + d)"

definition march :: "beat list" where
  "march = [
     Beat ''LA3'' Q_ms, Beat ''LA3'' Q_ms, Beat ''LA3'' Q_ms, Beat ''F3'' (E_ms + S_ms),
     Beat ''C4'' S_ms, Beat ''LA3'' Q_ms, Beat ''F3'' (E_ms + S_ms), Beat ''C4'' S_ms,
     Beat ''LA3'' H_ms, Beat ''E4'' Q_ms, Beat ''E4'' Q_ms, Beat ''E4'' Q_ms,
     Beat ''F4'' (E_ms + S_ms), Beat ''C4'' S_ms, Beat ''Ab3'' Q_ms, Beat ''F3'' (E_ms + S_ms),
     Beat ''C4'' S_ms, Beat ''LA3'' H_ms, Beat ''LA4'' Q_ms, Beat ''LA3'' (E_ms + S_ms),
     Beat ''LA3'' S_ms, Beat ''LA4'' Q_ms, Beat ''Ab4'' (E_ms + S_ms), Beat ''G4'' S_ms,
     Beat ''Gb4'' S_ms, Beat ''E4'' S_ms, Beat ''F4'' E_ms, Rest E_ms, Beat ''Bb3'' E_ms,
     Beat ''Eb4'' Q_ms, Beat ''D4'' (E_ms + S_ms), Beat ''Db4'' S_ms, Beat ''C4'' S_ms,
     Beat ''B3'' S_ms, Beat ''C4'' E_ms, Rest E_ms, Beat ''F3'' E_ms, Beat ''Ab3'' Q_ms,
     Beat ''F3'' (E_ms + S_ms), Beat ''LA3'' S_ms, Beat ''C4'' Q_ms, Beat ''LA3'' (E_ms + S_ms),
     Beat ''C4'' S_ms, Beat ''E4'' H_ms, Beat ''LA4'' Q_ms, Beat ''LA3'' (E_ms + S_ms),
     Beat ''LA3'' S_ms, Beat ''LA4'' Q_ms, Beat ''Ab4'' (E_ms + S_ms), Beat ''G4'' S_ms,
     Beat ''Gb4'' S_ms, Beat ''E4'' S_ms, Beat ''F4'' E_ms, Rest E_ms, Beat ''Bb3'' E_ms,
     Beat ''Eb4'' Q_ms, Beat ''D4'' (E_ms + S_ms), Beat ''Db4'' S_ms, Beat ''C4'' S_ms,
     Beat ''B3'' S_ms, Beat ''C4'' E_ms, Rest E_ms, Beat ''F3'' E_ms, Beat ''Ab3'' Q_ms,
     Beat ''F3'' (E_ms + S_ms), Beat ''C4'' S_ms, Beat ''LA3'' Q_ms, Beat ''F3'' (E_ms + S_ms),
     Beat ''C4'' S_ms, Beat ''LA3'' H_ms]"

definition mar28d_setup :: "('k, 'v) app prog" where
  "mar28d_setup = block [pinMode 8 OUTPUT, pinMode 9 OUTPUT, digitalWrite 9 LOW]"

definition mar28d_loop :: "('k, 'v) app prog" where
  "mar28d_loop = block (map play march @ [delay (2 * H_ms)])"

definition startwars_setup :: "('k, 'v) app prog" where
  "startwars_setup = block [pinMode 8 OUTPUT, pinMode 9 OUTPUT, digitalWrite 9 LOW]"

definition startwars_loop :: "('k, 'v) app prog" where
  "startwars_loop = block (map play march @ [delay (2 * H_ms), hang])"

section \<open>Two tunes on a buzzer: sketch_mar28b\<close>

definition mario_melody :: "(string \<Rightarrow> int) \<Rightarrow> int list" where
  "mario_melody P = [
     P ''E7'', P ''E7'', 0, P ''E7'', 0, P ''C7'', P ''E7'', 0, P ''G7'', 0, 0, 0, P ''G6'', 0, 0,
     0, P ''C7'', 0, 0, P ''G6'', 0, 0, P ''E6'', 0, 0, P ''A6'', 0, P ''B6'', 0, P ''AS6'',
     P ''A6'', 0, P ''G6'', P ''E7'', P ''G7'', P ''A7'', 0, P ''F7'', P ''G7'', 0, P ''E7'', 0,
     P ''C7'', P ''D7'', P ''B6'', 0, 0, P ''C7'', 0, 0, P ''G6'', 0, 0, P ''E6'', 0, 0, P ''A6'',
     0, P ''B6'', 0, P ''AS6'', P ''A6'', 0, P ''G6'', P ''E7'', P ''G7'', P ''A7'', 0, P ''F7'',
     P ''G7'', 0, P ''E7'', 0, P ''C7'', P ''D7'', P ''B6'', 0, 0]"

definition mario_tempo :: "int list" where
  "mario_tempo = [
     12, 12, 12, 12, 12, 12, 12, 12, 12, 12, 12, 12, 12, 12, 12, 12, 12, 12, 12, 12, 12, 12, 12,
     12, 12, 12, 12, 12, 12, 12, 12, 12, 9, 9, 9, 12, 12, 12, 12, 12, 12, 12, 12, 12, 12, 12, 12,
     12, 12, 12, 12, 12, 12, 12, 12, 12, 12, 12, 12, 12, 12, 12, 12, 9, 9, 9, 12, 12, 12, 12, 12,
     12, 12, 12, 12, 12, 12, 12]"

definition mario_underworld_melody :: "(string \<Rightarrow> int) \<Rightarrow> int list" where
  "mario_underworld_melody P = [
     P ''C4'', P ''C5'', P ''A3'', P ''A4'', P ''AS3'', P ''AS4'', 0, 0, P ''C4'', P ''C5'',
     P ''A3'', P ''A4'', P ''AS3'', P ''AS4'', 0, 0, P ''F3'', P ''F4'', P ''D3'', P ''D4'',
     P ''DS3'', P ''DS4'', 0, 0, P ''F3'', P ''F4'', P ''D3'', P ''D4'', P ''DS3'', P ''DS4'', 0,
     0, P ''DS4'', P ''CS4'', P ''D4'', P ''CS4'', P ''DS4'', P ''DS4'', P ''GS3'', P ''G3'',
     P ''CS4'', P ''C4'', P ''FS4'', P ''F4'', P ''E3'', P ''AS4'', P ''A4'', P ''GS4'', P ''DS4'',
     P ''B3'', P ''AS3'', P ''A3'', P ''GS3'', 0, 0, 0]"

definition mario_underworld_tempo :: "int list" where
  "mario_underworld_tempo = [
     12, 12, 12, 12, 12, 12, 6, 3, 12, 12, 12, 12, 12, 12, 6, 3, 12, 12, 12, 12, 12, 12, 6, 3, 12,
     12, 12, 12, 12, 12, 6, 6, 18, 18, 18, 6, 6, 6, 6, 6, 6, 18, 18, 18, 18, 18, 18, 10, 10, 10,
     10, 10, 10, 3, 3, 3]"

text \<open>The pulses of a buzzer: \<open>n\<close> times high and low.\<close>

definition pulse :: "nat \<Rightarrow> int \<Rightarrow> ('k, 'v) app prog" where
  "pulse pin us = block [digitalWrite pin HIGH, delayMicroseconds us, digitalWrite pin LOW, delayMicroseconds us]"

definition mario_buzz :: "nat \<Rightarrow> int \<Rightarrow> int \<Rightarrow> ('k, 'v) app prog" where
  "mario_buzz targetPin freq len = block [
     digitalWrite 13 HIGH,
     compute (do { x \<leftarrow> long_div 1000000 freq; long_div x 2 }) (\<lambda>delayValue.
       compute (do { x \<leftarrow> long (freq * len); long_div x 1000 }) (\<lambda>numCycles.
         for_loop 0 (nat numCycles) (\<lambda>_. pulse targetPin delayValue))),
     digitalWrite 13 LOW]"

text \<open>One note of a tune; the pause is \<open>noteDuration * 1.30\<close>, cut to a whole number.\<close>

definition mario_note :: "int \<Rightarrow> int \<Rightarrow> ('k, 'v) app prog" where
  "mario_note f type = compute (long_div 1000 type) (\<lambda>noteDuration. block [
     mario_buzz 8 f noteDuration,
     delay (nat (noteDuration * 130 div 100)),
     mario_buzz 8 0 noteDuration])"

record mario_vars =
  song :: s16

definition mario_sing :: "(string \<Rightarrow> int) \<Rightarrow> s16 \<Rightarrow> ('k, mario_vars) app prog" where
  "mario_sing P s = block [
     assign (\<lambda>v. v\<lparr>song := s\<rparr>),
     cond (\<lambda>a. song (vars a) = 2)
       (block [println_str ([CHR 0x20, CHR 0x27] @ ''Underworld Theme'' @ [CHR 0x27]),
          for_loop 0 (length (mario_underworld_melody P))
            (\<lambda>i. mario_note (mario_underworld_melody P ! i) (mario_underworld_tempo ! i))])
       (block [println_str ([CHR 0x20, CHR 0x27] @ ''Mario Theme'' @ [CHR 0x27]),
          for_loop 0 (length (mario_melody P)) (\<lambda>i. mario_note (mario_melody P ! i) (mario_tempo ! i))])]"

definition mario_setup :: "('k, mario_vars) app prog" where
  "mario_setup = block [pinMode 3 OUTPUT, pinMode 13 OUTPUT]"

definition mario_loop :: "(string \<Rightarrow> int) \<Rightarrow> ('k, mario_vars) app prog" where
  "mario_loop P = block [mario_sing P 1, mario_sing P 1, mario_sing P 2]"

section \<open>sound_test\<close>

text \<open>The initializers are fractions, the elements whole numbers: the fractions are cut off. In tenths:\<close>

definition noteFreqArr :: "int list" where
  "noteFreqArr = map (\<lambda>t. t div 10) [
     494, 523, 554, 587, 622, 659, 699, 740, 784, 831, 880, 932, 988, 1050, 1110, 1170, 1240, 1320,
     1400, 1480, 1570, 1660, 1760, 1860, 1980, 2090, 2220, 2350, 2490, 2640, 2790, 2960, 3140,
     3320, 3520, 3730, 3950, 4190, 4440, 4700, 4980, 5270, 5590, 5920, 6270, 6650, 7040, 7460,
     7900, 8370, 8870, 9400, 9960, 10500, 11100, 11800, 12500, 13200, 14000, 14900, 15800, 16700,
     17700, 18700, 19900, 21000]"

definition sound_buzz :: "nat \<Rightarrow> int \<Rightarrow> int \<Rightarrow> ('k, 'v) app prog" where
  "sound_buzz targetPin freq len =
     compute (do { x \<leftarrow> long_div 1000000 freq; long_div x 2 }) (\<lambda>delayValue.
       compute (do { x \<leftarrow> long (freq * len); long_div x 1000 }) (\<lambda>numCycles.
         for_loop 0 (nat numCycles) (\<lambda>_. pulse targetPin delayValue)))"

definition playNote :: "nat \<Rightarrow> int \<Rightarrow> int \<Rightarrow> ('k, 'v) app prog" where
  "playNote noteInt len breath = block [
     compute (if noteInt < length noteFreqArr then Some (noteFreqArr ! noteInt) else None)
       (\<lambda>f. sound_buzz 4 f (len - breath)),
     (if 0 < breath then delay (nat breath) else Done)]"

definition sound_setup :: "('k, 'v) app prog" where
  "sound_setup = pinMode 4 OUTPUT"

definition sound_notes :: "(nat \<times> int) list" where
  "sound_notes = [
     (24, 500), (17, 1000), (19, 250), (22, 250), (21, 250), (19, 250), (24, 500), (24, 500),
     (24, 250), (26, 250), (21, 250), (22, 250), (19, 500), (19, 500), (19, 250), (22, 250),
     (21, 250), (19, 250), (17, 250), (29, 250), (28, 250), (26, 250), (24, 250), (22, 250),
     (21, 250), (19, 250), (17, 1000), (19, 250), (22, 250), (21, 250), (19, 250), (24, 500),
     (24, 500), (24, 250), (26, 250), (21, 250), (22, 250), (19, 500), (19, 500), (19, 250),
     (22, 250), (21, 250), (19, 250), (17, 250), (24, 250), (19, 250), (21, 250), (17, 250)]"

definition sound_loop :: "('k, 'v) app prog" where
  "sound_loop = block (map (\<lambda>(n, len). playNote n len 20) sound_notes @ [delay 250])"

section \<open>Play Melody: beep2ino\<close>

record melody_vars =
  tone_us :: s16
  beat_len :: s16
  duration :: s32
  elapsed_time :: s32

type_synonym 'k melody_prog = "('k, melody_vars) app prog"

definition tone_period :: "char \<Rightarrow> s16" where
  "tone_period n = (case map_of [(CHR ''c'', 3830), (CHR ''d'', 3400), (CHR ''e'', 3038), (CHR ''f'', 2864),
     (CHR ''g'', 2550), (CHR ''a'', 2272), (CHR ''b'', 2028), (CHR ''C'', 1912), (CHR ''R'', 0)] n of
     None \<Rightarrow> 0 | Some p \<Rightarrow> p)"

definition pm_melody :: "s16 list" where
  "pm_melody = map tone_period ''CbgCbeRCcgaC''"

definition pm_beats :: "s16 list" where
  "pm_beats = [16, 16, 16, 8, 8, 16, 32, 16, 16, 16, 8, 8]"

definition pm_setup :: "'k melody_prog" where
  "pm_setup = block [pinMode 9 OUTPUT, serial_begin 9600]"

definition pm_playTone :: "'k melody_prog" where
  "pm_playTone = block [
     assign (\<lambda>v. v\<lparr>elapsed_time := 0\<rparr>),
     cond (\<lambda>a. 0 < sint (tone_us (vars a)))
       (while_do (\<lambda>a. sint (elapsed_time (vars a)) < sint (duration (vars a)))
          (block [
             digitalWrite 9 HIGH,
             emit (\<lambda>a. [Delay_us (nat (sint (tone_us (vars a)) div 2))]),
             digitalWrite 9 LOW,
             emit (\<lambda>a. [Delay_us (nat (sint (tone_us (vars a)) div 2))]),
             assign (\<lambda>v. v\<lparr>elapsed_time := elapsed_time v + scast (tone_us v)\<rparr>)]))
       (for_loop 0 100 (\<lambda>_. emit (\<lambda>a. [Delay_us (nat (uint (ucast (duration (vars a)) :: u16)))])))]"

definition pm_loop :: "'k melody_prog" where
  "pm_loop = for_loop 0 12 (\<lambda>i. block [
     assign (\<lambda>v. v\<lparr>tone_us := pm_melody ! i\<rparr>),
     assign (\<lambda>v. v\<lparr>beat_len := pm_beats ! i\<rparr>),
     assign (\<lambda>v. v\<lparr>duration := scast (beat_len v) * 10000\<rparr>),
     pm_playTone,
     delayMicroseconds 1000,
     print_num (\<lambda>_. int i),
     print_str '':'',
     print_num (\<lambda>a. sint (beat_len (vars a))),
     print_str '' '',
     print_num (\<lambda>a. sint (tone_us (vars a))),
     print_str '' '',
     println_num (\<lambda>a. sint (duration (vars a)))])"

section \<open>beep and sketch_mar15b\<close>

definition beep :: "nat \<Rightarrow> ('k, 'v) app prog" where
  "beep delayms = block [analogWrite 9 20, delay delayms, analogWrite 9 0, delay delayms]"

definition beep_setup :: "('k, 'v) app prog" where
  "beep_setup = block [pinMode 9 OUTPUT, beep 50, beep 50, beep 50, delay 1000]"

definition beep_loop :: "('k, 'v) app prog" where
  "beep_loop = beep 200"

definition mar15b_setup :: "('k, 'v) app prog" where
  "mar15b_setup = pinMode 13 OUTPUT"

definition mar15b_loop :: "('k, 'v) app prog" where
  "mar15b_loop = block [digitalWrite 13 HIGH, delay 1000, digitalWrite 13 LOW, delay 1000]"

section \<open>What the sketches do\<close>

subsection \<open>The march\<close>

fun events :: "beat \<Rightarrow> event list" where
  "events (Beat n d) = [Tone 8 (frequency n) d, Delay (1 + d)]"
| "events (Rest d) = [Delay (1 + d)]"

lemma returns_emits:
  assumes "\<And>x a. returns (p x) a (a\<lparr>trace := trace a @ e x\<rparr>)"
  shows "returns (block (map p xs)) a (a\<lparr>trace := trace a @ concat (map e xs)\<rparr>)"
proof (induction xs arbitrary: a)
  case (Cons x xs)
  from returns_block_Cons [OF assms Cons.IH] show ?case by simp
qed simp

lemma play_runs: "returns (block (map play bs)) a (a\<lparr>trace := trace a @ concat (map events bs)\<rparr>)"
proof (rule returns_emits)
  show "returns (play b) a (a\<lparr>trace := trace a @ events b\<rparr>)" for b and a :: "('k, 'v) app"
    by (cases b) (simp_all add: runs tone_def)
qed

text \<open>startwars plays its march once and then does nothing for ever.\<close>

theorem startwars_plays_once:
  "(\<exists>b. reaches startwars_loop a b hang \<and> trace b = trace a @ concat (map events march) @ [Delay 2000])
    \<and> (\<nexists>b. returns startwars_loop a b)"
proof -
  let ?b = "a\<lparr>trace := trace a @ concat (map events march)\<rparr>"
  let ?c = "?b\<lparr>trace := trace ?b @ [Delay 2000]\<rparr>"
  have e: "startwars_loop = seq (block (map play march)) (seq (delay (2 * H_ms)) hang)"
    by (simp add: startwars_loop_def block_append_seq [of "map play march"]) (simp add: block_def)
  have d: "returns (delay (2 * H_ms)) ?b ?c" by (simp add: runs H_ms_def BPM_def)
  have "reaches startwars_loop a ?c hang"
    unfolding e by (rule reaches_seq [OF play_runs reaches_seq [OF d reaches_refl]])
  moreover from this have "\<not> returns startwars_loop a b" for b
    unfolding hang_def by (rule reaches_forever_never_returns)
  ultimately show ?thesis by auto
qed

text \<open>One pass of sketch_mar28d takes a little over 26 seconds.\<close>

fun wait_ms :: "event list \<Rightarrow> nat" where
  "wait_ms [] = 0"
| "wait_ms (Delay d # es) = d + wait_ms es"
| "wait_ms (_ # es) = wait_ms es"

lemma wait_ms_append [simp]: "wait_ms (xs @ ys) = wait_ms xs + wait_ms ys"
  by (induction xs rule: wait_ms.induct) simp_all

theorem mar28d_lasts:
  "\<exists>b. returns mar28d_loop a b \<and> trace b = trace a @ concat (map events march) @ [Delay 2000]
    \<and> wait_ms (concat (map events march) @ [Delay 2000]) = 26070"
proof -
  let ?b = "a\<lparr>trace := trace a @ concat (map events march)\<rparr>"
  let ?c = "?b\<lparr>trace := trace ?b @ [Delay 2000]\<rparr>"
  have "returns (block [delay (2 * H_ms)]) ?b ?c" by (simp add: runs H_ms_def BPM_def)
  then have "returns mar28d_loop a ?c"
    unfolding mar28d_loop_def by (rule returns_block_append [OF play_runs])
  moreover have "wait_ms (concat (map events march)) = 24070"
    by (simp add: march_def Q_ms_def H_ms_def E_ms_def S_ms_def BPM_def)
  ultimately show ?thesis by auto
qed

subsection \<open>The buzzer\<close>

text \<open>The tunes of sketch_mar28b are never sung: the end of the very first note divides by its frequency 0.\<close>

lemma mario_silence_undefined: "\<not> returns (mario_buzz pin 0 len) a b"
  by (simp add: mario_buzz_def runs long_div_def)

lemma mario_note_undefined: "\<not> returns (mario_note f type) a b"
proof
  assume "returns (mario_note f type) a b"
  then obtain d where "returns (block [mario_buzz 8 f d, delay (nat (d * 130 div 100)), mario_buzz 8 0 d]) a b"
    by (auto simp: mario_note_def run_compute_last split: option.splits)
  then show False using mario_silence_undefined by (blast dest: returns_block_ConsD)
qed

lemma mario_tune_undefined:
  assumes "0 < n"
  shows "\<not> returns (for_loop 0 n (\<lambda>i. mario_note (f i) (g i))) a b"
proof
  assume "returns (for_loop 0 n (\<lambda>i. mario_note (f i) (g i))) a b"
  then have "returns (block (map (\<lambda>i. mario_note (f i) (g i)) [0..<n])) a b" by (simp add: for_loop_def)
  from returns_block_part [OF this, of "mario_note (f 0) (g 0)"] assms show False
    using mario_note_undefined by auto
qed

lemma mario_sing_undefined: "\<not> returns (mario_sing P s) a b"
proof
  have some: "0 < length (mario_underworld_melody P)" "0 < length (mario_melody P)"
    by (simp_all add: mario_melody_def mario_underworld_melody_def)
  assume "returns (mario_sing P s) a b"
  then show False
    by (auto simp: mario_sing_def run_cond_last mario_tune_undefined [OF some(1)] mario_tune_undefined [OF some(2)]
        dest!: returns_block_ConsD split: if_splits)
qed

theorem mario_never_sung: "\<nexists>b. returns (mario_loop P) a b"
  by (auto simp: mario_loop_def mario_sing_undefined dest!: returns_block_ConsD)

text \<open>With a frequency of at most 500 kHz and a product that fits, \<open>buzz\<close> makes \<open>freq * len / 1000\<close> pulses and
  lasts at most \<open>len\<close> milliseconds.\<close>

definition pulse_events :: "nat \<Rightarrow> int \<Rightarrow> event list" where
  "pulse_events pin us = [Digital_write pin HIGH, Delay_us (nat (us mod 2 ^ 16)),
     Digital_write pin LOW, Delay_us (nat (us mod 2 ^ 16))]"

lemma pulses_run:
  "returns (for_loop 0 n (\<lambda>_. pulse pin us)) a (a\<lparr>trace := trace a @ concat (replicate n (pulse_events pin us))\<rparr>)"
proof -
  have "returns (pulse pin us) a (a\<lparr>trace := trace a @ pulse_events pin us\<rparr>)" for a :: "('k, 'v) app"
    by (simp add: pulse_def pulse_events_def runs)
  from returns_emits [OF this, of "[0..<n]" a] show ?thesis
    by (simp add: for_loop_def map_replicate_const)
qed

lemma buzz_runs:
  assumes "0 < freq" and "freq \<le> 1000000" and "0 \<le> len" and "freq * len < 2 ^ 31"
  shows "returns (sound_buzz pin freq len) a (a\<lparr>trace := trace a
    @ concat (replicate (nat (freq * len div 1000)) (pulse_events pin (1000000 div freq div 2)))\<rparr>)"
proof -
  have d: "0 \<le> 1000000 div freq" "1000000 div freq \<le> 1000000"
    using assms(1) zdiv_mono2 [of 1000000 1 freq] by (simp_all add: pos_imp_zdiv_nonneg_iff)
  have 1: "do { x \<leftarrow> long_div 1000000 freq; long_div x 2 } = Some (1000000 div freq div 2)"
    using assms(1) d by (simp add: long_div_pos)
  have "0 \<le> freq * len" using assms(1,3) by simp
  then have 2: "do { x \<leftarrow> long (freq * len); long_div x 1000 } = Some (freq * len div 1000)"
    using assms(4) by (simp add: long_nonneg long_div_pos)
  show ?thesis unfolding sound_buzz_def 1 2 run_compute_last option.case by (rule pulses_run)
qed

lemma buzz_time:
  fixes freq len :: int
  assumes "0 < freq" and "0 \<le> len"
  shows "(freq * len div 1000) * (2 * (1000000 div freq div 2)) \<le> 1000 * len"
proof -
  let ?n = "freq * len div 1000" and ?d = "1000000 div freq div 2"
  have "?n * 1000 \<le> freq * len" by simp
  moreover have "2 * ?d \<le> 1000000 div freq" by simp
  then have "freq * (2 * ?d) \<le> freq * (1000000 div freq)" using assms(1) by simp
  then have "freq * (2 * ?d) \<le> 1000000" using mult_div_mod_eq [of freq 1000000] pos_mod_sign [OF assms(1), of 1000000] by linarith
  moreover have "0 \<le> ?n" "0 \<le> ?d" using assms by (simp_all add: pos_imp_zdiv_nonneg_iff)
  ultimately have "freq * ((?n * 1000) * (2 * ?d)) \<le> freq * (len * 1000000)"
    using mult_mono [of "?n * 1000" "freq * len" "freq * (2 * ?d)" 1000000] assms by (simp add: ac_simps)
  then show ?thesis using assms(1) by (simp add: ac_simps)
qed

text \<open>sound_test plays all its notes: no index leaves the table, no division is by zero, no product overflows.\<close>

definition note_events :: "nat \<Rightarrow> int \<Rightarrow> event list" where
  "note_events n len = concat (replicate (nat (noteFreqArr ! n * (len - 20) div 1000))
     (pulse_events 4 (1000000 div noteFreqArr ! n div 2))) @ [Delay 20]"

lemma noteFreqArr_range: "n < length noteFreqArr \<Longrightarrow> 0 < noteFreqArr ! n \<and> noteFreqArr ! n \<le> 2100"
proof -
  have "list_all (\<lambda>f. 0 < f \<and> f \<le> 2100) noteFreqArr" by (simp add: noteFreqArr_def)
  then show "n < length noteFreqArr \<Longrightarrow> 0 < noteFreqArr ! n \<and> noteFreqArr ! n \<le> 2100"
    by (simp add: list_all_length)
qed

lemma playNote_runs:
  assumes "n < length noteFreqArr" and "20 \<le> len" and "len \<le> 1000"
  shows "returns (playNote n len 20) a (a\<lparr>trace := trace a @ note_events n len\<rparr>)"
proof -
  let ?f = "noteFreqArr ! n"
  let ?ps = "concat (replicate (nat (?f * (len - 20) div 1000)) (pulse_events 4 (1000000 div ?f div 2)))"
  have r: "0 < ?f" "?f \<le> 2100" using noteFreqArr_range [OF assms(1)] by simp_all
  have "?f * (len - 20) \<le> 2100 * 980" using r assms(2,3) by (intro mult_mono) simp_all
  then have b: "returns (sound_buzz 4 ?f (len - 20)) a (a\<lparr>trace := trace a @ ?ps\<rparr>)"
    using r assms(2) by (intro buzz_runs) simp_all
  have "returns (compute (if n < length noteFreqArr then Some ?f else None) (\<lambda>f. sound_buzz 4 f (len - 20))) a
    (a\<lparr>trace := trace a @ ?ps\<rparr>)" using b assms(1) by (simp add: run_compute_last)
  from returns_block_Cons [OF this, of "[if (0::int) < 20 then delay (nat 20) else Done]" "a\<lparr>trace := trace a @ note_events n len\<rparr>"]
  show ?thesis by (simp add: playNote_def runs note_events_def)
qed

theorem sound_loop_plays:
  "returns sound_loop a (a\<lparr>trace := trace a @ concat (map (\<lambda>(n, len). note_events n len) sound_notes) @ [Delay 250]\<rparr>)"
proof -
  have ok: "fst x < length noteFreqArr \<and> 20 \<le> snd x \<and> snd x \<le> 1000" if "x \<in> set sound_notes" for x
    using that by (auto simp: sound_notes_def noteFreqArr_def)
  have "returns (block (map (\<lambda>(n, len). playNote n len 20) xs)) a
      (a\<lparr>trace := trace a @ concat (map (\<lambda>(n, len). note_events n len) xs)\<rparr>)"
    if "\<forall>x\<in>set xs. fst x < length noteFreqArr \<and> 20 \<le> snd x \<and> snd x \<le> 1000" for xs and a :: "('k, 'v) app"
    using that
  proof (induction xs arbitrary: a)
    case (Cons x xs)
    then have "returns (playNote (fst x) (snd x) 20) a (a\<lparr>trace := trace a @ note_events (fst x) (snd x)\<rparr>)"
      by (intro playNote_runs) simp_all
    from returns_block_Cons [OF this Cons.IH] Cons.prems show ?case by (simp add: case_prod_beta)
  qed simp
  from this [of sound_notes a] ok
  have r: "returns (block (map (\<lambda>(n, len). playNote n len 20) sound_notes)) a
      (a\<lparr>trace := trace a @ concat (map (\<lambda>(n, len). note_events n len) sound_notes)\<rparr>)" by blast
  show ?thesis unfolding sound_loop_def by (rule returns_block_append [OF r]) (simp add: runs)
qed

subsection \<open>Play Melody\<close>

definition tone_events :: "s16 \<Rightarrow> event list" where
  "tone_events t = [Digital_write 9 HIGH, Delay_us (nat (sint t div 2)), Digital_write 9 LOW, Delay_us (nat (sint t div 2))]"

lemma sint_add_small:
  fixes x :: s32 and t :: s16
  assumes "0 \<le> sint x" and "0 < sint t" and "sint x + sint t < 2 ^ 31"
  shows "sint (x + scast t) = sint x + sint t"
proof -
  have "sint (scast t :: s32) = sint t"
    using assms by (simp add: signed_scast_eq signed_take_bit_int_eq_self)
  then have "sint (x + scast t) = signed_take_bit 31 (sint x + sint t)"
    by (simp add: sint_word_ariths)
  with assms show ?thesis by (simp add: signed_take_bit_int_eq_self)
qed

definition pm_pulse :: "'k melody_prog" where
  "pm_pulse = block [
     digitalWrite 9 HIGH,
     emit (\<lambda>a. [Delay_us (nat (sint (tone_us (vars a)) div 2))]),
     digitalWrite 9 LOW,
     emit (\<lambda>a. [Delay_us (nat (sint (tone_us (vars a)) div 2))]),
     assign (\<lambda>v. v\<lparr>elapsed_time := elapsed_time v + scast (tone_us v)\<rparr>)]"

lemma pm_pulse_runs:
  "returns pm_pulse a (a\<lparr>trace := trace a @ tone_events (tone_us (vars a)),
     vars := (vars a)\<lparr>elapsed_time := elapsed_time (vars a) + scast (tone_us (vars a))\<rparr>\<rparr>)"
  by (simp add: pm_pulse_def runs tone_events_def)

lemma pm_pulses_run:
  assumes "0 < sint (tone_us (vars a))" and "0 \<le> sint (elapsed_time (vars a))"
    and "sint (elapsed_time (vars a)) < sint (duration (vars a)) + sint (tone_us (vars a))"
    and "sint (duration (vars a)) + sint (tone_us (vars a)) < 2 ^ 31"
  shows "\<exists>b k. returns (while_do (\<lambda>a. sint (elapsed_time (vars a)) < sint (duration (vars a))) pm_pulse) a b
    \<and> trace b = trace a @ concat (replicate k (tone_events (tone_us (vars a))))
    \<and> sint (elapsed_time (vars b)) = sint (elapsed_time (vars a)) + int k * sint (tone_us (vars a))
    \<and> sint (duration (vars a)) \<le> sint (elapsed_time (vars b))
    \<and> sint (elapsed_time (vars b)) < sint (duration (vars a)) + sint (tone_us (vars a))
    \<and> (\<exists>x. vars b = (vars a)\<lparr>elapsed_time := x\<rparr>)"
  using assms
proof (induction "nat (sint (duration (vars a)) - sint (elapsed_time (vars a)))" arbitrary: a rule: less_induct)
  case less
  let ?v = "vars a"
  show ?case
  proof (cases "sint (elapsed_time ?v) < sint (duration ?v)")
    case False
    with less.prems show ?thesis
      by (intro exI [of _ a] exI [of _ 0]) (auto intro!: returns_while_end exI [of _ "elapsed_time ?v"])
  next
    case True
    let ?a = "a\<lparr>trace := trace a @ tone_events (tone_us ?v),
      vars := ?v\<lparr>elapsed_time := elapsed_time ?v + scast (tone_us ?v)\<rparr>\<rparr>"
    have e: "sint (elapsed_time (vars ?a)) = sint (elapsed_time ?v) + sint (tone_us ?v)"
      using sint_add_small [of "elapsed_time ?v" "tone_us ?v"] less.prems True by simp
    have "\<exists>b k. returns (while_do (\<lambda>a. sint (elapsed_time (vars a)) < sint (duration (vars a))) pm_pulse) ?a b
      \<and> trace b = trace ?a @ concat (replicate k (tone_events (tone_us (vars ?a))))
      \<and> sint (elapsed_time (vars b)) = sint (elapsed_time (vars ?a)) + int k * sint (tone_us (vars ?a))
      \<and> sint (duration (vars ?a)) \<le> sint (elapsed_time (vars b))
      \<and> sint (elapsed_time (vars b)) < sint (duration (vars ?a)) + sint (tone_us (vars ?a))
      \<and> (\<exists>x. vars b = (vars ?a)\<lparr>elapsed_time := x\<rparr>)"
      by (rule less.hyps) (use e less.prems True in simp_all)
    then obtain b k where b: "returns (while_do (\<lambda>a. sint (elapsed_time (vars a)) < sint (duration (vars a))) pm_pulse) ?a b"
      and t: "trace b = trace ?a @ concat (replicate k (tone_events (tone_us (vars ?a))))"
      and x: "sint (elapsed_time (vars b)) = sint (elapsed_time (vars ?a)) + int k * sint (tone_us (vars ?a))"
        "sint (duration (vars ?a)) \<le> sint (elapsed_time (vars b))"
        "sint (elapsed_time (vars b)) < sint (duration (vars ?a)) + sint (tone_us (vars ?a))"
      and v: "\<exists>x. vars b = (vars ?a)\<lparr>elapsed_time := x\<rparr>"
      by blast
    have v: "\<exists>x. vars b = ?v\<lparr>elapsed_time := x\<rparr>" using v by simp
    have x23: "sint (duration ?v) \<le> sint (elapsed_time (vars b))"
      "sint (elapsed_time (vars b)) < sint (duration ?v) + sint (tone_us ?v)" using x(2,3) by simp_all
    have "returns (while_do (\<lambda>a. sint (elapsed_time (vars a)) < sint (duration (vars a))) pm_pulse) a b"
      by (rule returns_while_step [OF True pm_pulse_runs b])
    moreover have "trace b = trace a @ concat (replicate (Suc k) (tone_events (tone_us ?v)))" using t by simp
    moreover have "sint (elapsed_time (vars b)) = sint (elapsed_time ?v) + int (Suc k) * sint (tone_us ?v)"
      using x(1) e by (simp add: algebra_simps)
    ultimately show ?thesis using x23 v by blast
  qed
qed

text \<open>A tone is held for at least its duration, and for less than one period more; a rest is 100 delays of the
  lower 16 bits of its duration.\<close>

theorem playTone_holds:
  assumes "0 \<le> sint (duration (vars a))" and "sint (duration (vars a)) + sint (tone_us (vars a)) < 2 ^ 31"
  shows "\<exists>b. returns pm_playTone a b \<and>
    (if 0 < sint (tone_us (vars a))
     then \<exists>k. trace b = trace a @ concat (replicate k (tone_events (tone_us (vars a))))
       \<and> sint (duration (vars a)) \<le> int k * sint (tone_us (vars a))
       \<and> int k * sint (tone_us (vars a)) < sint (duration (vars a)) + sint (tone_us (vars a))
     else trace b = trace a @ replicate 100 (Delay_us (unat (duration (vars a)) mod 2 ^ 16)))"
proof (cases "0 < sint (tone_us (vars a))")
  case True
  let ?a = "a\<lparr>vars := (vars a)\<lparr>elapsed_time := 0\<rparr>\<rparr>"
  obtain b k where b: "returns (while_do (\<lambda>a. sint (elapsed_time (vars a)) < sint (duration (vars a))) pm_pulse) ?a b"
    and k: "trace b = trace a @ concat (replicate k (tone_events (tone_us (vars a))))"
      "sint (elapsed_time (vars b)) = int k * sint (tone_us (vars a))"
      "sint (duration (vars a)) \<le> sint (elapsed_time (vars b))"
      "sint (elapsed_time (vars b)) < sint (duration (vars a)) + sint (tone_us (vars a))"
    using pm_pulses_run [of ?a] True assms by auto
  have "returns pm_playTone a b"
    unfolding pm_playTone_def pm_pulse_def [symmetric]
    by (rule returns_block_Cons [OF returns_assign returns_block_Cons [OF returns_cond]]) (use True b in simp_all)
  with k True show ?thesis by auto
next
  case False
  let ?a = "a\<lparr>vars := (vars a)\<lparr>elapsed_time := 0\<rparr>\<rparr>"
  let ?d = "Delay_us (unat (duration (vars a)) mod 2 ^ 16)"
  have m: "nat (uint (ucast (duration (vars a)) :: u16)) = unat (duration (vars a)) mod 2 ^ 16"
    by (simp add: unsigned_ucast_eq take_bit_eq_mod nat_mod_distrib)
  have rest: "returns (block (replicate n (emit (\<lambda>a. [Delay_us (nat (uint (ucast (duration (vars a)) :: u16)))])))) a'
    (a'\<lparr>trace := trace a' @ replicate n ?d\<rparr>)" if "vars a' = vars ?a" for n and a' :: "('a, melody_vars) app"
    using that
  proof (induction n arbitrary: a')
    case (Suc n)
    have "returns (emit (\<lambda>a. [Delay_us (nat (uint (ucast (duration (vars a)) :: u16)))])) a' (a'\<lparr>trace := trace a' @ [?d]\<rparr>)"
      using returns_emit [of "\<lambda>a. [Delay_us (nat (uint (ucast (duration (vars a)) :: u16)))]" a'] Suc.prems m by simp
    from returns_block_Cons [OF this Suc.IH] Suc.prems show ?case by simp
  qed simp
  have "returns (for_loop 0 100 (\<lambda>_. emit (\<lambda>a. [Delay_us (nat (uint (ucast (duration (vars a)) :: u16)))]))) ?a
    (?a\<lparr>trace := trace ?a @ replicate 100 ?d\<rparr>)" using rest [of ?a 100] by (simp add: for_loop_def map_replicate_const)
  then have "returns pm_playTone a (?a\<lparr>trace := trace ?a @ replicate 100 ?d\<rparr>)"
    unfolding pm_playTone_def
    by (intro returns_block_Cons [OF returns_assign returns_block_Cons [OF returns_cond]]) (use False in simp_all)
  with False show ?thesis by auto
qed

end
