(* ===== verification/Ex_Bus.thy ===== *)
theory Ex_Bus
  imports RT_Sketch
begin

text \<open>
  The sketches that move bytes: master_reader_tii and its slaves slave_sender_tii_2 and slave_sender_tii_4
  on the two-wire bus, the serial echoes test_serial_port_TII, test_serial_port_TII2 and
  serial_data_tii_bechmark (prefixes \<open>mr\<close>, \<open>s2\<close>, \<open>s4\<close>, \<open>tii\<close>, \<open>tii2\<close>, \<open>bench\<close>). The Wire and SerialPort
  libraries are not in the repository; their functions are parameters on an unknown state, which is the
  \<open>kern\<close> of the sketch. What \<open>micros()\<close> answers is a sequence among the variables.
\<close>

record 'k wire =
  wire_begin :: "s16 \<Rightarrow> 'k \<Rightarrow> 'k"
  wire_onReceive :: "'k \<Rightarrow> 'k"
  wire_onRequest :: "'k \<Rightarrow> 'k"
  wire_peek :: "'k \<Rightarrow> s16 \<times> 'k"
  wire_available :: "'k \<Rightarrow> s16"
  wire_read :: "'k \<Rightarrow> s16 \<times> 'k"
  wire_write :: "u8 \<Rightarrow> 'k \<Rightarrow> 'k"
  wire_write_str :: "string \<Rightarrow> 'k \<Rightarrow> 'k"
  wire_beginTransmission :: "s16 \<Rightarrow> 'k \<Rightarrow> 'k"
  wire_endTransmission :: "'k \<Rightarrow> 'k"
  wire_requestFrom :: "s16 \<Rightarrow> s16 \<Rightarrow> 'k \<Rightarrow> s16 \<times> 'k"

text \<open>A call that cannot fail.\<close>

definition do_call :: "('k \<Rightarrow> 'k) \<Rightarrow> ('k, 'v) app prog" where
  "do_call f = kcall (\<lambda>k. Some (f k))"

definition do_call_then :: "('k \<Rightarrow> 'a \<times> 'k) \<Rightarrow> ('a \<Rightarrow> ('k, 'v) app prog) \<Rightarrow> ('k, 'v) app prog" where
  "do_call_then f g = kcall_then (\<lambda>k. Some (f k)) g"

section \<open>master_reader_tii\<close>

record mr_vars =
  mr_micros :: "nat \<Rightarrow> u32"
  mr_t1 :: u32
  mr_t2 :: u32
  mr_t3 :: u32
  mr_cuantos2 :: s16
  mr_amount :: s16
  mr_c :: u8
  mr_count :: s16

type_synonym 'k master = "('k, mr_vars) app prog"

definition MASTER_ID :: s16 where "MASTER_ID = 10"
definition SLAVE1_ID :: s16 where "SLAVE1_ID = 12"

definition next_micros :: "(nat \<Rightarrow> u32) \<Rightarrow> nat \<Rightarrow> u32" where
  "next_micros m n = m (Suc n)"

definition mr_setup :: "'k wire \<Rightarrow> 'k master" where
  "mr_setup W = block [
     do_call (wire_begin W MASTER_ID),
     do_call (wire_onReceive W),
     serial_begin 9600,
     print_str ('' '' @ nl @ '' peek, available: ''),
     do_call_then (wire_peek W) (\<lambda>p. print_num (\<lambda>_. sint p)),
     print_num (\<lambda>a. sint (wire_available W (kern a))),
     print_str ('' '' @ nl @ ''  '')]"

text \<open>\<open>while(Wire.available()) { char c = Wire.read(); s; Serial.print(c); }\<close>\<close>

definition mr_drain :: "'k wire \<Rightarrow> 'k master \<Rightarrow> 'k master" where
  "mr_drain W s = while_do (\<lambda>a. wire_available W (kern a) \<noteq> 0) (block [
     do_call_then (wire_read W) (\<lambda>b. assign (\<lambda>v. v\<lparr>mr_c := ucast b\<rparr>)),
     s,
     emit (\<lambda>a. [Character (mr_c (vars a))])])"

definition mr_transfer :: "'k wire \<Rightarrow> s16 \<Rightarrow> s16 \<Rightarrow> s16 \<Rightarrow> 'k master" where
  "mr_transfer W who send receive = block [
     assign (\<lambda>v. v\<lparr>mr_t1 := mr_micros v 0, mr_micros := next_micros (mr_micros v)\<rparr>),
     (if send \<noteq> 0 then block [
        do_call (wire_beginTransmission W who),
        for_loop 0 (nat (sint send)) (\<lambda>_. do_call (wire_write W 16)),
        do_call (wire_endTransmission W)] else Done),
     assign (\<lambda>v. v\<lparr>mr_cuantos2 := 0\<rparr>),
     assign (\<lambda>v. v\<lparr>mr_t2 := mr_micros v 0, mr_micros := next_micros (mr_micros v)\<rparr>),
     (if receive \<noteq> 0 then do_call_then (wire_requestFrom W who receive) (\<lambda>n. assign (\<lambda>v. v\<lparr>mr_cuantos2 := n\<rparr>)) else Done),
     assign (\<lambda>v. v\<lparr>mr_t3 := mr_micros v 0, mr_micros := next_micros (mr_micros v)\<rparr>)]"

definition mr_report :: "s16 \<Rightarrow> s16 \<Rightarrow> s16 \<Rightarrow> 'k master" where
  "mr_report who send receive = block [
     assign (\<lambda>v. v\<lparr>mr_amount := 0\<rparr>),
     print_str (nl @ '' Slave ''),
     print_num (\<lambda>_. sint who),
     print_str ''(s: '',
     print_num (\<lambda>_. sint send),
     print_str '' r: '',
     print_num (\<lambda>_. sint receive),
     print_str ''). Time in us s - r: '',
     print_num (\<lambda>a. sint (mr_t2 (vars a) - mr_t1 (vars a))),
     print_str '' - '',
     print_num (\<lambda>a. sint (mr_t3 (vars a) - mr_t2 (vars a))),
     print_str ''. Amount: '',
     print_num (\<lambda>a. sint (mr_amount (vars a))),
     print_str ''. Cuantos: '',
     print_num (\<lambda>a. sint (mr_amount (vars a))),
     print_str (tab @ '' '')]"

definition mr_task :: "'k wire \<Rightarrow> s16 \<Rightarrow> s16 \<Rightarrow> s16 \<Rightarrow> 'k master" where
  "mr_task W who send receive = block [
     mr_transfer W who send receive,
     mr_report who send receive,
     mr_drain W (assign (\<lambda>v. v\<lparr>mr_amount := mr_amount v + 1\<rparr>))]"

definition mr_loop :: "'k wire \<Rightarrow> 'k master" where
  "mr_loop W = block [
     cond (\<lambda>a. mr_count (vars a) = 4) (mr_task W SLAVE1_ID 6 0) Done,
     mr_task W SLAVE1_ID 0 10000,
     assign (\<lambda>v. v\<lparr>mr_count := mr_count v + 1\<rparr>),
     cond (\<lambda>a. mr_count (vars a) = 5) (assign (\<lambda>v. v\<lparr>mr_count := 0\<rparr>)) Done,
     delay 10000]"

definition mr_receiveEvent :: "'k wire \<Rightarrow> s16 \<Rightarrow> 'k master" where
  "mr_receiveEvent W howMany = cond (\<lambda>a. wire_available W (kern a) = howMany) (mr_drain W Done) Done"

section \<open>The slaves\<close>

record slave_vars =
  brightness :: s16
  s2_counter :: u8

type_synonym 'k slave = "('k, slave_vars) app prog"

text \<open>Turning the LED over, as both slaves do it.\<close>

definition turn_led :: "'k slave" where
  "turn_led = cond (\<lambda>a. brightness (vars a) = 0)
     (block [digitalWrite 13 HIGH, assign (\<lambda>v. v\<lparr>brightness := 1\<rparr>)])
     (block [digitalWrite 13 LOW, assign (\<lambda>v. v\<lparr>brightness := 0\<rparr>)])"

definition s2_setup :: "'k wire \<Rightarrow> 'k slave" where
  "s2_setup W = block [
     do_call (wire_begin W SLAVE1_ID),
     do_call (wire_onRequest W),
     do_call (wire_onReceive W),
     pinMode 13 OUTPUT,
     digitalWrite 13 LOW]"

definition s2_loop :: "'k wire \<Rightarrow> 'k slave" where
  "s2_loop W = block [
     delay 10000,
     assign (\<lambda>v. v\<lparr>s2_counter := s2_counter v + 1\<rparr>),
     cond (\<lambda>a. s2_counter (vars a) = 112) (assign (\<lambda>v. v\<lparr>s2_counter := 97\<rparr>)) Done,
     do_call (wire_beginTransmission W MASTER_ID),
     do_call (wire_write_str W ''Alarm S1:''),
     kcall_with (\<lambda>v k. Some (wire_write W (s2_counter v) k)),
     do_call (wire_write_str W ''''),
     do_call (wire_endTransmission W)]"

definition s2_requestEvent :: "'k wire \<Rightarrow> 'k slave" where
  "s2_requestEvent W = do_call (wire_write_str W ''s1:hl '')"

definition s2_receiveEvent :: "'k wire \<Rightarrow> s16 \<Rightarrow> 'k slave" where
  "s2_receiveEvent W n = block [
     while_do (\<lambda>a. wire_available W (kern a) \<noteq> 0) (do_call_then (wire_read W) (\<lambda>_. Done)),
     turn_led]"

definition s4_setup :: "'k wire \<Rightarrow> 'k slave" where
  "s4_setup W = block [
     do_call (wire_begin W 4),
     do_call (wire_onRequest W),
     pinMode 13 OUTPUT,
     digitalWrite 13 LOW]"

definition s4_loop :: "'k slave" where
  "s4_loop = delay 100"

definition s4_requestEvent :: "'k wire \<Rightarrow> 'k slave" where
  "s4_requestEvent W = block [do_call (wire_write_str W ''hello ''), turn_led]"

section \<open>Serial echoes\<close>

text \<open>The SerialPort library; \<open>sp_read\<close> answers -1 when nothing waits.\<close>

record 'k port =
  sp_begin :: "u32 \<Rightarrow> 'k \<Rightarrow> 'k"
  sp_available :: "'k \<Rightarrow> s16"
  sp_read :: "'k \<Rightarrow> s16 \<times> 'k"
  sp_write :: "u8 \<Rightarrow> 'k \<Rightarrow> 'k"

definition tii_setup :: "('k \<Rightarrow> 'k) \<Rightarrow> 'k port \<Rightarrow> ('k, 'v) app prog" where
  "tii_setup halInit S = block [
     do_call halInit,
     do_call (sp_begin S 9600),
     forever (while_do (\<lambda>a. 0 < sint (sp_available S (kern a)))
       (do_call_then (sp_read S) (\<lambda>b. do_call (sp_write S (ucast b)))))]"

text \<open>\<open>Serial.write(Serial.read());\<close>\<close>

definition echo_byte :: "('k, 'v) app prog" where
  "echo_byte = call_then serial_read (\<lambda>b. emit (\<lambda>_. [Character (ucast b)]))"

definition tii2_setup :: "('k, 'v) app prog" where
  "tii2_setup = block [serial_begin 9600, forever (while_do available echo_byte)]"

record bench_vars =
  b_counter :: u32
  b_th1 :: addr
  b_handler :: s16
  b_aux :: s16
  b_aux_t :: s16
  b_data :: u8

type_synonym bench = "(kernel, bench_vars) app prog"

definition bench_setup :: bench where
  "bench_setup = block [serial_begin 9600, pinMode 2 INPUT, pinMode 13 OUTPUT]"

definition bench_signal :: "target \<Rightarrow> bench" where
  "bench_signal T = kcall_with_then (\<lambda>v. thread_ATS_signal (handlers T) (b_th1 v)) (\<lambda>_. Done)"

definition bench_periodic_task1 :: "target \<Rightarrow> bench" where
  "bench_periodic_task1 T = block [
     assign (\<lambda>v. v\<lparr>b_counter := b_counter v + 1\<rparr>),
     print_str (''[T1] THREAD 1------'' @ nl @ ''  current time(us): '' @ tab @ '' '' @ tab),
     print_num (\<lambda>a. uint (thread_get_time (kern a))),
     print_str (nl @ ''   error handler:'' @ tab),
     println_num (\<lambda>a. sint (b_handler (vars a))),
     print_str (nl @ ''   auxt:'' @ tab),
     println_num (\<lambda>a. sint (b_aux_t (vars a))),
     assign (\<lambda>v. v\<lparr>b_aux := 0\<rparr>),
     kcall (thread_ATS_enable (handlers T)),
     assign (\<lambda>v. v\<lparr>b_aux := 1\<rparr>),
     bench_signal T,
     bench_signal T,
     assign (\<lambda>v. v\<lparr>b_aux := 2\<rparr>),
     kcall thread_ATS_disable,
     assign (\<lambda>v. v\<lparr>b_aux := 3\<rparr>)]"

definition bench_error_handler_task1 :: "s16 \<Rightarrow> bench" where
  "bench_error_handler_task1 what = block [
     assign (\<lambda>v. v\<lparr>b_handler := b_handler v + 1\<rparr>),
     assign (\<lambda>v. v\<lparr>b_aux_t := b_aux v\<rparr>)]"

text \<open>\<open>do { byte data=Serial.read(); Serial.write(data); } while(Serial.available()>0);\<close>\<close>

definition bench_byte :: bench where
  "bench_byte = block [
     call_then serial_read (\<lambda>b. assign (\<lambda>v. v\<lparr>b_data := ucast b\<rparr>)),
     emit (\<lambda>a. [Character (b_data (vars a))])]"

definition bench_echo :: bench where
  "bench_echo = block [
     while_do (\<lambda>a. \<not> available a) Done,
     bench_byte, while_do available bench_byte]"

definition bench_loop :: bench where
  "bench_loop = block [
     print_str (''BEGIN '' @ nl),
     bench_echo, forever bench_echo,
     print_str (''END'' @ nl),
     hang]"

section \<open>What the sketches do\<close>

lemma run_do_call [runs]: "returns (seq (do_call f) q) a a' \<longleftrightarrow> returns q (a\<lparr>kern := f (kern a)\<rparr>) a'"
  by (simp add: do_call_def runs)

lemma run_do_call_then [runs]:
  "returns (seq (do_call_then f g) q) a a' \<longleftrightarrow> returns (seq (g (fst (f (kern a)))) q) (a\<lparr>kern := snd (f (kern a))\<rparr>) a'"
  by (simp add: do_call_then_def runs case_prod_beta)

lemmas run_do_call_last [runs] = run_do_call [of _ Done, unfolded seq_Done]
lemmas run_do_call_then_last [runs] = run_do_call_then [of _ _ Done, unfolded seq_Done]

subsection \<open>The master\<close>

text \<open>Programs that only add to the trace.\<close>

definition adds :: "('k, 'v) app prog \<Rightarrow> bool" where
  "adds p \<longleftrightarrow> (\<forall>a b. returns p a b \<longrightarrow> (\<exists>es. trace b = trace a @ es))"

named_theorems adding \<open>programs that only add to the trace\<close>

lemma adds_simple [adding]:
  "adds (emit e)" "adds (assign f)" "adds (do_call g)" "adds Done"
  by (simp_all add: adds_def runs)

lemma adds_block_Nil [adding]: "adds (block [])"
  by (simp add: adds_def)

lemma adds_block_Cons [adding]: "adds p \<Longrightarrow> adds (block ps) \<Longrightarrow> adds (block (p # ps))"
  unfolding adds_def by (metis append_assoc returns_block_ConsD)

lemma adds_block: "(\<And>p. p \<in> set ps \<Longrightarrow> adds p) \<Longrightarrow> adds (block ps)"
  by (induction ps) (simp_all add: adds_block_Nil adds_block_Cons)

lemma adds_if [adding]: "adds p \<Longrightarrow> adds q \<Longrightarrow> adds (if c then p else q)"
  by simp

lemma adds_do_call_then [adding]: "(\<And>x. adds (g x)) \<Longrightarrow> adds (do_call_then f g)"
  unfolding adds_def run_do_call_then_last by force

lemma adds_for [adding]: "(\<And>i. adds (p i)) \<Longrightarrow> adds (for_loop m n p)"
  unfolding for_loop_def by (rule adds_block) auto

lemma adds_while [adding]:
  assumes "adds p"
  shows "adds (while_do b p)"
  unfolding adds_def
proof (intro allI impI)
  fix a c assume "returns (while_do b p) a c"
  from while_invariant [where I = "\<lambda>c. \<exists>es. trace c = trace a @ es", OF this]
  show "\<exists>es. trace c = trace a @ es" using assms unfolding adds_def by (metis append_Nil2 append_assoc)
qed

text \<open>Whatever comes over the bus, \<open>task\<close> reports an amount of 0 and as the number of bytes the same 0: it
  prints before it counts, and the answer of \<open>requestFrom\<close> is not printed.\<close>

theorem mr_task_reports_zero:
  assumes "returns (mr_task W who send receive) a b"
  shows "\<exists>xs ys. trace b = trace a @ xs
    @ [Text ''. Amount: '', Number 0 10, Text ''. Cuantos: '', Number 0 10] @ ys"
proof -
  let ?drain = "mr_drain W (assign (\<lambda>v. v\<lparr>mr_amount := mr_amount v + 1\<rparr>))"
  obtain c d where F: "returns (mr_transfer W who send receive) a c" and M: "returns (mr_report who send receive) c d"
    and D: "returns ?drain d b"
    using assms by (auto simp: mr_task_def block_def returns_seq_ex)
  have "adds (mr_transfer W who send receive)" "adds ?drain"
    unfolding mr_drain_def mr_transfer_def by (intro adding)+
  with F D obtain xs ys where xs: "trace c = trace a @ xs" and ys: "trace b = trace d @ ys"
    unfolding adds_def by blast
  let ?us = "[Text (nl @ '' Slave ''), Number (sint who) 10, Text ''(s: '', Number (sint send) 10, Text '' r: '',
    Number (sint receive) 10, Text ''). Time in us s - r: '', Number (sint (mr_t2 (vars c) - mr_t1 (vars c))) 10,
    Text '' - '', Number (sint (mr_t3 (vars c) - mr_t2 (vars c))) 10]"
  from M have "trace d = trace c @ ?us @ [Text ''. Amount: '', Number 0 10, Text ''. Cuantos: '', Number 0 10]
      @ [Text (tab @ '' '')]"
    by (simp add: mr_report_def runs)
  with xs ys have "trace b = trace a @ (xs @ ?us) @ [Text ''. Amount: '', Number 0 10, Text ''. Cuantos: '', Number 0 10]
      @ (Text (tab @ '' '') # ys)" by simp
  then show ?thesis by blast
qed

subsection \<open>The slaves\<close>

text \<open>The alarm of slave_sender_tii_2 carries the letters a to o in turn.\<close>

lemma s2_loop_runs:
  "\<exists>b. returns (s2_loop W) a b \<and> s2_counter (vars b) = (if s2_counter (vars a) + 1 = 112 then 97 else s2_counter (vars a) + 1)"
  by (simp add: s2_loop_def runs)

theorem s2_letters:
  assumes "s2_counter (vars a) = 97"
  shows "\<exists>b. returns (block (replicate n (s2_loop W))) a b \<and> s2_counter (vars b) = 97 + of_nat (n mod 15)"
proof -
  define I where "I i a \<longleftrightarrow> s2_counter (vars a) = 97 + of_nat (i mod 15)" for i and a :: "('a, slave_vars) app"
  have next_letter: "(if (97 + of_nat m :: u8) + 1 = 112 then 97 else 97 + of_nat m + 1) = (97 + of_nat (Suc m mod 15) :: u8)"
    if "m < 15" for m
  proof (cases "m = 14")
    case False
    with that have "Suc m < 15" by simp
    moreover have "(97 + of_nat m :: u8) + 1 \<noteq> 112"
    proof
      assume "(97 + of_nat m :: u8) + 1 = 112"
      then have "(of_nat m :: u8) = 14" by (simp add: algebra_simps)
      then have "unat (of_nat m :: u8) = 14" by simp
      with that False show False by (simp add: unat_of_nat)
    qed
    ultimately show ?thesis by (simp add: ac_simps)
  qed simp
  have "\<exists>a'. returns (s2_loop W) b a' \<and> I (Suc i) a'" if "I i b" for i and b :: "('a, slave_vars) app"
  proof -
    obtain c where c: "returns (s2_loop W) b c"
      "s2_counter (vars c) = (if s2_counter (vars b) + 1 = 112 then 97 else s2_counter (vars b) + 1)"
      using s2_loop_runs by blast
    have "s2_counter (vars c) = 97 + of_nat (Suc (i mod 15) mod 15)"
      unfolding c(2) that [unfolded I_def] by (rule next_letter) simp
    with c(1) show ?thesis by (auto simp: I_def mod_Suc_eq)
  qed
  moreover have "I 0 a" using assms by (simp add: I_def)
  ultimately show ?thesis using returns_replicate [of I "s2_loop W" a n] by (auto simp: I_def)
qed

subsection \<open>The echoes\<close>

text \<open>The contract of a statement that echoes one byte; a loop of such statements writes back all that waits,
  in order.\<close>

locale echo =
  fixes p :: "('k, 'v) app prog"
  assumes echo_one: "rx a = b # bs \<Longrightarrow> \<exists>a'. returns p a a' \<and> rx a' = bs \<and> trace a' = trace a @ [Character b]
    \<and> kern a' = kern a"
begin

lemma echo_all:
  "\<exists>b. returns (while_do available p) a b \<and> rx b = [] \<and> trace b = trace a @ map Character (rx a) \<and> kern b = kern a"
proof (induction "rx a" arbitrary: a)
  case Nil
  then have e: "rx a = []" by simp
  have "returns (while_do available p) a a" by (rule returns_while_end) (simp add: available_def e)
  with e show ?case by (intro exI [of _ a]) simp
next
  case (Cons b bs)
  then have e: "rx a = b # bs" by simp
  obtain a' where a': "returns p a a'" "rx a' = bs" "trace a' = trace a @ [Character b]" "kern a' = kern a"
    using echo_one [OF e] by blast
  obtain c where c: "returns (while_do available p) a' c" "rx c = []" "trace c = trace a' @ map Character (rx a')"
    "kern c = kern a'" using Cons.hyps(1) [of a'] a'(2) by blast
  have "returns (while_do available p) a c"
    by (rule returns_while_step [OF _ a'(1) c(1)]) (simp add: available_def e)
  with a' c e show ?case by (intro exI [of _ c]) simp
qed

end

lemma byte_through_int: "ucast (ucast b :: s16) = (b :: u8)"
  by (rule bit_word_eqI) (simp add: bit_simps)

interpretation echo_byte: echo echo_byte
proof
  show "\<exists>a'. returns echo_byte a a' \<and> rx a' = bs \<and> trace a' = trace a @ [Character b] \<and> kern a' = kern a"
    if "rx a = b # bs" for a :: "('k, 'v) app" and b bs
  proof -
    have "returns echo_byte a (a\<lparr>rx := bs, trace := trace a @ [Character b]\<rparr>)"
      unfolding echo_byte_def
      by (rule returns_call_then [of _ _ "ucast b" "a\<lparr>rx := bs\<rparr>"]) (simp_all add: serial_read_def runs byte_through_int that)
    then show ?thesis by (intro exI [of _ "a\<lparr>rx := bs, trace := trace a @ [Character b]\<rparr>"]) simp
  qed
qed

interpretation bench_byte: echo bench_byte
proof
  show "\<exists>a'. returns bench_byte a a' \<and> rx a' = bs \<and> trace a' = trace a @ [Character b] \<and> kern a' = kern a"
    if "rx a = b # bs" for a :: "(kernel, bench_vars) app" and b bs
  proof -
    let ?a = "a\<lparr>rx := bs, vars := (vars a)\<lparr>b_data := b\<rparr>\<rparr>"
    have 1: "returns (call_then serial_read (\<lambda>b. assign (\<lambda>v. v\<lparr>b_data := ucast b\<rparr>))) a ?a"
      by (rule returns_call_then [of _ _ "ucast b" "a\<lparr>rx := bs\<rparr>"]) (simp_all add: serial_read_def runs byte_through_int that)
    have 2: "returns (block [emit (\<lambda>a. [Character (b_data (vars a))])]) ?a (?a\<lparr>trace := trace a @ [Character b]\<rparr>)"
      by (simp add: runs)
    have "returns bench_byte a (?a\<lparr>trace := trace a @ [Character b]\<rparr>)"
      unfolding bench_byte_def by (rule returns_block_Cons [OF 1 2])
    then show ?thesis by (intro exI [of _ "?a\<lparr>trace := trace a @ [Character b]\<rparr>"]) simp
  qed
qed

theorem tii2_echoes:
  "\<exists>b. returns (while_do available echo_byte) a b \<and> rx b = [] \<and> trace b = trace a @ map Character (rx a) \<and> kern b = kern a"
  by (rule echo_byte.echo_all)

theorem bench_echoes:
  assumes "rx a \<noteq> []"
  shows "\<exists>b. returns bench_echo a b \<and> rx b = [] \<and> trace b = trace a @ map Character (rx a)"
proof -
  obtain x xs where e: "rx a = x # xs" using assms by (cases "rx a") auto
  obtain c where c: "returns bench_byte a c" "rx c = xs" "trace c = trace a @ [Character x]"
    using bench_byte.echo_one [OF e] by blast
  obtain d where d: "returns (while_do available bench_byte) c d" "rx d = []" "trace d = trace c @ map Character (rx c)"
    using bench_byte.echo_all [of c] by blast
  have "returns (while_do (\<lambda>a. \<not> available a) Done) a a"
    by (rule returns_while_end) (simp add: available_def e)
  from returns_block_Cons [OF this returns_block_Cons [OF c(1) returns_block_Cons [OF d(1)]]]
  have "returns bench_echo a d" by (simp add: bench_echo_def)
  with c d e show ?thesis by auto
qed

text \<open>The benchmark never comes to its end.\<close>

theorem bench_never_ends: "\<nexists>b. returns bench_loop a b"
proof
  assume "\<exists>b. returns bench_loop a b"
  then obtain b where "returns bench_loop a b" ..
  from returns_block_part [OF this [unfolded bench_loop_def], of "forever bench_echo"] show False
    by (simp add: forever_never_returns)
qed

end
