(* ===== verification/Ex_Chibi.thy ===== *)
theory Ex_Chibi
  imports Ex_Bus
begin

text \<open>
  The measurements of other systems: chContextTime_CHIBIOS and chJitter_chibios (prefixes \<open>ch\<close>, \<open>jit\<close>),
  frContextTime_FREERTOS (\<open>fr\<close>), and chContextTime_CHIBIOS_TII (\<open>ct\<close>), which rebuilds the accounts of a real-time
  thread on top of ChibiOS. ChibiOS, FreeRTOS and the C library are parameters on an unknown state, the
  \<open>kern\<close> of a sketch; a call that switches threads returns the state in which its caller goes on. What
  \<open>micros()\<close> answers is a sequence among the variables.
\<close>

text \<open>\<open>os_begin\<close> and \<open>os_scheduler\<close> start the other system; \<open>var_at\<close> and \<open>fun_at\<close> are what the linker fixes.\<close>

record ('k, 'v) os =
  os_begin :: "('k, 'v) app prog \<Rightarrow> ('k, 'v) app prog"
  os_scheduler :: "'k \<Rightarrow> 'k"
  sem_init :: "addr \<Rightarrow> s16 \<Rightarrow> 'k \<Rightarrow> 'k"
  sem_create_binary :: "addr \<Rightarrow> 'k \<Rightarrow> 'k"
  sem_wait :: "addr \<Rightarrow> 'k \<Rightarrow> 'k"
  sem_signal :: "addr \<Rightarrow> 'k \<Rightarrow> 'k"
  sem_reset :: "addr \<Rightarrow> s16 \<Rightarrow> 'k \<Rightarrow> 'k"
  thd_sleep :: "nat \<Rightarrow> 'k \<Rightarrow> 'k"
  thd_sleep_ms :: "nat \<Rightarrow> 'k \<Rightarrow> 'k"
  thd_yield :: "'k \<Rightarrow> 'k"
  thd_create_static :: "addr \<Rightarrow> nat \<Rightarrow> addr \<Rightarrow> 'k \<Rightarrow> 'k"
  thd_create_heap :: "nat \<Rightarrow> nat \<Rightarrow> addr \<Rightarrow> 'k \<Rightarrow> addr \<times> 'k"
  normal_prio :: nat
  idle_prio :: nat
  wa_size :: "nat \<Rightarrow> nat"
  iq_init :: "addr \<Rightarrow> addr \<Rightarrow> nat \<Rightarrow> 'k \<Rightarrow> 'k"
  iq_put :: "addr \<Rightarrow> u8 \<Rightarrow> 'k \<Rightarrow> 'k"
  oq_get :: "addr \<Rightarrow> 'k \<Rightarrow> s16 \<times> 'k"
  time_now :: "'k \<Rightarrow> u32 \<times> 'k"
  delay_10us :: "'k \<Rightarrow> 'k"
  c_malloc :: "nat \<Rightarrow> 'k \<Rightarrow> addr \<times> 'k"
  c_free :: "addr \<Rightarrow> 'k \<Rightarrow> 'k"
  sizeof_semaphore :: nat
  sizeof_queue :: nat
  sizeof_thread :: nat
  var_at :: "string \<Rightarrow> addr"
  fun_at :: "string \<Rightarrow> addr"

section \<open>chContextTime_CHIBIOS\<close>

definition LED_PIN :: nat where "LED_PIN = 13"

definition ch_Thread1 :: "('k, 'v) os \<Rightarrow> ('k, 'v) app prog" where
  "ch_Thread1 K = forever (block [
     do_call (sem_wait K (var_at K ''sem'')),
     digitalWrite LED_PIN LOW])"

definition ch_Thread2 :: "('k, 'v) os \<Rightarrow> ('k, 'v) app prog" where
  "ch_Thread2 K = block [
     pinMode LED_PIN OUTPUT,
     forever (block [
       digitalWrite LED_PIN HIGH,
       digitalWrite LED_PIN LOW,
       digitalWrite LED_PIN HIGH,
       do_call (sem_signal K (var_at K ''sem'')),
       do_call (thd_sleep K 1)])]"

definition ch_chSetup :: "('k, 'v) os \<Rightarrow> ('k, 'v) app prog" where
  "ch_chSetup K = block [
     do_call (sem_init K (var_at K ''sem'') 0),
     do_call (thd_create_static K (var_at K ''waThread1'') (normal_prio K + 2) (fun_at K ''Thread1'')),
     do_call (thd_create_static K (var_at K ''waThread2'') (normal_prio K + 1) (fun_at K ''Thread2''))]"

definition ch_setup :: "('k, 'v) os \<Rightarrow> ('k, 'v) app prog" where
  "ch_setup K = block [os_begin K (ch_chSetup K), hang]"

section \<open>frContextTime_FREERTOS\<close>

definition fr_ledOffTask :: "('k, 'v) os \<Rightarrow> ('k, 'v) app prog" where
  "fr_ledOffTask K = forever (block [
     do_call (sem_wait K (var_at K ''xSemaphore'')),
     digitalWrite LED_PIN LOW])"

definition fr_ledControl :: "('k, 'v) os \<Rightarrow> ('k, 'v) app prog" where
  "fr_ledControl K = forever (block [
     digitalWrite LED_PIN HIGH,
     digitalWrite LED_PIN LOW,
     digitalWrite LED_PIN HIGH,
     do_call (sem_signal K (var_at K ''xSemaphore'')),
     do_call (thd_sleep K 1)])"

text \<open>The size of the stacks is a constant of FreeRTOS and part of \<open>thd_create_static\<close>.\<close>

definition fr_setup :: "('k, 'v) os \<Rightarrow> ('k, 'v) app prog" where
  "fr_setup K = block [
     pinMode LED_PIN OUTPUT,
     do_call (thd_create_static K (var_at K ''Task1'') (idle_prio K + 2) (fun_at K ''ledOffTask'')),
     do_call (thd_create_static K (var_at K ''Task2'') (idle_prio K + 1) (fun_at K ''ledControl'')),
     do_call (sem_create_binary K (var_at K ''xSemaphore'')),
     do_call (os_scheduler K),
     println_str ''Die'',
     hang]"

section \<open>chJitter_chibios\<close>

record jit_vars =
  j_micros :: "nat \<Rightarrow> u32"
  tmax :: u16
  tmin :: u16
  j_aux :: s16
  tlast :: u32
  tmp :: u32
  diff_us :: u16
  np :: u8

type_synonym 'k jitter = "('k, jit_vars) app prog"

text \<open>The body of the loop, and its condition \<open>aux--!=1\<close>, which lowers \<open>aux\<close>.\<close>

definition jit_body :: "('k, jit_vars) os \<Rightarrow> 'k jitter" where
  "jit_body K = block [
     do_call (thd_yield K),
     assign (\<lambda>v. v\<lparr>tmp := j_micros v 0, j_micros := next_micros (j_micros v)\<rparr>),
     assign (\<lambda>v. v\<lparr>diff_us := ucast (tmp v - tlast v)\<rparr>),
     assign (\<lambda>v. if diff_us v < tmin v then v\<lparr>tmin := diff_us v\<rparr> else v),
     assign (\<lambda>v. if tmax v < diff_us v then v\<lparr>tmax := diff_us v\<rparr> else v),
     assign (\<lambda>v. v\<lparr>tlast := tmp v\<rparr>),
     assign (\<lambda>v. v\<lparr>j_aux := j_aux v - 1\<rparr>)]"

definition jit_Thread1 :: "('k, jit_vars) os \<Rightarrow> 'k jitter" where
  "jit_Thread1 K = block [
     assign (\<lambda>v. v\<lparr>j_aux := 10\<rparr>),
     assign (\<lambda>v. v\<lparr>tlast := j_micros v 0, j_micros := next_micros (j_micros v)\<rparr>),
     jit_body K,
     while_do (\<lambda>a. j_aux (vars a) + 1 \<noteq> 1) (jit_body K)]"

definition jit_chSetup :: "('k, jit_vars) os \<Rightarrow> 'k jitter" where
  "jit_chSetup K = block [
     serial_begin 9600,
     do_call (thd_create_static K (var_at K ''waThread1'') (normal_prio K + 2) (fun_at K ''Thread1''))]"

definition jit_setup :: "('k, jit_vars) os \<Rightarrow> 'k jitter" where
  "jit_setup K = block [os_begin K (jit_chSetup K), hang]"

text \<open>\<open>np++ == 10\<close> compares the old value.\<close>

definition jit_loop :: "('k, jit_vars) os \<Rightarrow> 'k jitter" where
  "jit_loop K = block [
     do_call (thd_sleep_ms K 1000),
     print_num (\<lambda>a. uint (tmin (vars a))),
     emit (\<lambda>_. [Character 44]),
     println_num (\<lambda>a. uint (tmax (vars a))),
     assign (\<lambda>v. v\<lparr>np := np v + 1\<rparr>),
     cond (\<lambda>a. np (vars a) - 1 = 10)
       (block [
          assign (\<lambda>v. v\<lparr>np := 0\<rparr>),
          assign (\<lambda>v. v\<lparr>tmin := 0xFFFF\<rparr>),
          assign (\<lambda>v. v\<lparr>tmax := 0\<rparr>),
          print_str (''clear'' @ [CHR 0x0D] @ nl)]) Done]"

section \<open>chContextTime_CHIBIOS_TII\<close>

text \<open>The statics, with a pointer \<open>p_x\<close> that is never assigned read as \<open>x\<close> itself; \<open>p_ats_active_1\<close> is
  assigned: the field says whether it still points to \<open>ats_active_1\<close> or is NULL. Behind them the locals of
  \<open>chSetup\<close>, whose \<open>time_1\<close> and \<open>time_2\<close> hide the statics of the same names.\<close>

record ct_vars =
  c_micros :: "nat \<Rightarrow> u32"
  time_2 :: s32
  time_1 :: s32
  cost_c1 :: s32
  cost_wcet1 :: s32
  period_p1 :: s32
  deadline_d1 :: s32
  ats_pending_1 :: s32
  ats_active_1 :: s32
  p_ats_active_1 :: bool
  cost_c2 :: s32
  cost_wcet2 :: s32
  deadline_d2 :: s32
  ct_current_thread :: s32
  last_time :: s32
  l_time_1 :: s32
  l_time_2 :: s32
  aux_cost_add :: s32
  sem1 :: addr
  data_ptr :: addr
  q1 :: addr
  buffer :: addr
  get_ptr :: addr
  mem_at :: s16
  taux_1 :: s32
  taux_2 :: s32

type_synonym 'k ct = "('k, ct_vars) app prog"
type_synonym 'k ct_os = "('k, ct_vars) os"

definition ct_do_overun :: "'k ct" where
  "ct_do_overun = block [assign (\<lambda>v. v\<lparr>deadline_d1 := 0\<rparr>), assign (\<lambda>v. v\<lparr>cost_c1 := 0\<rparr>)]"

text \<open>The condition of the last statement reads \<open>*p_ats_active_1\<close> when there is a signal pending.\<close>

definition ct_do_switch :: "'k ct" where
  "ct_do_switch = block [
     assign (\<lambda>v. v\<lparr>aux_cost_add := c_micros v 0, c_micros := next_micros (c_micros v)\<rparr>),
     assign (\<lambda>v. v\<lparr>cost_c2 := cost_c2 v + (aux_cost_add v - last_time v)\<rparr>),
     assign (\<lambda>v. v\<lparr>last_time := aux_cost_add v\<rparr>),
     for_loop 0 2 (\<lambda>_. block [
       cond (\<lambda>a. sint (aux_cost_add (vars a)) < sint (deadline_d2 (vars a))) ct_do_overun Done,
       cond (\<lambda>a. sint (aux_cost_add (vars a)) < sint (cost_wcet2 (vars a))) Done Done,
       ct_do_overun,
       assign (\<lambda>v. v\<lparr>ct_current_thread := 1\<rparr>)]),
     cond (\<lambda>a. sint (aux_cost_add (vars a)) < sint (deadline_d1 (vars a))) ct_do_overun Done,
     cond (\<lambda>a. sint (aux_cost_add (vars a)) < sint (cost_wcet1 (vars a))) ct_do_overun Done,
     cond (\<lambda>a. 0 < sint (ats_pending_1 (vars a)))
       (block [
          call (\<lambda>a. if p_ats_active_1 (vars a) then Some a else None),
          cond (\<lambda>a. ats_active_1 (vars a) = 0) ct_do_overun Done]) Done]"

definition ct_Thread1 :: "'k ct_os \<Rightarrow> 'k ct" where
  "ct_Thread1 K = forever (block [
     do_call (sem_wait K (var_at K ''sem'')),
     assign (\<lambda>v. v\<lparr>time_2 := c_micros v 0, c_micros := next_micros (c_micros v)\<rparr>),
     digitalWrite LED_PIN LOW])"

definition ct_Thread2 :: "'k ct_os \<Rightarrow> 'k ct" where
  "ct_Thread2 K = block [
     pinMode LED_PIN OUTPUT,
     forever (block [
       digitalWrite LED_PIN HIGH,
       digitalWrite LED_PIN LOW,
       digitalWrite LED_PIN HIGH,
       assign (\<lambda>v. v\<lparr>time_1 := c_micros v 0, c_micros := next_micros (c_micros v)\<rparr>),
       ct_do_switch,
       do_call (sem_signal K (var_at K ''sem'')),
       print_str (''TIME: '' @ nl),
       print_num (\<lambda>a. sint (time_2 (vars a) - time_1 (vars a))),
       print_str nl,
       hang,
       do_call (thd_sleep K 10)])]"

definition ct_do_ats_1 :: "'k ct" where
  "ct_do_ats_1 = Done"

text \<open>\<open>time_1=micros(); xs; time_2=micros(); Serial.print(label); Serial.print(time_2-time_1);\<close>\<close>

definition ct_measure :: "'k ct list \<Rightarrow> string \<Rightarrow> 'k ct" where
  "ct_measure xs label = block ([
     assign (\<lambda>v. v\<lparr>l_time_1 := c_micros v 0, c_micros := next_micros (c_micros v)\<rparr>)] @ xs @ [
     assign (\<lambda>v. v\<lparr>l_time_2 := c_micros v 0, c_micros := next_micros (c_micros v)\<rparr>),
     print_str label,
     print_num (\<lambda>a. sint (l_time_2 (vars a) - l_time_1 (vars a)))])"

text \<open>\<open>chSetup\<close>, cut into what it measures.\<close>

definition ct_semaphores :: "'k ct_os \<Rightarrow> 'k ct" where
  "ct_semaphores K = block [
     do_call (sem_init K (var_at K ''sem'') 0),
     ct_measure [do_call (thd_yield K)] ''yield: '', print_str nl,
     ct_measure [assign (\<lambda>v. v\<lparr>c_micros := next_micros (c_micros v)\<rparr>)] ''error: '', print_str nl,
     ct_measure [
       do_call_then (c_malloc K (sizeof_semaphore K)) (\<lambda>p. assign (\<lambda>v. v\<lparr>sem1 := p\<rparr>)),
       kcall_with (\<lambda>v k. Some (sem_init K (sem1 v) 1 k))] ''semaphore-alloc: '',
     print_str '' us and bytes:'', print_num (\<lambda>_. int (sizeof_semaphore K)), print_str nl,
     do_call (sem_init K (var_at K ''sem2'') 1),
     ct_measure [do_call (sem_wait K (var_at K ''sem2''))] ''semaphore-V: '', print_str nl,
     ct_measure [do_call (sem_signal K (var_at K ''sem2''))] ''semaphore-P: '', print_str nl,
     ct_measure [
       kcall_with (\<lambda>v k. Some (sem_reset K (sem1 v) 0 k)),
       kcall_with (\<lambda>v k. Some (c_free K (sem1 v) k))] ''semaphore-dealloc: '', print_str nl]"

definition ct_memory :: "'k ct_os \<Rightarrow> 'k ct" where
  "ct_memory K = block [
     ct_measure [do_call_then (c_malloc K 10) (\<lambda>p. assign (\<lambda>v. v\<lparr>data_ptr := p\<rparr>))] ''tmalloc (10): '', print_str nl,
     ct_measure [kcall_with (\<lambda>v k. Some (c_free K (data_ptr v) k))] ''free (10): '', print_str nl]"

text \<open>An element is put as its high byte and the truth value (\<open>&&\<close>) of its low byte. The element got is a byte
  shifted by 8 plus the next byte (\<open>+\<close> binds tighter than \<open><<\<close>), undefined from 16 bits on.\<close>

definition ct_put :: "'k ct_os \<Rightarrow> 'k ct" where
  "ct_put K = block [
     kcall_with (\<lambda>v k. Some (iq_put K (q1 v) (ucast (drop_bit 8 (q1 v))) k)),
     kcall_with (\<lambda>v k. Some (iq_put K (q1 v) (if (ucast (q1 v) :: u8) \<noteq> 0 then 1 else 0) k))]"

definition ct_shift :: "u8 \<Rightarrow> u8 \<Rightarrow> addr option" where
  "ct_shift hi lo = (if 8 + unat lo < 16 then Some (push_bit (8 + unat lo) (ucast hi)) else None)"

definition ct_queue :: "'k ct_os \<Rightarrow> 'k ct" where
  "ct_queue K = block [
     assign (\<lambda>v. v\<lparr>q1 := NULL\<rparr>),
     ct_measure [
       do_call_then (c_malloc K (sizeof_queue K)) (\<lambda>p. assign (\<lambda>v. v\<lparr>q1 := p\<rparr>)),
       assign (\<lambda>v. v\<lparr>buffer := NULL\<rparr>),
       do_call_then (c_malloc K (10 * 2)) (\<lambda>p. assign (\<lambda>v. v\<lparr>buffer := p\<rparr>)),
       kcall_with (\<lambda>v k. Some (iq_init K (q1 v) (buffer v) (10 * 2) k))] ''queue (10): Create '',
     print_str '' us and bytes: '', print_num (\<lambda>_. int (sizeof_queue K)), print_str '' + '', print_num (\<lambda>_. 2),
     print_str ('' per element'' @ nl),
     ct_measure [ct_put K] ''queue (10): setElement '', print_str ('' per element'' @ nl),
     ct_measure [ct_put K] ''queue (10): setElement '', print_str ('' per element'' @ nl),
     ct_measure [
       assign (\<lambda>v. v\<lparr>get_ptr := NULL\<rparr>),
       kcall_with_then (\<lambda>v k. Some (oq_get K (q1 v) k)) (\<lambda>hi.
         kcall_with_then (\<lambda>v k. Some (oq_get K (q1 v) k)) (\<lambda>lo.
           compute (ct_shift (ucast hi) (ucast lo)) (\<lambda>p. assign (\<lambda>v. v\<lparr>get_ptr := p\<rparr>))))]
       ''queue (10): getElement '', print_str ('' per element'' @ nl),
     ct_measure [
       kcall_with (\<lambda>v k. Some (c_free K (q1 v) k)),
       kcall_with (\<lambda>v k. Some (c_free K (buffer v) k))] ''queue(10):free'', print_str nl]"

definition ct_atomic :: "'k ct" where
  "ct_atomic = block [
     assign (\<lambda>v. v\<lparr>mem_at := 0\<rparr>),
     ct_measure [assign (\<lambda>v. v\<lparr>mem_at := mem_at v + 1\<rparr>), assign (\<lambda>v. v\<lparr>mem_at := mem_at v - 1\<rparr>)] ''ATOMIC_BLOCK'',
     print_str nl]"

definition ct_sleeping :: "'k ct_os \<Rightarrow> 'k ct" where
  "ct_sleeping K = block [
     ct_measure [do_call (delay_10us K)] ''sleep: '', print_str nl,
     assign (\<lambda>v. v\<lparr>l_time_1 := c_micros v 0, c_micros := next_micros (c_micros v)\<rparr>),
     do_call_then (time_now K) (\<lambda>t. assign (\<lambda>v. v\<lparr>taux_1 := t\<rparr>)),
     delay 10,
     assign (\<lambda>v. v\<lparr>l_time_2 := c_micros v 0, c_micros := next_micros (c_micros v)\<rparr>),
     do_call_then (time_now K) (\<lambda>t. assign (\<lambda>v. v\<lparr>taux_2 := t\<rparr>)),
     print_str ''sleep: '',
     print_num (\<lambda>a. sint (l_time_2 (vars a) - l_time_1 (vars a))),
     print_str ''. Ticks en un sleep de 10 ms'',
     print_num (\<lambda>a. sint (taux_2 (vars a) - taux_1 (vars a))),
     print_str nl]"

text \<open>\<open>*p_ats_active_1 = x\<close>, undefined once the pointer is NULL; \<open>p_ats_pending_1\<close> is never NULL.\<close>

definition ct_put_ats_active :: "s32 \<Rightarrow> 'k ct" where
  "ct_put_ats_active x = call (\<lambda>a. if p_ats_active_1 (vars a) then Some (a\<lparr>vars := (vars a)\<lparr>ats_active_1 := x\<rparr>\<rparr>) else None)"

definition ct_ats :: "'k ct" where
  "ct_ats = block [
     ct_measure [ct_put_ats_active 1, ct_do_ats_1] ''ATS-1: '', emit (\<lambda>_. [Newline]),
     ct_measure [cond (\<lambda>a. p_ats_active_1 (vars a)) ct_do_ats_1 Done] ''ATS-signal: '', emit (\<lambda>_. [Newline]),
     ct_measure [assign (\<lambda>v. v\<lparr>p_ats_active_1 := False\<rparr>)] ''ATS-disable: '', emit (\<lambda>_. [Newline])]"

text \<open>\<open>aux\<close> is \<open>1023 / 10\<close>.\<close>

definition ct_threads :: "'k ct_os \<Rightarrow> 'k ct" where
  "ct_threads K = block [
     ct_measure [
       do_call_then (thd_create_heap K (wa_size K 228) (normal_prio K + 2) (fun_at K ''Thread1'')) (\<lambda>_. Done),
       assign (\<lambda>v. v\<lparr>cost_c1 := 102005 div (1023 div 10)\<rparr>),
       assign (\<lambda>v. v\<lparr>cost_wcet1 := 10025 div (1023 div 10)\<rparr>),
       assign (\<lambda>v. v\<lparr>period_p1 := 10025 div (1023 div 10)\<rparr>),
       assign (\<lambda>v. v\<lparr>deadline_d1 := 10025 div (1023 div 10)\<rparr>),
       assign (\<lambda>v. v\<lparr>ats_pending_1 := 0\<rparr>),
       ct_put_ats_active 0] ''THREAD CREATION: '',
     print_str (nl @ '' size: ''), print_num (\<lambda>_. int (sizeof_thread K)), print_str nl,
     do_call (thd_create_static K (var_at K ''waThread2'') (normal_prio K + 1) (fun_at K ''Thread2''))]"

definition ct_chSetup :: "'k ct_os \<Rightarrow> 'k ct" where
  "ct_chSetup K = block [ct_semaphores K, ct_memory K, ct_queue K, ct_atomic, ct_sleeping K, ct_ats, ct_threads K]"

definition ct_setup :: "'k ct_os \<Rightarrow> 'k ct" where
  "ct_setup K = block [serial_begin 9600, os_begin K (ct_chSetup K), hang]"

section \<open>What the sketches do\<close>

text \<open>The thread of chJitter_chibios ends after ten measurements, whatever \<open>micros()\<close> answers, and leaves a
  least time that is not above the greatest.\<close>

lemma jit_body_runs:
  "\<exists>b. returns (jit_body K) a b \<and> j_aux (vars b) = j_aux (vars a) - 1 \<and> tmin (vars b) \<le> tmax (vars b)"
  by (auto simp: jit_body_def runs intro: order_trans)

theorem jitter_thread_ends: "\<exists>b. returns (jit_Thread1 K) a b \<and> tmin (vars b) \<le> tmax (vars b) \<and> j_aux (vars b) = 0"
proof -
  have loop: "\<exists>b. returns (while_do (\<lambda>a. j_aux (vars a) + 1 \<noteq> 1) (jit_body K)) a b \<and> tmin (vars b) \<le> tmax (vars b)
      \<and> j_aux (vars b) = 0"
    if "j_aux (vars a) = of_nat n" "n < 2 ^ 16" "tmin (vars a) \<le> tmax (vars a)" for n and a :: "('a, jit_vars) app"
    using that
  proof (induction n arbitrary: a)
    case 0
    then show ?case by (intro exI [of _ a]) (simp add: returns_while_end)
  next
    case (Suc n)
    obtain c where c: "returns (jit_body K) a c" "j_aux (vars c) = j_aux (vars a) - 1" "tmin (vars c) \<le> tmax (vars c)"
      using jit_body_runs by blast
    have "(of_nat (Suc n) :: s16) \<noteq> 0" using Suc.prems(2) by (simp add: word_unat_eq_iff unat_of_nat del: of_nat_Suc)
    then have "j_aux (vars a) + 1 \<noteq> 1" using Suc.prems(1) by simp
    moreover obtain b where "returns (while_do (\<lambda>a. j_aux (vars a) + 1 \<noteq> 1) (jit_body K)) c b"
      "tmin (vars b) \<le> tmax (vars b)" "j_aux (vars b) = 0"
      using Suc.IH [of c] c Suc.prems by auto
    ultimately show ?case using c(1) by (blast intro: returns_while_step)
  qed
  let ?a = "a\<lparr>vars := (vars a)\<lparr>j_aux := 10\<rparr>\<rparr>"
  let ?b = "?a\<lparr>vars := (vars ?a)\<lparr>tlast := j_micros (vars ?a) 0, j_micros := next_micros (j_micros (vars ?a))\<rparr>\<rparr>"
  obtain c where c: "returns (jit_body K) ?b c" "j_aux (vars c) = j_aux (vars ?b) - 1" "tmin (vars c) \<le> tmax (vars c)"
    using jit_body_runs by blast
  obtain d where d: "returns (while_do (\<lambda>a. j_aux (vars a) + 1 \<noteq> 1) (jit_body K)) c d" "tmin (vars d) \<le> tmax (vars d)"
    "j_aux (vars d) = 0" using loop [of c 9] c by auto
  have "returns (jit_Thread1 K) a d"
    unfolding jit_Thread1_def
    by (rule returns_block_Cons [where ?s1.0 = "?a"], simp add: runs,
      rule returns_block_Cons [where ?s1.0 = "?b"], simp add: runs,
      rule returns_block_Cons [OF c(1)], rule returns_block_Cons [OF d(1)], simp)
  with d show ?thesis by blast
qed

text \<open>A stray semicolon makes \<open>do_switch\<close> of chContextTime_CHIBIOS_TII reset the deadline and the cost of thread 1 at
  every switch.\<close>

abbreviation ct_reset :: "('k, ct_vars) app \<Rightarrow> bool" where
  "ct_reset a \<equiv> p_ats_active_1 (vars a) \<and> deadline_d1 (vars a) = 0 \<and> cost_c1 (vars a) = 0 \<and> ct_current_thread (vars a) = 1"

lemma ct_overun_resets: "ct_reset a \<Longrightarrow> \<exists>b. returns ct_do_overun a b \<and> ct_reset b"
  by (simp add: ct_do_overun_def runs)

lemma ct_may: "ct_reset a \<Longrightarrow> \<exists>b. returns p a b \<and> ct_reset b \<Longrightarrow> \<exists>b. returns (cond g p Done) a b \<and> ct_reset b"
  by (cases "g a") (fastforce intro: returns_cond)+

lemma ct_may_overun: "ct_reset a \<Longrightarrow> \<exists>b. returns (cond g ct_do_overun Done) a b \<and> ct_reset b"
  by (blast intro: ct_may ct_overun_resets)

definition ct_body :: "'k ct" where
  "ct_body = block [
       cond (\<lambda>a. sint (aux_cost_add (vars a)) < sint (deadline_d2 (vars a))) ct_do_overun Done,
       cond (\<lambda>a. sint (aux_cost_add (vars a)) < sint (cost_wcet2 (vars a))) Done Done,
       ct_do_overun,
       assign (\<lambda>v. v\<lparr>ct_current_thread := 1\<rparr>)]"

lemma ct_body_resets: "p_ats_active_1 (vars a) \<Longrightarrow> \<exists>b. returns ct_body a b \<and> ct_reset b"
  by (simp add: ct_body_def ct_do_overun_def runs)

lemma ct_signal_resets:
  assumes "ct_reset a"
  shows "\<exists>b. returns (block [
          call (\<lambda>a. if p_ats_active_1 (vars a) then Some a else None),
          cond (\<lambda>a. ats_active_1 (vars a) = 0) ct_do_overun Done]) a b \<and> ct_reset b"
proof -
  have "returns (call (\<lambda>a. if p_ats_active_1 (vars a) then Some a else None)) a a"
    using assms by (simp add: returns_call)
  with ct_may_overun [OF assms] show ?thesis
    by (fastforce intro: returns_block_Cons)
qed

theorem ct_switch_resets:
  assumes "p_ats_active_1 (vars a)"
  shows "\<exists>b. returns ct_do_switch a b \<and> ct_reset b"
proof -
  let ?t = "c_micros (vars a) 0"
  let ?a = "a\<lparr>vars := (vars a)\<lparr>aux_cost_add := ?t, c_micros := next_micros (c_micros (vars a))\<rparr>\<rparr>"
  let ?b = "?a\<lparr>vars := (vars ?a)\<lparr>cost_c2 := cost_c2 (vars ?a) + (aux_cost_add (vars ?a) - last_time (vars ?a))\<rparr>\<rparr>"
  let ?c = "?b\<lparr>vars := (vars ?b)\<lparr>last_time := aux_cost_add (vars ?b)\<rparr>\<rparr>"
  obtain d where d: "returns ct_body ?c d" "ct_reset d" using ct_body_resets [of ?c] assms by auto
  obtain e where e: "returns ct_body d e" "ct_reset e" using ct_body_resets [of d] d(2) by blast
  have loop: "returns (for_loop 0 2 (\<lambda>_. ct_body)) ?c e"
    using returns_block_Cons [OF d(1) returns_block_Cons [OF e(1)]] by (simp add: for_loop_def upt_rec)
  obtain f where f: "returns (cond (\<lambda>a. sint (aux_cost_add (vars a)) < sint (deadline_d1 (vars a))) ct_do_overun Done) e f"
    "ct_reset f" using ct_may_overun [OF e(2)] by blast
  obtain g where g: "returns (cond (\<lambda>a. sint (aux_cost_add (vars a)) < sint (cost_wcet1 (vars a))) ct_do_overun Done) f g"
    "ct_reset g" using ct_may_overun [OF f(2)] by blast
  let ?sig = "block [
          call (\<lambda>a. if p_ats_active_1 (vars a) then Some a else None),
          cond (\<lambda>a. ats_active_1 (vars a) = 0) ct_do_overun Done]"
  obtain h where h: "returns (cond (\<lambda>a. 0 < sint (ats_pending_1 (vars a))) ?sig Done) g h" "ct_reset h"
    using ct_may [OF g(2) ct_signal_resets [OF g(2)]] by blast
  have "returns ct_do_switch a h"
    unfolding ct_do_switch_def ct_body_def [symmetric]
    by (rule returns_block_Cons [OF returns_assign], rule returns_block_Cons [OF returns_assign],
      rule returns_block_Cons [OF returns_assign], rule returns_block_Cons [OF loop], rule returns_block_Cons [OF f(1)],
      rule returns_block_Cons [OF g(1)], rule returns_block_Cons [OF h(1)], simp)
  with h(2) show ?thesis by blast
qed

text \<open>\<open>chSetup\<close> never gets to its second thread: it sets the pointer \<open>p_ats_active_1\<close> to NULL where the value
  was meant, and writes through it when it makes the first.\<close>

lemma ct_ats_disables: "returns ct_ats a b \<Longrightarrow> \<not> p_ats_active_1 (vars b)"
  by (auto simp: ct_ats_def ct_measure_def ct_put_ats_active_def ct_do_ats_1_def runs run_call
      split: option.splits if_splits)

lemma ct_threads_undefined: "\<not> p_ats_active_1 (vars a) \<Longrightarrow> \<not> returns (ct_threads K) a b"
  by (auto simp: ct_threads_def ct_measure_def ct_put_ats_active_def runs run_call)

theorem ct_setup_undefined: "\<nexists>b. returns (ct_chSetup K) a b"
proof
  assume "\<exists>b. returns (ct_chSetup K) a b"
  then obtain b where b: "returns (ct_chSetup K) a b" ..
  obtain c d e where "returns ct_ats c d" "returns (ct_threads K) d e"
    using b unfolding ct_chSetup_def by (blast dest!: returns_block_ConsD)
  with ct_ats_disables ct_threads_undefined show False by blast
qed

end
