(* ===== verification/Ex_Dump.thy ===== *)
theory Ex_Dump
  imports RT_Sketch
begin

text \<open>
  The sketches that dump all the kernel knows of its threads: \<open>periodic_1tasks_dump_all_info\<close> (prefix
  \<open>dump\<close>), \<open>periodic_1tasks_dump_all_info_remove\<close> (\<open>remover\<close>) and
  \<open>periodic_2tasks_dump_all_info_debug_example\<close> (\<open>debug\<close>). A job walks the run queue and prints the members
  of each thread and its stack. It reads a member \<open>ats_max_pending\<close> that the structure does not have, so
  the sketches do not compile with this version of the library; what that member prints is the parameter
  \<open>M\<close>. Results: a job ends and lists the threads of the run queue, each once and in order, unless a stack
  has 32768 bytes or more; the job that removes a thread removes it once.
\<close>

section \<open>Numbers as the sketches cast them\<close>

text \<open>A pointer cast to \<open>long\<close> is extended with its sign; printed to the base 16 it is read unsigned.\<close>

definition pointer_as_long :: "addr \<Rightarrow> int" where
  "pointer_as_long p = uint (scast p :: u32)"

text \<open>
  The locals of the job (\<open>walker\<close> is its \<open>th\<close>) and of \<open>print_stack\<close> (\<open>i\<close>), the global \<open>th2\<close> and the static
  variable \<open>counter\<close>.
\<close>

record dump_vars =
  walker :: addr
  byte_i :: s16
  dump_th2 :: addr
  dump_counter :: s16

type_synonym dumping = "(kernel, dump_vars) app prog"

section \<open>periodic_1tasks_dump_all_info\<close>

definition dump_setup :: dumping where
  "dump_setup = block [serial_begin 9600, pinMode 2 INPUT, pinMode 13 OUTPUT]"

text \<open>
  The comparison with \<open>stack_size\<close> is one of unsigned numbers; \<open>i++\<close> is undefined at the largest \<open>int\<close>.
  Where the comparison itself reads through a bad pointer, so does the statement behind it.
\<close>

definition print_stack_row :: "addr \<Rightarrow> dumping" where
  "print_stack_row th = block [
     println_str '''',
     kread (deref th) (\<lambda>t. print_hex (\<lambda>a. pointer_as_long (stack t + stack_size t - byte_i (vars a) - 1))),
     print_str ('':'' @ tab)]"

definition print_stack_byte :: "addr \<Rightarrow> dumping" where
  "print_stack_byte th = block [
     cond (\<lambda>a. sint (byte_i (vars a)) mod 20 = 0) (print_stack_row th) Done,
     kread (deref th) (\<lambda>t. print_hex (\<lambda>a. uint (mem (kern a) (stack t + stack_size t - byte_i (vars a) - 1)))),
     print_str tab,
     call (\<lambda>a. if byte_i (vars a) = 0x7FFF then None
               else Some (a\<lparr>vars := (vars a)\<lparr>byte_i := byte_i (vars a) + 1\<rparr>\<rparr>))]"

definition print_stack :: "addr \<Rightarrow> dumping" where
  "print_stack th = block [
     print_str ''STACK POINTER--------: '',
     kread (deref th) (\<lambda>t. print_hex (\<lambda>_. pointer_as_long (sp t))),
     assign (\<lambda>v. v\<lparr>byte_i := 0\<rparr>),
     while_do (\<lambda>a. case deref th (kern a) of None \<Rightarrow> True | Some t \<Rightarrow> byte_i (vars a) < stack_size t)
       (print_stack_byte th)]"

text \<open>A statement that reads \<open>th\<close> of the job, and one that prints a member of its thread.\<close>

definition with_walker :: "(addr \<Rightarrow> dumping) \<Rightarrow> dumping" where
  "with_walker f = kcall_with_then (\<lambda>v k. Some (walker v, k)) f"

definition println_member :: "nat \<Rightarrow> (thread \<Rightarrow> int) \<Rightarrow> dumping" where
  "println_member base f = with_walker (\<lambda>p. kread (deref p) (\<lambda>t. emit (\<lambda>_. [Number (f t) base, Newline])))"

text \<open>The members that all three sketches print, each with its label.\<close>

definition thread_info :: dumping where
  "thread_info = block [
     print_str (nl @ ''[--] THREAD INFO ----------------------------------------'' @ nl),
     print_str (''uint8_t * sp= 0x'' @ tab), println_member 16 (\<lambda>t. pointer_as_long (sp t)),
     print_str ''uint8_t * stack= 0x'', println_member 16 (\<lambda>t. pointer_as_long (stack t)),
     print_str ''uint8_t   priority= '', println_member 10 (\<lambda>t. uint (priority t)),
     print_str ''uint8_t   block_pattern= 0x'', println_member 16 (\<lambda>t. uint (block_pattern t)),
     print_str ''uint8_t   status= 0x'', println_member 16 (\<lambda>t. uint (status t)),
     print_str ''uint16_t  stack_size= '', println_member 10 (\<lambda>t. sint (stack_size t)),
     print_str ''uint32_t  ticks_to_wait= '', println_member 10 (\<lambda>t. sint (ticks_to_wait t)),
     print_str ''uint8_t   carry_ticks_to_wait= '', println_member 10 (\<lambda>t. uint (carry_ticks_to_wait t)),
     print_str ''uint32_t  min_period_ticks = '', println_member 10 (\<lambda>t. sint (min_period_ticks t)),
     print_str ''uint32_t  max_deadline_ticks = '', println_member 10 (\<lambda>t. sint (max_deadline_ticks t)),
     print_str ''uint32_t  max_cost_ticks = '', println_member 10 (\<lambda>t. sint (max_cost_ticks t)),
     print_str ''uint32_t  current_cost_ticks = '', println_member 10 (\<lambda>t. sint (current_cost_ticks t)),
     print_str ''uint32_t  offset_ticks= '', println_member 10 (\<lambda>t. sint (offset_ticks t)),
     print_str ''uint8_t   mit_policy= 0x'', println_member 16 (\<lambda>t. uint (offset_ticks t)),
     print_str ''uint32_t  queue_length_max'', println_member 10 (\<lambda>t. sint (queue_length_max t)),
     print_str ''uint32_t  queue_pending'', println_member 10 (\<lambda>t. sint (queue_pending t)),
     print_str ''uint32_t  queue_last_input'', println_member 10 (\<lambda>t. sint (queue_last_input t)),
     print_str ''void      (*executor)()= 0x'', println_member 16 (\<lambda>t. pointer_as_long (executor t)),
     print_str ''void      *params_and_data= 0x'', println_member 16 (\<lambda>t. pointer_as_long (params_and_data t)),
     print_str ''void      (*error_handler)(int errno)= 0x'', println_member 16 (\<lambda>t. pointer_as_long (error_handler t)),
     print_str ''void      *parm = 0x'', println_member 16 (\<lambda>t. pointer_as_long (parm t))]"

definition ats_info :: "(thread \<Rightarrow> int) \<Rightarrow> dumping" where
  "ats_info M = block [
     print_str ''uint8_t           ats_active'', println_member 10 (\<lambda>t. uint (ats_active t)),
     print_str ''uint8_t           ats_pending'', println_member 10 (\<lambda>t. sint (ats_pending t)),
     print_str ''uint8_t           ats_max_pending'', println_member 10 (\<lambda>t. M t)]"

text \<open>\<open>th=th->runq_next;\<close>\<close>

definition next_walker :: dumping where
  "next_walker = with_walker (\<lambda>p. kread (deref p) (\<lambda>t. assign (\<lambda>v. v\<lparr>walker := runq_next t\<rparr>)))"

definition first_walker :: dumping where
  "first_walker = kread (\<lambda>k. Some (thread_internals_threadlist k)) (\<lambda>p. assign (\<lambda>v. v\<lparr>walker := p\<rparr>))"

definition dump_periodic_task1 :: "(thread \<Rightarrow> int) \<Rightarrow> dumping" where
  "dump_periodic_task1 M = block [
     first_walker,
     while_do (\<lambda>a. walker (vars a) \<noteq> NULL)
       (block [thread_info, ats_info M, with_walker print_stack, next_walker])]"

definition dump_error_handler_task1 :: "s16 \<Rightarrow> dumping" where
  "dump_error_handler_task1 erno = block [print_str (''[T1] Error------'' @ tab), hang]"

definition dump_periodic_task2 :: dumping where
  "dump_periodic_task2 = Done"

definition dump_error_handler_task2 :: "s16 \<Rightarrow> dumping" where
  "dump_error_handler_task2 erno = block [print_str (''[T2] Error------'' @ tab), hang]"

definition dump_loop :: "target \<Rightarrow> dumping" where
  "dump_loop T = block [
     print_str (''Simple example'' @ nl @ ''  showing clock info + deviation '' @ nl),
     delay 1000,
     new_periodic T (at T ''periodic_task1'') NULL NULL 200 30 0 10000000 10000000 5000000
       (at T ''error_handler_task1'') (\<lambda>_. Done),
     new_periodic T (at T ''periodic_task2'') NULL NULL 101 30 0 10000000 10000000 5000000
       (at T ''error_handler_task2'') (\<lambda>_. Done),
     threads_subsystem_start T]"

section \<open>periodic_1tasks_dump_all_info_remove\<close>

definition remover_setup :: dumping where
  "remover_setup = block [serial_begin 9600, pinMode 2 INPUT, pinMode 13 OUTPUT]"

definition remover_periodic_task1 :: "(thread \<Rightarrow> int) \<Rightarrow> dumping" where
  "remover_periodic_task1 M = block [
     first_walker,
     while_do (\<lambda>a. walker (vars a) \<noteq> NULL)
       (block [thread_info, ats_info M, with_walker print_stack, next_walker]),
     kcall_with (\<lambda>v k. map_option snd (thread_remove (dump_th2 v) k))]"

definition remover_error_handler_task1 :: "s16 \<Rightarrow> dumping" where
  "remover_error_handler_task1 erno = block [print_str (''[T1] Error------'' @ tab), hang]"

definition remover_periodic_task2 :: dumping where
  "remover_periodic_task2 = Done"

definition remover_error_handler_task2 :: "s16 \<Rightarrow> dumping" where
  "remover_error_handler_task2 erno = block [print_str (''[T2] Error------'' @ tab), hang]"

definition remover_loop :: "target \<Rightarrow> dumping" where
  "remover_loop T = block [
     print_str (''Simple example'' @ nl @ ''  showing clock info + deviation '' @ nl),
     delay 1000,
     new_periodic T (at T ''periodic_task2'') NULL NULL 101 30 1000000 10000000 10000000 5000000
       (at T ''error_handler_task2'') (\<lambda>r. assign (\<lambda>v. v\<lparr>dump_th2 := r\<rparr>)),
     new_periodic T (at T ''periodic_task1'') NULL NULL 200 20 0 10000000 10000000 5000000
       (at T ''error_handler_task1'') (\<lambda>_. Done),
     threads_subsystem_start T]"

section \<open>periodic_2tasks_dump_all_info_debug_example\<close>

definition debug_setup :: dumping where
  "debug_setup = block [serial_begin 9600, pinMode 2 INPUT, pinMode 13 OUTPUT]"

definition print_debug_symbols :: "target \<Rightarrow> dumping" where
  "print_debug_symbols T = block [
     print_str (nl @ ''[--] ApplicationDefined INFO ----------------------------------------'' @ nl),
     print_str (''print_debug_symbols= 0x'' @ tab), println_hex (\<lambda>_. pointer_as_long (at T ''print_debug_symbols'')),
     print_str (''periodic_task1= 0x'' @ tab), println_hex (\<lambda>_. pointer_as_long (at T ''periodic_task1'')),
     print_str (''error_handler_task1= 0x'' @ tab), println_hex (\<lambda>_. pointer_as_long (at T ''error_handler_task1'')),
     print_str (''error_handler_task1= 0x'' @ tab), println_hex (\<lambda>_. pointer_as_long (at T ''error_handler_task2'')),
     print_str (''periodic_pattern= 0x'' @ tab), println_hex (\<lambda>_. pointer_as_long (periodic_pattern_at (image_of T)))]"

definition debug_ats_info :: "(thread \<Rightarrow> int) \<Rightarrow> dumping" where
  "debug_ats_info M = block [
     print_str ''uint8_t           ats_active=DEC'', println_member 10 (\<lambda>t. uint (ats_active t)),
     print_str ''uint8_t           ats_pending=DEC'', println_member 10 (\<lambda>t. sint (ats_pending t)),
     print_str ''uint8_t           ats_max_pending=DEC'', println_member 10 (\<lambda>t. M t),
     print_str ''void      th->aux1 = 0x'', println_member 16 (\<lambda>t. uint (aux1 t)),
     print_str ''void      th->aux2 = 0x'', println_member 16 (\<lambda>t. uint (aux2 t))]"

definition debug_periodic_task1 :: "target \<Rightarrow> (thread \<Rightarrow> int) \<Rightarrow> dumping" where
  "debug_periodic_task1 T M = block [
     first_walker,
     cond (\<lambda>a. dump_counter (vars a) = 0)
       (block [
         kcall_with (\<lambda>v k. map_option snd (thread_ATS_signal (handlers T) (dump_th2 v) k)),
         assign (\<lambda>v. v\<lparr>dump_counter := dump_counter v + 1\<rparr>)]) Done,
     print_debug_symbols T,
     while_do (\<lambda>a. walker (vars a) \<noteq> NULL)
       (block [thread_info, debug_ats_info M, with_walker print_stack, next_walker])]"

definition debug_error_handler_task1 :: "s16 \<Rightarrow> dumping" where
  "debug_error_handler_task1 erno = block [print_str (''[T1] Error------'' @ tab), hang]"

definition debug_periodic_task2 :: "target \<Rightarrow> dumping" where
  "debug_periodic_task2 T = kcall (thread_ATS_enable (handlers T))"

definition debug_error_handler_task2 :: "s16 \<Rightarrow> dumping" where
  "debug_error_handler_task2 erno = hang"

definition debug_loop :: "target \<Rightarrow> dumping" where
  "debug_loop T = block [
     print_str (''Simple example'' @ nl @ ''  showing clock info + deviation '' @ nl),
     delay 1000,
     new_periodic T (at T ''periodic_task1'') NULL NULL 200 30 100000 10000000 10000000 50000000 NULL (\<lambda>_. Done),
     new_periodic T (at T ''periodic_task2'') NULL NULL 101 20 0 10000000 10000000 5000000
       (at T ''error_handler_task2'') (\<lambda>r. assign (\<lambda>v. v\<lparr>dump_th2 := r\<rparr>)),
     threads_subsystem_start T]"

section \<open>What a listing is\<close>

text \<open>The specification: what is printed of a thread, and of its stack byte by byte from the top.\<close>

definition stack_byte :: "(addr \<Rightarrow> u8) \<Rightarrow> thread \<Rightarrow> nat \<Rightarrow> event list" where
  "stack_byte m t i = (let p = stack t + stack_size t - of_nat i - 1 in
     (if i mod 20 = 0 then [Text '''', Newline, Number (pointer_as_long p) 16, Text ('':'' @ tab)] else [])
     @ [Number (uint (m p)) 16, Text tab])"

definition stack_report :: "(addr \<Rightarrow> u8) \<Rightarrow> thread \<Rightarrow> event list" where
  "stack_report m t = [Text ''STACK POINTER--------: '', Number (pointer_as_long (sp t)) 16]
     @ concat (map (stack_byte m t) [0..<unat (stack_size t)])"

definition labelled :: "string \<Rightarrow> nat \<Rightarrow> int \<Rightarrow> event list" where
  "labelled l base x = [Text l, Number x base, Newline]"

definition info_report :: "thread \<Rightarrow> event list" where
  "info_report t = [Text (nl @ ''[--] THREAD INFO ----------------------------------------'' @ nl)]
     @ labelled (''uint8_t * sp= 0x'' @ tab) 16 (pointer_as_long (sp t))
     @ labelled ''uint8_t * stack= 0x'' 16 (pointer_as_long (stack t))
     @ labelled ''uint8_t   priority= '' 10 (uint (priority t))
     @ labelled ''uint8_t   block_pattern= 0x'' 16 (uint (block_pattern t))
     @ labelled ''uint8_t   status= 0x'' 16 (uint (status t))
     @ labelled ''uint16_t  stack_size= '' 10 (sint (stack_size t))
     @ labelled ''uint32_t  ticks_to_wait= '' 10 (sint (ticks_to_wait t))
     @ labelled ''uint8_t   carry_ticks_to_wait= '' 10 (uint (carry_ticks_to_wait t))
     @ labelled ''uint32_t  min_period_ticks = '' 10 (sint (min_period_ticks t))
     @ labelled ''uint32_t  max_deadline_ticks = '' 10 (sint (max_deadline_ticks t))
     @ labelled ''uint32_t  max_cost_ticks = '' 10 (sint (max_cost_ticks t))
     @ labelled ''uint32_t  current_cost_ticks = '' 10 (sint (current_cost_ticks t))
     @ labelled ''uint32_t  offset_ticks= '' 10 (sint (offset_ticks t))
     @ labelled ''uint8_t   mit_policy= 0x'' 16 (uint (offset_ticks t))
     @ labelled ''uint32_t  queue_length_max'' 10 (sint (queue_length_max t))
     @ labelled ''uint32_t  queue_pending'' 10 (sint (queue_pending t))
     @ labelled ''uint32_t  queue_last_input'' 10 (sint (queue_last_input t))
     @ labelled ''void      (*executor)()= 0x'' 16 (pointer_as_long (executor t))
     @ labelled ''void      *params_and_data= 0x'' 16 (pointer_as_long (params_and_data t))
     @ labelled ''void      (*error_handler)(int errno)= 0x'' 16 (pointer_as_long (error_handler t))
     @ labelled ''void      *parm = 0x'' 16 (pointer_as_long (parm t))"

definition ats_report :: "(thread \<Rightarrow> int) \<Rightarrow> thread \<Rightarrow> event list" where
  "ats_report M t = labelled ''uint8_t           ats_active'' 10 (uint (ats_active t))
     @ labelled ''uint8_t           ats_pending'' 10 (sint (ats_pending t))
     @ labelled ''uint8_t           ats_max_pending'' 10 (M t)"

definition debug_ats_report :: "(thread \<Rightarrow> int) \<Rightarrow> thread \<Rightarrow> event list" where
  "debug_ats_report M t = labelled ''uint8_t           ats_active=DEC'' 10 (uint (ats_active t))
     @ labelled ''uint8_t           ats_pending=DEC'' 10 (sint (ats_pending t))
     @ labelled ''uint8_t           ats_max_pending=DEC'' 10 (M t)
     @ labelled ''void      th->aux1 = 0x'' 16 (uint (aux1 t))
     @ labelled ''void      th->aux2 = 0x'' 16 (uint (aux2 t))"

definition listing :: "(thread \<Rightarrow> event list) \<Rightarrow> addr list \<Rightarrow> kernel \<Rightarrow> event list" where
  "listing ats ts k = concat (map (\<lambda>p. let t = the (threads k p)
     in info_report t @ ats t @ stack_report (mem k) t) ts)"

text \<open>The stacks are shorter than the largest \<open>int\<close>.\<close>

definition short_stacks :: "addr list \<Rightarrow> kernel \<Rightarrow> bool" where
  "short_stacks ts k \<longleftrightarrow> (\<forall>p\<in>set ts. unat (stack_size (the (threads k p))) < 32768)"

section \<open>A thread is listed\<close>

lemma kread_eq:
  assumes "f (kern a) = Some x"
  shows "returns (seq (kread f g) q) a a' \<longleftrightarrow> returns (seq (g x) q) a a'"
  using assms by (simp add: kread_def run_kcall_then)

lemma with_walker_eq: "returns (seq (with_walker f) q) a a' \<longleftrightarrow> returns (seq (f (walker (vars a))) q) a a'"
  by (simp add: with_walker_def run_kcall_with_then)

lemmas with_walker_last = with_walker_eq [of _ Done, unfolded seq_Done]

lemma run_member:
  assumes "deref (walker (vars a)) (kern a) = Some t"
  shows "returns (seq (println_member base f) q) a a'
     \<longleftrightarrow> returns q (a\<lparr>trace := trace a @ [Number (f t) base, Newline]\<rparr>) a'"
  by (simp add: println_member_def with_walker_eq kread_eq [where f = "deref (walker (vars a))", OF assms] run_emit)

lemmas run_member_last = run_member [of _ _ _ _ Done, unfolded seq_Done]

text \<open>What the simplifier needs to run the statements of a listing.\<close>

lemmas listing_run = block_foldr print_str_def run_emit run_member run_member_last labelled_def

lemma thread_info_run:
  "deref (walker (vars a)) (kern a) = Some t \<Longrightarrow> returns thread_info a (a\<lparr>trace := trace a @ info_report t\<rparr>)"
  by (simp add: thread_info_def info_report_def listing_run)

lemma ats_info_run:
  "deref (walker (vars a)) (kern a) = Some t \<Longrightarrow> returns (ats_info M) a (a\<lparr>trace := trace a @ ats_report M t\<rparr>)"
  by (simp add: ats_info_def ats_report_def listing_run)

lemma debug_ats_info_run:
  "deref (walker (vars a)) (kern a) = Some t
     \<Longrightarrow> returns (debug_ats_info M) a (a\<lparr>trace := trace a @ debug_ats_report M t\<rparr>)"
  by (simp add: debug_ats_info_def debug_ats_report_def listing_run)

lemma next_walker_run:
  "deref (walker (vars a)) (kern a) = Some t
     \<Longrightarrow> returns next_walker a (a\<lparr>vars := (vars a)\<lparr>walker := runq_next t\<rparr>\<rparr>)"
  using with_walker_eq [of _ Done a] kread_eq [of "deref (walker (vars a))" a t _ Done]
  by (simp add: next_walker_def run_assign_last)

lemma first_walker_run: "returns first_walker a (a\<lparr>vars := (vars a)\<lparr>walker := thread_list (kern a)\<rparr>\<rparr>)"
  using kread_eq [of "\<lambda>k. Some (thread_internals_threadlist k)" a _ _ Done]
  by (simp add: first_walker_def thread_internals_threadlist_def run_assign_last)

section \<open>A stack is listed\<close>

lemma small_index:
  fixes w :: s16
  assumes "i < 32768" and "w = of_nat i"
  shows "sint w = int i" and "unat w = i" and "w = 0x7FFF \<longleftrightarrow> i = 32767"
proof -
  show u: "unat w = i" using assms by (simp add: unat_of_nat)
  with assms(1) show "sint w = int i" by (subst sint_eq_unat) simp_all
  show "w = 0x7FFF \<longleftrightarrow> i = 32767" using u by (simp add: word_unat_eq_iff)
qed

lemma print_stack_byte_iff:
  assumes "deref th (kern a) = Some t" and "byte_i (vars a) = of_nat i" and "i < 32768"
  shows "returns (print_stack_byte th) a a' \<longleftrightarrow> i \<noteq> 32767 \<and> a' = a\<lparr>trace := trace a @ stack_byte (mem (kern a)) t i,
     vars := (vars a)\<lparr>byte_i := of_nat (Suc i)\<rparr>\<rparr>"
proof -
  note w = small_index [OF assms(3,2)]
  have m: "int i mod 20 = 0 \<longleftrightarrow> i mod 20 = 0" by presburger
  have k: "returns (seq (kread (deref th) g) q) b b' \<longleftrightarrow> returns (seq (g t) q) b b'" if "kern b = kern a" for g q b b'
    by (rule kread_eq) (simp add: that assms(1))
  have c: "returns (call f) b b' \<longleftrightarrow> f b = Some b'" for f :: "(kernel, dump_vars) app \<Rightarrow> _" and b b'
    using run_call [of f Done b b'] by (auto split: option.splits)
  have e: "stack_byte (mem (kern a)) t i = (let p = stack t + stack_size t - byte_i (vars a) - 1 in
     (if i mod 20 = 0 then [Text '''', Newline, Number (pointer_as_long p) 16, Text ('':'' @ tab)] else [])
     @ [Number (uint (mem (kern a) p)) 16, Text tab])" and s: "of_nat (Suc i) = byte_i (vars a) + 1"
    by (simp_all add: stack_byte_def assms(2))
  show ?thesis
    unfolding e s
    by (cases "i mod 20 = 0"; cases "i = 32767")
      (simp_all add: print_stack_byte_def block_foldr run_cond print_stack_row_def seq_assoc print_str_def println_str_def print_hex_def
        run_emit k c w(1,3) m Let_def eq_commute [of a'] del: mod_0_imp_dvd)
qed

abbreviation stack_guard :: "addr \<Rightarrow> (kernel, dump_vars) app \<Rightarrow> bool" where
  "stack_guard th a \<equiv> (case deref th (kern a) of None \<Rightarrow> True | Some t \<Rightarrow> byte_i (vars a) < stack_size t)"

text \<open>The loop over the bytes ends when the counter can hold their number, and only then.\<close>

lemma stack_loop:
  assumes "deref th (kern a) = Some t" and "byte_i (vars a) = of_nat i" and "i \<le> n" and "i < 32768"
    and "n = unat (stack_size t)"
  shows "returns (while_do (stack_guard th) (print_stack_byte th)) a b \<longleftrightarrow> n < 32768
    \<and> b = a\<lparr>trace := trace a @ concat (map (stack_byte (mem (kern a)) t) [i..<n]),
            vars := (vars a)\<lparr>byte_i := stack_size t\<rparr>\<rparr>"
  using assms
proof (induction "n - i" arbitrary: i a)
  case 0
  then have "\<not> stack_guard th a" and "byte_i (vars a) = stack_size t"
    by (simp_all add: word_less_nat_alt unat_of_nat)
  moreover from this(2) have e: "a\<lparr>vars := (vars a)\<lparr>byte_i := stack_size t\<rparr>\<rparr> = a"
    by (cases a; cases "vars a") simp
  ultimately show ?case using 0 by (subst returns_while_iff) (simp add: e)
next
  case (Suc d)
  then have i: "i < n" and d: "d = n - Suc i" by simp_all
  have "unat (byte_i (vars a)) = i" by (rule small_index [OF Suc.prems(4,2)])
  then have g: "stack_guard th a" using Suc.prems(1,5) i by (simp add: word_less_nat_alt)
  note body = print_stack_byte_iff [OF Suc.prems(1,2,4)]
  let ?c = "a\<lparr>trace := trace a @ stack_byte (mem (kern a)) t i, vars := (vars a)\<lparr>byte_i := of_nat (Suc i)\<rparr>\<rparr>"
  have step: "returns (while_do (stack_guard th) (print_stack_byte th)) a b
      \<longleftrightarrow> i \<noteq> 32767 \<and> returns (while_do (stack_guard th) (print_stack_byte th)) ?c b"
    using g by (subst returns_while_iff) (auto simp: body)
  show ?case
  proof (cases "i = 32767")
    case True
    with step i show ?thesis by simp
  next
    case False
    with Suc.prems i d have "returns (while_do (stack_guard th) (print_stack_byte th)) ?c b \<longleftrightarrow> n < 32768
      \<and> b = ?c\<lparr>trace := trace ?c @ concat (map (stack_byte (mem (kern ?c)) t) [Suc i..<n]),
              vars := (vars ?c)\<lparr>byte_i := stack_size t\<rparr>\<rparr>"
      by (intro Suc.hyps(1)) simp_all
    with False step i show ?thesis by (simp add: upt_conv_Cons)
  qed
qed

lemma print_stack_iff:
  assumes "deref th (kern a) = Some t"
  shows "returns (print_stack th) a b \<longleftrightarrow> unat (stack_size t) < 32768
    \<and> b = a\<lparr>trace := trace a @ stack_report (mem (kern a)) t, vars := (vars a)\<lparr>byte_i := stack_size t\<rparr>\<rparr>"
proof -
  have k: "returns (seq (kread (deref th) g) q) c b \<longleftrightarrow> returns (seq (g t) q) c b" if "kern c = kern a" for g q c
    by (rule kread_eq) (simp add: that assms)
  show ?thesis
    by (simp add: print_stack_def block_foldr print_str_def print_hex_def run_emit k run_assign
        stack_loop [of th _ t 0 "unat (stack_size t)"] assms stack_report_def)
qed

section \<open>The run queue is listed\<close>

text \<open>The contract of the body of a job's loop: what it prints of the thread it comes to.\<close>

locale listing_body =
  fixes body :: dumping and ats :: "thread \<Rightarrow> event list"
  assumes body_iff: "deref (walker (vars a)) (kern a) = Some t \<Longrightarrow> returns body a b \<longleftrightarrow> unat (stack_size t) < 32768
    \<and> b = a\<lparr>trace := trace a @ info_report t @ ats t @ stack_report (mem (kern a)) t,
            vars := (vars a)\<lparr>byte_i := stack_size t, walker := runq_next t\<rparr>\<rparr>"
begin

lemma walk_iff:
  assumes "runq (threads (kern a)) (walker (vars a)) ts"
  shows "returns (while_do (\<lambda>a. walker (vars a) \<noteq> NULL) body) a b \<longleftrightarrow> short_stacks ts (kern a)
    \<and> b = a\<lparr>trace := trace a @ listing ats ts (kern a), vars := (vars a)\<lparr>walker := NULL,
            byte_i := fold (\<lambda>p _. stack_size (the (threads (kern a) p))) ts (byte_i (vars a))\<rparr>\<rparr>"
  using assms
proof (induction ts arbitrary: a)
  case Nil
  then have "walker (vars a) = NULL" by simp
  moreover from this have e: "a\<lparr>vars := (vars a)\<lparr>walker := NULL\<rparr>\<rparr> = a" by (cases a; cases "vars a") simp
  ultimately show ?case by (subst returns_while_iff) (simp add: short_stacks_def listing_def e)
next
  case (Cons p ts)
  then obtain t where t: "threads (kern a) p = Some t" and q: "runq (threads (kern a)) (runq_next t) ts"
    and p: "walker (vars a) = p" "p \<noteq> NULL"
    by (cases "threads (kern a) p") auto
  then have "deref (walker (vars a)) (kern a) = Some t" by (simp add: deref_def)
  note body = body_iff [OF this]
  let ?c = "a\<lparr>trace := trace a @ info_report t @ ats t @ stack_report (mem (kern a)) t,
    vars := (vars a)\<lparr>byte_i := stack_size t, walker := runq_next t\<rparr>\<rparr>"
  have "returns (while_do (\<lambda>a. walker (vars a) \<noteq> NULL) body) a b
      \<longleftrightarrow> unat (stack_size t) < 32768 \<and> returns (while_do (\<lambda>a. walker (vars a) \<noteq> NULL) body) ?c b"
    using p by (subst returns_while_iff) (auto simp: body)
  moreover have "runq (threads (kern ?c)) (walker (vars ?c)) ts" using q by simp
  ultimately show ?case
    using Cons.IH [of ?c] t by (simp add: short_stacks_def listing_def Let_def conj_assoc)
qed

text \<open>With the run queue in order, the walk from its head ends, unless a stack is too long to be counted.\<close>

lemma walk_lists:
  assumes "runq_wf (kern a) ts"
  shows "returns (seq first_walker (while_do (\<lambda>a. walker (vars a) \<noteq> NULL) body)) a b
    \<longleftrightarrow> short_stacks ts (kern a) \<and> b = a\<lparr>trace := trace a @ listing ats ts (kern a),
          vars := (vars a)\<lparr>walker := NULL,
            byte_i := fold (\<lambda>p _. stack_size (the (threads (kern a) p))) ts (byte_i (vars a))\<rparr>\<rparr>"
proof -
  have "runq (threads (kern a)) (thread_list (kern a)) ts" using assms by (simp add: runq_wf_def)
  then show ?thesis
    using walk_iff [of "a\<lparr>vars := (vars a)\<lparr>walker := thread_list (kern a)\<rparr>\<rparr>" ts b]
    by (simp add: returns_seq_det [OF first_walker_run])
qed

end

text \<open>Any two printings of the asynchronous signals give such a body.\<close>

lemma listing_body_iff:
  assumes "deref (walker (vars a)) (kern a) = Some t"
    and "\<And>a :: (kernel, dump_vars) app. deref (walker (vars a)) (kern a) = Some t
      \<Longrightarrow> returns p a (a\<lparr>trace := trace a @ ats\<rparr>)"
  shows "returns (block [thread_info, p, with_walker print_stack, next_walker]) a b \<longleftrightarrow> unat (stack_size t) < 32768
    \<and> b = a\<lparr>trace := trace a @ info_report t @ ats @ stack_report (mem (kern a)) t,
            vars := (vars a)\<lparr>byte_i := stack_size t, walker := runq_next t\<rparr>\<rparr>"
proof -
  let ?c = "a\<lparr>trace := (trace a @ info_report t) @ ats\<rparr>"
  let ?d = "?c\<lparr>trace := trace ?c @ stack_report (mem (kern a)) t, vars := (vars a)\<lparr>byte_i := stack_size t\<rparr>\<rparr>"
  have "returns (block [thread_info, p, with_walker print_stack, next_walker]) a b
      \<longleftrightarrow> returns (seq (with_walker print_stack) next_walker) ?c b"
    using returns_seq_det [OF thread_info_run [OF assms(1)]]
      returns_seq_det [OF assms(2) [of "a\<lparr>trace := trace a @ info_report t\<rparr>"]] assms(1)
    by (simp add: block_foldr)
  also have "\<dots> \<longleftrightarrow> (\<exists>d. returns (print_stack (walker (vars a))) ?c d \<and> returns next_walker d b)"
    by (simp add: with_walker_last returns_seq_ex)
  also have "\<dots> \<longleftrightarrow> unat (stack_size t) < 32768 \<and> returns next_walker ?d b"
    using print_stack_iff [of "walker (vars a)" ?c t] assms(1) by auto
  also have "returns next_walker ?d b \<longleftrightarrow> b = ?d\<lparr>vars := (vars ?d)\<lparr>walker := runq_next t\<rparr>\<rparr>"
    using returns_unique next_walker_run [of ?d t] assms(1) by auto
  finally show ?thesis by simp
qed

interpretation dump: listing_body "block [thread_info, ats_info M, with_walker print_stack, next_walker]" "ats_report M"
  for M by unfold_locales (rule listing_body_iff, assumption, rule ats_info_run)

interpretation debug: listing_body "block [thread_info, debug_ats_info M, with_walker print_stack, next_walker]"
  "debug_ats_report M"
  for M by unfold_locales (rule listing_body_iff, assumption, rule debug_ats_info_run)

section \<open>Properties\<close>

lemma block_two: "block [p, q] = seq p q"
  by (simp add: block_def)

lemma dump_periodic_task1_iff:
  assumes "runq_wf (kern a) ts"
  shows "returns (dump_periodic_task1 M) a b \<longleftrightarrow> short_stacks ts (kern a)
    \<and> b = a\<lparr>trace := trace a @ listing (ats_report M) ts (kern a), vars := (vars a)\<lparr>walker := NULL,
            byte_i := fold (\<lambda>p _. stack_size (the (threads (kern a) p))) ts (byte_i (vars a))\<rparr>\<rparr>"
  using dump.walk_lists [OF assms, of M b] by (simp add: dump_periodic_task1_def block_two)

text \<open>C21: the job that dumps all information ends exactly when every stack is shorter than 32768 bytes, the
  largest number its counter can hold; it then has printed the members and the stack of each thread of the
  run queue, once and in the order of the queue, and has left the kernel as it was.\<close>

theorem dump_lists_threads:
  assumes "runq_wf (kern a) ts"
  shows "if short_stacks ts (kern a)
    then \<exists>b. returns (dump_periodic_task1 M) a b \<and> kern b = kern a \<and> trace b = trace a @ listing (ats_report M) ts (kern a)
    else \<forall>b. \<not> returns (dump_periodic_task1 M) a b"
  by (simp add: dump_periodic_task1_iff [OF assms])

text \<open>The demo kernel with a stack of 21 bytes.\<close>

definition demo_stacked :: kernel where
  "demo_stacked = demo\<lparr>threads := demo_threads(0x200 \<mapsto> blank_thread\<lparr>runq_next := 0x100, priority := 10,
     sp := 0x1000, stack := 0xF00, stack_size := 21\<rparr>), blocks := {0x100, 0x200, 0x300, 0x400, 0xF00}\<rparr>"

definition dump_demo :: "(kernel, dump_vars) app" where
  "dump_demo = \<lparr>kern = demo_stacked, trace = [], timer = \<lparr>TCCR2A = 0, TCCR2B = 0, TIMSK2 = 0, interrupts_on = True\<rparr>,
     rx = [], vars = \<lparr>walker = 0, byte_i = 0, dump_th2 = 0x200, dump_counter = 0\<rparr>\<rparr>"

lemma demo_stacked_wf: "runq_wf demo_stacked [0x300, 0x200, 0x100]"
  by (simp add: runq_wf_def demo_stacked_def demo_defs)

lemma demo_stacked_short: "short_stacks [0x300, 0x200, 0x100] demo_stacked"
  by (simp add: short_stacks_def demo_stacked_def demo_defs)

theorem dump_lists_threads_witness:
  "\<exists>b. returns (dump_periodic_task1 (\<lambda>_. 0)) dump_demo b \<and> kern b = demo_stacked \<and> length (trace b) = 275"
proof -
  have k: "kern dump_demo = demo_stacked" "trace dump_demo = []" by (simp_all add: dump_demo_def)
  have n: "length (listing (ats_report (\<lambda>_. 0)) [0x300, 0x200, 0x100] demo_stacked) = 275"
    by (simp add: listing_def info_report_def ats_report_def stack_report_def labelled_def stack_byte_def Let_def
        upt_rec demo_stacked_def demo_defs)
  have "\<exists>b. returns (dump_periodic_task1 (\<lambda>_. 0)) dump_demo b \<and> kern b = demo_stacked
      \<and> trace b = [] @ listing (ats_report (\<lambda>_. 0)) [0x300, 0x200, 0x100] demo_stacked"
    using dump_lists_threads [of dump_demo "[0x300, 0x200, 0x100]" "\<lambda>_. 0"] demo_stacked_wf demo_stacked_short
    by (simp add: k)
  with n show ?thesis by auto
qed

lemma removed_stacks:
  assumes "short_stacks (xs @ th # ys) s" and "runq_wf s (xs @ th # ys)" and "stack t \<notin> set (xs @ th # ys)"
  shows "short_stacks (xs @ ys) (removed xs th t s)"
proof -
  have "distinct (xs @ th # ys)" using assms(2) by (simp add: runq_wf_def)
  moreover have "threads (removed xs th t s) p = threads (unlinked xs (runq_next t) s) p"
    if "p \<in> set (xs @ ys)" for p
    using that assms(3) calculation by (auto simp: removed_def Let_def)
  moreover have "stack_size (the (threads (unlinked xs n s) p)) = stack_size (the (threads s p))" for n p
    by (simp add: unlinked_def)
  ultimately show ?thesis using assms(1) by (auto simp: short_stacks_def)
qed

text \<open>C23: the job that dumps and removes does so once: its first run lists all threads and then frees \<open>th2\<close>,
  structure and stack, which leaves the run queue without it; its next run, though \<open>th2\<close> dangles, lists the
  threads that are left and changes nothing.\<close>

theorem remover_removes_once:
  assumes "runq_wf (kern a) (xs @ th # ys)" and "ys \<noteq> []" and "threads (kern a) th = Some t"
    and "stack t \<in> blocks (kern a)" and "th \<in> blocks (kern a)" and "stack t \<notin> insert NULL (set (xs @ th # ys))"
    and "current_thread (kern a) \<noteq> th" and "dump_th2 (vars a) = th" and "short_stacks (xs @ th # ys) (kern a)"
  shows "\<exists>b c. returns (remover_periodic_task1 M) a b \<and> returns (remover_periodic_task1 M) b c
    \<and> trace b = trace a @ listing (ats_report M) (xs @ th # ys) (kern a) \<and> runq_wf (kern b) (xs @ ys)
    \<and> threads (kern b) th = None \<and> blocks (kern b) = blocks (kern a) - {th, stack t}
    \<and> trace c = trace b @ listing (ats_report M) (xs @ ys) (kern b) \<and> kern c = kern b"
proof -
  let ?job = "remover_periodic_task1 M"
  let ?r = "removed xs th t (kern a)"
  have job: "returns ?job s b \<longleftrightarrow> (\<exists>c. returns (dump_periodic_task1 M) s c
      \<and> returns (kcall_with (\<lambda>v k. map_option snd (thread_remove (dump_th2 v) k))) c b)" for s b
    by (auto simp: remover_periodic_task1_def dump_periodic_task1_def block_def returns_seq_ex)
  obtain a1 where a1: "returns (dump_periodic_task1 M) a a1" "kern a1 = kern a" "dump_th2 (vars a1) = th"
    "trace a1 = trace a @ listing (ats_report M) (xs @ th # ys) (kern a)"
    using dump_periodic_task1_iff [OF assms(1), of M] assms(8,9) by simp
  have "thread_remove th (kern a) = Some (0, ?r)"
    by (rule thread_remove_exact [OF assms(1-5)]) (use assms(6) in auto)
  then have b: "returns ?job a (a1\<lparr>kern := ?r\<rparr>)" using a1 by (auto simp: job run_kcall_with_last)
  have wf: "runq_wf ?r (xs @ ys)" by (rule removed_wf [OF assms(1-3) _ assms(7)]) (use assms(6) in auto)
  have "short_stacks (xs @ ys) ?r" by (rule removed_stacks [OF assms(9,1)]) (use assms(6) in auto)
  then obtain b1 where b1: "returns (dump_periodic_task1 M) (a1\<lparr>kern := ?r\<rparr>) b1" "kern b1 = ?r"
    "dump_th2 (vars b1) = th" "trace b1 = trace a1 @ listing (ats_report M) (xs @ ys) ?r"
    using dump_periodic_task1_iff [of "a1\<lparr>kern := ?r\<rparr>" "xs @ ys" M] wf a1(3) by simp
  have "th \<notin> set (xs @ ys)" using assms(1) by (auto simp: runq_wf_def)
  then have "thread_remove th ?r = Some (- 1, ?r)" using thread_remove_absent_eq [OF wf] by blast
  then have "returns ?job (a1\<lparr>kern := ?r\<rparr>) (b1\<lparr>kern := ?r\<rparr>)" using b1 by (auto simp: job run_kcall_with_last)
  with b show ?thesis
    by (intro exI [of _ "a1\<lparr>kern := ?r\<rparr>"] exI [of _ "b1\<lparr>kern := ?r\<rparr>"])
      (use wf a1(4) b1(4) in \<open>auto simp: removed_def Let_def\<close>)
qed

theorem remover_removes_once_witness:
  "\<exists>b c. returns (remover_periodic_task1 (\<lambda>_. 0)) dump_demo b \<and> returns (remover_periodic_task1 (\<lambda>_. 0)) b c
    \<and> runq_wf (kern b) [0x300, 0x100] \<and> 0xF00 \<notin> blocks (kern b) \<and> kern c = kern b"
proof -
  let ?t = "blank_thread\<lparr>runq_next := 0x100, priority := 10, sp := 0x1000, stack := 0xF00, stack_size := 21\<rparr>"
  have t: "threads (kern dump_demo) 0x200 = Some ?t" by (simp add: dump_demo_def demo_stacked_def)
  have w: "runq_wf (kern dump_demo) ([0x300] @ 0x200 # [0x100])" using demo_stacked_wf by (simp add: dump_demo_def)
  have s: "short_stacks ([0x300] @ 0x200 # [0x100]) (kern dump_demo)"
    using demo_stacked_short by (simp add: dump_demo_def)
  have "\<exists>b c. returns (remover_periodic_task1 (\<lambda>_. 0)) dump_demo b \<and> returns (remover_periodic_task1 (\<lambda>_. 0)) b c
    \<and> trace b = trace dump_demo @ listing (ats_report (\<lambda>_. 0)) ([0x300] @ 0x200 # [0x100]) (kern dump_demo)
    \<and> runq_wf (kern b) ([0x300] @ [0x100]) \<and> threads (kern b) 0x200 = None
    \<and> blocks (kern b) = blocks (kern dump_demo) - {0x200, stack ?t}
    \<and> trace c = trace b @ listing (ats_report (\<lambda>_. 0)) ([0x300] @ [0x100]) (kern b) \<and> kern c = kern b"
    by (rule remover_removes_once [OF w _ t]) (use s in \<open>simp_all add: dump_demo_def demo_stacked_def demo_def\<close>)
  then show ?thesis by auto
qed

text \<open>The symbols of the third sketch, as printed.\<close>

definition symbols_report :: "target \<Rightarrow> event list" where
  "symbols_report T = [Text (nl @ ''[--] ApplicationDefined INFO ----------------------------------------'' @ nl)]
     @ labelled (''print_debug_symbols= 0x'' @ tab) 16 (pointer_as_long (at T ''print_debug_symbols''))
     @ labelled (''periodic_task1= 0x'' @ tab) 16 (pointer_as_long (at T ''periodic_task1''))
     @ labelled (''error_handler_task1= 0x'' @ tab) 16 (pointer_as_long (at T ''error_handler_task1''))
     @ labelled (''error_handler_task1= 0x'' @ tab) 16 (pointer_as_long (at T ''error_handler_task2''))
     @ labelled (''periodic_pattern= 0x'' @ tab) 16 (pointer_as_long (periodic_pattern_at (image_of T)))"

lemma print_debug_symbols_run: "returns (print_debug_symbols T) a (a\<lparr>trace := trace a @ symbols_report T\<rparr>)"
  by (simp add: print_debug_symbols_def symbols_report_def listing_run println_hex_def run_emit_last)

text \<open>Only the first run of the third sketch's job signals the other task. The walk starts where the run
  queue started before the signal.\<close>

theorem debug_signals_once:
  assumes "runq_wf (kern a) ts" and "dump_counter (vars a) = 0"
    and "thread_ATS_signal (handlers T) (dump_th2 (vars a)) (kern a) = Some (r, k)"
    and "runq_wf k ts" and "short_stacks ts k"
  shows "\<exists>b c. returns (debug_periodic_task1 T M) a b \<and> returns (debug_periodic_task1 T M) b c
    \<and> kern b = k \<and> trace b = trace a @ symbols_report T @ listing (debug_ats_report M) ts k
    \<and> kern c = k \<and> trace c = trace b @ symbols_report T @ listing (debug_ats_report M) ts k"
proof -
  let ?W = "while_do (\<lambda>a. walker (vars a) \<noteq> NULL)
    (block [thread_info, debug_ats_info M, with_walker print_stack, next_walker])"
  have walk: "\<exists>b. returns (block [print_debug_symbols T, ?W]) s b \<and> kern b = k
      \<and> trace b = trace s @ symbols_report T @ listing (debug_ats_report M) ts k
      \<and> dump_counter (vars b) = dump_counter (vars s)"
    if "kern s = k" and "walker (vars s) = thread_list k" for s
  proof -
    have "runq (threads k) (thread_list k) ts" using assms(4) by (simp add: runq_wf_def)
    then show ?thesis
      using that assms(5) by (simp add: block_two returns_seq_det [OF print_debug_symbols_run] debug.walk_iff)
  qed
  have l: "thread_list k = thread_list (kern a)"
    using assms(1,4) unfolding runq_wf_def by (cases ts) auto
  have job: "returns (debug_periodic_task1 T M) s b \<longleftrightarrow>
      returns (seq (cond (\<lambda>a. dump_counter (vars a) = 0)
       (block [
         kcall_with (\<lambda>v k. map_option snd (thread_ATS_signal (handlers T) (dump_th2 v) k)),
         assign (\<lambda>v. v\<lparr>dump_counter := dump_counter v + 1\<rparr>)]) Done) (block [print_debug_symbols T, ?W]))
       (s\<lparr>vars := (vars s)\<lparr>walker := thread_list (kern s)\<rparr>\<rparr>) b" for s b
    by (simp add: debug_periodic_task1_def block_def returns_seq_det [OF first_walker_run])
  have "\<exists>b. returns (debug_periodic_task1 T M) a b \<and> kern b = k
      \<and> trace b = trace a @ symbols_report T @ listing (debug_ats_report M) ts k \<and> dump_counter (vars b) = 1"
    using walk [of "a\<lparr>kern := k, vars := (vars a)\<lparr>walker := thread_list (kern a), dump_counter := 1\<rparr>\<rparr>"] assms(2,3) l
    by (simp add: job run_cond block_foldr run_kcall_with run_assign seq_assoc)
  moreover have "\<exists>c. returns (debug_periodic_task1 T M) b c \<and> kern c = k
      \<and> trace c = trace b @ symbols_report T @ listing (debug_ats_report M) ts k"
    if "kern b = k" "dump_counter (vars b) = 1" for b
    using walk [of "b\<lparr>vars := (vars b)\<lparr>walker := thread_list k\<rparr>\<rparr>"] that by (auto simp: job run_cond)
  ultimately show ?thesis by blast
qed

text \<open>The sketch that removes comes, with memory for five blocks, to its loop of yields with the run queue and
  the variables the removal asks for: whenever the first task gets the processor, the theorem above applies.\<close>

theorem remover_starts:
  assumes "malloc (kern a) = (Some c, s1)" and "malloc s1 = (Some x, s2)" and "malloc s2 = (Some m, s3)"
    and "malloc s3 = (Some d, s4)" and "malloc s4 = (Some y, s5)" and "thread_list (kern a) = NULL"
  shows "\<exists>b t. reaches (remover_loop T) a b (idle T) \<and> dump_th2 (vars b) = ptr c
    \<and> runq_wf (kern b) ([ptr d] @ ptr c # [ptr m]) \<and> threads (kern b) (ptr c) = Some t
    \<and> {ptr c, stack t} \<subseteq> blocks (kern b) \<and> stack t \<notin> insert NULL (set ([ptr d] @ ptr c # [ptr m]))
    \<and> short_stacks ([ptr d] @ ptr c # [ptr m]) (kern b)"
proof -
  have k: "returns (assign (\<lambda>v. v\<lparr>dump_th2 := ptr c\<rparr>)) b (b\<lparr>vars := (vars b)\<lparr>dump_th2 := ptr c\<rparr>\<rparr>)"
    for b :: "(kernel, dump_vars) app" by (rule returns_assign)
  have k': "returns Done b (b\<lparr>vars := id (vars b)\<rparr>)" for b :: "(kernel, dump_vars) app" by simp
  obtain b t u v where "reaches (remover_loop T) a b (idle T)" "vars b = id ((vars a)\<lparr>dump_th2 := ptr c\<rparr>)"
    "runq_wf (kern b) [ptr d, ptr c, ptr m]" "blocks (kern b) = blocks s5"
    "threads (kern b) (ptr c) = Some t" "stack t = ptr x" "stack_size t = 101"
    "threads (kern b) (ptr d) = Some u" "stack_size u = 200" "threads (kern b) (ptr m) = Some v" "stack_size v = 300"
    using pair_starts [OF assms k k' remover_loop_def] by blast
  moreover have "{ptr c, ptr x} \<subseteq> blocks s5" and "ptr x \<notin> {NULL, ptr d, ptr c, ptr m}"
    using assms(1-5) by (auto simp: malloc_Some_iff)
  ultimately show ?thesis by (intro exI [of _ b] exI [of _ t]) (simp add: short_stacks_def)
qed

end
