(* ===== verification/Ex_Start.thy ===== *)
theory Ex_Start
  imports Ex_Basic Ex_Signal Ex_Queue Ex_Semaphore Ex_ATS Ex_Dump RT_Alone
begin

text \<open>
  How the example sketches start. A small logic of what the statements of \<open>loop\<close> need of memory and leave of
  the kernel; with it every sketch that uses the library is followed from \<open>loop\<close> to the main program's endless
  loop of yields, with all its threads in the run queue.
\<close>

section \<open>Kernels that are being set up\<close>

text \<open>\<open>i\<close> threads have been created (the first brings the main thread's structure with it), the main program
  runs, and \<open>malloc\<close> will grant the next \<open>n\<close> requests.\<close>

definition set_up :: "nat \<Rightarrow> nat \<Rightarrow> kernel \<Rightarrow> bool" where
  "set_up i n k \<longleftrightarrow> stocked n k \<and> (if i = 0 then thread_list k = NULL
     else \<exists>ts. length ts = Suc i \<and> runq_wf k ts \<and> set ts \<subseteq> blocks k \<and> current_thread k = thread_main_inf k)"

lemma set_up_SucI:
  assumes "stocked n k" and "length ts = Suc (Suc i)" and "runq_wf k ts" and "set ts \<subseteq> blocks k"
    and "current_thread k = thread_main_inf k"
  shows "set_up (Suc i) n k"
  using assms by (auto simp: set_up_def)

lemma set_up_SucE:
  assumes "set_up (Suc i) n k"
  obtains ts where "stocked n k" and "length ts = Suc (Suc i)" and "runq_wf k ts" and "set ts \<subseteq> blocks k"
    and "current_thread k = thread_main_inf k"
  using assms by (auto simp: set_up_def)

lemma set_up_cong:
  assumes "set_up i n k" and "stocked n' k'" and "blocks k \<subseteq> blocks k'" and "thread_list k' = thread_list k"
    and "thread_main_inf k' = thread_main_inf k" and "current_thread k' = current_thread k"
    and "\<And>a. map_option runq_next (threads k' a) = map_option runq_next (threads k a)"
  shows "set_up i n' k'"
proof (cases "i = 0")
  case False
  with assms(1) obtain ts where ts: "length ts = Suc i" "runq_wf k ts" "set ts \<subseteq> blocks k"
    "current_thread k = thread_main_inf k" by (auto simp: set_up_def)
  have "runq_wf k' ts"
    by (rule runq_wf_cong [OF assms(4,5) _ assms(7) ts(2)]) (use assms(6) runq_wf_current [OF ts(2)] in simp)
  with ts assms(2,3,5,6) False show ?thesis by (auto simp: set_up_def)
qed (use assms in \<open>simp add: set_up_def\<close>)

lemma set_up_upd:
  assumes "set_up i n k" and "upd_thread th f k = Some k'" and "\<And>t. runq_next (f t) = runq_next t"
  shows "set_up i n k'"
proof -
  from assms(2) obtain t where "threads k th = Some t" and k': "k' = k\<lparr>threads := (threads k)(th \<mapsto> f t)\<rparr>"
    by (auto simp: upd_thread_Some_iff deref_Some_iff)
  moreover have "stocked n k" using assms(1) by (simp add: set_up_def)
  then have "stocked n k'" by (rule stocked_cong) (simp_all add: k')
  ultimately show ?thesis by (intro set_up_cong [OF assms(1)]) (simp_all add: assms(3))
qed

lemma set_up_store:
  assumes "set_up i n k" and "malloc k = (Some c, k1)" and "stocked n' k1" and "k' = k1\<lparr>sems := x, queues := y\<rparr>"
  shows "set_up i n' k'"
  by (rule set_up_cong [OF assms(1)])
    (use assms(2-4) malloc_keeps [OF assms(2)] in \<open>auto simp: stocked_def malloc_Some_iff\<close>)

section \<open>Creation\<close>

text \<open>What a thread needs of memory: its structure, its stack and, the first one, the main thread's structure.\<close>

definition blocks_needed :: "nat \<Rightarrow> nat" where
  "blocks_needed i = (if i = 0 then 3 else 2)"

lemma set_up_create:
  assumes "set_up i (blocks_needed i + n) k"
  shows "\<exists>th k' t. thread_create H img entry NULL z pri NULL k = Some (th, k') \<and> set_up (Suc i) n k'
    \<and> th \<noteq> NULL \<and> threads k' th = Some t"
proof -
  have "stocked (blocks_needed i + n) k" using assms by (simp add: set_up_def)
  then have "stocked (Suc (Suc (if i = 0 then Suc n else n))) k"
    by (simp add: blocks_needed_def eval_nat_numeral split: if_splits)
  then obtain c k1 where m1: "malloc k = (Some c, k1)" and s1: "stocked (Suc (if i = 0 then Suc n else n)) k1"
    and c: "ptr c \<noteq> NULL" and k1: "k1 = k\<lparr>answers := tl (answers k), blocks := insert (ptr c) (blocks k)\<rparr>"
    by (rule stocked_malloc)
  obtain x k2 where m2: "malloc k1 = (Some x, k2)" and s2: "stocked (if i = 0 then Suc n else n) k2"
    and k2: "k2 = k1\<lparr>answers := tl (answers k1), blocks := insert (ptr x) (blocks k1)\<rparr>"
    using stocked_malloc [OF s1] .
  have st: "stack_source NULL k1 (ptr x) k2" using m2 by (simp add: stack_source_def)
  show ?thesis
  proof (cases "i = 0")
    case True
    with s2 have "stocked (Suc n) k2" by simp
    then obtain m k3 where m3: "malloc k2 = (Some m, k3)" and s3: "stocked n k3"
      and k3: "k3 = k2\<lparr>answers := tl (answers k2), blocks := insert (ptr m) (blocks k2)\<rparr>"
      by (rule stocked_malloc)
    have l: "thread_list k = NULL" using assms True by (simp add: set_up_def)
    obtain k' where k': "thread_create H img entry NULL z pri NULL k = Some (ptr c, k')" "runq_wf k' [ptr c, ptr m]"
      "current_thread k' = ptr m" "blocks k' = blocks k3" "answers k' = answers k3" "threads k' (ptr c) \<noteq> None"
      using thread_create_first [OF m1 st l m3, of H img entry z pri NULL] by auto
    moreover have "stocked n k'" by (rule stocked_cong [OF s3]) (simp_all add: k'(4,5))
    moreover have "thread_main_inf k' = ptr m" using k'(2) by (simp add: runq_wf_def)
    moreover have "set [ptr c, ptr m] \<subseteq> blocks k'" unfolding k'(4) by (simp add: k1 k2 k3)
    ultimately have "set_up (Suc i) n k'" by (intro set_up_SucI [of n k' "[ptr c, ptr m]"]) (simp_all add: True)
    with k' c show ?thesis by blast
  next
    case False
    with assms obtain ts where ts: "length ts = Suc i" "runq_wf k ts" "set ts \<subseteq> blocks k"
      "current_thread k = thread_main_inf k" by (auto simp: set_up_def)
    note e = thread_create_exact [OF m1 st runq_wf_list_nonnull [OF ts(2)], of H img entry z pri NULL]
    then obtain k' where k': "thread_create H img entry NULL z pri NULL k = Some (ptr c, k')"
      "threads k' (ptr c) \<noteq> None" "blocks k' = blocks k2" "answers k' = answers k2"
      "current_thread k' = current_thread k2" "thread_main_inf k' = thread_main_inf k2" by simp
    have "runq_wf k' (ptr c # ts)" using thread_create_wf(1,3) [OF ts(2,3) m1 st k'(1)] by simp
    moreover from s2 False have "stocked n k2" by simp
    then have "stocked n k'" by (rule stocked_cong) (simp_all add: k')
    moreover have "set (ptr c # ts) \<subseteq> blocks k'" unfolding k'(3) using ts(3) by (auto simp: k1 k2)
    moreover have "current_thread k' = thread_main_inf k'" using ts(4) k'(5,6) by (simp add: k1 k2)
    ultimately have "set_up (Suc i) n k'" using ts(1) by (intro set_up_SucI [of n k' "ptr c # ts"]) simp_all
    with k' c show ?thesis by blast
  qed
qed

lemma set_up_periodic:
  assumes "set_up i (blocks_needed i + n) k"
  shows "\<exists>th k'. periodic_thread_create H img e params NULL z pri off per dl co h k = Some (th, k')
    \<and> set_up (Suc i) n k' \<and> th \<noteq> NULL \<and> threads k' th \<noteq> None"
proof -
  obtain th k1 t where c: "thread_create H img (periodic_pattern_at img) NULL z pri NULL k = Some (th, k1)"
    and s: "set_up (Suc i) n k1" and t: "th \<noteq> NULL" "threads k1 th = Some t"
    using set_up_create [OF assms, of H img "periodic_pattern_at img" z pri] by blast
  have "set_up (Suc i) n (k1\<lparr>threads := (threads k1)(th \<mapsto> periodic_of e params off per dl co h t)\<rparr>)"
    by (rule set_up_upd [OF s, of th "periodic_of e params off per dl co h"]) (simp_all add: upd_thread_def deref_def t)
  with periodic_created [OF c t] t show ?thesis by auto
qed

lemma set_up_sporadic:
  assumes "set_up i (blocks_needed i + n) k"
  shows "\<exists>th k'. sporadic_thread_create H img e params NULL z pri off mit dl co pol qmax h k = Some (th, k')
    \<and> set_up (Suc i) n k' \<and> th \<noteq> NULL \<and> threads k' th \<noteq> None"
proof -
  obtain th k1 t where c: "periodic_thread_create H img e params NULL z pri off mit dl co h k = Some (th, k1)"
    and s: "set_up (Suc i) n k1" and t: "th \<noteq> NULL" "threads k1 th = Some t"
    using set_up_periodic [OF assms, of H img e params z pri off mit dl co h] by blast
  let ?f = "\<lambda>t. t\<lparr>block_pattern := 0x01, mit_policy := pol, queue_length_max := qmax, queue_pending := 0,
    queue_last_input := 0\<rparr>"
  let ?k = "k1\<lparr>threads := (threads k1)(th \<mapsto> ?f t)\<rparr>"
  have u: "upd_thread th ?f k1 = Some ?k" by (simp add: upd_thread_def deref_def t)
  have "set_up (Suc i) n ?k" by (rule set_up_upd [OF s u]) simp
  moreover have "sporadic_thread_create H img e params NULL z pri off mit dl co pol qmax h k = Some (th, ?k)"
    by (simp add: sporadic_thread_create_def c t u)
  ultimately show ?thesis using t(1) by (intro exI [of _ th] exI [of _ ?k]) simp
qed

lemma set_up_aperiodic:
  assumes "set_up i (blocks_needed i + n) k"
  shows "\<exists>th k'. aperiodic_thread_create H img e params NULL z pri off dl co pol qmax h k = Some (th, k')
    \<and> set_up (Suc i) n k'"
proof -
  obtain th k1 t where c: "sporadic_thread_create H img e params NULL z pri off 0 dl co pol qmax h k = Some (th, k1)"
    and s: "set_up (Suc i) n k1" and t: "th \<noteq> NULL" "threads k1 th = Some t"
    using set_up_sporadic [OF assms, of H img e params z pri off 0 dl co pol qmax h] by blast
  let ?f = "\<lambda>t. t\<lparr>block_pattern := 0x02\<rparr>"
  let ?k = "k1\<lparr>threads := (threads k1)(th \<mapsto> ?f t)\<rparr>"
  have u: "upd_thread th ?f k1 = Some ?k" by (simp add: upd_thread_def deref_def t)
  have "set_up (Suc i) n ?k" by (rule set_up_upd [OF s u]) simp
  then show ?thesis by (intro exI [of _ th] exI [of _ ?k]) (simp add: aperiodic_thread_create_def c u)
qed

lemma set_up_semaphore:
  assumes "set_up i (Suc n) k"
  shows "\<exists>p k'. thread_semaphore_create v k = Some (p, k') \<and> set_up i n k'"
proof -
  from assms have "stocked (Suc n) k" by (simp add: set_up_def)
  then obtain c k1 where m: "malloc k = (Some c, k1)" "stocked n k1" by (rule stocked_malloc)
  have "set_up i n (k1\<lparr>sems := (sems k1)(ptr c \<mapsto> v), queues := queues k1\<rparr>)"
    by (rule set_up_store [OF assms m refl])
  then show ?thesis by (simp add: thread_semaphore_create_def thread_malloc_def m(1))
qed

lemma set_up_queue:
  assumes "set_up i (Suc n) k" and "unat m < 32760"
  shows "\<exists>p k'. thread_queue_create m k = Some (p, k') \<and> set_up i n k'"
proof -
  from assms have "stocked (Suc n) k" by (simp add: set_up_def)
  then obtain c k1 where c: "malloc k = (Some c, k1)" "stocked n k1" by (rule stocked_malloc)
  have "unat (2 * m + queue_header) = 2 * unat m + 16"
    using assms(2) by (simp add: queue_header_def unat_word_ariths)
  then have "\<not> 2 * m + queue_header < queue_header" by (simp add: word_less_nat_alt queue_header_def)
  then obtain q where q: "thread_queue_create m k = Some (ptr c, k1\<lparr>queues := (queues k1)(ptr c \<mapsto> q)\<rparr>)"
    by (simp add: thread_queue_create_def thread_malloc_def c(1) Let_def)
  have "set_up i n (k1\<lparr>sems := sems k1, queues := (queues k1)(ptr c \<mapsto> q)\<rparr>)"
    by (rule set_up_store [OF assms(1) c refl])
  with q show ?thesis by simp
qed

section \<open>The statements of a start\<close>

text \<open>From any state whose kernel satisfies \<open>P\<close>, \<open>p\<close> returns with \<open>Q\<close> and has not touched the timer.\<close>

definition prepares :: "(kernel \<Rightarrow> bool) \<Rightarrow> (kernel, 'v) app prog \<Rightarrow> (kernel \<Rightarrow> bool) \<Rightarrow> bool" where
  "prepares P p Q \<longleftrightarrow> (\<forall>a. P (kern a) \<longrightarrow> (\<exists>b. returns p a b \<and> Q (kern b) \<and> timer b = timer a))"

text \<open>\<open>p\<close> comes to the endless loop of yields with the timer running and \<open>i\<close> threads and the main thread in
  the run queue, and never returns.\<close>

definition comes_up :: "(kernel \<Rightarrow> bool) \<Rightarrow> target \<Rightarrow> nat \<Rightarrow> (kernel, 'v) app prog \<Rightarrow> bool" where
  "comes_up P T i p \<longleftrightarrow> (\<forall>a. P (kern a) \<longrightarrow> (\<exists>b ts. reaches p a b (idle T)
     \<and> timer b = enable_timer2 (board_of T) (timer a) \<and> runq_wf (kern b) ts \<and> length ts = Suc i
     \<and> current_thread (kern b) = thread_main_inf (kern b)) \<and> (\<nexists>b. returns p a b))"

named_theorems starting \<open>statements of a sketch's loop\<close>

lemma prepares_emits [starting]:
  "prepares P Done P" "prepares P (emit e) P" "prepares P (assign f) P" "prepares P (print_str x) P"
  "prepares P (delay n) P"
  by (auto simp: prepares_def print_str_def delay_def intro: returns_emit returns_assign exI)

lemma prepares_kcall_then:
  fixes g :: "'a \<Rightarrow> (kernel, 'v) app prog"
  assumes "\<And>k. P k \<Longrightarrow> \<exists>r k'. f k = Some (r, k') \<and> Q k'" and "\<And>r. prepares Q (g r) Q"
  shows "prepares P (kcall_then f g) Q"
  unfolding prepares_def
proof (intro allI impI)
  fix a :: "(kernel, 'v) app"
  assume "P (kern a)"
  then obtain r k where f: "f (kern a) = Some (r, k)" and "Q k" using assms(1) by blast
  then obtain b where "returns (g r) (a\<lparr>kern := k\<rparr>) b" "Q (kern b)" "timer b = timer a"
    using assms(2) [of r] unfolding prepares_def by (metis app.simps(1,3) app.surjective app.update_convs(1))
  with returns_kcall_then [of f a r k g, OF f] show "\<exists>b. returns (kcall_then f g) a b \<and> Q (kern b) \<and> timer b = timer a" by blast
qed

lemma prepares_create:
  assumes "blocks_needed i \<le> n" and "\<And>r. prepares (set_up (Suc i) (n - blocks_needed i)) (g r) (set_up (Suc i) (n - blocks_needed i))"
    and "\<And>m k. set_up i (blocks_needed i + m) k \<Longrightarrow> \<exists>th k'. f k = Some (th, k') \<and> set_up (Suc i) m k'"
  shows "prepares (set_up i n) (kcall_then f g) (set_up (Suc i) (n - blocks_needed i))"
  by (rule prepares_kcall_then [OF assms(3) assms(2)]) (use assms(1) in simp)

lemma prepares_periodic [starting]:
  "blocks_needed i \<le> n \<Longrightarrow> (\<And>r. prepares (set_up (Suc i) (n - blocks_needed i)) (f r) (set_up (Suc i) (n - blocks_needed i)))
     \<Longrightarrow> prepares (set_up i n) (new_periodic T e p NULL z pri off per dl co h f) (set_up (Suc i) (n - blocks_needed i))"
  unfolding new_periodic_def
  by (rule prepares_create) (auto dest!: set_up_periodic [of _ _ _ "handlers T" "image_of T" e p z pri off per dl co h])

lemma prepares_sporadic [starting]:
  "blocks_needed i \<le> n \<Longrightarrow> (\<And>r. prepares (set_up (Suc i) (n - blocks_needed i)) (f r) (set_up (Suc i) (n - blocks_needed i)))
     \<Longrightarrow> prepares (set_up i n) (new_sporadic T e p NULL z pri off mit dl co pol qmax h f) (set_up (Suc i) (n - blocks_needed i))"
  unfolding new_sporadic_def
  by (rule prepares_create) (auto dest!: set_up_sporadic [of _ _ _ "handlers T" "image_of T" e p z pri off mit dl co pol qmax h])

lemma prepares_aperiodic [starting]:
  "blocks_needed i \<le> n \<Longrightarrow> (\<And>r. prepares (set_up (Suc i) (n - blocks_needed i)) (f r) (set_up (Suc i) (n - blocks_needed i)))
     \<Longrightarrow> prepares (set_up i n) (new_aperiodic T e p NULL z pri off dl co pol qmax h f) (set_up (Suc i) (n - blocks_needed i))"
  unfolding new_aperiodic_def
  by (rule prepares_create) (auto dest!: set_up_aperiodic [of _ _ _ "handlers T" "image_of T" e p z pri off dl co pol qmax h])

lemma prepares_semaphore [starting]:
  "0 < n \<Longrightarrow> (\<And>r. prepares (set_up i (n - 1)) (f r) (set_up i (n - 1)))
     \<Longrightarrow> prepares (set_up i n) (kcall_then (thread_semaphore_create v) f) (set_up i (n - 1))"
  by (rule prepares_kcall_then) (use set_up_semaphore [of i "n - 1"] in simp_all)

lemma prepares_queue [starting]:
  "0 < n \<Longrightarrow> unat m < 32760 \<Longrightarrow> (\<And>r. prepares (set_up i (n - 1)) (f r) (set_up i (n - 1)))
     \<Longrightarrow> prepares (set_up i n) (kcall_then (thread_queue_create m) f) (set_up i (n - 1))"
  by (rule prepares_kcall_then) (use set_up_queue [of i "n - 1"] in simp_all)

lemma prepares_int_at [starting]:
  assumes "p \<noteq> NULL"
  shows "prepares (set_up i n) (kcall (set_int_at p x)) (set_up i n)"
  unfolding prepares_def
proof (intro allI impI)
  fix a :: "(kernel, 'v) app"
  let ?k = "(kern a)\<lparr>mem := store16 p x (mem (kern a))\<rparr>"
  assume s: "set_up i n (kern a)"
  then have "stocked n (kern a)" by (simp add: set_up_def)
  then have "stocked n ?k" by (rule stocked_cong) simp_all
  then have "set_up i n ?k" by (rule set_up_cong [OF s]) simp_all
  moreover have "returns (kcall (set_int_at p x)) a (a\<lparr>kern := ?k\<rparr>)"
    by (rule returns_kcall) (simp add: set_int_at_def assms)
  ultimately show "\<exists>b. returns (kcall (set_int_at p x)) a b \<and> set_up i n (kern b) \<and> timer b = timer a" by fastforce
qed

lemma comes_up_Cons:
  fixes p :: "(kernel, 'v) app prog"
  assumes "prepares P p Q" and "comes_up Q T i (block ps)"
  shows "comes_up P T i (block (p # ps))"
  unfolding comes_up_def
proof (intro allI impI conjI)
  fix a :: "(kernel, 'v) app"
  assume "P (kern a)"
  then obtain c where c: "returns p a c" "Q (kern c)" "timer c = timer a" using assms(1) by (auto simp: prepares_def)
  note up = assms(2) [unfolded comes_up_def, rule_format, OF c(2)]
  from up c reaches_block_Cons [OF c(1)]
  show "\<exists>b ts. reaches (block (p # ps)) a b (idle T) \<and> timer b = enable_timer2 (board_of T) (timer a)
     \<and> runq_wf (kern b) ts \<and> length ts = Suc i \<and> current_thread (kern b) = thread_main_inf (kern b)" by metis
  show "\<nexists>b. returns (block (p # ps)) a b"
    using up returns_block_ConsD returns_unique [OF c(1)] by metis
qed

lemma comes_up_start: "comes_up (set_up (Suc i) n) T (Suc i) (block [threads_subsystem_start T])"
  unfolding comes_up_def
proof (intro allI impI)
  fix a :: "(kernel, 'v) app"
  assume "set_up (Suc i) n (kern a)"
  then obtain ts where ts: "length ts = Suc (Suc i)" "runq_wf (kern a) ts"
    "current_thread (kern a) = thread_main_inf (kern a)" by (rule set_up_SucE)
  have "deref (current_thread (kern a)) (kern a) \<noteq> None" using runq_wf_deref [OF ts(2) runq_wf_current [OF ts(2)]] by auto
  then have "current_thread (kern a) \<noteq> NULL" by (auto simp: deref_def)
  note r = start_reaches_idle [OF this, of T]
  with ts reaches_forever_never_returns [OF r [unfolded idle_def]]
  show "(\<exists>b ts. reaches (block [threads_subsystem_start T]) a b (idle T)
      \<and> timer b = enable_timer2 (board_of T) (timer a) \<and> runq_wf (kern b) ts \<and> length ts = Suc (Suc i)
      \<and> current_thread (kern b) = thread_main_inf (kern b)) \<and> (\<nexists>b. returns (block [threads_subsystem_start T]) a b)"
    by (intro conjI exI [of _ "a\<lparr>timer := enable_timer2 (board_of T) (timer a)\<rparr>"] exI [of _ ts]) auto
qed

section \<open>Every sketch starts\<close>

definition boots :: "nat \<Rightarrow> nat \<Rightarrow> (target \<Rightarrow> (kernel, 'v) app prog) \<Rightarrow> target \<Rightarrow> bool" where
  "boots i n L T \<longleftrightarrow> comes_up (set_up 0 n) T i (L T)"

text \<open>The loops of the sketches with periodic tasks, with sporadic and aperiodic ones, with a queue or a
  semaphore, with asynchronous signals, and of those that dump all information.\<close>

lemma basic_boots:
  "boots 1 3 task_loop T" "boots 1 3 overun_loop T" "boots 1 3 time_loop T" "boots 1 3 led_loop T" "boots 1 3 cells_loop T"
  "boots 2 5 rw_loop T" "at T ''counter'' \<noteq> NULL \<Longrightarrow> boots 1 3 params_loop T"
  unfolding boots_def task_loop_def overun_loop_def time_loop_def led_loop_def cells_loop_def rw_loop_def params_loop_def
    numeral_2_eq_2 One_nat_def
  by ((rule comes_up_start | rule comes_up_Cons | rule starting | simp add: blocks_needed_def; fail)+)[7]

lemma signal_boots:
  "boots 2 5 sw_loop T" "boots 2 5 save_loop T" "boots 2 5 except_save_loop T" "boots 2 5 ignore_save_loop T"
  "boots 2 5 replace_save_loop T" "boots 2 5 save_except_loop T" "boots 2 5 save_ignore_loop T"
  "boots 2 5 save_replace_loop T" "boots 2 5 ap_loop T" "boots 2 5 ap_ignore_loop T" "boots 3 7 three_loop T"
  unfolding boots_def sw_loop_def save_loop_def except_save_loop_def ignore_save_loop_def replace_save_loop_def
    save_except_loop_def save_ignore_loop_def save_replace_loop_def ap_loop_def ap_ignore_loop_def three_loop_def
    numeral_2_eq_2 numeral_3_eq_3
  by ((rule comes_up_start | rule comes_up_Cons | rule starting | simp add: blocks_needed_def; fail)+)[11]

lemma store_boots:
  "boots 2 6 q_loop T" "boots 2 6 dw_loop T" "boots 2 6 dr_loop T" "boots 2 6 one_loop T" "boots 2 6 twice_loop T"
  "boots 2 6 rate_loop T" "boots 2 6 bad_loop T" "boots 2 6 bar_loop T"
  unfolding boots_def q_loop_def dw_loop_def dr_loop_def one_loop_def twice_loop_def rate_loop_def bad_loop_def bar_loop_def
    numeral_2_eq_2
  by ((rule comes_up_start | rule comes_up_Cons | rule starting | simp add: blocks_needed_def; fail)+)[8]

lemma other_boots:
  "boots 1 3 auto_loop T" "boots 2 5 two_ats_loop T" "boots 2 5 abad_loop T" "boots 2 5 dump_loop T"
  "boots 2 5 remover_loop T" "boots 2 5 debug_loop T"
  unfolding boots_def auto_loop_def two_ats_loop_def abad_loop_def dump_loop_def remover_loop_def debug_loop_def
    numeral_2_eq_2 One_nat_def
  by ((rule comes_up_start | rule comes_up_Cons | rule starting | simp add: blocks_needed_def; fail)+)[6]

text \<open>C20: every sketch starts: with memory for its threads (structure and stack each, and the main thread's
  structure), its queue or its semaphore, the \<open>loop\<close> of each of 32 sketches comes, without undefined behaviour,
  to the main program's endless loop of yields, with the timer started and with exactly its threads and the
  main thread in a well-formed run queue, the main program running; it never returns.\<close>

theorem sketches_start:
  assumes "at T ''counter'' \<noteq> NULL"
  shows "boots 1 3 task_loop T \<and> boots 1 3 overun_loop T \<and> boots 1 3 time_loop T \<and> boots 1 3 led_loop T
    \<and> boots 1 3 params_loop T \<and> boots 1 3 cells_loop T \<and> boots 2 5 rw_loop T
    \<and> boots 2 5 sw_loop T \<and> boots 2 5 save_loop T \<and> boots 2 5 except_save_loop T \<and> boots 2 5 ignore_save_loop T
    \<and> boots 2 5 replace_save_loop T \<and> boots 2 5 save_except_loop T \<and> boots 2 5 save_ignore_loop T
    \<and> boots 2 5 save_replace_loop T \<and> boots 2 5 ap_loop T \<and> boots 2 5 ap_ignore_loop T \<and> boots 3 7 three_loop T
    \<and> boots 2 6 q_loop T \<and> boots 2 6 dw_loop T \<and> boots 2 6 dr_loop T
    \<and> boots 2 6 one_loop T \<and> boots 2 6 twice_loop T \<and> boots 2 6 rate_loop T \<and> boots 2 6 bad_loop T \<and> boots 2 6 bar_loop T
    \<and> boots 1 3 auto_loop T \<and> boots 2 5 two_ats_loop T \<and> boots 2 5 abad_loop T
    \<and> boots 2 5 dump_loop T \<and> boots 2 5 remover_loop T \<and> boots 2 5 debug_loop T"
  using basic_boots signal_boots store_boots other_boots assms by metis

definition boot_five :: "(kernel, basic_vars) app" where
  "boot_five = boot\<lparr>kern := demo_reset\<lparr>answers := map demo_chunk [0x500, 0x600, 0x700, 0x800, 0x900]\<rparr>\<rparr>"

theorem sketches_start_witness:
  "\<exists>b ts. reaches (rw_loop demo_target) boot_five b (idle demo_target) \<and> runq_wf (kern b) ts \<and> length ts = 3"
proof -
  have "at demo_target ''counter'' \<noteq> NULL" by (simp add: demo_target_def)
  from sketches_start [OF this] have "boots 2 5 rw_loop demo_target" by blast
  moreover have "set_up 0 5 (kern boot_five)"
    by (simp add: set_up_def stocked_def boot_five_def demo_reset_def demo_chunk_def)
  ultimately show ?thesis unfolding boots_def comes_up_def by fastforce
qed

end
