(* ===== verification/Spec2Isabelle.thy ===== *)
theory Spec2Isabelle
  imports RT_Queue RT_Typing RT_Switch RT_Memory RT_Activation RT_Board RT_Rate RT_Body RT_Sporadic RT_Library
    V1_Sketch V2_Sketch Ex_Basic Ex_Signal Ex_Queue Ex_Semaphore Ex_ATS Ex_Perf Ex_Sound Ex_Bus Ex_Chibi Ex_Dump Ex_Start
begin

text \<open>
  A verification development for rtthreads, a library of real-time threads for 8-bit AVR boards
  (src/arduino/libraries/rtthreads: rtthreads.cpp, rtthreads.h, rtthreads_internals.h), its example
  sketches (src/arduino/examples/rtthreads and beside it) and the two stages of the kernel that came
  before it (src/arduino/context_switch and context_switch_2_0).

  The program. The library keeps THREAD structures in a singly linked run queue that ends with the
  structure of the main program (\<open>thread_main_inf\<close>). A timer interrupt counts ticks of 128
  microseconds and yields; a yield walks once around the run queue, wakes the threads whose sleep is
  over, picks the ready thread of the highest priority other than the caller, charges the ticks that
  passed to the caller and switches stacks. Everything else is built on this: sleeping and blocking
  mark the caller and yield, signals count activations and wake a blocked thread, semaphores mark
  waiting threads, and \<open>periodic_pattern\<close> is the endless loop every periodic, sporadic and aperiodic
  thread runs around the application's job.

  The theories, in the order they build on each other.
  RT_Prelude: machine types, the option monad (None is undefined behaviour or a loop that never ends),
  lists seen as rings. RT_Types: constants, structures, the record \<open>kernel\<close> of all file-level
  variables with the C heap (split by type), \<open>malloc\<close> and \<open>free\<close>. RT_Runq: the linked run queue and
  the invariant \<open>kernel_wf\<close>. RT_Example: a concrete kernel for the witnesses. RT_Clock: time and cost
  accounts. RT_Sched: \<open>change_high\<close>, \<open>do_switch\<close>, \<open>thread_start\<close>, \<open>thread_yield\<close>,
  \<open>thread_block\<close>, \<open>thread_unblock\<close>, \<open>tick_sleep\<close>, \<open>thread_usleep\<close>. RT_Timer: the interrupt and the
  length of sleeps. RT_Signal: \<open>thread_signal\<close> and asynchronous signals. RT_Semaphore, RT_Queue,
  RT_Create, RT_Memory: the operations of those names. RT_Alone: all of them called by a main program
  whose threads have lower priorities. RT_Switch: the instructions of \<open>do_switch\<close> on a
  model of the processor. RT_Periodic: \<open>periodic_pattern\<close> as a state machine. RT_Board:
  \<open>enable_timer2\<close>. RT_Requests: the requests threads make of the kernel and the states they reach;
  RT_Typing and RT_Activation: what every reachable state keeps of the fields of threads and of pending
  activations. RT_Rate: the thread of the highest priority against all requests of the others.
  RT_Body: what the steps of \<open>periodic_pattern\<close> leave of a property of threads, and budgets; RT_Sporadic: the
  load of a sporadic thread, whoever signals it.
  RT_Frame: what requests leave of the links, the blocks and the queues; RT_Library: the whole interface
  with a ledger of what a client holds. RT_Prog: programs over the library (assignments, calls, output,
  endless loops), a monoid under sequencing, with a trace of what they show, and rules that run them; RT_Sketch: \<open>threads_subsystem_start\<close>, the use case of
  rtthreads.cpp and the calls sketches make. Ex_Basic, Ex_Signal, Ex_Queue, Ex_Semaphore, Ex_ATS: the
  example sketches, each function \<open>f\<close> of a sketch as \<open><prefix>_f\<close>; Ex_Perf: the performance tests, with a
  small logic (\<open>does\<close>) of what each measured call does to the kernel. Ex_Sound, Ex_Bus, Ex_Chibi: the
  sketches beside the library, which make sound, move bytes and measure other systems. Ex_Dump: the sketches
  that print all the kernel knows of its threads. Ex_Start: how all sketches over the library start, with a
  small logic (\<open>prepares\<close>, \<open>comes_up\<close>) of what their statements need of memory. V2_Kernel, V2_Create, V2_Switch,
  V2_Periodic, V2_Sketch: version 2.0 of the kernel in the same order, its names with a 2; V2_Refines:
  its relation to the library. V1_Kernel, V1_Sketch: the first version, its names with a 1. This
  theory: the properties of the whole kernel and those that span components.

  How the model reads the code. A THREAD pointer is an address into \<open>threads\<close>; an access through NULL
  or a dead pointer is None. A loop over the run queue is a \<open>partial_function (option)\<close>, so that a walk
  that does not end is None as well; that walks end is proved, from the shape of the queue
  (\<open>yield_loop_refines\<close>, \<open>sem_scan_refines\<close>, \<open>sem_release_refines\<close>, \<open>remove_find_run\<close>) or, for
  pending signals, from their number (\<open>ats_loop_ok\<close>); no fuel is used. An operation that yields returns
  the state in which the thread switched to goes on. Operations are atomic, as their ATOMIC_BLOCKs make
  them; preemption is the timer interrupt between two operations. Error handlers and jobs are
  parameters (\<open>upcall\<close>, \<open>job\<close>); the hypotheses about them (\<open>handler_ok\<close>, \<open>handler_sem_quiet\<close>,
  \<open>handler_quiet\<close>) say that they return to their thread and leave the kernel in order. The answers
  of \<open>malloc\<close>, RAMEND, the address of \<open>periodic_pattern\<close>, the places of the timer's register bits and the
  clock rate are parameters too.

  Interfaces. \<open>kernel_op\<close> (RT_Sched) is the contract of an operation on a well-formed kernel, interpreted
  for yields, ticks, sleeps, blocking and asynchronous signals; \<open>sem_neutral\<close> (RT_Semaphore) extends it
  by what an operation leaves of semaphores; \<open>bounded_fifo\<close> (RT_Queue) is the contract of a queue that
  can be read a bounded number of times; \<open>cells\<close> (RT_Memory) that of memory cells; \<open>simulation\<close>
  (RT_Prelude) and \<open>simulated\<close> (V2_Refines) say that an operation of version 2.0 does what one of the
  library does; \<open>no_activation\<close> (RT_Activation) that an operation leaves pending activations alone;
  \<open>timed_property\<close> (RT_Typing) is a property of single threads that may depend on the time and that no
  assignment of the kernel breaks, \<open>thread_property\<close> extends it to signals and ticks, so that no reachable
  state breaks it; \<open>static_var\<close> (RT_Prog) a variable that a job toggles;
  \<open>returning_op\<close> (RT_Alone) an operation a main program without rivals comes back from; \<open>echo\<close> (Ex_Bus)
  a program that sends back the byte it reads; \<open>listing_body\<close> (Ex_Dump) a program that prints the thread a
  walk over the run queue has come to and goes on to the next. Each is
  interpreted on the model's operations where they are defined.

  What is shown. The walk over the links refines a function on the list of the queue, the choice of a
  thread is the one of the highest priority, and every operation keeps the invariant, so that the kernel
  never fails (RT_Sched, RT_Timer, here). A sleep has its exact length, over the overflow of the counter
  too; ticks are charged once. Semaphores refine a counting semaphore and conserve their tokens. Queues
  refine a bounded FIFO. The context switch restores what it saved. Creation and removal keep the queue
  and undo each other. Pending activations are bounded, sporadic ones separated. Where the code does not
  do what it seems to mean, the theorem states what it does: queues wear out, a sleep to the last counter
  value does not end, an overrun of the period stops a thread for days, the caller of a yield is never
  chosen, low priorities starve, the main thread passes semaphores, a new stack does not start the entry
  point, a thread that removes itself leaves a dangling pointer.

  The whole interface: a client that keeps to its ledger (names it was given and has not given back, memory
  where the code does not check for it, at most \<open>n\<close> reads from a queue of \<open>n\<close>) never meets undefined
  behaviour and loses no memory, whatever it creates, uses and removes in whatever order (RT_Library).

  Over whole runs: a thread of the highest priority gets the processor back exactly one tick after the
  sleep it asked for, and its jobs are released at a fixed rate, whatever the other threads do (RT_Rate).
  A sporadic thread runs one job per accepted activation, and there is at most one of them per minimum
  interarrival time, until shortly before the overflow of the tick counter, where early signals are let in
  (RT_Sporadic). A thread that overruns its budget loses its priority for good (RT_Body).

  Around the kernel: the fields of threads keep their types and parameters (RT_Typing); waking a sporadic
  thread with \<open>thread_unblock\<close> does not run its job (RT_Activation); every sketch, given the memory it asks for, gets
  its threads going and never returns (Ex_Start), and the sketches on overruns, policies, barriers and queues do what the theorems of
  the Ex theories say. The performance tests go through all
  operations without undefined behaviour and end in their endless loop before they start the timer
  (Ex_Perf). A job that dumps all information lists the threads of the run queue, once and in order, and ends
  unless a stack is too long for its counter; one that also removes a thread removes it once (Ex_Dump).
  Version 2.0 schedules like the library and is as safe, starts new threads at their
  entry point and does not let releases drift, both of which the library lost; the first version charges
  ticks more than once and does not check for memory (V2_ and V1_ theories).

  Beside the library: the march is played to its end, the tunes of sketch_mar28b stop in a division by
  zero at their first note, the echoes send back what they read; the account that a ChibiOS sketch keeps is
  reset at every switch and its set-up writes through a NULL pointer (Ex_Sound, Ex_Bus, Ex_Chibi). Wire,
  SerialPort, ChibiOS, FreeRTOS, pitches.h and what \<open>micros()\<close> answers are parameters there.

  Two parts are modelled although they do not compile with this version of the library, with what they
  miss as a parameter: the loop of the use case in rtthreads.cpp (creation functions of an older interface)
  and the sketches that dump all information (a member \<open>ats_max_pending\<close> of the structure).

  Not modelled: sketch_mar28a, a fragment of sketch_mar28b without its declarations, and BufferedTest, whose
  \<open>while\<close> has no condition; sketch_jan17a and sketch_mar26a, which are empty;
  the Java clients. context_switch_1_0.ino is the text of context_switch_2_0.ino and not modelled again, nor
  are the other sketches that repeat one (beep2_ino, periodic_2_1SEMAPHORE_2P and _2V). Delays, pins, the
  serial line and the attachment of interrupts are events of a trace; preemption of a sketch is by the calls
  it makes, not between them. Structures of the kernel cannot be reached through the raw memory operations
  here, and a program counter of 22 bits (ATmega2560) would add a byte to every return address.
\<close>

section \<open>The whole kernel\<close>



section \<open>The clock and the scheduler\<close>

lemma yield_result_cost:
  assumes "runq_wf s ts"
  shows "accounted (yield_result s ts) ts = accounted s ts"
proof -
  let ?c = "current_thread s" and ?h = "yield_heap s ts"
  let ?d = "global_thread_tick_counter s - tick_counter_last_cost s"
  obtain t where t: "?h ?c = Some t" using yield_heap_live [OF assms runq_wf_current [OF assms]] by blast
  let ?t = "(account ?d t)\<lparr>sp := hw_sp s - switch_frame\<rparr>"
  have h: "threads (yield_result s ts) = ?h(?c \<mapsto> ?t)"
    using t by (simp add: yield_result_def switched_def Let_def del: fun_upd_apply)
  have "sum_list (map (cost_of (?h(?c \<mapsto> ?t))) ts) = sum_list (map (cost_of ?h) ts) + ?d"
    using assms by (intro cost_sum_upd [where h = ?h and t = t, OF _ runq_wf_current [OF assms] t])
      (simp_all add: runq_wf_def)
  moreover have "sum_list (map (cost_of ?h) ts) = sum_list (map (cost_of (threads s)) ts)"
  proof (rule cost_sum_cong)
    show "map_option current_cost_ticks (?h a) = map_option current_cost_ticks (threads s a)" for a
      by (cases "threads s a") (simp_all add: yield_heap_def refresh_on_def)
  qed
  ultimately show ?thesis by (simp add: accounted_def h del: fun_upd_apply)
qed

text \<open>C19: every tick is charged exactly once: a timer interrupt raises the sum of all threads' accounts
  and of the ticks not yet charged by one, and reading the cost changes the sum by nothing, so the
  accounts of all threads add up to the ticks that passed (modulo \<open>2 ^ 32\<close>).\<close>

theorem ticks_charged_once:
  assumes "runq_wf s ts" and "yield_count s = 0"
  shows "(\<exists>s1. timer_isr H s = ats_deliver H s1 \<and> runq_wf s1 ts \<and> accounted s1 ts = accounted s ts + 1)
    \<and> (\<exists>c s2. get_current_cost_ticks s = Some (c, s2) \<and> accounted s2 ts = accounted s ts)"
proof
  let ?i = "isr_state s"
  have wf: "runq_wf ?i ts" by (rule isr_state_wf [OF assms(1)])
  have "accounted (yield_result ?i ts) ts = accounted ?i ts" by (rule yield_result_cost [OF wf])
  also have "\<dots> = accounted s ts + 1" by (simp add: accounted_def isr_state_def Let_def)
  finally show "\<exists>s1. timer_isr H s = ats_deliver H s1 \<and> runq_wf s1 ts \<and> accounted s1 ts = accounted s ts + 1"
    using assms(2) yield_result_wf [OF wf] timer_isr_eq [of H s] thread_yield_exact [OF wf, of H] by auto
  obtain c s2 where g: "get_current_cost_ticks s = Some (c, s2)" using charge_safe [OF kernel_wfI [OF assms(1)]] by blast
  then have "charge_current s = Some s2"
    unfolding get_current_cost_ticks_def bind_eq_Some_conv by auto
  from charge_current_accounted [OF assms(1) this] g
  show "\<exists>c s2. get_current_cost_ticks s = Some (c, s2) \<and> accounted s2 ts = accounted s ts" by blast
qed

theorem ticks_charged_once_witness:
  "\<exists>s1. timer_isr no_handler demo = ats_deliver no_handler s1 \<and> accounted s1 demo_list = 4"
proof -
  have "yield_count demo = 0" by (simp add: demo_def)
  from ticks_charged_once [OF demo_runq_wf this, of no_handler] show ?thesis
    by (auto simp: accounted_def cost_of_def demo_defs)
qed

text \<open>A thread whose priority is below that of the main thread never runs: whoever gets the processor
  at a yield has at least the main thread's priority, although the main thread is not more than a loop
  of yields and the lowest priority is 0, not \<open>NORM_PRIO\<close>.\<close>

theorem low_priority_starves:
  assumes "runq_wf s ts" and "handler_ok H" and "prio (threads s) th < prio (threads s) (thread_main_inf s)"
  shows "\<exists>s'. thread_yield H s = Some s' \<and> current_thread s' \<noteq> th"
proof -
  have "kernel_wf (yield_result s ts)" by (rule kernel_wfI) (rule yield_result_wf [OF assms(1)])
  from ats_deliver_ok [OF assms(2) this]
  obtain s' where s': "thread_yield H s = Some s'" and c: "current_thread s' = yield_pick s ts"
    unfolding thread_yield_exact [OF assms(1)] by auto
  have p: "prio (yield_heap s ts) = prio (threads s)" by (simp add: yield_heap_def)
  have "prio (yield_heap s ts) (thread_main_inf s) \<le> prio (yield_heap s ts) (yield_pick s ts)"
    unfolding yield_pick_def by (rule pick_prio_ge)
  then have "\<not> prio (threads s) (current_thread s') < prio (threads s) (thread_main_inf s)"
    unfolding p c by (simp only: not_less)
  with assms(3) have "current_thread s' \<noteq> th" by blast
  with s' show ?thesis by blast
qed

definition demo_low :: kernel where
  "demo_low = demo\<lparr>threads := demo_threads(0x200 \<mapsto> blank_thread\<lparr>runq_next := 0x100, priority := 1\<rparr>,
     0x300 \<mapsto> blank_thread\<lparr>runq_next := 0x200, priority := 0\<rparr>)\<rparr>"

theorem low_priority_starves_witness:
  "\<exists>s'. thread_yield no_handler demo_low = Some s' \<and> current_thread s' \<noteq> 0x200"
proof -
  have "runq_wf demo_low demo_list" by (simp add: runq_wf_def demo_low_def demo_defs)
  moreover have "prio (threads demo_low) 0x200 < prio (threads demo_low) (thread_main_inf demo_low)"
    by (simp add: prio_def demo_low_def demo_defs)
  ultimately show ?thesis by (rule low_priority_starves [OF _ no_handler_ok])
qed

text \<open>The clock is right for the first \<open>2 ^ 25\<close> ticks, a little over 71 minutes: up to then
  \<open>thread_get_time\<close> is 128 microseconds times the number of timer interrupts, and never more than one
  \<open>thread_get_error_in_time\<close> behind the true time.\<close>

theorem clock_exact:
  assumes "unat (global_thread_tick_counter s) < 2 ^ 25"
    and "unat (global_thread_tick_counter s) * 128 \<le> true_us"
    and "true_us < (unat (global_thread_tick_counter s) + 1) * 128"
  shows "unat (thread_get_time s) = unat (global_thread_tick_counter s) * 128
    \<and> unat (thread_get_time s) \<le> true_us
    \<and> true_us < unat (thread_get_time s) + unat thread_get_error_in_time"
proof -
  have "unat (thread_get_time s) = unat (global_thread_tick_counter s) * 128"
    using assms(1) by (simp add: thread_get_time_unat)
  with assms(2,3) show ?thesis by (simp add: thread_get_error_in_time_def us_per_tick_def)
qed

theorem clock_exact_witness:
  "unat (thread_get_time demo) = 896"
  using clock_exact [of demo 900] by (simp add: demo_def)

end
